(* ===== verification/Nexus_Prelude.thy ===== *)
theory Nexus_Prelude
  imports Main "HOL-Library.AList" "HOL-Library.Code_Target_Numeral"
begin

text \<open>
  Shared vocabulary of the development: what the TypeScript sources use of JavaScript (strings,
  \<open>Map\<close>, array searches, truthiness), the \<^theory_text>\<open>named_theorems\<close> collections the component
  proofs carry, and the two generic interfaces every stateful component is proved against
  (a step function with an invariant, and a transition table with terminal states).

  Conventions. A JavaScript string is a \<open>string\<close>; \<open>string option\<close> is an optional field
  (\<open>None\<close> is \<open>undefined\<close>). A \<open>Map\<close> keeps its insertion order, so it is an association
  list on which \<open>set\<close> overwrites in place or appends (\<open>AList.update\<close>). A thrown error is
  \<open>Inl e\<close> and a normal return \<open>Inr v\<close>. \<open>Date.now()\<close> and \<open>crypto.randomUUID()\<close> are
  arguments of the operations that read them.
\<close>

named_theorems js_map_simps \<open>reading back what a Map operation wrote\<close>
named_theorems js_defs \<open>definitions of the JavaScript library functions, for evaluation\<close>

section \<open>JavaScript library functions\<close>

subsection \<open>Map: insertion-ordered association lists\<close>

type_synonym ('k, 'v) jsmap = "('k \<times> 'v) list"

definition js_get :: "('k, 'v) jsmap \<Rightarrow> 'k \<Rightarrow> 'v option" where
  "js_get m k = map_of m k"

definition js_set :: "'k \<Rightarrow> 'v \<Rightarrow> ('k, 'v) jsmap \<Rightarrow> ('k, 'v) jsmap" where
  "js_set k v m = AList.update k v m"

definition js_delete :: "'k \<Rightarrow> ('k, 'v) jsmap \<Rightarrow> ('k, 'v) jsmap" where
  "js_delete k m = AList.delete k m"

definition js_has :: "('k, 'v) jsmap \<Rightarrow> 'k \<Rightarrow> bool" where
  "js_has m k \<longleftrightarrow> js_get m k \<noteq> None"

definition js_keys :: "('k, 'v) jsmap \<Rightarrow> 'k list" where
  "js_keys m = map fst m"

definition js_values :: "('k, 'v) jsmap \<Rightarrow> 'v list" where
  "js_values m = map snd m"

definition js_map_wf :: "('k, 'v) jsmap \<Rightarrow> bool" where
  "js_map_wf m \<longleftrightarrow> distinct (map fst m)"

text \<open>\<open>Set.add\<close> on an insertion-ordered set.\<close>

definition js_add :: "'a \<Rightarrow> 'a list \<Rightarrow> 'a list" where
  "js_add x s = (if x \<in> set s then s else s @ [x])"

text \<open>\<open>Array.from(new Set(xs))\<close>: the first occurrence of every element, in order.\<close>

definition js_unique :: "'a list \<Rightarrow> 'a list" where
  "js_unique xs = foldl (\<lambda>acc x. js_add x acc) [] xs"

subsection \<open>Array searches\<close>

fun find_index :: "('a \<Rightarrow> bool) \<Rightarrow> 'a list \<Rightarrow> nat option" where
  "find_index p [] = None"
| "find_index p (x # xs) = (if p x then Some 0 else map_option Suc (find_index p xs))"

text \<open>\<open>xs.splice(i, 1)\<close> for an index that is in range: the element and the rest.\<close>

definition remove_nth :: "nat \<Rightarrow> 'a list \<Rightarrow> 'a list" where
  "remove_nth i xs = take i xs @ drop (Suc i) xs"

subsection \<open>Strings\<close>

definition is_ws :: "char \<Rightarrow> bool" where
  "is_ws c \<longleftrightarrow> (of_char c :: nat) \<in> {9, 10, 11, 12, 13, 32, 160}"

definition trim :: "string \<Rightarrow> string" where
  "trim s = rev (dropWhile is_ws (rev (dropWhile is_ws s)))"

definition starts_with :: "string \<Rightarrow> string \<Rightarrow> bool" where
  "starts_with s p \<longleftrightarrow> take (length p) s = p"

definition ends_with :: "string \<Rightarrow> string \<Rightarrow> bool" where
  "ends_with s p \<longleftrightarrow> starts_with (rev s) (rev p)"

fun str_includes :: "string \<Rightarrow> string \<Rightarrow> bool" where
  "str_includes [] p \<longleftrightarrow> p = []"
| "str_includes (c # cs) p \<longleftrightarrow> starts_with (c # cs) p \<or> str_includes cs p"

fun join :: "string \<Rightarrow> string list \<Rightarrow> string" where
  "join sep [] = []"
| "join sep [x] = x"
| "join sep (x # y # ys) = x @ sep @ join sep (y # ys)"

definition to_lower_char :: "char \<Rightarrow> char" where
  "to_lower_char c = (let n = of_char c :: nat in if 65 \<le> n \<and> n \<le> 90 then char_of (n + 32) else c)"

definition to_lower :: "string \<Rightarrow> string" where
  "to_lower s = map to_lower_char s"

text \<open>Truthiness of an optional string: \<open>undefined\<close> and the empty string are falsy.\<close>

fun truthy :: "string option \<Rightarrow> bool" where
  "truthy None \<longleftrightarrow> False"
| "truthy (Some s) \<longleftrightarrow> s \<noteq> []"

text \<open>\<open>a || b\<close> and \<open>a ?? b\<close> on optional strings.\<close>

definition or_else :: "string option \<Rightarrow> string \<Rightarrow> string" where
  "or_else a b = (if truthy a then the a else b)"

definition nullish :: "'a option \<Rightarrow> 'a \<Rightarrow> 'a" where
  "nullish a b = (case a of None \<Rightarrow> b | Some x \<Rightarrow> x)"

subsection \<open>Decimal numerals\<close>

definition digit_char :: "nat \<Rightarrow> char" where
  "digit_char d = char_of (48 + d)"

definition is_digit :: "char \<Rightarrow> bool" where
  "is_digit c \<longleftrightarrow> 48 \<le> (of_char c :: nat) \<and> (of_char c :: nat) \<le> 57"

definition digit_val :: "char \<Rightarrow> nat" where
  "digit_val c = of_char c - 48"

fun nat_str :: "nat \<Rightarrow> string" where
  "nat_str n = (if n < 10 then [digit_char n] else nat_str (n div 10) @ [digit_char (n mod 10)])"

declare nat_str.simps [simp del]

definition digits_val :: "string \<Rightarrow> nat" where
  "digits_val s = foldl (\<lambda>acc c. 10 * acc + digit_val c) 0 s"

text \<open>\<open>String(n)\<close> of an integer.\<close>

definition int_str :: "int \<Rightarrow> string" where
  "int_str i = (if i < 0 then CHR ''-'' # nat_str (nat (- i)) else nat_str (nat i))"

subsection \<open>Numbers that may be NaN\<close>

text \<open>\<open>None\<close> is \<open>NaN\<close>: every comparison with it is false.\<close>

fun num_gt :: "int option \<Rightarrow> int option \<Rightarrow> bool" where
  "num_gt (Some a) (Some b) \<longleftrightarrow> a > b"
| "num_gt _ _ \<longleftrightarrow> False"

fun num_le :: "int option \<Rightarrow> int option \<Rightarrow> bool" where
  "num_le (Some a) (Some b) \<longleftrightarrow> a \<le> b"
| "num_le _ _ \<longleftrightarrow> False"

lemmas js_library_defs [js_defs] =
  js_get_def js_set_def js_delete_def js_has_def js_keys_def js_values_def js_add_def js_unique_def
  remove_nth_def is_ws_def trim_def starts_with_def ends_with_def to_lower_char_def to_lower_def
  or_else_def nullish_def digit_char_def is_digit_def digit_val_def digits_val_def int_str_def

section \<open>Lemmas on the library functions\<close>

subsection \<open>Map\<close>

lemma js_get_set [js_map_simps]: "js_get (js_set k v m) k' = (if k' = k then Some v else js_get m k')"
  by (simp add: js_get_def js_set_def update_conv')

lemma js_get_delete [js_map_simps]: "js_get (js_delete k m) k' = (if k' = k then None else js_get m k')"
  by (simp add: js_get_def js_delete_def delete_conv')

lemma js_get_Nil [js_map_simps]: "js_get [] k = None"
  by (simp add: js_get_def)

lemma js_has_set [js_map_simps]: "js_has (js_set k v m) k' \<longleftrightarrow> k' = k \<or> js_has m k'"
  by (simp add: js_has_def js_get_set)

lemma js_has_keys: "js_has m k \<longleftrightarrow> k \<in> set (js_keys m)"
  by (simp add: js_has_def js_get_def js_keys_def map_of_eq_None_iff)

lemma js_keys_set: "js_keys (js_set k v m) = (if k \<in> set (js_keys m) then js_keys m else js_keys m @ [k])"
  by (simp add: js_keys_def js_set_def update_keys)

lemma js_map_wf_Nil [simp]: "js_map_wf []"
  by (simp add: js_map_wf_def)

lemma js_map_wf_set [simp, intro]: "js_map_wf m \<Longrightarrow> js_map_wf (js_set k v m)"
  by (simp add: js_map_wf_def js_set_def distinct_update)

lemma js_map_wf_delete [simp, intro]: "js_map_wf m \<Longrightarrow> js_map_wf (js_delete k m)"
  by (simp add: js_map_wf_def js_delete_def distinct_delete)

lemma js_get_in_set: "js_get m k = Some v \<Longrightarrow> (k, v) \<in> set m"
  by (simp add: js_get_def map_of_SomeD)

lemma js_get_eq_Some: "js_map_wf m \<Longrightarrow> js_get m k = Some v \<longleftrightarrow> (k, v) \<in> set m"
  by (simp add: js_get_def js_map_wf_def)

lemma js_get_value: "js_get m k = Some v \<Longrightarrow> v \<in> set (js_values m)"
  by (force simp: js_values_def dest: js_get_in_set)

lemma js_set_elem: "(k', v') \<in> set (js_set k v m) \<Longrightarrow> (k', v') = (k, v) \<or> (k', v') \<in> set m"
  by (induction m) (auto simp: js_set_def split: if_splits)

lemma js_delete_elem: "(k', v') \<in> set (js_delete k m) \<Longrightarrow> (k', v') \<in> set m \<and> k' \<noteq> k"
  by (auto simp: js_delete_def AList.delete_eq)

lemma js_map_wf_filter [simp, intro]: "js_map_wf m \<Longrightarrow> js_map_wf (filter P m)"
  by (auto simp: js_map_wf_def distinct_map intro: inj_on_subset)

lemma js_map_wf_map_snd [simp]: "js_map_wf (map (\<lambda>(k, v). (k, f k v)) m) \<longleftrightarrow> js_map_wf m"
  by (simp add: js_map_wf_def comp_def case_prod_unfold)

lemma js_get_map_snd: "js_get (map (\<lambda>(k, v). (k, f k v)) m) k = map_option (f k) (js_get m k)"
  by (induction m) (auto simp: js_get_def)

lemma length_js_set: "length (js_set k v m) = (if js_has m k then length m else Suc (length m))"
  by (induction m) (auto simp: js_set_def js_has_def js_get_def)

lemma js_set_count:
  "js_get m k = Some v \<Longrightarrow>
   length (filter (\<lambda>(_, x). q x) (js_set k v' m)) + (if q v then 1 else 0) =
   length (filter (\<lambda>(_, x). q x) m) + (if q v' then 1 else 0)"
  by (induction m) (auto simp: js_get_def js_set_def split: if_splits)

lemma js_set_count_new:
  "js_get m k = None \<Longrightarrow> length (filter (\<lambda>(_, x). q x) (js_set k v m)) = length (filter (\<lambda>(_, x). q x) m) + (if q v then 1 else 0)"
  by (induction m) (auto simp: js_get_def js_set_def split: if_splits)

lemma js_delete_count:
  "\<lbrakk>js_map_wf m; js_get m k = Some v\<rbrakk> \<Longrightarrow>
   length (filter (\<lambda>(_, x). q x) (js_delete k m)) + (if q v then 1 else 0) = length (filter (\<lambda>(_, x). q x) m)"
proof (induction m)
  case (Cons a m)
  obtain k' v' where a: "a = (k', v')" by (cases a)
  have "js_delete k m = m" if "k \<notin> fst ` set m" using that by (simp add: js_delete_def delete_notin_dom)
  then show ?case using Cons by (auto simp: a js_get_def js_delete_def js_map_wf_def)
qed (simp add: js_get_def)

lemma js_keys_delete: "set (js_keys (js_delete k m)) \<subseteq> set (js_keys m)"
  by (auto simp: js_keys_def js_delete_def AList.delete_eq)

lemma set_js_add [simp]: "set (js_add x s) = insert x (set s)"
  by (auto simp: js_add_def)

lemma distinct_js_add [simp, intro]: "distinct s \<Longrightarrow> distinct (js_add x s)"
  by (auto simp: js_add_def)

lemma js_unique_foldl:
  "set (foldl (\<lambda>acc x. js_add x acc) acc xs) = set acc \<union> set xs"
  "distinct acc \<Longrightarrow> distinct (foldl (\<lambda>acc x. js_add x acc) acc xs)"
  by (induction xs arbitrary: acc) auto

lemma set_js_unique [simp]: "set (js_unique xs) = set xs"
  by (simp add: js_unique_def js_unique_foldl)

lemma distinct_js_unique [simp]: "distinct (js_unique xs)"
  by (simp add: js_unique_def js_unique_foldl)

subsection \<open>Array searches\<close>

lemma find_index_None: "find_index p xs = None \<longleftrightarrow> (\<forall>x \<in> set xs. \<not> p x)"
  by (induction xs) auto

lemma find_index_Some:
  "find_index p xs = Some i \<longleftrightarrow> i < length xs \<and> p (xs ! i) \<and> (\<forall>j < i. \<not> p (xs ! j))"
proof (induction xs arbitrary: i)
  case Nil
  then show ?case by simp
next
  case (Cons x xs)
  show ?case
  proof (cases i)
    case 0
    then show ?thesis by auto
  next
    case (Suc k)
    then show ?thesis using Cons.IH [of k] by (auto simp: less_Suc_eq_0_disj)
  qed
qed

lemma find_index_less: "find_index p xs = Some i \<Longrightarrow> i < length xs"
  by (simp add: find_index_Some)

lemma find_index_holds: "find_index p xs = Some i \<Longrightarrow> p (xs ! i)"
  by (simp add: find_index_Some)

lemma find_index_mem: "find_index p xs = Some i \<Longrightarrow> xs ! i \<in> set xs"
  by (simp add: find_index_Some)

lemma remove_nth_split: "i < length xs \<Longrightarrow> xs = take i xs @ xs ! i # drop (Suc i) xs"
  by (rule id_take_nth_drop)

lemma length_remove_nth [simp]: "i < length xs \<Longrightarrow> length (remove_nth i xs) = length xs - 1"
  by (simp add: remove_nth_def)

lemma set_remove_nth: "set (remove_nth i xs) \<subseteq> set xs"
  by (auto simp: remove_nth_def dest: in_set_takeD in_set_dropD)

lemma remove_nth_filter_length:
  assumes "i < length xs"
  shows "length (filter p (remove_nth i xs)) + (if p (xs ! i) then 1 else 0) = length (filter p xs)"
proof -
  have "length (filter p xs) = length (filter p (take i xs @ xs ! i # drop (Suc i) xs))"
    using remove_nth_split [OF assms] by simp
  then show ?thesis by (simp add: remove_nth_def)
qed

lemma filter_length_mono: "(\<And>x. x \<in> set xs \<Longrightarrow> p x \<Longrightarrow> q x) \<Longrightarrow> length (filter p xs) \<le> length (filter q xs)"
  by (induction xs) (auto simp: le_SucI)

lemma distinct_map_remove_nth: "distinct (map f xs) \<Longrightarrow> distinct (map f (remove_nth i xs))"
proof (cases "i < length xs")
  case True
  assume "distinct (map f xs)"
  then have "distinct (map f (take i xs @ xs ! i # drop (Suc i) xs))"
    using remove_nth_split [OF True] by simp
  then show ?thesis by (auto simp: remove_nth_def)
next
  case False
  assume "distinct (map f xs)"
  with False show ?thesis by (simp add: remove_nth_def)
qed

subsection \<open>Strings\<close>

lemma starts_with_append [simp]: "starts_with (p @ s) p"
  by (simp add: starts_with_def)

lemma starts_with_iff: "starts_with s p \<longleftrightarrow> (\<exists>r. s = p @ r)"
  by (metis append_eq_conv_conj append_take_drop_id starts_with_def)

lemma ends_with_iff: "ends_with s p \<longleftrightarrow> (\<exists>r. s = r @ p)"
  by (metis ends_with_def rev_append rev_rev_ident starts_with_iff)

lemma set_trim: "set (trim s) \<subseteq> set s"
  by (auto simp: trim_def dest!: set_dropWhileD)

lemma hd_dropWhile_ws: "dropWhile is_ws s \<noteq> [] \<Longrightarrow> \<not> is_ws (hd (dropWhile is_ws s))"
  by (rule hd_dropWhile)

lemma dropWhile_ws_id: "s = [] \<or> \<not> is_ws (hd s) \<Longrightarrow> dropWhile is_ws s = s"
  by (cases s) auto

lemma dropWhile_rev_hd:
  assumes "s = [] \<or> \<not> is_ws (hd s)"
  shows "rev (dropWhile is_ws (rev s)) = [] \<or> \<not> is_ws (hd (rev (dropWhile is_ws (rev s))))"
proof (cases "rev (dropWhile is_ws (rev s))")
  case Nil
  then show ?thesis by simp
next
  case (Cons c cs)
  have "rev s = takeWhile is_ws (rev s) @ dropWhile is_ws (rev s)" by simp
  then have "s = rev (dropWhile is_ws (rev s)) @ rev (takeWhile is_ws (rev s))"
    by (metis rev_append rev_rev_ident)
  with Cons have "s = c # cs @ rev (takeWhile is_ws (rev s))" by simp
  then have "s \<noteq> []" "hd s = c" by (metis list.distinct(1), metis list.sel(1))
  with assms Cons show ?thesis by simp
qed

lemma trim_trim [simp]: "trim (trim s) = trim s"
proof -
  let ?d = "dropWhile is_ws s"
  let ?t = "rev (dropWhile is_ws (rev ?d))"
  have "?d = [] \<or> \<not> is_ws (hd ?d)" using hd_dropWhile_ws by blast
  then have "dropWhile is_ws ?t = ?t"
    by (intro dropWhile_ws_id dropWhile_rev_hd)
  moreover have "dropWhile is_ws (rev ?t) = rev ?t"
    by (intro dropWhile_ws_id) (metis hd_dropWhile_ws rev_rev_ident)
  ultimately show ?thesis by (simp add: trim_def)
qed

lemma truthy_iff: "truthy a \<longleftrightarrow> (\<exists>s. a = Some s \<and> s \<noteq> [])"
  by (cases a) auto

subsection \<open>Decimal numerals\<close>

lemma is_digit_digit_char [simp]: "d < 10 \<Longrightarrow> is_digit (digit_char d)"
  by (simp add: is_digit_def digit_char_def)

lemma digit_val_digit_char [simp]: "d < 10 \<Longrightarrow> digit_val (digit_char d) = d"
  by (simp add: digit_val_def digit_char_def)

lemma digits_val_append [simp]: "digits_val (s @ [c]) = 10 * digits_val s + digit_val c"
  by (simp add: digits_val_def)

lemma digits_val_nat_str [simp]: "digits_val (nat_str n) = n"
proof (induction n rule: nat_str.induct)
  case (1 n)
  show ?case
  proof (cases "n < 10")
    case True
    then show ?thesis by (simp add: nat_str.simps [of n] digits_val_def)
  next
    case False
    with "1.IH" show ?thesis by (simp add: nat_str.simps [of n])
  qed
qed

lemma digits_nat_str: "c \<in> set (nat_str n) \<Longrightarrow> is_digit c"
proof (induction n rule: nat_str.induct)
  case (1 n)
  then show ?case
    by (cases "n < 10") (auto simp: nat_str.simps [of n])
qed

lemma nat_str_nonempty [simp]: "nat_str n \<noteq> []"
  by (subst nat_str.simps) simp

lemma hd_nat_str: "0 < n \<Longrightarrow> hd (nat_str n) \<noteq> CHR ''0''"
proof (induction n rule: nat_str.induct)
  case (1 n)
  show ?case
  proof (cases "n < 10")
    case True
    with "1.prems" have "digit_val (hd (nat_str n)) \<noteq> digit_val (CHR ''0'')"
      by (simp add: nat_str.simps [of n] digit_val_def digit_char_def)
    then show ?thesis by metis
  next
    case False
    with "1.IH" show ?thesis by (simp add: nat_str.simps [of n])
  qed
qed

lemma nat_str_inj: "nat_str m = nat_str n \<Longrightarrow> m = n"
  by (metis digits_val_nat_str)

section \<open>Interfaces shared by the components\<close>

text \<open>
  A component is a state and a total step function over its operations. What every operation keeps
  holds after any sequence of them.
\<close>

locale op_invariant =
  fixes step :: "'s \<Rightarrow> 'op \<Rightarrow> 's"
    and inv :: "'s \<Rightarrow> bool"
  assumes inv_step: "inv s \<Longrightarrow> inv (step s op)"
begin

lemma inv_run: "inv s \<Longrightarrow> inv (foldl step s ops)"
  by (induction ops arbitrary: s) (auto intro: inv_step)

end

text \<open>
  A transition table with terminal states that have no successor: a run that reaches one stays
  there, and a run that leaves a state has not started in a terminal one.
\<close>

locale transition_table =
  fixes allowed :: "'s \<Rightarrow> 's \<Rightarrow> bool"
    and terminal :: "'s \<Rightarrow> bool"
  assumes terminal_closed: "terminal s \<Longrightarrow> \<not> allowed s t"
begin

lemma terminal_absorbing: "allowed\<^sup>*\<^sup>* s t \<Longrightarrow> terminal s \<Longrightarrow> t = s"
  by (induction rule: converse_rtranclp_induct) (auto dest: terminal_closed)

lemma source_not_terminal: "allowed s t \<Longrightarrow> \<not> terminal s"
  using terminal_closed by blast

end

end
