(* ===== verification/Json.thy ===== *)
theory Json
  imports Nexus_Prelude
begin

text \<open>
  JSON values as the payloads of tasks, nodes and receipts carry them, \<open>JSON.stringify\<close>, and the
  redaction of secrets the task controller applies to every payload it stores
  (\<open>redactSensitiveData\<close> of \<open>services/backend/src/tasks/controller.ts\<close>). A number is the
  numeral \<open>JSON.stringify\<close> prints for it; an object keeps its keys in insertion order.
\<close>

datatype json =
    JNull
  | JBool bool
  | JNum string
  | JStr string
  | JArr "json list"
  | JObj "(string \<times> json) list"

section \<open>JSON.stringify\<close>

definition hex_digit :: "nat \<Rightarrow> char" where
  "hex_digit d = (if d < 10 then char_of (48 + d) else char_of (87 + d))"

definition escape_char :: "char \<Rightarrow> string" where
  "escape_char c =
     (let n = of_char c :: nat; bs = CHR 0x5C in
      if n = 34 then [bs, CHR 0x22] else if n = 92 then [bs, bs]
      else if n = 8 then [bs, CHR ''b''] else if n = 9 then [bs, CHR ''t'']
      else if n = 10 then [bs, CHR ''n''] else if n = 12 then [bs, CHR ''f'']
      else if n = 13 then [bs, CHR ''r'']
      else if n < 32 then [bs, CHR ''u'', CHR ''0'', CHR ''0'', hex_digit (n div 16), hex_digit (n mod 16)]
      else [c])"

definition quote_json :: "string \<Rightarrow> string" where
  "quote_json s = CHR 0x22 # concat (map escape_char s) @ [CHR 0x22]"

fun stringify :: "json \<Rightarrow> string" where
  "stringify JNull = ''null''"
| "stringify (JBool b) = (if b then ''true'' else ''false'')"
| "stringify (JNum n) = n"
| "stringify (JStr s) = quote_json s"
| "stringify (JArr xs) = ''['' @ join '','' (map stringify xs) @ '']''"
| "stringify (JObj kvs) = CHR 0x7B # join '','' (map (\<lambda>(k, v). quote_json k @ '':'' @ stringify v) kvs) @ [CHR 0x7D]"

text \<open>\<open>Buffer.byteLength(s, 'utf8')\<close>\<close>

definition byte_length :: "string \<Rightarrow> nat" where
  "byte_length s = sum_list (map (\<lambda>c. if (of_char c :: nat) < 128 then 1 else 2) s)"

section \<open>Redaction\<close>

text \<open>The regular expression \<open>sensitiveKeys\<close>: one of these words, in any case, anywhere in the key.\<close>

definition sensitive_words :: "string list" where
  "sensitive_words =
     [''password'', ''secret'', ''token'', ''apikey'', ''api_key'', ''api-key'', ''authorization'', ''auth'',
      ''jwt'', ''bearer'', ''privatekey'', ''private_key'', ''private-key'', ''hmac'', ''credential'']"

definition sensitive_key :: "string \<Rightarrow> bool" where
  "sensitive_key key \<longleftrightarrow> list_ex (str_includes (to_lower key)) sensitive_words"

definition is_token_char :: "char \<Rightarrow> bool" where
  "is_token_char c \<longleftrightarrow>
     (let n = of_char c :: nat in
      48 \<le> n \<and> n \<le> 57 \<or> 65 \<le> n \<and> n \<le> 90 \<or> 97 \<le> n \<and> n \<le> 122 \<or> c \<in> set ''._~+/-'')"

text \<open>\<open>Bearer\s+[A-Za-z0-9._~+/-]+\<close> at the start of the string: what follows the match.\<close>

definition match_bearer :: "string \<Rightarrow> string option" where
  "match_bearer s =
     (let r = drop 6 s; t = dropWhile is_ws r in
      if to_lower (take 6 s) = ''bearer'' \<and> takeWhile is_ws r \<noteq> [] \<and> takeWhile is_token_char t \<noteq> []
      then Some (dropWhile is_token_char t) else None)"

lemma match_bearer_shorter: "match_bearer s = Some r \<Longrightarrow> length r < length s"
proof -
  assume m: "match_bearer s = Some r"
  let ?t = "dropWhile is_ws (drop 6 s)"
  from m have r: "r = dropWhile is_token_char ?t" and tok: "takeWhile is_token_char ?t \<noteq> []"
    by (auto simp: match_bearer_def Let_def split: if_splits)
  have "length (takeWhile is_token_char ?t) + length (dropWhile is_token_char ?t) = length ?t"
    by (metis length_append takeWhile_dropWhile_id)
  with tok have "length r < length ?t" unfolding r by (cases "takeWhile is_token_char ?t") auto
  also have "length ?t \<le> length s" using length_dropWhile_le [of is_ws "drop 6 s"] by simp
  finally show ?thesis .
qed

fun has_bearer :: "string \<Rightarrow> bool" where
  "has_bearer [] \<longleftrightarrow> False"
| "has_bearer (c # cs) \<longleftrightarrow> match_bearer (c # cs) \<noteq> None \<or> has_bearer cs"

function replace_bearer :: "string \<Rightarrow> string" where
  "replace_bearer [] = []"
| "replace_bearer (c # cs) =
     (case match_bearer (c # cs) of
        Some r \<Rightarrow> ''Bearer [REDACTED_TOKEN]'' @ replace_bearer r
      | None \<Rightarrow> c # replace_bearer cs)"
  by pat_completeness auto
termination
  by (relation "measure length") (auto dest: match_bearer_shorter)

fun redact_value :: "json \<Rightarrow> json" where
  "redact_value (JStr s) = (if has_bearer s then JStr (replace_bearer s) else JStr s)"
| "redact_value (JObj kvs) =
     JObj (map (\<lambda>(k, v). (k, if sensitive_key k then JStr ''[REDACTED]'' else redact_value v)) kvs)"
| "redact_value v = v"

text \<open>\<open>redactSensitiveData\<close> maps the entries of an object; a value that is itself an object is
  redacted recursively, an array is copied as it is.\<close>

definition redactSensitiveData :: "(string \<times> json) list \<Rightarrow> (string \<times> json) list" where
  "redactSensitiveData data =
     map (\<lambda>(k, v). (k, if sensitive_key k then JStr ''[REDACTED]'' else redact_value v)) data"

text \<open>The values found under a path of object keys.\<close>

fun at_path :: "json \<Rightarrow> string list \<Rightarrow> json set" where
  "at_path v [] = {v}"
| "at_path (JObj kvs) (k # ks) = (\<Union>(k', v) \<in> set kvs. if k' = k then at_path v ks else {})"
| "at_path _ (k # ks) = {}"

lemma redact_obj: "JObj (redactSensitiveData data) = redact_value (JObj data)"
  by (simp add: redactSensitiveData_def)

lemma redacted_step:
  "v \<in> at_path (redact_value (JObj kvs)) (k # ks) \<Longrightarrow>
   \<exists>w. (k, w) \<in> set kvs \<and> v \<in> at_path (if sensitive_key k then JStr ''[REDACTED]'' else redact_value w) ks"
  by (auto split: if_splits)

lemma redact_path:
  "\<lbrakk>v \<in> at_path (redact_value j) (ks @ [k]); sensitive_key k\<rbrakk> \<Longrightarrow> v = JStr ''[REDACTED]''"
proof (induction ks arbitrary: j)
  case Nil
  then show ?case by (cases j) (auto split: if_splits)
next
  case (Cons k' ks)
  show ?case
  proof (cases j)
    case (JObj kvs)
    with Cons.prems obtain w where
      w: "v \<in> at_path (if sensitive_key k' then JStr ''[REDACTED]'' else redact_value w) (ks @ [k])"
      using redacted_step [of v kvs k' "ks @ [k]"] by auto
    show ?thesis
    proof (cases "sensitive_key k'")
      case True
      with w show ?thesis by (cases ks) auto
    next
      case False
      with w Cons.IH Cons.prems(2) show ?thesis by simp
    qed
  qed (use Cons.prems in \<open>auto split: if_splits\<close>)
qed

text \<open>Redaction. Whatever the payload, no value stored under a sensitive key survives
  \<open>redactSensitiveData\<close>, at any depth of nested objects: only the placeholder is found there.\<close>

theorem redactSensitiveData_hides:
  assumes "v \<in> at_path (JObj (redactSensitiveData data)) (ks @ [k])" and "sensitive_key k"
  shows "v = JStr ''[REDACTED]''"
  using redact_path assms unfolding redact_obj by blast

theorem redactSensitiveData_hides_witness:
  "at_path (JObj (redactSensitiveData [(''db'', JObj [(''myPassWord'', JStr ''x'')])])) [''db'', ''myPassWord'']
     = {JStr ''[REDACTED]''}"
proof -
  have sens: "sensitive_key ''myPassWord''" "\<not> sensitive_key ''db''" by code_simp+
  let ?d = "[(''db'', JObj [(''myPassWord'', JStr ''x'')])]"
  have "v = JStr ''[REDACTED]''" if "v \<in> at_path (JObj (redactSensitiveData ?d)) ([''db''] @ [''myPassWord''])" for v
    by (rule redactSensitiveData_hides [OF that sens(1)])
  moreover have "JStr ''[REDACTED]'' \<in> at_path (JObj (redactSensitiveData ?d)) ([''db''] @ [''myPassWord''])"
    using sens by (simp add: redactSensitiveData_def)
  ultimately have "at_path (JObj (redactSensitiveData ?d)) ([''db''] @ [''myPassWord'']) = {JStr ''[REDACTED]''}"
    by blast
  then show ?thesis by (simp only: append_Cons append_Nil)
qed

text \<open>Redaction does not look into arrays: an array entry whose key is not sensitive is stored
  as it is, with any password an object inside it carries.\<close>

theorem redactSensitiveData_keeps_arrays:
  "redactSensitiveData [(k, JArr xs)] = [(k, if sensitive_key k then JStr ''[REDACTED]'' else JArr xs)]"
  by (simp add: redactSensitiveData_def)

end
