(* ===== verification/Js_Date.thy ===== *)
theory Js_Date
  imports Nexus_Prelude
begin

text \<open>
  The part of JavaScript's \<open>Date\<close> the sources use: \<open>new Date(ms).toISOString()\<close> and
  \<open>new Date(s).getTime()\<close> on the date-time strings that the contract schemas accept
  (\<open>YYYY-MM-DDTHH:mm:ss[.fff]Z\<close>). A string that is not of that form parses to \<open>None\<close>, which
  stands for \<open>NaN\<close>. The theory ends with the round trip every expiry check rests on: a timestamp
  that the code formats is read back as the same instant.
\<close>

section \<open>Civil dates\<close>

text \<open>Days since 1970-01-01 of a date of the proleptic Gregorian calendar (years start in March).\<close>

definition days_from_civil :: "int \<Rightarrow> int \<Rightarrow> int \<Rightarrow> int" where
  "days_from_civil y m d =
     (let y' = (if m \<le> 2 then y - 1 else y);
          era = y' div 400;
          yoe = y' mod 400;
          mp = (if m > 2 then m - 3 else m + 9);
          doy = (153 * mp + 2) div 5 + d - 1;
          doe = yoe * 365 + yoe div 4 - yoe div 100 + doy
      in era * 146097 + doe - 719468)"

text \<open>The year of the 400-year era and the day of that year.\<close>

definition year_of_era :: "int \<Rightarrow> int \<times> int" where
  "year_of_era doe =
     (let q100 = min 3 (doe div 36524);
          r100 = doe - 36524 * q100;
          q4 = r100 div 1461;
          r4 = r100 mod 1461;
          q1 = min 3 (r4 div 365)
      in (100 * q100 + 4 * q4 + q1, r4 - 365 * q1))"

definition civil_from_days :: "int \<Rightarrow> int \<times> int \<times> int" where
  "civil_from_days n =
     (let z = n + 719468;
          era = z div 146097;
          (yoe, doy) = year_of_era (z mod 146097);
          mp = (5 * doy + 2) div 153;
          d = doy - (153 * mp + 2) div 5 + 1;
          m = (if mp < 10 then mp + 3 else mp - 9);
          y = yoe + era * 400 + (if m \<le> 2 then 1 else 0)
      in (y, m, d))"

section \<open>Formatting and parsing\<close>

text \<open>The last \<open>k\<close> decimal digits of a number, with leading zeros.\<close>

fun padn :: "nat \<Rightarrow> nat \<Rightarrow> string" where
  "padn 0 n = []"
| "padn (Suc k) n = padn k (n div 10) @ [digit_char (n mod 10)]"

definition iso_year :: "int \<Rightarrow> string" where
  "iso_year y =
     (if 0 \<le> y \<and> y \<le> 9999 then padn 4 (nat y)
      else if y < 0 then CHR ''-'' # padn 6 (nat (- y))
      else CHR ''+'' # padn 6 (nat y))"

definition iso_assemble ::
  "string \<Rightarrow> string \<Rightarrow> string \<Rightarrow> string \<Rightarrow> string \<Rightarrow> string \<Rightarrow> string \<Rightarrow> string" where
  "iso_assemble ys ms ds hs mis ss fs =
     ys @ ''-'' @ ms @ ''-'' @ ds @ ''T'' @ hs @ '':'' @ mis @ '':'' @ ss @ ''.'' @ fs @ ''Z''"

definition toISOString :: "int \<Rightarrow> string" where
  "toISOString ms =
     (let (y, m, d) = civil_from_days (ms div 86400000);
          t = nat (ms mod 86400000)
      in iso_assemble (iso_year y) (padn 2 (nat m)) (padn 2 (nat d))
           (padn 2 (t div 3600000)) (padn 2 (t div 60000 mod 60))
           (padn 2 (t div 1000 mod 60)) (padn 3 (t mod 1000)))"

definition substr :: "nat \<Rightarrow> nat \<Rightarrow> string \<Rightarrow> string" where
  "substr i n s = take n (drop i s)"

text \<open>The optional fraction of a second: nothing, or a dot and at least one digit.\<close>

definition frac_ok :: "string \<Rightarrow> bool" where
  "frac_ok f \<longleftrightarrow> f = [] \<or> (hd f = CHR ''.'' \<and> tl f \<noteq> [] \<and> list_all is_digit (tl f))"

definition date_parse :: "string \<Rightarrow> int option" where
  "date_parse s =
     (let f = butlast (drop 19 s);
          y = digits_val (substr 0 4 s); mo = digits_val (substr 5 2 s);
          d = digits_val (substr 8 2 s); h = digits_val (substr 11 2 s);
          mi = digits_val (substr 14 2 s); se = digits_val (substr 17 2 s)
      in if 20 \<le> length s \<and> last s = CHR ''Z'' \<and> substr 4 1 s = ''-'' \<and> substr 7 1 s = ''-''
            \<and> substr 10 1 s = ''T'' \<and> substr 13 1 s = '':'' \<and> substr 16 1 s = '':''
            \<and> list_all is_digit (substr 0 4 s @ substr 5 2 s @ substr 8 2 s @ substr 11 2 s
                                 @ substr 14 2 s @ substr 17 2 s)
            \<and> frac_ok f \<and> 1 \<le> mo \<and> mo \<le> 12 \<and> 1 \<le> d \<and> d \<le> 31 \<and> h \<le> 23 \<and> mi \<le> 59 \<and> se \<le> 59
         then Some (days_from_civil (int y) (int mo) (int d) * 86400000
                + int (h * 3600000 + mi * 60000 + se * 1000 + digits_val (take 3 (tl f @ ''000''))))
         else None)"

lemmas js_date_defs [js_defs] =
  days_from_civil_def year_of_era_def civil_from_days_def iso_year_def iso_assemble_def
  toISOString_def substr_def frac_ok_def date_parse_def

text \<open>The instants from the epoch to the end of the year 9999, whose ISO string has a four-digit year.\<close>

definition iso_range :: "int \<Rightarrow> bool" where
  "iso_range ms \<longleftrightarrow> 0 \<le> ms \<and> ms \<le> 253402300799999"

section \<open>Round trip\<close>

lemma year_of_era_decomp:
  assumes doe: "0 \<le> doe" "doe < 146097" and r: "year_of_era doe = (yoe, doy)"
  shows "0 \<le> yoe" "yoe \<le> 399" "0 \<le> doy" "doy \<le> 365"
    and "doe = yoe * 365 + yoe div 4 - yoe div 100 + doy"
proof -
  define q100 where "q100 = min 3 (doe div 36524)"
  define r100 where "r100 = doe - 36524 * q100"
  define q4 where "q4 = r100 div 1461"
  define r4 where "r4 = r100 mod 1461"
  define q1 where "q1 = min 3 (r4 div 365)"
  have q100: "0 \<le> q100" "q100 \<le> 3" "0 \<le> r100" "r100 \<le> 36524"
    using doe unfolding q100_def r100_def by linarith+
  then have q4: "0 \<le> q4" "q4 \<le> 24" "r100 = 1461 * q4 + r4" "0 \<le> r4" "r4 \<le> 1460"
    unfolding q4_def r4_def by auto
  then have q1: "0 \<le> q1" "q1 \<le> 3" "0 \<le> r4 - 365 * q1" "r4 - 365 * q1 \<le> 365"
    unfolding q1_def by linarith+
  have y: "yoe = 100 * q100 + 4 * q4 + q1" and d: "doy = r4 - 365 * q1"
    using r by (simp_all add: year_of_era_def Let_def q100_def r100_def q4_def r4_def q1_def)
  have y4: "yoe div 4 = 25 * q100 + q4" and y100: "yoe div 100 = q100"
    unfolding y using q4 q1 by linarith+
  show "0 \<le> yoe" "yoe \<le> 399" "0 \<le> doy" "doy \<le> 365"
    unfolding y d using q100 q4 q1 by linarith+
  show "doe = yoe * 365 + yoe div 4 - yoe div 100 + doy"
    unfolding y4 y100 unfolding y d using q4(3) r100_def by (simp add: algebra_simps)
qed

lemma civil_from_days_fields:
  assumes "civil_from_days n = (y, m, d)"
  shows "1 \<le> m" "m \<le> 12" "1 \<le> d" "d \<le> 31" and "days_from_civil y m d = n"
proof -
  let ?z = "n + 719468"
  obtain yoe doy where yd: "year_of_era (?z mod 146097) = (yoe, doy)" by force
  note dec = year_of_era_decomp [OF _ _ yd, simplified]
  define mp where "mp = (5 * doy + 2) div 153"
  have mp: "0 \<le> mp" "mp \<le> 11" using dec(3,4) by (simp_all add: mp_def)
  have m: "m = (if mp < 10 then mp + 3 else mp - 9)"
    and d: "d = doy - (153 * mp + 2) div 5 + 1"
    and y: "y = yoe + ?z div 146097 * 400 + (if m \<le> 2 then 1 else 0)"
    using assms by (auto simp: civil_from_days_def Let_def yd mp_def)
  show "1 \<le> m" "m \<le> 12" using mp m by auto
  show "1 \<le> d" "d \<le> 31" using dec(3,4) unfolding d mp_def by linarith+
  have mp_back: "(if m > 2 then m - 3 else m + 9) = mp" using mp m by auto
  have "(if m \<le> 2 then y - 1 else y) = yoe + ?z div 146097 * 400" using y by auto
  moreover have "(yoe + ?z div 146097 * 400) div 400 = ?z div 146097"
    and "(yoe + ?z div 146097 * 400) mod 400 = yoe"
    using dec(1,2) by simp_all
  moreover have "(153 * mp + 2) div 5 + d - 1 = doy" using d by simp
  ultimately have "days_from_civil y m d
      = ?z div 146097 * 146097 + (yoe * 365 + yoe div 4 - yoe div 100 + doy) - 719468"
    unfolding days_from_civil_def Let_def mp_back by simp
  then show "days_from_civil y m d = n" unfolding dec(5) [symmetric] by simp
qed

lemma iso_range_year:
  assumes "iso_range ms" and "civil_from_days (ms div 86400000) = (y, m, d)"
  shows "0 \<le> y" "y \<le> 9999"
proof -
  let ?z = "ms div 86400000 + 719468"
  obtain yoe doy where yd: "year_of_era (?z mod 146097) = (yoe, doy)" by force
  note dec = year_of_era_decomp [OF _ _ yd, simplified]
  have y: "y = yoe + ?z div 146097 * 400 + (if m \<le> 2 then 1 else 0)"
    and mm: "m = (if (5 * doy + 2) div 153 < 10 then (5 * doy + 2) div 153 + 3 else (5 * doy + 2) div 153 - 9)"
    using assms(2) by (auto simp: civil_from_days_def Let_def yd)
  have z: "0 \<le> ?z" "?z \<le> 3652364" using assms(1) unfolding iso_range_def by linarith+
  then have era: "0 \<le> ?z div 146097" "?z div 146097 \<le> 24" "?z div 146097 = 24 \<longrightarrow> ?z mod 146097 \<le> 146096"
    by linarith+
  show "0 \<le> y" using y dec(1) era(1) by (auto split: if_splits)
  show "y \<le> 9999"
  proof (cases "?z div 146097 = 24 \<and> yoe = 399")
    case True
    then have "?z mod 146097 = 145731 + doy" using dec(5) by simp
    moreover have "?z = 146097 * 24 + ?z mod 146097" using True by (metis mult_div_mod_eq)
    ultimately have "doy \<le> 305" using z by linarith
    then have "(5 * doy + 2) div 153 < 10" by linarith
    then have "\<not> m \<le> 2" using mm dec(3) by (auto split: if_splits)
    with True y show ?thesis by simp
  next
    case False
    with y dec(2) era show ?thesis by (auto split: if_splits)
  qed
qed

lemma length_padn [simp]: "length (padn k n) = k"
  by (induction k arbitrary: n) auto

lemma padn_digits [simp]: "list_all is_digit (padn k n)"
  by (induction k arbitrary: n) auto

lemma digits_val_padn [simp]: "digits_val (padn k n) = n mod 10 ^ k"
proof (induction k arbitrary: n)
  case 0
  then show ?case by (simp add: digits_val_def)
next
  case (Suc k)
  have "n mod (10 * 10 ^ k) = 10 * (n div 10 mod 10 ^ k) + n mod 10"
    by (simp add: mod_mult2_eq)
  then show ?case by (simp add: Suc)
qed

lemma len2: "length s = 2 \<Longrightarrow> \<exists>a b. s = [a, b]"
  by (auto simp: length_Suc_conv numeral_eq_Suc)

lemma len3: "length s = 3 \<Longrightarrow> \<exists>a b c. s = [a, b, c]"
  by (auto simp: length_Suc_conv numeral_eq_Suc)

lemma len4: "length s = 4 \<Longrightarrow> \<exists>a b c d. s = [a, b, c, d]"
  by (auto simp: length_Suc_conv numeral_eq_Suc)

lemma date_parse_assemble:
  assumes len: "length ys = 4" "length ms = 2" "length ds = 2" "length hs = 2" "length mis = 2"
      "length ss = 2" "length fs = 3"
    and dig: "list_all is_digit (ys @ ms @ ds @ hs @ mis @ ss @ fs)"
    and rng: "1 \<le> digits_val ms" "digits_val ms \<le> 12" "1 \<le> digits_val ds" "digits_val ds \<le> 31"
      "digits_val hs \<le> 23" "digits_val mis \<le> 59" "digits_val ss \<le> 59"
  shows "date_parse (iso_assemble ys ms ds hs mis ss fs) =
     Some (days_from_civil (int (digits_val ys)) (int (digits_val ms)) (int (digits_val ds)) * 86400000
       + int (digits_val hs * 3600000 + digits_val mis * 60000 + digits_val ss * 1000 + digits_val fs))"
proof -
  obtain y1 y2 y3 y4 where ys: "ys = [y1, y2, y3, y4]" using len4 [OF len(1)] by blast
  obtain m1 m2 where ms: "ms = [m1, m2]" using len2 [OF len(2)] by blast
  obtain d1 d2 where ds: "ds = [d1, d2]" using len2 [OF len(3)] by blast
  obtain h1 h2 where hs: "hs = [h1, h2]" using len2 [OF len(4)] by blast
  obtain i1 i2 where mis: "mis = [i1, i2]" using len2 [OF len(5)] by blast
  obtain s1 s2 where ss: "ss = [s1, s2]" using len2 [OF len(6)] by blast
  obtain f1 f2 f3 where fs: "fs = [f1, f2, f3]" using len3 [OF len(7)] by blast
  show ?thesis
    using dig rng unfolding ys ms ds hs mis ss fs
    by (simp add: date_parse_def iso_assemble_def substr_def frac_ok_def Let_def
        del: of_nat_add of_nat_mult)
qed

lemma date_parse_toISOString [simp]:
  assumes "iso_range ms"
  shows "date_parse (toISOString ms) = Some ms"
proof -
  obtain y m d where c: "civil_from_days (ms div 86400000) = (y, m, d)" by (cases "civil_from_days (ms div 86400000)") auto
  note f = civil_from_days_fields [OF c]
  note yr = iso_range_year [OF assms c]
  define t where "t = nat (ms mod 86400000)"
  have t: "t < 86400000" "int t = ms mod 86400000" by (simp_all add: t_def)
  have iso: "toISOString ms = iso_assemble (padn 4 (nat y)) (padn 2 (nat m)) (padn 2 (nat d))
      (padn 2 (t div 3600000)) (padn 2 (t div 60000 mod 60)) (padn 2 (t div 1000 mod 60)) (padn 3 (t mod 1000))"
    using yr by (simp add: toISOString_def c t_def iso_year_def Let_def)
  have hh: "t div 3600000 \<le> 23" using t(1) by linarith
  have "date_parse (toISOString ms) = Some (days_from_civil (int (nat y)) (int (nat m)) (int (nat d)) * 86400000
      + int (t div 3600000 * 3600000 + t div 60000 mod 60 * 60000 + t div 1000 mod 60 * 1000 + t mod 1000))"
    unfolding iso using f yr hh
    by (subst date_parse_assemble) (simp_all del: of_nat_add of_nat_mult)
  moreover have "t div 3600000 * 3600000 + t div 60000 mod 60 * 60000 + t div 1000 mod 60 * 1000 + t mod 1000 = t"
  proof -
    have a: "t div 1000 div 60 = t div 60000" "t div 60000 div 60 = t div 3600000"
      by (simp_all add: div_mult2_eq [symmetric])
    have "t = t div 1000 * 1000 + t mod 1000" by simp
    moreover have "t div 1000 = t div 60000 * 60 + t div 1000 mod 60" using a(1) by (metis div_mult_mod_eq)
    moreover have "t div 60000 = t div 3600000 * 60 + t div 60000 mod 60" using a(2) by (metis div_mult_mod_eq)
    ultimately show ?thesis by linarith
  qed
  ultimately show ?thesis using f yr t(2) by (simp add: div_mult_mod_eq)
qed

text \<open>\<open>Date\<close> holds at most 8.64e15 milliseconds either way; \<open>toISOString\<close> of anything else throws.\<close>

definition time_valid :: "int \<Rightarrow> bool" where
  "time_valid ms \<longleftrightarrow> - 8640000000000000 \<le> ms \<and> ms \<le> 8640000000000000"

definition to_iso :: "int option \<Rightarrow> string option" where
  "to_iso t = (case t of None \<Rightarrow> None | Some ms \<Rightarrow> if time_valid ms then Some (toISOString ms) else None)"

lemma to_iso_Some: "to_iso t = Some s \<longleftrightarrow> (\<exists>ms. t = Some ms \<and> time_valid ms \<and> s = toISOString ms)"
  by (auto simp: to_iso_def split: option.splits)

lemma digits_val_bound: "list_all is_digit s \<Longrightarrow> digits_val s < 10 ^ length s"
proof (induction s rule: rev_induct)
  case Nil
  then show ?case by (simp add: digits_val_def)
next
  case (snoc c s)
  then have "digit_val c \<le> 9" "digits_val s < 10 ^ length s"
    by (auto simp: is_digit_def digit_val_def)
  then show ?case by simp
qed

lemma era_bound_arith:
  fixes era y c :: int
  assumes "era \<le> 24" "y \<le> 145731" "c \<le> 337" "d \<le> 31" "era = 24 \<Longrightarrow> y \<le> 145369 \<or> c \<le> 275"
  shows "era * 146097 + (y + (c + d - 1)) - 719468 \<le> 2932896"
  using assms by (cases "era = 24") auto

lemma days_from_civil_upper:
  assumes "y \<le> 9999" "1 \<le> m" "m \<le> 12" "d \<le> 31"
  shows "days_from_civil y m d \<le> 2932896"
proof -
  define y' where "y' = (if m \<le> 2 then y - 1 else y)"
  define mp where "mp = (if m > 2 then m - 3 else m + 9)"
  have yy: "y' = 400 * (y' div 400) + y' mod 400" "0 \<le> y' mod 400" "y' mod 400 < 400" by simp_all
  have mp: "0 \<le> mp" "mp \<le> 11" "y' \<le> 9998 \<or> mp \<le> 9" "y' \<le> 9999"
    using assms unfolding mp_def y'_def by auto
  have eq: "days_from_civil y m d = y' div 400 * 146097 + (y' mod 400 * 365 + y' mod 400 div 4
      - y' mod 400 div 100 + ((153 * mp + 2) div 5 + d - 1)) - 719468"
    unfolding days_from_civil_def Let_def y'_def mp_def by simp
  have a: "y' mod 400 * 365 + y' mod 400 div 4 - y' mod 400 div 100 \<le> 145731"
    using yy by (cases "y' mod 400 = 399") simp_all
  have b: "y' mod 400 * 365 + y' mod 400 div 4 - y' mod 400 div 100 \<le> 145369"
    if "y' \<le> 9998" "y' div 400 = 24"
  proof -
    have "y' mod 400 \<le> 398" using that yy(1) by linarith
    then show ?thesis by linarith
  qed
  have c: "(153 * mp + 2) div 5 \<le> 337" "mp \<le> 9 \<Longrightarrow> (153 * mp + 2) div 5 \<le> 275"
    using mp(2) by linarith+
  have e: "y' div 400 \<le> 24" using mp(4) by linarith
  show ?thesis unfolding eq
    by (rule era_bound_arith [OF e a c(1) assms(4)]) (use b c(2) mp(3) in blast)
qed

lemma digits_val_substr: "list_all is_digit (substr i n s) \<Longrightarrow> digits_val (substr i n s) < 10 ^ n"
  using digits_val_bound [of "substr i n s"]
  by (simp add: substr_def) (meson less_le_trans min.cobounded1 min.cobounded2 one_le_numeral power_increasing)

lemma date_parse_upper:
  assumes "date_parse s = Some ms"
  shows "ms \<le> 253402300799999"
proof -
  define fr where "fr = take 3 (tl (butlast (drop 19 s)) @ ''000'')"
  have dig: "list_all is_digit (substr 0 4 s)" and frac: "frac_ok (butlast (drop 19 s))"
    and m: "1 \<le> digits_val (substr 5 2 s)" "digits_val (substr 5 2 s) \<le> 12"
    and d: "digits_val (substr 8 2 s) \<le> 31"
    and t: "digits_val (substr 11 2 s) \<le> 23" "digits_val (substr 14 2 s) \<le> 59" "digits_val (substr 17 2 s) \<le> 59"
    and ms: "ms = days_from_civil (int (digits_val (substr 0 4 s))) (int (digits_val (substr 5 2 s)))
          (int (digits_val (substr 8 2 s))) * 86400000
        + int (digits_val (substr 11 2 s) * 3600000 + digits_val (substr 14 2 s) * 60000
               + digits_val (substr 17 2 s) * 1000 + digits_val fr)"
    using assms unfolding date_parse_def Let_def fr_def by (auto split: if_splits)
  have "list_all is_digit (tl (butlast (drop 19 s)))"
    using frac unfolding frac_ok_def by auto
  then have "list_all is_digit fr"
    unfolding fr_def by (auto simp: list_all_iff is_digit_def dest: in_set_takeD)
  moreover have "length fr \<le> 3" unfolding fr_def by simp
  ultimately have "digits_val fr < 10 ^ 3"
    using digits_val_bound by (meson less_le_trans one_le_numeral power_increasing)
  moreover have "digits_val (substr 0 4 s) \<le> 9999" using digits_val_substr [OF dig] by simp
  then have "days_from_civil (int (digits_val (substr 0 4 s))) (int (digits_val (substr 5 2 s)))
      (int (digits_val (substr 8 2 s))) \<le> 2932896"
    using m d by (intro days_from_civil_upper) auto
  ultimately show ?thesis unfolding ms using t by simp
qed

lemma colon_not_in_padn: "CHR '':'' \<notin> set (padn k n)"
  using padn_digits [of k n] by (auto simp: list_all_iff is_digit_def)

end
