(* ===== verification/Platform.thy ===== *)
theory Platform
  imports Js_Date
begin

text \<open>
  What the services take from the platform: the digests of \<open>node:crypto\<close> and the two string
  formats the \<open>zod\<close> schemas check. These are code outside the repository, so they are the
  fields of a \<open>platform\<close> that every definition using them receives; what the code relies on is
  named below (\<open>hex_digests\<close>, \<open>accepts_iso\<close>). \<open>Buffer.from(s, 'hex')\<close> and
  \<open>crypto.timingSafeEqual\<close> are modelled as they behave, because the signature checks of the
  lease issuer and of the receipt verifier rest on both.
\<close>

record platform =
  hmac_sha256 :: "string \<Rightarrow> string \<Rightarrow> string"
  sha256 :: "string \<Rightarrow> string"
  uuid_ok :: "string \<Rightarrow> bool"
  datetime_ok :: "string \<Rightarrow> bool"

text \<open>\<open>z.string().min(1).max(n)\<close>\<close>

definition sized :: "nat \<Rightarrow> string \<Rightarrow> bool" where
  "sized n s \<longleftrightarrow> 1 \<le> length s \<and> length s \<le> n"

section \<open>Hexadecimal buffers\<close>

definition hex_val :: "char \<Rightarrow> nat option" where
  "hex_val c =
     (let n = of_char c in
      if 48 \<le> n \<and> n \<le> 57 then Some (n - 48)
      else if 97 \<le> n \<and> n \<le> 102 then Some (n - 87)
      else if 65 \<le> n \<and> n \<le> 70 then Some (n - 55)
      else None)"

text \<open>\<open>Buffer.from(s, 'hex')\<close> decodes pairs of digits and stops at the first that is not one.\<close>

fun buffer_from_hex :: "string \<Rightarrow> nat list" where
  "buffer_from_hex (a # b # cs) =
     (case (hex_val a, hex_val b) of
        (Some x, Some y) \<Rightarrow> (16 * x + y) # buffer_from_hex cs
      | _ \<Rightarrow> [])"
| "buffer_from_hex _ = []"

text \<open>\<open>timingSafeEqual\<close> throws on buffers of different sizes; its callers catch that as \<open>false\<close>.\<close>

definition timing_safe_equal :: "nat list \<Rightarrow> nat list \<Rightarrow> bool option" where
  "timing_safe_equal a b = (if length a = length b then Some (a = b) else None)"

text \<open>The shared body of the four \<open>verify...Signature\<close> functions.\<close>

definition signature_matches :: "string \<Rightarrow> string \<Rightarrow> bool" where
  "signature_matches signature expected =
     (if length signature \<noteq> length expected then False
      else case timing_safe_equal (buffer_from_hex signature) (buffer_from_hex expected) of
             Some r \<Rightarrow> r
           | None \<Rightarrow> False)"

lemmas platform_defs [js_defs] = hex_val_def timing_safe_equal_def signature_matches_def

section \<open>What the code relies on\<close>

definition is_hex :: "string \<Rightarrow> bool" where
  "is_hex s \<longleftrightarrow> list_all (\<lambda>c. hex_val c \<noteq> None) s"

text \<open>A SHA-256 digest printed in hexadecimal has 64 digits.\<close>

definition hex_digests :: "platform \<Rightarrow> bool" where
  "hex_digests P \<longleftrightarrow> (\<forall>k m. is_hex (hmac_sha256 P k m) \<and> length (hmac_sha256 P k m) = 64)"

text \<open>\<open>z.string().datetime()\<close> accepts what \<open>toISOString\<close> prints for a four-digit year.\<close>

definition accepts_iso :: "platform \<Rightarrow> bool" where
  "accepts_iso P \<longleftrightarrow> (\<forall>ms. iso_range ms \<longrightarrow> datetime_ok P (toISOString ms))"

section \<open>Signature comparison\<close>

lemma hex_val_less: "hex_val c = Some v \<Longrightarrow> v < 16"
  by (auto simp: hex_val_def Let_def split: if_splits)

lemma buffer_from_hex_length: "length (buffer_from_hex s) \<le> length s div 2"
  by (induction s rule: buffer_from_hex.induct) (auto split: option.splits)

lemma buffer_from_hex_full:
  "even (length s) \<Longrightarrow> 2 * length (buffer_from_hex s) = length s \<longleftrightarrow> is_hex s"
proof (induction s rule: buffer_from_hex.induct)
  case (1 a b cs)
  then show ?case
    using buffer_from_hex_length [of cs] by (auto simp: is_hex_def split: option.splits)
qed (auto simp: is_hex_def)

lemma buffer_from_hex_inj:
  "\<lbrakk>is_hex s; is_hex t; even (length s); length s = length t; buffer_from_hex s = buffer_from_hex t\<rbrakk>
   \<Longrightarrow> map hex_val s = map hex_val t"
proof (induction s arbitrary: t rule: buffer_from_hex.induct)
  case (1 a b cs)
  then obtain a' b' cs' where t: "t = a' # b' # cs'"
    by (metis (no_types, lifting) length_0_conv length_Cons list.exhaust nat.distinct(1) nat.inject)
  obtain x y x' y' where v: "hex_val a = Some x" "hex_val b = Some y" "hex_val a' = Some x'" "hex_val b' = Some y'"
    using "1.prems" t by (auto simp: is_hex_def)
  have eq: "16 * x + y = 16 * x' + y'" and rest: "buffer_from_hex cs = buffer_from_hex cs'"
    using "1.prems"(5) by (simp_all add: t v)
  have "y < 16" "y' < 16" using v hex_val_less by blast+
  with eq have x: "x = x'" by linarith
  with eq have y: "y = y'" by simp
  have "map hex_val cs = map hex_val cs'"
    by (rule "1.IH") (use "1.prems" t v rest in \<open>auto simp: is_hex_def\<close>)
  with x y show ?case by (simp add: t v)
qed auto

lemma buffer_from_hex_cong: "map hex_val s = map hex_val t \<Longrightarrow> buffer_from_hex s = buffer_from_hex t"
proof (induction s arbitrary: t rule: buffer_from_hex.induct)
  case (1 a b cs)
  then obtain a' b' cs' where t: "t = a' # b' # cs'" by (auto simp: Cons_eq_map_conv)
  with 1 show ?case by (auto split: option.splits)
qed (auto simp: Cons_eq_map_conv)

text \<open>
  Against a well-formed digest the comparison accepts exactly the digest itself, up to the case
  of its letters: nothing shorter, longer or with a non-hexadecimal tail gets through.
\<close>

lemma signature_matches_iff:
  assumes "is_hex e" "even (length e)"
  shows "signature_matches s e \<longleftrightarrow> map hex_val s = map hex_val e"
proof
  assume m: "signature_matches s e"
  then have len: "length s = length e" and buf: "buffer_from_hex s = buffer_from_hex e"
    by (auto simp: signature_matches_def timing_safe_equal_def split: if_splits)
  have "is_hex s"
    using buffer_from_hex_full [of s] buffer_from_hex_full [of e] len buf assms by simp
  then show "map hex_val s = map hex_val e"
    using buffer_from_hex_inj assms len buf by metis
next
  assume "map hex_val s = map hex_val e"
  then show "signature_matches s e"
    using buffer_from_hex_cong [of s e] map_eq_imp_length_eq [of hex_val s hex_val e]
    by (simp add: signature_matches_def timing_safe_equal_def)
qed

lemma signature_matches_refl [simp]: "signature_matches s s"
  by (simp add: signature_matches_def timing_safe_equal_def)

section \<open>A platform to evaluate witnesses on\<close>

text \<open>
  A stand-in that satisfies the two assumptions: every digest is the length of its message in a
  64-digit numeral, and both formats accept every non-empty string.
\<close>

definition test_platform :: platform where
  "test_platform =
     \<lparr>hmac_sha256 = (\<lambda>k m. replicate 62 (CHR ''0'') @ padn 2 (length m)),
      sha256 = (\<lambda>m. replicate 62 (CHR ''0'') @ padn 2 (length m)),
      uuid_ok = (\<lambda>s. s \<noteq> []), datetime_ok = (\<lambda>s. s \<noteq> [])\<rparr>"

lemma hex_val_digit_char: "d < 10 \<Longrightarrow> hex_val (digit_char d) = Some d"
  by (simp add: hex_val_def digit_char_def)

lemma is_hex_padn: "is_hex (padn k n)"
  by (induction k arbitrary: n) (auto simp: is_hex_def hex_val_digit_char)

lemma hex_digests_test [simp]: "hex_digests test_platform"
proof -
  have "is_hex (replicate 62 (CHR ''0'') @ padn 2 n)" for n
    using is_hex_padn [of 2 n] by (auto simp: is_hex_def list_all_iff hex_val_def)
  then show ?thesis by (simp add: hex_digests_def test_platform_def)
qed

lemma formats_test [simp]: "uuid_ok test_platform s \<longleftrightarrow> s \<noteq> []" "datetime_ok test_platform s \<longleftrightarrow> s \<noteq> []"
  by (simp_all add: test_platform_def)

lemma accepts_iso_test [simp]: "accepts_iso test_platform"
  by (simp add: accepts_iso_def test_platform_def toISOString_def iso_assemble_def Let_def case_prod_unfold)

end
