(* ===== verification/Leases.thy ===== *)
theory Leases
  imports Platform
begin

text \<open>
  Execution leases: the scope attenuation engine (\<open>services/backend/src/agents/attenuation.ts\<close>),
  the lease issuer (\<open>services/backend/src/leases/lease-issuer.ts\<close>) and the lease schemas
  (\<open>packages/contracts/src/permissions/index.ts\<close>). A lease is a record, the delegated lease
  extends it as the schema does, and a parent lease is either of the two (the code tests
  \<open>'parent_lease_id' in lease\<close>). The issuer's errors are the values of \<open>lease_error\<close>.

  The theory shows that attenuation is exactly set containment of the trimmed scopes, that the
  signature check accepts exactly the digest of the lease's payload, and, through the interface
  \<open>attenuating_authority\<close>, that along any chain of delegations the tenant is constant, the
  scopes and the expiry never grow, and the chain has at most three links.
\<close>

section \<open>Scope attenuation\<close>

record attenuation_result =
  valid :: bool
  unauthorizedScopes :: "string list"
  errorCode :: "string option"
  errorMessage :: "string option"

definition wildcard_scope :: "string \<Rightarrow> bool" where
  "wildcard_scope s \<longleftrightarrow> s = ''*'' \<or> ends_with s ''.*'' \<or> ends_with s '':*''"

text \<open>The loop over the child's scopes, with its accumulator.\<close>

fun collect_unauthorized :: "string list \<Rightarrow> string list \<Rightarrow> string list \<Rightarrow> string list" where
  "collect_unauthorized parentSet acc [] = acc"
| "collect_unauthorized parentSet acc (scope # rest) =
     (if trim scope = [] then collect_unauthorized parentSet (acc @ [scope]) rest
      else let trimmed = trim scope in
        if wildcard_scope trimmed \<and> trimmed \<notin> set parentSet
        then collect_unauthorized parentSet (acc @ [trimmed]) rest
        else if trimmed \<notin> set parentSet then collect_unauthorized parentSet (acc @ [trimmed]) rest
        else collect_unauthorized parentSet acc rest)"

definition verifyScopeAttenuation :: "string list \<Rightarrow> string list \<Rightarrow> attenuation_result" where
  "verifyScopeAttenuation parentScopes childScopes =
     (if parentScopes = [] then
        \<lparr>valid = False, unauthorizedScopes = childScopes, errorCode = Some ''EMPTY_PARENT_SCOPES'',
         errorMessage = Some ''Parent lease contains no granted scopes.''\<rparr>
      else if childScopes = [] then
        \<lparr>valid = False, unauthorizedScopes = [], errorCode = Some ''EMPTY_CHILD_SCOPES'',
         errorMessage = Some ''Child delegation request must specify at least one scope.''\<rparr>
      else
        let parentSet = js_unique (map trim parentScopes);
            unauthorized = collect_unauthorized parentSet [] childScopes
        in if length unauthorized > 0 then
             \<lparr>valid = False, unauthorizedScopes = unauthorized,
              errorCode = Some ''SCOPE_AMPLIFICATION_FORBIDDEN'',
              errorMessage = Some (''Child requested scopes exceed parent lease authority: ['' @
                join '', '' unauthorized @ '']'')\<rparr>
           else \<lparr>valid = True, unauthorizedScopes = [], errorCode = None, errorMessage = None\<rparr>)"

section \<open>Lease headers and their schemas\<close>

record execution_lease_header =
  lease_id :: string
  task_id :: string
  agent_id :: string
  tenant_id :: string
  issued_at :: string
  expires_at :: string
  scopes :: "string list"
  signature :: string
  nonce :: "string option"
  policy_hash :: "string option"

record delegated_lease_header = execution_lease_header +
  parent_lease_id :: string
  parent_task_id :: string
  delegation_depth :: int
  workspace_id :: string

definition ExecutionLeaseHeaderSchema :: "platform \<Rightarrow> 'a execution_lease_header_scheme \<Rightarrow> bool" where
  "ExecutionLeaseHeaderSchema P l \<longleftrightarrow>
     uuid_ok P (lease_id l) \<and> uuid_ok P (task_id l) \<and> agent_id l \<noteq> [] \<and> uuid_ok P (tenant_id l) \<and>
     datetime_ok P (issued_at l) \<and> datetime_ok P (expires_at l) \<and> scopes l \<noteq> [] \<and> signature l \<noteq> []"

definition DelegatedLeaseHeaderSchema :: "platform \<Rightarrow> delegated_lease_header \<Rightarrow> bool" where
  "DelegatedLeaseHeaderSchema P l \<longleftrightarrow>
     ExecutionLeaseHeaderSchema P l \<and> uuid_ok P (parent_lease_id l) \<and> uuid_ok P (parent_task_id l) \<and>
     1 \<le> delegation_depth l \<and> delegation_depth l \<le> 3 \<and> uuid_ok P (workspace_id l)"

section \<open>Signatures\<close>

definition lease_payload :: "'a execution_lease_header_scheme \<Rightarrow> string" where
  "lease_payload lease =
     join '':'' [lease_id lease, task_id lease, agent_id lease, tenant_id lease, issued_at lease,
       expires_at lease, join '','' (scopes lease), nullish (nonce lease) [], nullish (policy_hash lease) []]"

definition computeLeaseSignature :: "platform \<Rightarrow> 'a execution_lease_header_scheme \<Rightarrow> string \<Rightarrow> string" where
  "computeLeaseSignature P lease secret = hmac_sha256 P secret (lease_payload lease)"

definition verifyLeaseSignature :: "platform \<Rightarrow> 'a execution_lease_header_scheme \<Rightarrow> string \<Rightarrow> bool" where
  "verifyLeaseSignature P lease secret =
     signature_matches (signature lease) (computeLeaseSignature P lease secret)"

definition delegated_lease_payload :: "delegated_lease_header \<Rightarrow> string" where
  "delegated_lease_payload lease =
     join '':'' [lease_id lease, task_id lease, agent_id lease, tenant_id lease, parent_lease_id lease,
       parent_task_id lease, int_str (delegation_depth lease), workspace_id lease, issued_at lease,
       expires_at lease, join '','' (scopes lease), nullish (nonce lease) [], nullish (policy_hash lease) []]"

definition computeDelegatedLeaseSignature :: "platform \<Rightarrow> delegated_lease_header \<Rightarrow> string \<Rightarrow> string" where
  "computeDelegatedLeaseSignature P lease secret = hmac_sha256 P secret (delegated_lease_payload lease)"

definition verifyDelegatedLeaseSignature :: "platform \<Rightarrow> delegated_lease_header \<Rightarrow> string \<Rightarrow> bool" where
  "verifyDelegatedLeaseSignature P lease secret =
     signature_matches (signature lease) (computeDelegatedLeaseSignature P lease secret)"

section \<open>The lease issuer\<close>

datatype lease_error =
    SecretTooShort
  | ParentSignatureInvalid
  | ParentExpired
  | TenantMismatch string string
  | ParentTaskMismatch string string
  | DepthLimit int
  | DepthSequence int int
  | ScopeEscalation "string option"
  | InvalidTimeValue
  | LeaseSchemaError

record lease_issuer =
  secretKey :: string
  defaultTtlSeconds :: int

record lease_issuer_options =
  leaseSecret :: string
  opt_ttlSeconds :: "int option"
  opt_defaultTtlSeconds :: "int option"

text \<open>The constructor takes a secret and a default TTL, or an options object.\<close>

definition LeaseIssuer :: "string + lease_issuer_options \<Rightarrow> int \<Rightarrow> lease_error + lease_issuer" where
  "LeaseIssuer secretKeyOrOptions ttl =
     (let issuer = (case secretKeyOrOptions of
          Inr opts \<Rightarrow> \<lparr>secretKey = leaseSecret opts,
            defaultTtlSeconds = nullish (opt_ttlSeconds opts) (nullish (opt_defaultTtlSeconds opts) 300)\<rparr>
        | Inl key \<Rightarrow> \<lparr>secretKey = key, defaultTtlSeconds = ttl\<rparr>)
      in if length (secretKey issuer) < 16 then Inl SecretTooShort else Inr issuer)"

record lease_issue_params =
  lip_taskId :: string
  lip_agentId :: string
  lip_tenantId :: string
  lip_scopes :: "string list"
  lip_ttlSeconds :: "int option"
  lip_policyHash :: "string option"
  lip_nonce :: "string option"

text \<open>\<open>now\<close> is the clock in milliseconds, \<open>uuid1\<close> and \<open>uuid2\<close> the two calls of \<open>randomUUID\<close>.\<close>

definition issueLease ::
  "platform \<Rightarrow> lease_issuer \<Rightarrow> lease_issue_params \<Rightarrow> int \<Rightarrow> string \<Rightarrow> string
   \<Rightarrow> lease_error + execution_lease_header" where
  "issueLease P issuer params now uuid1 uuid2 =
     (let ttl = nullish (lip_ttlSeconds params) (defaultTtlSeconds issuer) in
      case (to_iso (Some now), to_iso (Some (now + ttl * 1000))) of
        (Some issuedAt, Some expiresAt) \<Rightarrow>
          (let unsigned = \<lparr>lease_id = uuid1, task_id = lip_taskId params, agent_id = lip_agentId params,
                 tenant_id = lip_tenantId params, issued_at = issuedAt, expires_at = expiresAt,
                 scopes = lip_scopes params, signature = [],
                 nonce = Some (nullish (lip_nonce params) uuid2), policy_hash = lip_policyHash params\<rparr>;
               full = unsigned\<lparr>signature := computeLeaseSignature P unsigned (secretKey issuer)\<rparr>
           in if ExecutionLeaseHeaderSchema P full then Inr full else Inl LeaseSchemaError)
      | _ \<Rightarrow> Inl InvalidTimeValue)"

definition verifyLease :: "platform \<Rightarrow> lease_issuer \<Rightarrow> 'a execution_lease_header_scheme \<Rightarrow> bool" where
  "verifyLease P issuer lease = verifyLeaseSignature P lease (secretKey issuer)"

definition verifyDelegatedLease :: "platform \<Rightarrow> lease_issuer \<Rightarrow> delegated_lease_header \<Rightarrow> bool" where
  "verifyDelegatedLease P issuer lease = verifyDelegatedLeaseSignature P lease (secretKey issuer)"

datatype parent_lease = ExecutionLease execution_lease_header | DelegatedLease delegated_lease_header

text \<open>The fields the two kinds of lease share.\<close>

fun base_lease :: "parent_lease \<Rightarrow> execution_lease_header" where
  "base_lease (ExecutionLease l) = l"
| "base_lease (DelegatedLease l) = execution_lease_header.truncate l"

fun parent_signature_ok :: "platform \<Rightarrow> string \<Rightarrow> parent_lease \<Rightarrow> bool" where
  "parent_signature_ok P secret (ExecutionLease l) = verifyLeaseSignature P l secret"
| "parent_signature_ok P secret (DelegatedLease l) = verifyDelegatedLeaseSignature P l secret"

record delegated_lease_issue_params =
  parentLease :: parent_lease
  parentTaskId :: string
  childTaskId :: string
  childAgentId :: string
  dl_tenantId :: string
  workspaceId :: string
  attenuatedScopes :: "string list"
  delegationDepth :: int
  dl_ttlSeconds :: "int option"
  dl_policyHash :: "string option"
  dl_nonce :: "string option"

text \<open>Guards 1 to 6 of \<open>issueDelegatedLease\<close>, in order; \<open>None\<close> when all of them pass.\<close>

definition delegation_guard ::
  "platform \<Rightarrow> lease_issuer \<Rightarrow> delegated_lease_issue_params \<Rightarrow> int \<Rightarrow> lease_error option" where
  "delegation_guard P issuer params now =
     (let parent = base_lease (parentLease params);
          attenuation = verifyScopeAttenuation (scopes parent) (attenuatedScopes params)
      in if \<not> parent_signature_ok P (secretKey issuer) (parentLease params) then Some ParentSignatureInvalid
         else if num_le (date_parse (expires_at parent)) (Some now) then Some ParentExpired
         else if dl_tenantId params \<noteq> tenant_id parent
         then Some (TenantMismatch (tenant_id parent) (dl_tenantId params))
         else if parentTaskId params \<noteq> task_id parent
         then Some (ParentTaskMismatch (task_id parent) (parentTaskId params))
         else if delegationDepth params > 3 \<or> delegationDepth params < 1
         then Some (DepthLimit (delegationDepth params))
         else if (case parentLease params of
                    DelegatedLease l \<Rightarrow> delegationDepth params \<noteq> delegation_depth l + 1
                  | ExecutionLease _ \<Rightarrow> False)
         then Some (DepthSequence
                (case parentLease params of DelegatedLease l \<Rightarrow> delegation_depth l | ExecutionLease _ \<Rightarrow> 0)
                (delegationDepth params))
         else if \<not> valid attenuation then Some (ScopeEscalation (errorMessage attenuation))
         else None)"

definition issueDelegatedLease ::
  "platform \<Rightarrow> lease_issuer \<Rightarrow> delegated_lease_issue_params \<Rightarrow> int \<Rightarrow> string \<Rightarrow> string
   \<Rightarrow> lease_error + delegated_lease_header" where
  "issueDelegatedLease P issuer params now uuid1 uuid2 =
     (case delegation_guard P issuer params now of
        Some e \<Rightarrow> Inl e
      | None \<Rightarrow>
         (let parent = base_lease (parentLease params);
              requestedTtl = nullish (dl_ttlSeconds params) (defaultTtlSeconds issuer);
              requestedExpiresAt = now + requestedTtl * 1000;
              effectiveExpiresAt = map_option (min requestedExpiresAt) (date_parse (expires_at parent))
          in case (to_iso (Some now), to_iso effectiveExpiresAt) of
               (Some issuedAt, Some expiresAt) \<Rightarrow>
                 (let unsigned = \<lparr>lease_id = uuid1, task_id = childTaskId params,
                        agent_id = childAgentId params, tenant_id = dl_tenantId params,
                        issued_at = issuedAt, expires_at = expiresAt, scopes = attenuatedScopes params,
                        signature = [], nonce = Some (nullish (dl_nonce params) uuid2),
                        policy_hash = dl_policyHash params, parent_lease_id = lease_id parent,
                        parent_task_id = parentTaskId params, delegation_depth = delegationDepth params,
                        workspace_id = workspaceId params\<rparr>;
                      full = unsigned\<lparr>signature := computeDelegatedLeaseSignature P unsigned (secretKey issuer)\<rparr>
                  in if DelegatedLeaseHeaderSchema P full then Inr full else Inl LeaseSchemaError)
             | _ \<Rightarrow> Inl InvalidTimeValue))"

lemmas lease_defs [js_defs] =
  wildcard_scope_def verifyScopeAttenuation_def ExecutionLeaseHeaderSchema_def DelegatedLeaseHeaderSchema_def
  lease_payload_def computeLeaseSignature_def verifyLeaseSignature_def delegated_lease_payload_def
  computeDelegatedLeaseSignature_def verifyDelegatedLeaseSignature_def LeaseIssuer_def issueLease_def
  verifyLease_def verifyDelegatedLease_def delegation_guard_def issueDelegatedLease_def
  to_iso_def time_valid_def


section \<open>Attenuation is containment of the trimmed scopes\<close>

lemma collect_unauthorized_eq:
  "collect_unauthorized ps acc cs =
     acc @ map (\<lambda>s. if trim s = [] then s else trim s) (filter (\<lambda>s. trim s = [] \<or> trim s \<notin> set ps) cs)"
  by (induction ps acc cs rule: collect_unauthorized.induct) (auto simp: Let_def)

definition scope_set :: "string list \<Rightarrow> string set" where
  "scope_set ss = trim ` set ss"

lemma attenuation_valid_iff:
  "valid (verifyScopeAttenuation ps cs) \<longleftrightarrow>
     ps \<noteq> [] \<and> cs \<noteq> [] \<and> scope_set cs \<subseteq> scope_set ps - {[]}"
  by (auto simp: verifyScopeAttenuation_def scope_set_def Let_def collect_unauthorized_eq filter_empty_conv)

lemma attenuation_trans:
  "\<lbrakk>valid (verifyScopeAttenuation as bs); valid (verifyScopeAttenuation bs cs)\<rbrakk>
   \<Longrightarrow> valid (verifyScopeAttenuation as cs)"
  unfolding attenuation_valid_iff by blast

section \<open>Issuing\<close>

lemma issueLease_InrD:
  assumes "issueLease P issuer params now u1 u2 = Inr l"
  shows "verifyLease P issuer l" "ExecutionLeaseHeaderSchema P l"
    and "tenant_id l = lip_tenantId params" "task_id l = lip_taskId params" "agent_id l = lip_agentId params"
    and "scopes l = lip_scopes params" "lease_id l = u1" "issued_at l = toISOString now"
    and "expires_at l = toISOString (now + nullish (lip_ttlSeconds params) (defaultTtlSeconds issuer) * 1000)"
  using assms
  by (auto simp: issueLease_def Let_def to_iso_def verifyLease_def verifyLeaseSignature_def
      computeLeaseSignature_def lease_payload_def split: option.splits if_splits)

lemma issueDelegatedLease_InrD:
  assumes "issueDelegatedLease P issuer params now u1 u2 = Inr l"
  shows "delegation_guard P issuer params now = None"
    and "verifyDelegatedLease P issuer l" "DelegatedLeaseHeaderSchema P l"
    and "tenant_id l = dl_tenantId params" "task_id l = childTaskId params" "agent_id l = childAgentId params"
    and "scopes l = attenuatedScopes params" "delegation_depth l = delegationDepth params"
    and "lease_id l = u1" "parent_lease_id l = lease_id (base_lease (parentLease params))"
    and "parent_task_id l = parentTaskId params" "workspace_id l = workspaceId params"
    and "\<exists>pexp. date_parse (expires_at (base_lease (parentLease params))) = Some pexp \<and>
           expires_at l = toISOString
             (min (now + nullish (dl_ttlSeconds params) (defaultTtlSeconds issuer) * 1000) pexp)"
  using assms
  by (auto simp: issueDelegatedLease_def Let_def to_iso_def verifyDelegatedLease_def
      verifyDelegatedLeaseSignature_def computeDelegatedLeaseSignature_def delegated_lease_payload_def
      split: option.splits if_splits)

lemma delegation_guard_NoneD:
  assumes "delegation_guard P issuer params now = None"
  defines "parent \<equiv> base_lease (parentLease params)"
  shows "parent_signature_ok P (secretKey issuer) (parentLease params)"
    and "\<not> num_le (date_parse (expires_at parent)) (Some now)"
    and "dl_tenantId params = tenant_id parent" "parentTaskId params = task_id parent"
    and "1 \<le> delegationDepth params" "delegationDepth params \<le> 3"
    and "parentLease params = DelegatedLease d \<Longrightarrow> delegationDepth params = delegation_depth d + 1"
    and "valid (verifyScopeAttenuation (scopes parent) (attenuatedScopes params))"
  using assms by (auto simp: delegation_guard_def Let_def split: if_splits parent_lease.splits)

lemma delegation_guard_iff:
  "delegation_guard P issuer params now = None \<longleftrightarrow>
     (let parent = base_lease (parentLease params) in
      parent_signature_ok P (secretKey issuer) (parentLease params)
      \<and> \<not> num_le (date_parse (expires_at parent)) (Some now)
      \<and> dl_tenantId params = tenant_id parent \<and> parentTaskId params = task_id parent
      \<and> 1 \<le> delegationDepth params \<and> delegationDepth params \<le> 3
      \<and> (\<forall>d. parentLease params = DelegatedLease d \<longrightarrow> delegationDepth params = delegation_depth d + 1)
      \<and> valid (verifyScopeAttenuation (scopes parent) (attenuatedScopes params)))"
  by (auto simp: delegation_guard_def Let_def split: parent_lease.splits)

section \<open>Chains of delegations\<close>

text \<open>
  What a chain of delegations promises, from what one link promises: the authority of a lease is
  its tenant, its set of scopes, its expiry and its depth.
\<close>

locale attenuating_authority =
  fixes issued :: "'lease \<Rightarrow> 'lease \<Rightarrow> bool"
    and tenant :: "'lease \<Rightarrow> string"
    and granted :: "'lease \<Rightarrow> string set"
    and expiry :: "'lease \<Rightarrow> int option"
    and depth :: "'lease \<Rightarrow> nat"
    and max_depth :: nat
  assumes issued_tenant: "issued p c \<Longrightarrow> tenant c = tenant p"
    and issued_scopes: "issued p c \<Longrightarrow> granted c \<subseteq> granted p"
    and issued_expiry: "issued p c \<Longrightarrow> num_le (expiry c) (expiry p)"
    and issued_depth: "issued p c \<Longrightarrow> depth p < depth c \<and> depth c \<le> max_depth"
begin

lemma chain_tenant: "issued\<^sup>*\<^sup>* p c \<Longrightarrow> tenant c = tenant p"
  by (induction rule: rtranclp_induct) (auto dest: issued_tenant)

lemma chain_scopes: "issued\<^sup>*\<^sup>* p c \<Longrightarrow> granted c \<subseteq> granted p"
  by (induction rule: rtranclp_induct) (auto dest!: issued_scopes)

lemma num_le_trans: "num_le a b \<Longrightarrow> num_le b c \<Longrightarrow> num_le a c"
  by (cases a; cases b; cases c) auto

lemma chain_expiry: "issued\<^sup>+\<^sup>+ p c \<Longrightarrow> num_le (expiry c) (expiry p)"
  by (induction rule: tranclp_induct) (auto dest: issued_expiry num_le_trans)

lemma chain_depth: "(issued ^^ n) p c \<Longrightarrow> depth p + n \<le> depth c"
proof (induction n arbitrary: c)
  case 0
  then show ?case by simp
next
  case (Suc n)
  then obtain b where "(issued ^^ n) p b" "issued b c" by auto
  with Suc.IH issued_depth show ?case by force
qed

lemma chain_bounded: "(issued ^^ n) p c \<Longrightarrow> n \<le> max_depth"
proof (cases n)
  case (Suc m)
  assume n: "(issued ^^ n) p c"
  then obtain b where "issued b c" unfolding Suc by auto
  with issued_depth have "depth c \<le> max_depth" by blast
  with chain_depth [OF n] show ?thesis by simp
qed simp

end

text \<open>
  One link: a lease issued by \<open>issueDelegatedLease\<close> under the clock \<open>now\<close>, at a request whose
  time to live does not reach back before the epoch.
\<close>

definition delegates :: "platform \<Rightarrow> lease_issuer \<Rightarrow> parent_lease \<Rightarrow> parent_lease \<Rightarrow> bool" where
  "delegates P issuer p c \<longleftrightarrow>
     (\<exists>params now u1 u2 l. parentLease params = p \<and> 0 \<le> now
        \<and> 0 \<le> now + nullish (dl_ttlSeconds params) (defaultTtlSeconds issuer) * 1000
        \<and> issueDelegatedLease P issuer params now u1 u2 = Inr l \<and> c = DelegatedLease l)"

definition lease_expiry :: "parent_lease \<Rightarrow> int option" where
  "lease_expiry l = date_parse (expires_at (base_lease l))"

fun lease_depth :: "parent_lease \<Rightarrow> nat" where
  "lease_depth (ExecutionLease _) = 0"
| "lease_depth (DelegatedLease l) = nat (delegation_depth l)"

lemma truncate_lease [simp]:
  "tenant_id (execution_lease_header.truncate l) = tenant_id l"
  "scopes (execution_lease_header.truncate l) = scopes l"
  "expires_at (execution_lease_header.truncate l) = expires_at l"
  "task_id (execution_lease_header.truncate l) = task_id l"
  "lease_id (execution_lease_header.truncate l) = lease_id l"
  "agent_id (execution_lease_header.truncate l) = agent_id l"
  by (simp_all add: execution_lease_header.truncate_def)

lemma delegated_expiry_le:
  assumes "issueDelegatedLease P issuer params now u1 u2 = Inr l"
    and "0 \<le> now" and "0 \<le> now + nullish (dl_ttlSeconds params) (defaultTtlSeconds issuer) * 1000"
  shows "\<exists>pexp e. date_parse (expires_at (base_lease (parentLease params))) = Some pexp
     \<and> date_parse (expires_at l) = Some e \<and> now < pexp \<and> e \<le> pexp
     \<and> e = min (now + nullish (dl_ttlSeconds params) (defaultTtlSeconds issuer) * 1000) pexp"
proof -
  let ?req = "now + nullish (dl_ttlSeconds params) (defaultTtlSeconds issuer) * 1000"
  note D = issueDelegatedLease_InrD [OF assms(1)]
  obtain pexp where pexp: "date_parse (expires_at (base_lease (parentLease params))) = Some pexp"
    and e: "expires_at l = toISOString (min ?req pexp)" using D(13) by blast
  have "now < pexp" using delegation_guard_NoneD(2) [OF D(1)] pexp by simp
  moreover have "pexp \<le> 253402300799999" using date_parse_upper [OF pexp] .
  ultimately have "iso_range (min ?req pexp)" using assms(2,3) by (auto simp: iso_range_def)
  with pexp e \<open>now < pexp\<close> show ?thesis by auto
qed

interpretation issuer_chain:
  attenuating_authority "delegates P issuer" "\<lambda>l. tenant_id (base_lease l)"
    "\<lambda>l. scope_set (scopes (base_lease l))" lease_expiry lease_depth 3
proof
  fix p c
  assume "delegates P issuer p c"
  then obtain params now u1 u2 l where p: "parentLease params = p" and t: "0 \<le> now"
      "0 \<le> now + nullish (dl_ttlSeconds params) (defaultTtlSeconds issuer) * 1000"
    and i: "issueDelegatedLease P issuer params now u1 u2 = Inr l" and c: "c = DelegatedLease l"
    unfolding delegates_def by blast
  note D = issueDelegatedLease_InrD [OF i]
  note G = delegation_guard_NoneD [OF D(1), unfolded p]
  show "tenant_id (base_lease c) = tenant_id (base_lease p)" using D(4) G(3) c by simp
  show "scope_set (scopes (base_lease c)) \<subseteq> scope_set (scopes (base_lease p))"
    using G(8) D(7) c by (auto simp: attenuation_valid_iff)
  show "num_le (lease_expiry c) (lease_expiry p)"
    using delegated_expiry_le [OF i t] p c by (auto simp: lease_expiry_def)
  have "1 \<le> delegationDepth params" "delegationDepth params \<le> 3" using G(5,6) .
  then show "lease_depth p < lease_depth c \<and> lease_depth c \<le> 3"
    using G(7) D(8) c by (cases p) auto
qed

section \<open>Properties\<close>

subsection \<open>A lease and a delegation to evaluate\<close>

definition test_issuer :: lease_issuer where
  "test_issuer = \<lparr>secretKey = ''0123456789abcdef'', defaultTtlSeconds = 300\<rparr>"

definition test_lease :: execution_lease_header where
  "test_lease =
     (let l = \<lparr>lease_id = ''L1'', task_id = ''T1'', agent_id = ''A1'', tenant_id = ''acme'',
        issued_at = ''2026-01-01T00:00:00.000Z'', expires_at = ''2026-01-01T00:05:00.000Z'',
        scopes = [''fs.read'', ''fs.write''], signature = [], nonce = Some ''N1'', policy_hash = None\<rparr>
      in l\<lparr>signature := computeLeaseSignature test_platform l (secretKey test_issuer)\<rparr>)"

definition test_delegation :: "delegated_lease_issue_params" where
  "test_delegation =
     \<lparr>parentLease = ExecutionLease test_lease, parentTaskId = ''T1'', childTaskId = ''T2'',
      childAgentId = ''A2'', dl_tenantId = ''acme'', workspaceId = ''W1'',
      attenuatedScopes = ['' fs.read''], delegationDepth = 1, dl_ttlSeconds = Some 600,
      dl_policyHash = None, dl_nonce = None\<rparr>"

definition test_child :: delegated_lease_header where
  "test_child =
     (let l = \<lparr>lease_id = ''L2'', task_id = ''T2'', agent_id = ''A2'', tenant_id = ''acme'',
        issued_at = ''2026-01-01T00:01:00.000Z'', expires_at = ''2026-01-01T00:05:00.000Z'',
        scopes = ['' fs.read''], signature = [], nonce = Some ''N2'', policy_hash = None,
        parent_lease_id = ''L1'', parent_task_id = ''T1'', delegation_depth = 1, workspace_id = ''W1''\<rparr>
      in l\<lparr>signature := computeDelegatedLeaseSignature test_platform l (secretKey test_issuer)\<rparr>)"

lemma test_child_issued:
  "issueDelegatedLease test_platform test_issuer test_delegation 1767225660000 ''L2'' ''N2'' = Inr test_child"
  by code_simp

lemma test_delegates: "delegates test_platform test_issuer (ExecutionLease test_lease) (DelegatedLease test_child)"
  unfolding delegates_def
  by (rule exI [of _ test_delegation], rule exI [of _ 1767225660000], rule exI [of _ "''L2''"],
      rule exI [of _ "''N2''"], rule exI [of _ test_child])
    (use test_child_issued in \<open>simp add: test_delegation_def nullish_def\<close>)

subsection \<open>Theorems\<close>

text \<open>C2. Delegation chains. However leases are passed on by \<open>issueDelegatedLease\<close>, a chain of
  \<open>n\<close> delegations below a root lease has at most three links, stays in the root's tenant, never
  holds a scope (after trimming) the root did not hold, and never outlives the root.\<close>

theorem delegation_chain_attenuates:
  assumes "(delegates P issuer ^^ n) root c"
  shows "n \<le> 3 \<and> tenant_id (base_lease c) = tenant_id (base_lease root)
    \<and> scope_set (scopes (base_lease c)) \<subseteq> scope_set (scopes (base_lease root))
    \<and> (n > 0 \<longrightarrow> num_le (lease_expiry c) (lease_expiry root))"
proof -
  have star: "(delegates P issuer)\<^sup>*\<^sup>* root c" using assms by (rule relpowp_imp_rtranclp)
  have "num_le (lease_expiry c) (lease_expiry root)" if "n > 0"
    using that assms by (intro issuer_chain.chain_expiry) (auto simp: tranclp_power)
  with issuer_chain.chain_bounded [OF assms] issuer_chain.chain_tenant [OF star]
    issuer_chain.chain_scopes [OF star]
  show ?thesis by blast
qed

theorem delegation_chain_attenuates_witness:
  "tenant_id test_child = tenant_id test_lease \<and> scope_set (scopes test_child) \<subseteq> scope_set (scopes test_lease)
    \<and> num_le (lease_expiry (DelegatedLease test_child)) (lease_expiry (ExecutionLease test_lease))"
proof -
  have "(delegates test_platform test_issuer ^^ 1) (ExecutionLease test_lease) (DelegatedLease test_child)"
    unfolding relpowp_1 by (rule test_delegates)
  from delegation_chain_attenuates [OF this] show ?thesis by simp
qed

text \<open>Scope attenuation. \<open>verifyScopeAttenuation\<close> accepts exactly when both scope lists are
  non-empty and every child scope, trimmed, is non-blank and one of the parent's trimmed scopes;
  otherwise, when both lists are non-empty, it reports exactly the offending scopes in order. A wildcard in the parent grants
  nothing but itself.\<close>

theorem verifyScopeAttenuation_exact:
  "(valid (verifyScopeAttenuation ps cs) \<longleftrightarrow>
      ps \<noteq> [] \<and> cs \<noteq> [] \<and> (\<forall>s \<in> set cs. trim s \<noteq> [] \<and> trim s \<in> trim ` set ps))
   \<and> (ps \<noteq> [] \<and> cs \<noteq> [] \<longrightarrow> unauthorizedScopes (verifyScopeAttenuation ps cs) =
        map (\<lambda>s. if trim s = [] then s else trim s)
          (filter (\<lambda>s. trim s = [] \<or> trim s \<notin> trim ` set ps) cs))"
  by (auto simp: verifyScopeAttenuation_def Let_def collect_unauthorized_eq filter_empty_conv)

theorem verifyScopeAttenuation_exact_witness:
  "unauthorizedScopes (verifyScopeAttenuation [''fs.*''] [''fs.read'', '' ''])= [''fs.read'', '' '']"
  using verifyScopeAttenuation_exact [of "[''fs.*'']" "[''fs.read'', '' '']"]
  by (simp add: trim_def is_ws_def)

text \<open>Acceptance of a delegation. With well-formed identifiers and a clock and TTL that stay
  in the range of four-digit years, \<open>issueDelegatedLease\<close> issues a lease if and only if the
  parent's signature is authentic, the parent has not expired, tenant and task match it, the depth
  is between 1 and 3 and one more than a delegated parent's, and the scopes attenuate.\<close>

theorem issueDelegatedLease_accepts_iff:
  assumes "hex_digests P" "accepts_iso P" "iso_range now"
    and "iso_range (now + nullish (dl_ttlSeconds params) (defaultTtlSeconds issuer) * 1000)"
    and "\<forall>i \<in> {u1, childTaskId params, dl_tenantId params, workspaceId params, parentTaskId params,
               lease_id (base_lease (parentLease params))}. uuid_ok P i"
    and "childAgentId params \<noteq> []"
  shows "(\<exists>l. issueDelegatedLease P issuer params now u1 u2 = Inr l) \<longleftrightarrow>
    (let parent = base_lease (parentLease params) in
     parent_signature_ok P (secretKey issuer) (parentLease params)
     \<and> (\<exists>e. date_parse (expires_at parent) = Some e \<and> now < e)
     \<and> dl_tenantId params = tenant_id parent \<and> parentTaskId params = task_id parent
     \<and> 1 \<le> delegationDepth params \<and> delegationDepth params \<le> 3
     \<and> (\<forall>d. parentLease params = DelegatedLease d \<longrightarrow> delegationDepth params = delegation_depth d + 1)
     \<and> valid (verifyScopeAttenuation (scopes parent) (attenuatedScopes params)))"
    (is "?issued \<longleftrightarrow> ?ok")
proof
  assume ?issued
  then obtain l where l: "issueDelegatedLease P issuer params now u1 u2 = Inr l" by blast
  note D = issueDelegatedLease_InrD [OF l]
  from D(13) delegation_guard_NoneD [OF D(1)] show ?ok by (auto simp: Let_def)
next
  let ?parent = "base_lease (parentLease params)"
  assume ok: ?ok
  then obtain e where e: "date_parse (expires_at ?parent) = Some e" "now < e" by (auto simp: Let_def)
  have guard: "delegation_guard P issuer params now = None"
    using ok e by (auto simp: delegation_guard_iff Let_def)
  have rng: "iso_range (min (now + nullish (dl_ttlSeconds params) (defaultTtlSeconds issuer) * 1000) e)"
    using assms(3,4) e date_parse_upper [OF e(1)] by (auto simp: iso_range_def)
  then have tv: "time_valid (min (now + nullish (dl_ttlSeconds params) (defaultTtlSeconds issuer) * 1000) e)"
      "time_valid now"
    using assms(3) by (simp_all add: iso_range_def time_valid_def)
  have sig: "hmac_sha256 P k m \<noteq> []" for k m
    using assms(1) unfolding hex_digests_def by (metis list.size(3) zero_neq_numeral)
  have "attenuatedScopes params \<noteq> []" using ok by (auto simp: Let_def attenuation_valid_iff)
  with ok guard e tv sig assms(5,6) rng assms(2) assms(3)
  show ?issued
    by (simp add: issueDelegatedLease_def to_iso_def Let_def DelegatedLeaseHeaderSchema_def
        ExecutionLeaseHeaderSchema_def computeDelegatedLeaseSignature_def accepts_iso_def)
qed

theorem issueDelegatedLease_accepts_iff_witness:
  "\<exists>l. issueDelegatedLease test_platform test_issuer test_delegation 1767225660000 ''L2'' ''N2'' = Inr l"
proof -
  have ok: "verifyLeaseSignature test_platform test_lease (secretKey test_issuer)"
    "date_parse (expires_at test_lease) = Some 1767225900000"
    "valid (verifyScopeAttenuation (scopes test_lease) ['' fs.read''])"
    "tenant_id test_lease = ''acme''" "task_id test_lease = ''T1''" "lease_id test_lease = ''L1''"
    by code_simp+
  show ?thesis
    by (subst issueDelegatedLease_accepts_iff)
      (simp_all add: test_delegation_def iso_range_def nullish_def ok)
qed

text \<open>Signature checks. For 64-digit hexadecimal digests, \<open>verifyLeaseSignature\<close> and
  \<open>verifyDelegatedLeaseSignature\<close> accept exactly the digest of the lease's payload, digit by digit
  (the case of the hexadecimal letters aside): a truncated, extended or non-hexadecimal signature
  is refused although \<open>Buffer.from\<close> silently drops such a tail.\<close>

theorem lease_signature_exact:
  assumes "hex_digests P"
  shows "(verifyLeaseSignature P l k \<longleftrightarrow>
      map hex_val (signature l) = map hex_val (computeLeaseSignature P l k))
    \<and> (verifyDelegatedLeaseSignature P d k \<longleftrightarrow>
      map hex_val (signature d) = map hex_val (computeDelegatedLeaseSignature P d k))"
  using assms
  by (simp add: verifyLeaseSignature_def verifyDelegatedLeaseSignature_def hex_digests_def
      computeLeaseSignature_def computeDelegatedLeaseSignature_def signature_matches_iff)

theorem lease_signature_exact_witness:
  "verifyLeaseSignature test_platform test_lease (secretKey test_issuer)
   \<and> \<not> verifyLeaseSignature test_platform (test_lease\<lparr>signature := ''00''\<rparr>) (secretKey test_issuer)"
proof -
  have "map hex_val (signature test_lease)
      = map hex_val (computeLeaseSignature test_platform test_lease (secretKey test_issuer))"
    "map hex_val (signature (test_lease\<lparr>signature := ''00''\<rparr>))
      \<noteq> map hex_val (computeLeaseSignature test_platform (test_lease\<lparr>signature := ''00''\<rparr>) (secretKey test_issuer))"
    by code_simp+
  then show ?thesis
    using lease_signature_exact [OF hex_digests_test, of test_lease "secretKey test_issuer" test_child]
      lease_signature_exact [OF hex_digests_test, of "test_lease\<lparr>signature := ''00''\<rparr>" "secretKey test_issuer" test_child]
    by blast
qed

lemma join_append_split:
  "join sep (pre @ [a @ sep @ b] @ post) = join sep (pre @ [a, b] @ post)"
proof (induction pre)
  case Nil
  then show ?case by (cases post) auto
next
  case (Cons p ps)
  then show ?case by (cases ps) auto
qed

text \<open>The signed payload joins the scopes with commas without escaping them, so a lease that
  grants the single scope \<open>a,b\<close> and the same lease rewritten to grant the two scopes \<open>a\<close> and
  \<open>b\<close> carry the same valid signature, for both kinds of lease.\<close>

theorem lease_signature_splits_scopes:
  "verifyLeaseSignature P (l\<lparr>scopes := pre @ [a @ '','' @ b] @ post\<rparr>) k
     = verifyLeaseSignature P (l\<lparr>scopes := pre @ [a, b] @ post\<rparr>) k
   \<and> verifyDelegatedLeaseSignature P (d\<lparr>scopes := pre @ [a @ '','' @ b] @ post\<rparr>) k
     = verifyDelegatedLeaseSignature P (d\<lparr>scopes := pre @ [a, b] @ post\<rparr>) k"
proof -
  note split = join_append_split [of "'',''" pre a b post]
  show ?thesis
    unfolding verifyLeaseSignature_def computeLeaseSignature_def lease_payload_def
      verifyDelegatedLeaseSignature_def computeDelegatedLeaseSignature_def delegated_lease_payload_def
    using split by simp
qed

end
