(* ===== verification/Workflow_Dag.thy ===== *)
theory Workflow_Dag
  imports Json Leases
begin

text \<open>
  Workflow graphs: \<open>validateDAGTopology\<close> of \<open>packages/contracts/src/tasks/index.ts\<close>, which the
  backend applies to every submitted graph, and \<open>WorkflowDAGParser\<close> of
  \<open>apps/desktop-agent/src/workflow/dag-parser.ts\<close>, which the desktop agent applies again and
  which also produces the topological order and the tiers of nodes that may run in parallel. Both
  build an adjacency list and a map of in-degrees and run Kahn's algorithm, the first with a queue
  and the second tier by tier; the loops below are those of the code, with their termination proof
  (each visit takes one node from the queue or from the nodes of positive in-degree).

  The theory proves both of them exact: they accept the graphs with distinct nodes, known
  endpoints and no cycle, so the two agree, and the parser's order and tiers respect every edge.
\<close>

section \<open>Data\<close>

record workflow_node =
  nodeId :: string
  capabilityId :: string
  runtimeCategory :: string
  payload :: "(string \<times> json) list"
  dependencies :: "string list option"
  compensationPayload :: "(string \<times> json) list option"
  timeoutMs :: "int option"

record workflow_edge =
  fromNodeId :: string
  toNodeId :: string

text \<open>\<open>WorkflowNodeSchema\<close> and \<open>WorkflowEdgeSchema\<close>.\<close>

definition WorkflowNodeSchema :: "workflow_node \<Rightarrow> bool" where
  "WorkflowNodeSchema n \<longleftrightarrow>
     1 \<le> length (nodeId n) \<and> length (nodeId n) \<le> 64 \<and> capabilityId n \<noteq> [] \<and> runtimeCategory n \<noteq> []
     \<and> (\<forall>d \<in> set (nullish (dependencies n) []). 1 \<le> length d \<and> length d \<le> 64)
     \<and> (case timeoutMs n of None \<Rightarrow> True | Some t \<Rightarrow> 0 < t \<and> t \<le> 300000)"

definition WorkflowEdgeSchema :: "workflow_edge \<Rightarrow> bool" where
  "WorkflowEdgeSchema e \<longleftrightarrow>
     1 \<le> length (fromNodeId e) \<and> length (fromNodeId e) \<le> 64
     \<and> 1 \<le> length (toNodeId e) \<and> length (toNodeId e) \<le> 64"

datatype dag_error =
    EMPTY_WORKFLOW
  | DUPLICATE_NODE_ID string
  | INVALID_DEPENDENCY string string
  | INVALID_NODE_DEPENDENCY string string
  | INVALID_EDGE string string
  | DAG_CYCLE_DETECTED "string option"
  | INVALID_WORKFLOW_ID
  | DAG_TOO_LARGE nat nat
  | INVALID_NODE_ID
  | INVALID_CAPABILITY_ID string

type_synonym degrees = "(string, int) jsmap"
type_synonym adjacency = "(string, string list) jsmap"

section \<open>Building the graph\<close>

text \<open>\<open>inDegree.get(id) || 0\<close> and \<open>adjacencyList.get(id) || []\<close>.\<close>

definition degree_of :: "degrees \<Rightarrow> string \<Rightarrow> int" where
  "degree_of deg v = nullish (js_get deg v) 0"

definition children_of :: "adjacency \<Rightarrow> string \<Rightarrow> string list" where
  "children_of adj v = nullish (js_get adj v) []"

definition link :: "string \<Rightarrow> string \<Rightarrow> degrees \<times> adjacency \<Rightarrow> degrees \<times> adjacency" where
  "link from to g =
     (js_set to (degree_of (fst g) to + 1) (fst g),
      js_set from (children_of (snd g) from @ [to]) (snd g))"

text \<open>The loop over a node's dependencies; \<open>bad\<close> is the error for an unknown one.\<close>

fun add_dependencies ::
  "(string \<Rightarrow> string \<Rightarrow> dag_error) \<Rightarrow> string list \<Rightarrow> string \<Rightarrow> string list \<Rightarrow> degrees \<times> adjacency
   \<Rightarrow> dag_error + degrees \<times> adjacency" where
  "add_dependencies bad ids node [] g = Inr g"
| "add_dependencies bad ids node (dep # deps) g =
     (if dep \<notin> set ids then Inl (bad node dep)
      else if dep = node then Inl (DAG_CYCLE_DETECTED (Some node))
      else add_dependencies bad ids node deps (link dep node g))"

fun add_all_dependencies ::
  "(string \<Rightarrow> string \<Rightarrow> dag_error) \<Rightarrow> string list \<Rightarrow> workflow_node list \<Rightarrow> degrees \<times> adjacency
   \<Rightarrow> dag_error + degrees \<times> adjacency" where
  "add_all_dependencies bad ids [] g = Inr g"
| "add_all_dependencies bad ids (n # ns) g =
     (case add_dependencies bad ids (nodeId n) (nullish (dependencies n) []) g of
        Inl e \<Rightarrow> Inl e
      | Inr g' \<Rightarrow> add_all_dependencies bad ids ns g')"

fun add_edges ::
  "string list \<Rightarrow> workflow_edge list \<Rightarrow> degrees \<times> adjacency \<Rightarrow> dag_error + degrees \<times> adjacency" where
  "add_edges ids [] g = Inr g"
| "add_edges ids (e # es) g =
     (if fromNodeId e \<notin> set ids \<or> toNodeId e \<notin> set ids then Inl (INVALID_EDGE (fromNodeId e) (toNodeId e))
      else if fromNodeId e = toNodeId e then Inl (DAG_CYCLE_DETECTED (Some (fromNodeId e)))
      else add_edges ids es (link (fromNodeId e) (toNodeId e) g))"

section \<open>Kahn's algorithm\<close>

text \<open>The inner loop over the children of a visited node: each loses one in-degree, and those that
  reach zero are pushed.\<close>

fun visit_children :: "string list \<Rightarrow> degrees \<Rightarrow> string list \<Rightarrow> degrees \<times> string list" where
  "visit_children [] deg queue = (deg, queue)"
| "visit_children (child # rest) deg queue =
     (let newDeg = degree_of deg child - 1;
          deg' = js_set child newDeg deg
      in visit_children rest deg' (if newDeg = 0 then queue @ [child] else queue))"

definition sources :: "degrees \<Rightarrow> string list" where
  "sources deg = map fst (filter (\<lambda>(k, d). d = 0) deg)"

definition positive :: "degrees \<Rightarrow> nat" where
  "positive deg = length (filter (\<lambda>(k, d). d > 0) deg)"

lemma positive_decrement:
  "positive (js_set c (degree_of deg c - 1) deg) + (if degree_of deg c = 1 then 1 else 0) = positive deg"
  by (induction deg) (auto simp: positive_def js_set_def degree_of_def js_get_def nullish_def)

lemma visit_children_measure:
  "visit_children cs deg q = (deg', q') \<Longrightarrow> length q' + positive deg' = length q + positive deg"
proof (induction cs arbitrary: deg q)
  case Nil
  then show ?case by simp
next
  case (Cons c cs)
  from Cons.IH [OF Cons.prems [unfolded visit_children.simps Let_def]] positive_decrement [of c deg]
  show ?case by (auto split: if_splits)
qed

function kahn_count :: "adjacency \<Rightarrow> degrees \<Rightarrow> string list \<Rightarrow> nat \<Rightarrow> nat" where
  "kahn_count adj deg [] visited = visited"
| "kahn_count adj deg (current # queue) visited =
     (case visit_children (children_of adj current) deg queue of
        (deg', queue') \<Rightarrow> kahn_count adj deg' queue' (visited + 1))"
  by pat_completeness auto
termination
  by (relation "measure (\<lambda>(adj, deg, queue, visited). length queue + positive deg)")
    (auto dest: visit_children_measure [OF sym])

text \<open>One tier of the parser's loop, and the loop over tiers.\<close>

fun visit_tier :: "adjacency \<Rightarrow> string list \<Rightarrow> degrees \<Rightarrow> string list \<Rightarrow> degrees \<times> string list" where
  "visit_tier adj [] deg nextQueue = (deg, nextQueue)"
| "visit_tier adj (current # rest) deg nextQueue =
     (case visit_children (children_of adj current) deg nextQueue of
        (deg', nextQueue') \<Rightarrow> visit_tier adj rest deg' nextQueue')"

lemma visit_tier_measure:
  "visit_tier adj t deg q = (deg', q') \<Longrightarrow> length q' + positive deg' = length q + positive deg"
proof (induction t arbitrary: deg q)
  case Nil
  then show ?case by simp
next
  case (Cons c t)
  obtain d1 q1 where v: "visit_children (children_of adj c) deg q = (d1, q1)" by force
  with Cons visit_children_measure [OF v] show ?case by force
qed

function kahn_tiers ::
  "adjacency \<Rightarrow> degrees \<Rightarrow> string list \<Rightarrow> string list \<Rightarrow> string list list \<Rightarrow> string list \<times> string list list" where
  "kahn_tiers adj deg queue order tiers =
     (if queue = [] then (order, tiers)
      else case visit_tier adj queue deg [] of
             (deg', nextQueue) \<Rightarrow> kahn_tiers adj deg' nextQueue (order @ queue) (tiers @ [queue]))"
  by pat_completeness auto
termination
  by (relation "measure (\<lambda>(adj, deg, queue, order, tiers). length queue + positive deg)")
    (auto dest: visit_tier_measure [OF sym])

declare kahn_tiers.simps [simp del]

section \<open>validateDAGTopology\<close>

text \<open>The first loop: identifiers must be new; every one gets degree 0 and no children.\<close>

fun register_nodes ::
  "workflow_node list \<Rightarrow> string list \<Rightarrow> degrees \<times> adjacency \<Rightarrow> dag_error + string list \<times> degrees \<times> adjacency" where
  "register_nodes [] ids g = Inr (ids, g)"
| "register_nodes (n # ns) ids g =
     (if nodeId n \<in> set ids then Inl (DUPLICATE_NODE_ID (nodeId n))
      else register_nodes ns (ids @ [nodeId n]) (js_set (nodeId n) 0 (fst g), js_set (nodeId n) [] (snd g)))"

text \<open>\<open>None\<close> is \<open>valid: true\<close>.\<close>

definition validateDAGTopology :: "workflow_node list \<Rightarrow> workflow_edge list \<Rightarrow> dag_error option" where
  "validateDAGTopology nodes edges =
     (if nodes = [] then Some EMPTY_WORKFLOW
      else case register_nodes nodes [] ([], []) of
        Inl e \<Rightarrow> Some e
      | Inr (ids, g0) \<Rightarrow>
         (case add_all_dependencies INVALID_DEPENDENCY ids nodes g0 of
            Inl e \<Rightarrow> Some e
          | Inr g1 \<Rightarrow>
             (case add_edges ids edges g1 of
                Inl e \<Rightarrow> Some e
              | Inr (deg, adj) \<Rightarrow>
                  if kahn_count adj deg (sources deg) 0 \<noteq> length nodes then Some (DAG_CYCLE_DETECTED None)
                  else None)))"

section \<open>WorkflowDAGParser\<close>

record workflow_dag =
  workflowId :: string
  dag_taskId :: string
  leaseHeader :: execution_lease_header
  dag_correlationId :: string
  dag_nodes :: "workflow_node list"
  dag_edges :: "workflow_edge list option"
  dag_expiresAt :: "string option"

fun check_nodes :: "workflow_node list \<Rightarrow> string list \<Rightarrow> dag_error + string list" where
  "check_nodes [] ids = Inr ids"
| "check_nodes (n # ns) ids =
     (if nodeId n = [] then Inl INVALID_NODE_ID
      else if nodeId n \<in> set ids then Inl (DUPLICATE_NODE_ID (nodeId n))
      else if capabilityId n = [] then Inl (INVALID_CAPABILITY_ID (nodeId n))
      else check_nodes ns (ids @ [nodeId n]))"

definition empty_graph :: "string list \<Rightarrow> degrees \<times> adjacency" where
  "empty_graph ids = foldl (\<lambda>(deg, adj) i. (js_set i 0 deg, js_set i [] adj)) ([], []) ids"

definition parseAndValidate ::
  "nat \<Rightarrow> workflow_dag \<Rightarrow> dag_error + string list \<times> string list list" where
  "parseAndValidate maxNodesPerWorkflow dag =
     (let nodes = dag_nodes dag in
      if workflowId dag = [] then Inl INVALID_WORKFLOW_ID
      else if nodes = [] then Inl EMPTY_WORKFLOW
      else if length nodes > maxNodesPerWorkflow then Inl (DAG_TOO_LARGE (length nodes) maxNodesPerWorkflow)
      else case check_nodes nodes [] of
        Inl e \<Rightarrow> Inl e
      | Inr ids \<Rightarrow>
         (case add_all_dependencies INVALID_NODE_DEPENDENCY ids nodes (empty_graph ids) of
            Inl e \<Rightarrow> Inl e
          | Inr g1 \<Rightarrow>
             (case add_edges ids (nullish (dag_edges dag) []) g1 of
                Inl e \<Rightarrow> Inl e
              | Inr (deg, adj) \<Rightarrow>
                 (case kahn_tiers adj deg (sources deg) [] [] of
                    (order, tiers) \<Rightarrow>
                      if length order \<noteq> length nodes then Inl (DAG_CYCLE_DETECTED None)
                      else Inr (order, tiers)))))"


section \<open>The graph the loops build\<close>

type_synonym edge = "string \<times> string"

definition dep_edges :: "workflow_node list \<Rightarrow> edge list" where
  "dep_edges nodes = concat (map (\<lambda>n. map (\<lambda>d. (d, nodeId n)) (nullish (dependencies n) [])) nodes)"

definition graph_edges :: "workflow_node list \<Rightarrow> workflow_edge list \<Rightarrow> edge list" where
  "graph_edges nodes edges = dep_edges nodes @ map (\<lambda>e. (fromNodeId e, toNodeId e)) edges"

definition link_all :: "edge list \<Rightarrow> degrees \<times> adjacency \<Rightarrow> degrees \<times> adjacency" where
  "link_all es g = foldl (\<lambda>g (a, b). link a b g) g es"

text \<open>The maps hold exactly the in-degrees and the children lists of the edge list \<open>E\<close> on the nodes \<open>ids\<close>.\<close>

definition represents :: "degrees \<times> adjacency \<Rightarrow> string list \<Rightarrow> edge list \<Rightarrow> bool" where
  "represents g ids E \<longleftrightarrow>
     js_keys (fst g) = ids
     \<and> (\<forall>v. js_get (fst g) v = (if v \<in> set ids then Some (int (length (filter (\<lambda>e. snd e = v) E))) else None))
     \<and> (\<forall>v. js_get (snd g) v = (if v \<in> set ids then Some (map snd (filter (\<lambda>e. fst e = v) E)) else None))"

lemma represents_link:
  "\<lbrakk>represents g ids E; a \<in> set ids; b \<in> set ids\<rbrakk> \<Longrightarrow> represents (link a b g) ids (E @ [(a, b)])"
  by (auto simp: represents_def link_def js_keys_set js_map_simps degree_of_def children_of_def nullish_def)

lemma represents_link_all:
  "\<lbrakk>represents g ids E; \<forall>(a, b) \<in> set es. a \<in> set ids \<and> b \<in> set ids\<rbrakk> \<Longrightarrow> represents (link_all es g) ids (E @ es)"
proof (induction es arbitrary: g E)
  case Nil
  then show ?case by (simp add: link_all_def)
next
  case (Cons e es)
  obtain a b where e: "e = (a, b)" by force
  have "represents (link a b g) ids (E @ [(a, b)])" using Cons.prems e by (auto intro: represents_link)
  from Cons.IH [OF this] Cons.prems(2) show ?case by (simp add: e link_all_def)
qed

lemma add_dependencies_Inr:
  "add_dependencies bad ids node deps g = Inr g' \<longleftrightarrow>
     (\<forall>d \<in> set deps. d \<in> set ids \<and> d \<noteq> node) \<and> g' = link_all (map (\<lambda>d. (d, node)) deps) g"
  by (induction deps arbitrary: g) (auto simp: link_all_def)

lemma link_all_append: "link_all (es @ fs) g = link_all fs (link_all es g)"
  by (simp add: link_all_def)

lemma dep_edges_Cons:
  "dep_edges (n # ns) = map (\<lambda>d. (d, nodeId n)) (nullish (dependencies n) []) @ dep_edges ns"
  by (simp add: dep_edges_def)

lemma add_all_dependencies_Inr:
  "add_all_dependencies bad ids ns g = Inr g' \<longleftrightarrow>
     (\<forall>e \<in> set (dep_edges ns). fst e \<in> set ids \<and> fst e \<noteq> snd e) \<and> g' = link_all (dep_edges ns) g"
proof (induction ns arbitrary: g)
  case Nil
  then show ?case by (auto simp: dep_edges_def link_all_def)
next
  case (Cons n ns)
  let ?deps = "nullish (dependencies n) []"
  show ?case
  proof (cases "add_dependencies bad ids (nodeId n) ?deps g")
    case (Inl e)
    then have "\<not> (\<forall>d \<in> set ?deps. d \<in> set ids \<and> d \<noteq> nodeId n)"
      using add_dependencies_Inr [of bad ids "nodeId n" ?deps g] by (metis Inl_Inr_False)
    with Inl show ?thesis by (auto simp: dep_edges_Cons ball_Un)
  next
    case (Inr g1)
    then have ok: "\<forall>d \<in> set ?deps. d \<in> set ids \<and> d \<noteq> nodeId n"
      and g1: "link_all (map (\<lambda>d. (d, nodeId n)) ?deps) g = g1"
      by (simp_all add: add_dependencies_Inr)
    have "add_all_dependencies bad ids (n # ns) g = add_all_dependencies bad ids ns g1" by (simp add: Inr)
    moreover have "(\<forall>e \<in> set (dep_edges (n # ns)). fst e \<in> set ids \<and> fst e \<noteq> snd e)
        \<longleftrightarrow> (\<forall>e \<in> set (dep_edges ns). fst e \<in> set ids \<and> fst e \<noteq> snd e)"
      using ok by (auto simp: dep_edges_Cons)
    ultimately show ?thesis using Cons.IH [of g1] by (simp only: dep_edges_Cons link_all_append g1)
  qed
qed

lemma add_edges_Inr:
  "add_edges ids es g = Inr g' \<longleftrightarrow>
     (\<forall>e \<in> set es. fromNodeId e \<in> set ids \<and> toNodeId e \<in> set ids \<and> fromNodeId e \<noteq> toNodeId e)
     \<and> g' = link_all (map (\<lambda>e. (fromNodeId e, toNodeId e)) es) g"
  by (induction es arbitrary: g) (auto simp: link_all_def)

lemma represents_new:
  "\<lbrakk>represents g ids []; i \<notin> set ids\<rbrakk> \<Longrightarrow> represents (js_set i 0 (fst g), js_set i [] (snd g)) (ids @ [i]) []"
  by (auto simp: represents_def js_keys_set js_map_simps)

lemma represents_Nil: "represents ([], []) [] []"
  by (simp add: represents_def js_keys_def js_map_simps)

lemma register_nodes_Inr:
  "\<lbrakk>represents g ids []; distinct ids; register_nodes ns ids g = Inr (ids', g')\<rbrakk> \<Longrightarrow>
   ids' = ids @ map nodeId ns \<and> distinct ids' \<and> represents g' ids' []"
proof (induction ns arbitrary: g ids)
  case (Cons n ns)
  let ?g = "(js_set (nodeId n) 0 (fst g), js_set (nodeId n) [] (snd g))"
  from Cons.prems have new: "nodeId n \<notin> set ids"
    and r: "register_nodes ns (ids @ [nodeId n]) ?g = Inr (ids', g')" by (auto split: if_splits)
  have "represents ?g (ids @ [nodeId n]) []" using represents_new Cons.prems(1) new .
  then have "ids' = (ids @ [nodeId n]) @ map nodeId ns \<and> distinct ids' \<and> represents g' ids' []"
    by (rule Cons.IH [OF _ _ r]) (use Cons.prems(2) new in simp)
  then show ?case by (metis append_Cons append_Nil append_assoc list.map(2))
qed auto

lemma register_nodes_total:
  "distinct (ids @ map nodeId ns) \<Longrightarrow> \<exists>r. register_nodes ns ids g = Inr r"
  by (induction ns arbitrary: ids g) auto

lemma check_nodes_Inr:
  "distinct ids \<Longrightarrow> check_nodes ns ids = Inr ids' \<longleftrightarrow>
     ids' = ids @ map nodeId ns \<and> distinct ids' \<and> (\<forall>n \<in> set ns. nodeId n \<noteq> [] \<and> capabilityId n \<noteq> [])"
  by (induction ns arbitrary: ids) auto

lemma represents_empty_graph: "distinct ids \<Longrightarrow> represents (empty_graph ids) ids []"
proof (induction ids rule: rev_induct)
  case Nil
  then show ?case by (simp add: represents_def empty_graph_def js_keys_def js_map_simps)
next
  case (snoc i ids)
  then show ?case
    using represents_new [of "empty_graph ids" ids i]
    by (auto simp: empty_graph_def case_prod_unfold)
qed

section \<open>Kahn's algorithm is exact\<close>

text \<open>Every predecessor of a node of the list stands before it.\<close>

definition topological :: "edge list \<Rightarrow> string list \<Rightarrow> bool" where
  "topological E order \<longleftrightarrow> (\<forall>i < length order. \<forall>u. (u, order ! i) \<in> set E \<longrightarrow> u \<in> set (take i order))"

text \<open>The in-degree a node still has when the nodes of \<open>visited\<close> have been visited.\<close>

definition remaining :: "edge list \<Rightarrow> string list \<Rightarrow> string \<Rightarrow> int" where
  "remaining E visited v = int (length (filter (\<lambda>e. snd e = v \<and> fst e \<notin> set visited) E))"

definition kahn_inv :: "edge list \<Rightarrow> string list \<Rightarrow> string list \<Rightarrow> string list \<Rightarrow> degrees \<Rightarrow> bool" where
  "kahn_inv E ids visited queue deg \<longleftrightarrow>
     distinct (visited @ queue) \<and> set (visited @ queue) \<subseteq> set ids
     \<and> (\<forall>v. degree_of deg v = (if v \<in> set ids then remaining E visited v else 0))
     \<and> (\<forall>v \<in> set ids. v \<in> set (visited @ queue) \<longleftrightarrow> remaining E visited v = 0)
     \<and> topological E visited"

lemma remaining_zero: "remaining E visited v = 0 \<longleftrightarrow> (\<forall>u. (u, v) \<in> set E \<longrightarrow> u \<in> set visited)"
  by (auto simp: remaining_def filter_empty_conv)

lemma topological_snoc:
  "topological E (order @ [v]) \<longleftrightarrow> topological E order \<and> (\<forall>u. (u, v) \<in> set E \<longrightarrow> u \<in> set order)"
  by (auto simp: topological_def nth_append less_Suc_eq)

lemma degree_of_set: "degree_of (js_set c d deg) v = (if v = c then d else degree_of deg v)"
  by (simp add: degree_of_def js_map_simps nullish_def)

lemma visit_children_spec:
  "visit_children cs deg q = (deg', q') \<Longrightarrow>
   (\<forall>v. degree_of deg' v = degree_of deg v - int (count_list cs v))
   \<and> (\<exists>pushed. q' = q @ pushed \<and> distinct pushed
        \<and> set pushed = {v. 1 \<le> degree_of deg v \<and> degree_of deg v \<le> int (count_list cs v)})"
proof (induction cs arbitrary: deg q)
  case Nil
  then show ?case by auto
next
  case (Cons c cs)
  let ?d = "degree_of deg c - 1"
  let ?deg = "js_set c ?d deg"
  let ?q = "if ?d = 0 then q @ [c] else q"
  have "visit_children cs ?deg ?q = (deg', q')" using Cons.prems by (simp add: Let_def)
  from Cons.IH [OF this] obtain pushed where
    d: "\<forall>v. degree_of deg' v = degree_of ?deg v - int (count_list cs v)"
    and q: "q' = ?q @ pushed" and dist: "distinct pushed"
    and set: "set pushed = {v. 1 \<le> degree_of ?deg v \<and> degree_of ?deg v \<le> int (count_list cs v)}"
    by blast
  let ?p = "if ?d = 0 then c # pushed else pushed"
  have "q' = q @ ?p" using q by simp
  moreover have "distinct ?p" using dist set by (auto simp: degree_of_set)
  moreover have "set ?p = {v. 1 \<le> degree_of deg v \<and> degree_of deg v \<le> int (count_list (c # cs) v)}"
    using set by (auto simp: degree_of_set)
  moreover have "\<forall>v. degree_of deg' v = degree_of deg v - int (count_list (c # cs) v)"
    using d by (auto simp: degree_of_set)
  ultimately show ?case by blast
qed

lemma visit_children_append:
  assumes "visit_children cs deg q = (deg', q')"
  shows "visit_children cs deg (p @ q) = (deg', p @ q')"
  using assms
proof (induction cs arbitrary: deg q)
  case (Cons c cs)
  then show ?case using Cons.IH [of "js_set c (degree_of deg c - 1) deg"] by (auto simp: Let_def split: if_splits)
qed simp

lemma count_children:
  "count_list (map snd (filter (\<lambda>e. fst e = c) E)) v = length (filter (\<lambda>e. snd e = v \<and> fst e = c) E)"
  by (induction E) auto

lemma remaining_visit:
  "c \<notin> set visited \<Longrightarrow> remaining E (visited @ [c]) v =
     remaining E visited v - int (length (filter (\<lambda>e. snd e = v \<and> fst e = c) E))"
  by (induction E) (auto simp: remaining_def)

lemma remaining_nonneg: "0 \<le> remaining E visited v"
  by (simp add: remaining_def)

lemma kahn_step:
  assumes inv: "kahn_inv E ids visited (c # queue) deg"
    and adj: "children_of adj c = map snd (filter (\<lambda>e. fst e = c) E)"
    and ends: "\<forall>e \<in> set E. snd e \<in> set ids"
    and visit: "visit_children (children_of adj c) deg queue = (deg', queue')"
  shows "kahn_inv E ids (visited @ [c]) queue' deg'"
proof -
  let ?cnt = "\<lambda>v. length (filter (\<lambda>e. snd e = v \<and> fst e = c) E)"
  have c: "c \<notin> set visited" "c \<in> set ids" "remaining E visited c = 0"
    and dist: "distinct (visited @ c # queue)" and sub: "set (visited @ c # queue) \<subseteq> set ids"
    and deg: "\<And>v. degree_of deg v = (if v \<in> set ids then remaining E visited v else 0)"
    and ready: "\<And>v. v \<in> set ids \<Longrightarrow> v \<in> set (visited @ c # queue) \<longleftrightarrow> remaining E visited v = 0"
    and topo: "topological E visited"
    using inv by (auto simp: kahn_inv_def)
  note rem = remaining_visit [OF c(1), of E]
  from visit_children_spec [OF visit] obtain pushed where
    deg': "\<And>v. degree_of deg' v = degree_of deg v - int (?cnt v)"
    and q: "queue' = queue @ pushed" and pd: "distinct pushed"
    and ps: "set pushed = {v. 1 \<le> degree_of deg v \<and> degree_of deg v \<le> int (?cnt v)}"
    by (auto simp: adj count_children)
  have none: "?cnt v = 0" if "v \<notin> set ids" for v
    using ends that by (auto simp: filter_empty_conv)
  have in_pushed: "v \<in> set pushed \<longleftrightarrow> v \<in> set ids \<and> remaining E visited v \<noteq> 0 \<and> remaining E (visited @ [c]) v = 0" for v
    using remaining_nonneg [of E visited v] remaining_nonneg [of E "visited @ [c]" v] rem [of v] deg [of v]
    by (auto simp: ps Suc_le_eq)
  have mono: "remaining E visited v = 0 \<Longrightarrow> remaining E (visited @ [c]) v = 0" for v
    by (auto simp: remaining_zero)
  show ?thesis
    unfolding kahn_inv_def
  proof (intro conjI allI ballI)
    show "distinct ((visited @ [c]) @ queue')" using dist pd in_pushed ready sub by (auto simp: q)
    show "set ((visited @ [c]) @ queue') \<subseteq> set ids" using sub in_pushed by (auto simp: q)
    show "degree_of deg' v = (if v \<in> set ids then remaining E (visited @ [c]) v else 0)" for v
      using deg' [of v] deg [of v] rem [of v] none [of v] by simp
    show "v \<in> set ((visited @ [c]) @ queue') \<longleftrightarrow> remaining E (visited @ [c]) v = 0" if "v \<in> set ids" for v
      using that ready [OF that] in_pushed mono by (auto simp: q)
    show "topological E (visited @ [c])" using topo c(3) by (simp add: topological_snoc remaining_zero)
  qed
qed

lemma represents_children:
  "represents (deg, adj) ids E \<Longrightarrow> c \<in> set ids \<Longrightarrow> children_of adj c = map snd (filter (\<lambda>e. fst e = c) E)"
  by (simp add: represents_def children_of_def nullish_def)

lemma kahn_start:
  assumes "represents (deg, adj) ids E" "distinct ids"
  shows "kahn_inv E ids [] (sources deg) deg"
proof -
  have keys: "map fst deg = ids" using assms(1) by (simp add: represents_def js_keys_def)
  then have wf: "js_map_wf deg" using assms(2) by (simp add: js_map_wf_def)
  have get: "js_get deg v = (if v \<in> set ids then Some (remaining E [] v) else None)" for v
    using assms(1) by (simp add: represents_def remaining_def)
  have src: "v \<in> set (sources deg) \<longleftrightarrow> v \<in> set ids \<and> remaining E [] v = 0" for v
    using js_get_eq_Some [OF wf, of v 0] get [of v] by (auto simp: sources_def image_iff split: if_splits)
  have "distinct (sources deg)"
    using wf unfolding sources_def js_map_wf_def by (rule distinct_map_filter)
  with src get show ?thesis
    by (auto simp: kahn_inv_def topological_def degree_of_def nullish_def)
qed

text \<open>When the queue is empty the nodes left have a predecessor among themselves.\<close>

lemma acyclic_of_topological:
  assumes "topological E order" "distinct order" "\<forall>e \<in> set E. snd e \<in> set order"
  shows "acyclic (set E)"
proof -
  define rank where "rank v = length (takeWhile (\<lambda>x. x \<noteq> v) order)" for v
  have "rank u < rank v" if e: "(u, v) \<in> set E" for u v
  proof -
    obtain i where i: "i < length order" "order ! i = v"
      using assms(3) e by (metis in_set_conv_nth snd_conv)
    have "u \<in> set (take i order)" using assms(1) e i by (auto simp: topological_def)
    then obtain j where j: "j < i" "order ! j = u" by (auto simp: in_set_conv_nth)
    have "takeWhile (\<lambda>x. x \<noteq> order ! k) order = take k order" if "k < length order" for k
      using that assms(2) by (intro takeWhile_eq_take_P_nth) (auto simp: nth_eq_iff_index_eq)
    with i j show ?thesis unfolding rank_def by (metis dual_order.strict_trans length_take min.absorb4)
  qed
  then show ?thesis by (intro acyclicI_order [where f = "\<lambda>v. - int (rank v)"]) auto
qed

lemma kahn_end:
  assumes inv: "kahn_inv E ids order [] deg" and dist: "distinct ids"
    and ends: "\<forall>e \<in> set E. fst e \<in> set ids \<and> snd e \<in> set ids"
  shows "length order = length ids \<longleftrightarrow> acyclic (set E)"
proof
  assume len: "length order = length ids"
  have "distinct order" "set order \<subseteq> set ids" using inv by (auto simp: kahn_inv_def)
  with len dist have "set order = set ids"
    by (metis card_subset_eq distinct_card finite_set)
  then show "acyclic (set E)"
    using inv ends by (intro acyclic_of_topological [of E order]) (auto simp: kahn_inv_def)
next
  assume ac: "acyclic (set E)"
  have sub: "set order \<subseteq> set ids" and od: "distinct order" using inv by (auto simp: kahn_inv_def)
  have "set ids \<subseteq> set order"
  proof (rule ccontr)
    assume "\<not> set ids \<subseteq> set order"
    then obtain x where x: "x \<in> set ids - set order" by blast
    have "wf (set E)" using ac by (simp add: finite_acyclic_wf)
    then obtain z where z: "z \<in> set ids - set order" "\<And>y. (y, z) \<in> set E \<Longrightarrow> y \<notin> set ids - set order"
      using x by (metis wfE_min)
    then have "remaining E order z = 0" using ends by (force simp: remaining_zero)
    with z(1) inv show False by (auto simp: kahn_inv_def)
  qed
  with sub have "set order = set ids" by blast
  then show "length order = length ids" using od dist by (metis distinct_card)
qed


text \<open>The adjacency list is that of \<open>E\<close>, whose edges end in known nodes.\<close>

definition adjacency_ok :: "adjacency \<Rightarrow> string list \<Rightarrow> edge list \<Rightarrow> bool" where
  "adjacency_ok adj ids E \<longleftrightarrow>
     (\<forall>c \<in> set ids. children_of adj c = map snd (filter (\<lambda>e. fst e = c) E)) \<and> (\<forall>e \<in> set E. snd e \<in> set ids)"

lemma kahn_step':
  "\<lbrakk>kahn_inv E ids visited (c # queue) deg; adjacency_ok adj ids E;
    visit_children (children_of adj c) deg queue = (deg', queue')\<rbrakk>
   \<Longrightarrow> kahn_inv E ids (visited @ [c]) queue' deg'"
  by (rule kahn_step) (auto simp: adjacency_ok_def kahn_inv_def)

lemma kahn_count_run:
  "\<lbrakk>kahn_inv E ids visited queue deg; adjacency_ok adj ids E\<rbrakk> \<Longrightarrow>
   \<exists>order deg'. kahn_inv E ids order [] deg' \<and> kahn_count adj deg queue (length visited) = length order"
proof (induction adj deg queue "length visited" arbitrary: visited rule: kahn_count.induct)
  case (1 adj deg)
  then show ?case by auto
next
  case (2 adj deg c queue)
  obtain deg' queue' where v: "visit_children (children_of adj c) deg queue = (deg', queue')" by force
  from 2(1) [OF v [symmetric], of "visited @ [c]"] kahn_step' [OF 2(2,3) v] 2(3)
  show ?case by (simp add: v)
qed

lemma visit_tier_run:
  "\<lbrakk>kahn_inv E ids visited (tier @ next_queue) deg; adjacency_ok adj ids E;
    visit_tier adj tier deg next_queue = (deg', queue')\<rbrakk>
   \<Longrightarrow> kahn_inv E ids (visited @ tier) queue' deg'"
proof (induction tier arbitrary: visited deg next_queue)
  case Nil
  then show ?case by simp
next
  case (Cons c tier)
  obtain d q where v: "visit_children (children_of adj c) deg next_queue = (d, q)" by force
  have "kahn_inv E ids (visited @ [c]) (tier @ q) d"
    using kahn_step' [OF _ Cons.prems(2) visit_children_append [OF v]] Cons.prems(1) by simp
  from Cons.IH [OF this Cons.prems(2)] Cons.prems(3) v show ?case by simp
qed

text \<open>Every node of a tier has all its predecessors in earlier tiers.\<close>

definition layered :: "edge list \<Rightarrow> string list list \<Rightarrow> bool" where
  "layered E tiers \<longleftrightarrow>
     (\<forall>k < length tiers. tiers ! k \<noteq> [] \<and>
        (\<forall>v \<in> set (tiers ! k). \<forall>u. (u, v) \<in> set E \<longrightarrow> u \<in> set (concat (take k tiers))))"

lemma layered_snoc:
  "layered E (tiers @ [t]) \<longleftrightarrow>
     layered E tiers \<and> t \<noteq> [] \<and> (\<forall>v \<in> set t. \<forall>u. (u, v) \<in> set E \<longrightarrow> u \<in> set (concat tiers))"
  by (auto simp: layered_def nth_append less_Suc_eq)

lemma kahn_tiers_run:
  "\<lbrakk>kahn_inv E ids order queue deg; adjacency_ok adj ids E; concat tiers = order; layered E tiers\<rbrakk> \<Longrightarrow>
   \<exists>order' tiers' deg'. kahn_tiers adj deg queue order tiers = (order', tiers')
      \<and> kahn_inv E ids order' [] deg' \<and> concat tiers' = order' \<and> layered E tiers'"
proof (induction adj deg queue order tiers rule: kahn_tiers.induct)
  case (1 adj deg queue order tiers)
  show ?case
  proof (cases "queue = []")
    case True
    then have "kahn_tiers adj deg queue order tiers = (order, tiers)"
      by (subst kahn_tiers.simps) simp
    with True "1.prems" show ?thesis by blast
  next
    case False
    obtain deg' q where v: "visit_tier adj queue deg [] = (deg', q)" by force
    have inv: "kahn_inv E ids (order @ queue) q deg'"
      using visit_tier_run [OF _ "1.prems"(2) v] "1.prems"(1) by simp
    have "\<forall>x \<in> set queue. \<forall>u. (u, x) \<in> set E \<longrightarrow> u \<in> set order"
      using "1.prems"(1) remaining_zero by (fastforce simp: kahn_inv_def)
    then have "layered E (tiers @ [queue])"
      using "1.prems"(3,4) False by (auto simp: layered_snoc)
    with "1.IH" [OF False v [symmetric] inv "1.prems"(2)] "1.prems"(3)
    show ?thesis by (simp add: kahn_tiers.simps [of adj deg queue] v False)
  qed
qed

section \<open>The two checkers\<close>

text \<open>A well-formed acyclic graph: at least one node, distinct identifiers, known endpoints, no cycle.\<close>

definition dag_ok :: "workflow_node list \<Rightarrow> workflow_edge list \<Rightarrow> bool" where
  "dag_ok nodes edges \<longleftrightarrow>
     nodes \<noteq> [] \<and> distinct (map nodeId nodes)
     \<and> (\<forall>e \<in> set (graph_edges nodes edges). fst e \<in> nodeId ` set nodes \<and> snd e \<in> nodeId ` set nodes)
     \<and> acyclic (set (graph_edges nodes edges))"

lemma acyclic_irrefl_edge: "acyclic (set E) \<Longrightarrow> e \<in> set E \<Longrightarrow> fst e \<noteq> snd e"
  by (metis acyclic_def prod.collapse r_into_trancl')

lemma snd_dep_edges: "e \<in> set (dep_edges nodes) \<Longrightarrow> snd e \<in> nodeId ` set nodes"
  by (auto simp: dep_edges_def)

text \<open>What the guarded loops establish, for both checkers.\<close>

lemma graph_built:
  assumes "represents g0 ids []" "distinct ids" "ids = map nodeId nodes"
    and "add_all_dependencies bad ids nodes g0 = Inr g1" "add_edges ids edges g1 = Inr (deg, adj)"
  defines "E \<equiv> graph_edges nodes edges"
  shows "\<forall>e \<in> set E. fst e \<in> set ids \<and> snd e \<in> set ids"
    and "kahn_inv E ids [] (sources deg) deg" "adjacency_ok adj ids E"
proof -
  show ends: "\<forall>e \<in> set E. fst e \<in> set ids \<and> snd e \<in> set ids"
    using assms(3-5) snd_dep_edges
    by (auto simp: E_def graph_edges_def add_all_dependencies_Inr add_edges_Inr)
  have "(deg, adj) = link_all E g0"
    using assms(4,5) by (simp add: add_all_dependencies_Inr add_edges_Inr E_def graph_edges_def link_all_append)
  moreover have "represents (link_all E g0) ids ([] @ E)"
    by (rule represents_link_all [OF assms(1)]) (use ends in auto)
  ultimately have r: "represents (deg, adj) ids E" by simp
  show "kahn_inv E ids [] (sources deg) deg" by (rule kahn_start [OF r assms(2)])
  show "adjacency_ok adj ids E" using represents_children [OF r] ends by (simp add: adjacency_ok_def)
qed

lemma graph_built_total:
  assumes "dag_ok nodes edges"
  shows "\<exists>deg adj. (case add_all_dependencies bad (map nodeId nodes) nodes g0 of
      Inl e \<Rightarrow> Inl e | Inr g1 \<Rightarrow> add_edges (map nodeId nodes) edges g1) = Inr (deg, adj)"
proof -
  let ?E = "graph_edges nodes edges"
  have "\<forall>e \<in> set ?E. fst e \<in> nodeId ` set nodes \<and> snd e \<in> nodeId ` set nodes \<and> fst e \<noteq> snd e"
    using assms acyclic_irrefl_edge unfolding dag_ok_def by blast
  then have "add_all_dependencies bad (map nodeId nodes) nodes g0 = Inr (link_all (dep_edges nodes) g0)"
    and "add_edges (map nodeId nodes) edges g = Inr (link_all (map (\<lambda>e. (fromNodeId e, toNodeId e)) edges) g)" for g
    by (auto simp: add_all_dependencies_Inr add_edges_Inr graph_edges_def ball_Un)
  then show ?thesis by (metis (no_types, lifting) old.sum.simps(6) surj_pair)
qed

lemma validate_none_iff: "validateDAGTopology nodes edges = None \<longleftrightarrow> dag_ok nodes edges"
proof
  assume v: "validateDAGTopology nodes edges = None"
  then obtain ids g0 g1 deg adj where ne: "nodes \<noteq> []"
    and r: "register_nodes nodes [] ([], []) = Inr (ids, g0)"
    and d: "add_all_dependencies INVALID_DEPENDENCY ids nodes g0 = Inr g1"
    and e: "add_edges ids edges g1 = Inr (deg, adj)"
    and k: "kahn_count adj deg (sources deg) 0 = length nodes"
    by (auto simp: validateDAGTopology_def split: if_splits sum.splits)
  have ids: "ids = map nodeId nodes" "distinct ids" "represents g0 ids []"
    using register_nodes_Inr [OF represents_Nil _ r] by auto
  note b = graph_built [OF ids(3,2,1) d e]
  obtain order deg' where o: "kahn_inv (graph_edges nodes edges) ids order [] deg'"
    "kahn_count adj deg (sources deg) 0 = length order"
    using kahn_count_run [OF b(2,3)] by auto
  have "acyclic (set (graph_edges nodes edges))"
    using kahn_end [OF o(1) ids(2) b(1)] k o(2) ids(1) by simp
  with ne ids(1,2) b(1) show "dag_ok nodes edges" by (auto simp: dag_ok_def)
next
  assume ok: "dag_ok nodes edges"
  let ?E = "graph_edges nodes edges"
  have ne: "nodes \<noteq> []" and dist: "distinct (map nodeId nodes)" and ac: "acyclic (set ?E)" using ok by (auto simp: dag_ok_def)
  obtain ids g0 where r: "register_nodes nodes [] ([], []) = Inr (ids, g0)"
    using register_nodes_total [of "[]" nodes] dist by force
  have ids: "ids = map nodeId nodes" "represents g0 ids []" "distinct ids"
    using register_nodes_Inr [OF represents_Nil _ r] by auto
  obtain g1 deg adj where d: "add_all_dependencies INVALID_DEPENDENCY ids nodes g0 = Inr g1"
    and e: "add_edges ids edges g1 = Inr (deg, adj)"
    using graph_built_total [OF ok, of INVALID_DEPENDENCY g0] ids(1) by (auto split: sum.splits)
  note b = graph_built [OF ids(2,3,1) d e]
  obtain order deg' where o: "kahn_inv ?E ids order [] deg'" "kahn_count adj deg (sources deg) 0 = length order"
    using kahn_count_run [OF b(2,3)] by auto
  have "length order = length nodes" using kahn_end [OF o(1) ids(3) b(1)] ac ids(1) by simp
  with ne r d e o(2) show "validateDAGTopology nodes edges = None"
    by (simp add: validateDAGTopology_def)
qed

text \<open>What the parser requires of the graph beyond its topology.\<close>

definition parser_requires :: "nat \<Rightarrow> workflow_dag \<Rightarrow> bool" where
  "parser_requires m dag \<longleftrightarrow>
     workflowId dag \<noteq> [] \<and> length (dag_nodes dag) \<le> m
     \<and> (\<forall>n \<in> set (dag_nodes dag). nodeId n \<noteq> [] \<and> capabilityId n \<noteq> [])"

definition all_edges :: "workflow_dag \<Rightarrow> edge list" where
  "all_edges dag = graph_edges (dag_nodes dag) (nullish (dag_edges dag) [])"

lemma parse_Inr:
  assumes "parseAndValidate m dag = Inr (order, tiers)"
  shows "parser_requires m dag" "dag_ok (dag_nodes dag) (nullish (dag_edges dag) [])"
    and "distinct order" "set order = nodeId ` set (dag_nodes dag)" "topological (all_edges dag) order"
    and "concat tiers = order" "layered (all_edges dag) tiers"
proof -
  let ?nodes = "dag_nodes dag" and ?edges = "nullish (dag_edges dag) []"
  from assms obtain ids g1 deg adj where w: "workflowId dag \<noteq> []" and ne: "?nodes \<noteq> []" and m: "length ?nodes \<le> m"
    and c: "check_nodes ?nodes [] = Inr ids"
    and d: "add_all_dependencies INVALID_NODE_DEPENDENCY ids ?nodes (empty_graph ids) = Inr g1"
    and e: "add_edges ids ?edges g1 = Inr (deg, adj)"
    and k: "kahn_tiers adj deg (sources deg) [] [] = (order, tiers)" and l: "length order = length ?nodes"
    by (auto simp: parseAndValidate_def Let_def split: if_splits sum.splits prod.splits)
  have ids: "ids = map nodeId ?nodes" "distinct ids" "\<forall>n \<in> set ?nodes. nodeId n \<noteq> [] \<and> capabilityId n \<noteq> []"
    using check_nodes_Inr [of "[]" ?nodes ids] c by auto
  then show "parser_requires m dag" using w m by (simp add: parser_requires_def)
  note b = graph_built [OF represents_empty_graph [OF ids(2)] ids(2,1) d e]
  obtain deg' where o: "kahn_inv (all_edges dag) ids order [] deg'" "concat tiers = order" "layered (all_edges dag) tiers"
    using kahn_tiers_run [OF b(2,3), of "[]"] k by (auto simp: layered_def all_edges_def)
  show "distinct order" "topological (all_edges dag) order" "concat tiers = order" "layered (all_edges dag) tiers"
    using o by (simp_all add: kahn_inv_def)
  have "set order \<subseteq> set ids" "distinct order" using o(1) by (auto simp: kahn_inv_def)
  then show "set order = nodeId ` set ?nodes"
    using l ids(1,2) by (metis List.finite_set card_subset_eq distinct_card length_map list.set_map)
  have "acyclic (set (all_edges dag))"
    using kahn_end [OF o(1) ids(2)] b(1) l ids(1) by (simp add: all_edges_def)
  then show "dag_ok ?nodes ?edges" using ne ids b(1) by (auto simp: dag_ok_def all_edges_def)
qed

lemma parse_total:
  assumes "parser_requires m dag" "dag_ok (dag_nodes dag) (nullish (dag_edges dag) [])"
  shows "\<exists>order tiers. parseAndValidate m dag = Inr (order, tiers)"
proof -
  let ?nodes = "dag_nodes dag" and ?edges = "nullish (dag_edges dag) []"
  let ?ids = "map nodeId ?nodes"
  have ne: "?nodes \<noteq> []" and dist: "distinct ?ids" and ac: "acyclic (set (graph_edges ?nodes ?edges))"
    using assms(2) by (auto simp: dag_ok_def)
  have c: "check_nodes ?nodes [] = Inr ?ids"
    using check_nodes_Inr [of "[]" ?nodes ?ids] dist assms(1) by (auto simp: parser_requires_def)
  obtain g1 deg adj where d: "add_all_dependencies INVALID_NODE_DEPENDENCY ?ids ?nodes (empty_graph ?ids) = Inr g1"
    and e: "add_edges ?ids ?edges g1 = Inr (deg, adj)"
    using graph_built_total [OF assms(2), of INVALID_NODE_DEPENDENCY "empty_graph ?ids"] by (auto split: sum.splits)
  note b = graph_built [OF represents_empty_graph [OF dist] dist refl d e]
  obtain order tiers deg' where o: "kahn_tiers adj deg (sources deg) [] [] = (order, tiers)"
    "kahn_inv (graph_edges ?nodes ?edges) ?ids order [] deg'"
    using kahn_tiers_run [OF b(2,3), of "[]"] by (auto simp: layered_def)
  have "length order = length ?nodes" using kahn_end [OF o(2) dist b(1)] ac by simp
  with assms(1) ne c d e o(1) show ?thesis
    by (simp add: parseAndValidate_def parser_requires_def not_less)
qed

text \<open>A checker of workflow graphs: it accepts the well-formed graphs that meet its own limits.\<close>

locale dag_checker =
  fixes accepts :: "'w \<Rightarrow> bool"
    and limits :: "'w \<Rightarrow> bool"
    and graph_of :: "'w \<Rightarrow> workflow_node list \<times> workflow_edge list"
  assumes accepts_iff: "accepts w \<longleftrightarrow> limits w \<and> dag_ok (fst (graph_of w)) (snd (graph_of w))"
begin

lemma accepted_acyclic: "accepts w \<Longrightarrow> acyclic (set (graph_edges (fst (graph_of w)) (snd (graph_of w))))"
  by (simp add: accepts_iff dag_ok_def)

lemma accepted_has_source:
  assumes "accepts w"
  shows "\<exists>n \<in> set (fst (graph_of w)). \<forall>u. (u, nodeId n) \<notin> set (graph_edges (fst (graph_of w)) (snd (graph_of w)))"
proof -
  let ?E = "graph_edges (fst (graph_of w)) (snd (graph_of w))" and ?N = "fst (graph_of w)"
  have "wf (set ?E)" using accepted_acyclic [OF assms] by (simp add: finite_acyclic_wf)
  moreover have "nodeId (hd ?N) \<in> nodeId ` set ?N"
    using assms by (simp add: accepts_iff dag_ok_def)
  ultimately obtain z where "z \<in> nodeId ` set ?N" "\<And>y. (y, z) \<in> set ?E \<Longrightarrow> y \<notin> nodeId ` set ?N"
    by (metis wfE_min)
  moreover have "y \<in> nodeId ` set ?N" if "(y, z) \<in> set ?E" for y
    using assms that unfolding accepts_iff dag_ok_def by force
  ultimately show ?thesis by blast
qed

end

interpretation backend_topology:
  dag_checker "\<lambda>(ns, es). validateDAGTopology ns es = None" "\<lambda>_. True" "\<lambda>w. w"
  by unfold_locales (auto simp: validate_none_iff)

interpretation agent_parser:
  dag_checker "\<lambda>dag. \<exists>r. parseAndValidate m dag = Inr r" "parser_requires m"
    "\<lambda>dag. (dag_nodes dag, nullish (dag_edges dag) [])"
  by unfold_locales (auto dest: parse_Inr(1,2) parse_total)

section \<open>Properties\<close>

definition test_node :: "string \<Rightarrow> string list \<Rightarrow> workflow_node" where
  "test_node i deps = \<lparr>nodeId = i, capabilityId = ''fs.read'', runtimeCategory = ''fs'', payload = [],
     dependencies = Some deps, compensationPayload = None, timeoutMs = None\<rparr>"

definition test_dag :: workflow_dag where
  "test_dag = \<lparr>workflowId = ''W'', dag_taskId = ''T'', leaseHeader = test_lease, dag_correlationId = ''T'',
     dag_nodes = [test_node ''d'' [''b'', ''c''], test_node ''b'' [''a''], test_node ''c'' [''a''], test_node ''a'' []],
     dag_edges = Some [\<lparr>fromNodeId = ''b'', toNodeId = ''c''\<rparr>], dag_expiresAt = None\<rparr>"

text \<open>C6. Validation of submitted graphs. \<open>validateDAGTopology\<close> accepts exactly the graphs that have
  a node, distinct node identifiers, dependencies and edges between known nodes only, and no cycle
  through dependencies and edges together.\<close>

theorem validateDAGTopology_exact:
  "validateDAGTopology nodes edges = None \<longleftrightarrow>
     nodes \<noteq> [] \<and> distinct (map nodeId nodes)
     \<and> (\<forall>e \<in> set (graph_edges nodes edges). fst e \<in> nodeId ` set nodes \<and> snd e \<in> nodeId ` set nodes)
     \<and> acyclic (set (graph_edges nodes edges))"
  using validate_none_iff by (simp add: dag_ok_def)

theorem validateDAGTopology_exact_witness:
  "acyclic (set (graph_edges (dag_nodes test_dag) (the (dag_edges test_dag))))"
proof -
  have "validateDAGTopology (dag_nodes test_dag) (the (dag_edges test_dag)) = None" by code_simp
  then show ?thesis unfolding validateDAGTopology_exact by blast
qed

text \<open>C7. Execution order. When the agent's parser accepts a workflow, the order it returns lists every
  node once with all its predecessors before it, and the tiers cut that order into non-empty groups
  such that every predecessor of a node lies in an earlier tier: the nodes of one tier are
  independent and may run in parallel.\<close>

theorem parseAndValidate_order:
  assumes "parseAndValidate m dag = Inr (order, tiers)"
  shows "distinct order \<and> set order = nodeId ` set (dag_nodes dag) \<and> topological (all_edges dag) order
    \<and> concat tiers = order \<and> layered (all_edges dag) tiers"
  using parse_Inr [OF assms] by blast

theorem parseAndValidate_order_witness:
  "topological (all_edges test_dag) [''a'', ''b'', ''c'', ''d''] \<and>
   layered (all_edges test_dag) [[''a''], [''b''], [''c''], [''d'']]"
proof -
  have "parseAndValidate 50 test_dag = Inr ([''a'', ''b'', ''c'', ''d''], [[''a''], [''b''], [''c''], [''d'']])"
    by code_simp
  from parseAndValidate_order [OF this] show ?thesis by blast
qed

text \<open>C8. Backend and agent agree. Every graph the backend's validation accepts, with the node
  schema's non-empty identifiers and at most the agent's maximum of nodes, is accepted by the
  agent's parser; and the parser accepts nothing the backend would refuse.\<close>

theorem parser_agrees_with_backend:
  "(\<exists>r. parseAndValidate m dag = Inr r) \<longleftrightarrow>
     workflowId dag \<noteq> [] \<and> length (dag_nodes dag) \<le> m
     \<and> (\<forall>n \<in> set (dag_nodes dag). nodeId n \<noteq> [] \<and> capabilityId n \<noteq> [])
     \<and> validateDAGTopology (dag_nodes dag) (nullish (dag_edges dag) []) = None"
  using agent_parser.accepts_iff [of m dag]
    backend_topology.accepts_iff [of "(dag_nodes dag, nullish (dag_edges dag) [])"]
  by (simp add: parser_requires_def)

theorem parser_agrees_with_backend_witness:
  "\<exists>r. parseAndValidate 50 test_dag = Inr r"
  by (subst parser_agrees_with_backend) code_simp

end
