(* ===== verification/Policy.thy ===== *)
theory Policy
  imports Leases
begin

text \<open>
  The policy decision point (\<open>services/policy/src\<close>: the reference evaluator, its request and
  result types and the decision evidence) and the desktop agent's lease boundary
  (\<open>apps/desktop-agent/src/permissions/lease-boundary.ts\<close>), which admits a lease only after the
  schema, the signature, the tenant, the expiry, the scope and the policy agree.

  An evaluation reads the clock twice (\<open>evaluatedAt\<close> and the expiry check), so the operations
  take both readings. The interface \<open>fail_closed\<close> states what its clients rely on: a decision
  that allows has an authenticated subject of the resource's tenant and an allowing rule.
\<close>

section \<open>Requests and decisions\<close>

datatype policy_effect = ALLOW | DENY

fun effect_str :: "policy_effect \<Rightarrow> string" where
  "effect_str ALLOW = ''ALLOW''"
| "effect_str DENY = ''DENY''"

record identity_principal =
  principal_type :: string
  userId :: "string option"
  serviceId :: "string option"
  deviceId :: "string option"
  roles :: "string list option"
  principal_scopes :: "string list option"

record authenticated_context =
  principal :: identity_principal
  ctx_tenantId :: string
  ctx_workspaceId :: "string option"
  issuedAt :: "string option"
  expiresAt :: "string option"
  rawTokenHash :: "string option"

record policy_action =
  actionName :: string
  requiredScope :: "string option"
  requiredRole :: "string option"

record policy_resource =
  resourceType :: string
  resourceId :: string
  resource_tenantId :: "string option"

record policy_evaluation_context =
  requestId :: string
  correlationId :: string
  requestTimestamp :: string

record policy_decision_request =
  subject :: "authenticated_context option"
  action :: policy_action
  resource :: policy_resource
  context_of :: policy_evaluation_context

record policy_decision_result =
  decisionId :: string
  effect :: policy_effect
  allowed :: bool
  decision_policyVersion :: string
  decision_policyHash :: string
  reason :: string
  evaluatedAt :: string
  decision_requestId :: string
  decision_correlationId :: string

record policy_rule =
  ruleId :: string
  rule_actionName :: string
  rule_resourceType :: string
  rule_requiredRole :: "string option"
  rule_requiredScope :: "string option"
  rule_effect :: policy_effect

record policy_snapshot =
  policyVersion :: string
  policyHash :: string
  createdAt :: string
  rules :: "policy_rule list"

record policy_config =
  defaultPolicyVersion :: string
  enforceStrictScopeMatching :: bool
  failClosedOnMissingPolicy :: bool
  auditEvidenceEnabled :: bool

section \<open>The reference evaluator\<close>

text \<open>\<open>stringify\<close> is \<open>JSON.stringify\<close> on the rules; only its digest is kept.\<close>

definition ReferencePolicyEvaluator ::
  "platform \<Rightarrow> (policy_rule list \<Rightarrow> string) \<Rightarrow> policy_config \<Rightarrow> policy_rule list \<Rightarrow> int \<Rightarrow> policy_snapshot" where
  "ReferencePolicyEvaluator P stringify config initialRules now =
     \<lparr>policyVersion = defaultPolicyVersion config,
      policyHash = sha256 P (defaultPolicyVersion config @ '':'' @ stringify initialRules),
      createdAt = toISOString now, rules = initialRules\<rparr>"

text \<open>\<open>new Date(s).getTime()\<close> of an optional string; \<open>undefined\<close> gives \<open>NaN\<close>.\<close>

definition time_of :: "string option \<Rightarrow> int option" where
  "time_of s = Option.bind s date_parse"

definition rule_matches :: "policy_decision_request \<Rightarrow> policy_rule \<Rightarrow> bool" where
  "rule_matches request r \<longleftrightarrow>
     (rule_actionName r = ''*'' \<or> rule_actionName r = actionName (action request))
     \<and> (rule_resourceType r = ''*'' \<or> rule_resourceType r = resourceType (resource request))"

text \<open>\<open>a || b\<close> on optional strings.\<close>

definition either_str :: "string option \<Rightarrow> string option \<Rightarrow> string option" where
  "either_str a b = (if truthy a then a else b)"

definition quoted :: "string \<Rightarrow> string" where
  "quoted s = CHR 0x27 # s @ [CHR 0x27]"

text \<open>The branches of \<open>evaluate\<close>: the effect and the reason.\<close>

definition decide ::
  "policy_config \<Rightarrow> policy_snapshot \<Rightarrow> policy_decision_request \<Rightarrow> int \<Rightarrow> policy_effect \<times> string" where
  "decide config snapshot request now =
     (case subject request of
        None \<Rightarrow> (DENY, ''DENY: Authenticated identity context is missing.'')
      | Some sub \<Rightarrow>
        if num_le (time_of (expiresAt sub)) (Some now)
        then (DENY, ''DENY: Authenticated identity context has expired.'')
        else if truthy (resource_tenantId (resource request))
                \<and> resource_tenantId (resource request) \<noteq> Some (ctx_tenantId sub)
        then (DENY, ''DENY: Cross-tenant access violation. Subject tenant '' @ quoted (ctx_tenantId sub)
                @ '' cannot access resource tenant '' @ quoted (the (resource_tenantId (resource request))) @ ''.'')
        else
          let p = principal sub;
              subject_roles = (if principal_type p = ''USER'' then nullish (roles p) [] else []);
              subject_scopes = (if principal_type p \<noteq> ''USER'' then nullish (principal_scopes p) [] else [])
          in case find (rule_matches request) (rules snapshot) of
               None \<Rightarrow> (DENY, ''DENY: No matching policy rule for action '' @ quoted (actionName (action request))
                 @ '' on resource '' @ quoted (resourceType (resource request)) @ ''.'')
             | Some rule \<Rightarrow>
                 let role = either_str (requiredRole (action request)) (rule_requiredRole rule);
                     scope = either_str (requiredScope (action request)) (rule_requiredScope rule)
                 in if truthy role \<and> the role \<notin> set subject_roles
                    then (DENY, ''DENY: Subject lacks required role '' @ quoted (the role) @ ''.'')
                    else if enforceStrictScopeMatching config \<and> truthy scope \<and> the scope \<notin> set subject_scopes
                    then (DENY, ''DENY: Subject lacks required scope '' @ quoted (the scope) @ ''.'')
                    else (rule_effect rule,
                      (if rule_effect rule = ALLOW
                       then ''ALLOW: Action '' @ quoted (actionName (action request)) @ '' permitted by policy rule ''
                       else ''DENY: Action '' @ quoted (actionName (action request)) @ '' denied by policy rule '')
                      @ quoted (ruleId rule) @ ''.''))"

definition evaluate ::
  "policy_config \<Rightarrow> policy_snapshot \<Rightarrow> policy_decision_request \<Rightarrow> string \<Rightarrow> int \<Rightarrow> int \<Rightarrow> policy_decision_result" where
  "evaluate config snapshot request uuid now1 now2 =
     (let (eff, why) = decide config snapshot request now2 in
      \<lparr>decisionId = uuid, effect = eff, allowed = (eff = ALLOW),
       decision_policyVersion = policyVersion snapshot, decision_policyHash = policyHash snapshot,
       reason = why, evaluatedAt = toISOString now1,
       decision_requestId = requestId (context_of request),
       decision_correlationId = correlationId (context_of request)\<rparr>)"

section \<open>Decision evidence\<close>

record decision_evidence =
  evidenceId :: string
  ev_decisionId :: string
  ev_effect :: string
  principalId :: "string option"
  principalType :: string
  ev_tenantId :: string
  ev_actionName :: string
  ev_resourceType :: string
  ev_resourceId :: string
  ev_policyVersion :: string
  ev_policyHash :: string
  ev_requestId :: string
  ev_correlationId :: string
  timestamp :: string
  ev_reason :: string

definition evidence_principal :: "authenticated_context option \<Rightarrow> string option" where
  "evidence_principal s =
     (case s of
        None \<Rightarrow> Some ''UNAUTHENTICATED''
      | Some c \<Rightarrow> if principal_type (principal c) = ''USER'' then userId (principal c)
                 else if principal_type (principal c) = ''SERVICE'' then serviceId (principal c)
                 else deviceId (principal c))"

definition createDecisionEvidence ::
  "policy_decision_request \<Rightarrow> policy_decision_result \<Rightarrow> string \<Rightarrow> decision_evidence" where
  "createDecisionEvidence request result uuid =
     \<lparr>evidenceId = uuid, ev_decisionId = decisionId result, ev_effect = effect_str (effect result),
      principalId = evidence_principal (subject request),
      principalType = (case subject request of None \<Rightarrow> ''NONE'' | Some c \<Rightarrow> principal_type (principal c)),
      ev_tenantId = (case subject request of None \<Rightarrow> ''NONE'' | Some c \<Rightarrow> ctx_tenantId c),
      ev_actionName = actionName (action request), ev_resourceType = resourceType (resource request),
      ev_resourceId = resourceId (resource request), ev_policyVersion = decision_policyVersion result,
      ev_policyHash = decision_policyHash result, ev_requestId = decision_requestId result,
      ev_correlationId = decision_correlationId result, timestamp = evaluatedAt result,
      ev_reason = reason result\<rparr>"

section \<open>The lease boundary of the desktop agent\<close>

datatype lease_rejection =
    MALFORMED_LEASE
  | INVALID_LEASE_SIGNATURE
  | TENANT_MISMATCH string string
  | LEASE_EXPIRED string
  | SCOPE_NOT_GRANTED string "string list"
  | POLICY_DENIED string

record lease_boundary =
  boundary_config :: policy_config
  boundary_snapshot :: policy_snapshot
  boundary_secret :: "string option"

text \<open>The clock is read at the expiry check (\<open>now1\<close>), for the request (\<open>now2\<close>) and by the
  evaluator (\<open>now3\<close>, \<open>now4\<close>); the four \<open>randomUUID\<close> calls are arguments.\<close>

definition lease_subject :: "authenticated_context option \<Rightarrow> execution_lease_header \<Rightarrow> authenticated_context" where
  "lease_subject sub lease =
     nullish sub
       \<lparr>principal = \<lparr>principal_type = ''DEVICE'', userId = None, serviceId = None,
          deviceId = Some (agent_id lease), roles = None, principal_scopes = Some (scopes lease)\<rparr>,
        ctx_tenantId = tenant_id lease, ctx_workspaceId = None, issuedAt = Some (issued_at lease),
        expiresAt = Some (expires_at lease), rawTokenHash = Some (signature lease)\<rparr>"

definition lease_request ::
  "authenticated_context option \<Rightarrow> string option \<Rightarrow> execution_lease_header \<Rightarrow> int \<Rightarrow> string \<Rightarrow> string
   \<Rightarrow> policy_decision_request" where
  "lease_request sub required lease now uuid1 uuid2 =
     \<lparr>subject = Some (lease_subject sub lease),
      action = \<lparr>actionName = ''lease:execute'',
                requiredScope = either_str required (Some (hd (scopes lease))), requiredRole = None\<rparr>,
      resource = \<lparr>resourceType = ''agent-execution-plane'', resourceId = lease_id lease,
                  resource_tenantId = Some (tenant_id lease)\<rparr>,
      context_of = \<lparr>requestId = nullish (nonce lease) uuid1, correlationId = nullish (nonce lease) uuid2,
                    requestTimestamp = toISOString now\<rparr>\<rparr>"

definition validateLease ::
  "platform \<Rightarrow> lease_boundary \<Rightarrow> execution_lease_header \<Rightarrow> authenticated_context option \<Rightarrow> string option
   \<Rightarrow> int \<Rightarrow> int \<Rightarrow> int \<Rightarrow> int \<Rightarrow> string \<Rightarrow> string \<Rightarrow> string \<Rightarrow> lease_rejection + execution_lease_header" where
  "validateLease P b lease sub required now1 now2 now3 now4 uuid1 uuid2 uuid3 =
     (if \<not> ExecutionLeaseHeaderSchema P lease then Inl MALFORMED_LEASE
      else if truthy (boundary_secret b) \<and> \<not> verifyLeaseSignature P lease (the (boundary_secret b))
      then Inl INVALID_LEASE_SIGNATURE
      else if (case sub of None \<Rightarrow> False
                 | Some s \<Rightarrow> ctx_tenantId s \<noteq> [] \<and> tenant_id lease \<noteq> ctx_tenantId s)
      then Inl (TENANT_MISMATCH (tenant_id lease) (ctx_tenantId (the sub)))
      else if date_parse (expires_at lease) = None \<or> num_le (date_parse (expires_at lease)) (Some now1)
      then Inl (LEASE_EXPIRED (expires_at lease))
      else if truthy required \<and> the required \<notin> set (scopes lease)
      then Inl (SCOPE_NOT_GRANTED (the required) (scopes lease))
      else
        let decision = evaluate (boundary_config b) (boundary_snapshot b)
              (lease_request sub required lease now2 uuid1 uuid2) uuid3 now3 now4
        in if \<not> allowed decision then Inl (POLICY_DENIED (reason decision)) else Inr lease)"

lemmas policy_defs [js_defs] =
  time_of_def rule_matches_def either_str_def quoted_def decide_def evaluate_def lease_subject_def
  lease_request_def validateLease_def

section \<open>Lemmas\<close>

lemma truthy_either_str: "truthy (either_str a b) \<longleftrightarrow> truthy a \<or> truthy b"
  by (simp add: either_str_def)

text \<open>What a permit needs of the subject: the credentials the matched rule and the action require.\<close>

definition credentials_ok :: "policy_config \<Rightarrow> policy_decision_request \<Rightarrow> identity_principal \<Rightarrow> policy_rule \<Rightarrow> bool" where
  "credentials_ok config request p rule \<longleftrightarrow>
     (let role = either_str (requiredRole (action request)) (rule_requiredRole rule);
          scope = either_str (requiredScope (action request)) (rule_requiredScope rule)
      in (truthy role \<longrightarrow> principal_type p = ''USER'' \<and> the role \<in> set (nullish (roles p) []))
       \<and> (enforceStrictScopeMatching config \<and> truthy scope \<longrightarrow>
            principal_type p \<noteq> ''USER'' \<and> the scope \<in> set (nullish (principal_scopes p) [])))"

lemma decide_ALLOW_iff:
  "fst (decide config snapshot request now) = ALLOW \<longleftrightarrow>
     (\<exists>sub rule. subject request = Some sub
        \<and> \<not> num_le (time_of (expiresAt sub)) (Some now)
        \<and> (truthy (resource_tenantId (resource request)) \<longrightarrow>
             resource_tenantId (resource request) = Some (ctx_tenantId sub))
        \<and> find (rule_matches request) (rules snapshot) = Some rule
        \<and> credentials_ok config request (principal sub) rule \<and> rule_effect rule = ALLOW)"
  unfolding decide_def credentials_ok_def Let_def by (auto split: option.splits)

lemma allowed_evaluate: "allowed (evaluate config snapshot request u n1 n2) \<longleftrightarrow>
    fst (decide config snapshot request n2) = ALLOW"
  by (simp add: evaluate_def case_prod_unfold Let_def)

text \<open>The contract the clients of a policy evaluator rely on.\<close>

locale fail_closed =
  fixes permits :: "policy_decision_request \<Rightarrow> bool"
  assumes permits_subject: "permits r \<Longrightarrow> subject r \<noteq> None"
    and permits_tenant: "\<lbrakk>permits r; subject r = Some s; truthy (resource_tenantId (resource r))\<rbrakk>
      \<Longrightarrow> resource_tenantId (resource r) = Some (ctx_tenantId s)"
begin

lemma unauthenticated_denied: "subject r = None \<Longrightarrow> \<not> permits r"
  using permits_subject by blast

lemma cross_tenant_denied:
  "\<lbrakk>subject r = Some s; resource_tenantId (resource r) = Some t; t \<noteq> []; t \<noteq> ctx_tenantId s\<rbrakk> \<Longrightarrow> \<not> permits r"
  using permits_tenant [of r s] by auto

lemma lease_request_tenant:
  "\<lbrakk>permits (lease_request sub required lease n u1 u2); tenant_id lease \<noteq> []\<rbrakk>
   \<Longrightarrow> ctx_tenantId (lease_subject sub lease) = tenant_id lease"
  using permits_tenant [of "lease_request sub required lease n u1 u2" "lease_subject sub lease"]
  by (auto simp: lease_request_def)

end

interpretation reference: fail_closed "\<lambda>r. allowed (evaluate config snapshot r u n1 n2)"
  by unfold_locales (auto simp: allowed_evaluate decide_ALLOW_iff)

section \<open>Properties\<close>

definition test_rule :: policy_rule where
  "test_rule = \<lparr>ruleId = ''r1'', rule_actionName = ''*'', rule_resourceType = ''*'',
     rule_requiredRole = None, rule_requiredScope = None, rule_effect = ALLOW\<rparr>"

definition test_config :: policy_config where
  "test_config = \<lparr>defaultPolicyVersion = ''v1'', enforceStrictScopeMatching = True,
     failClosedOnMissingPolicy = True, auditEvidenceEnabled = True\<rparr>"

definition test_boundary :: lease_boundary where
  "test_boundary = \<lparr>boundary_config = test_config,
     boundary_snapshot = ReferencePolicyEvaluator test_platform (\<lambda>_. ''[]'') test_config [test_rule] 0,
     boundary_secret = Some (secretKey test_issuer)\<rparr>"



text \<open>An authenticated context without a readable \<open>expiresAt\<close> never expires for the
  evaluator: \<open>NaN <= Date.now()\<close> is false, so the check meant to fail closed passes, and an
  otherwise permitted request is allowed at every time.\<close>

theorem evaluate_unreadable_expiry_never_expires:
  assumes "subject request = Some sub" "time_of (expiresAt sub) = None"
    and "allowed (evaluate config snapshot
           (request\<lparr>subject := Some (sub\<lparr>expiresAt := Some (toISOString later)\<rparr>)\<rparr>) uuid now1 now2)"
  shows "allowed (evaluate config snapshot request uuid' now1' now2')"
  using assms
  by (auto simp: allowed_evaluate decide_ALLOW_iff credentials_ok_def rule_matches_def Let_def
      cong: find_cong)

theorem evaluate_unreadable_expiry_never_expires_witness:
  "allowed (evaluate test_config (boundary_snapshot test_boundary)
     ((lease_request None None test_lease 0 [] [])
        \<lparr>subject := Some ((lease_subject None test_lease)\<lparr>expiresAt := None\<rparr>)\<rparr>) ''u'' 0 99999999999999)"
proof (rule evaluate_unreadable_expiry_never_expires)
  show "allowed (evaluate test_config (boundary_snapshot test_boundary)
      ((lease_request None None test_lease 0 [] [])
        \<lparr>subject := Some ((lease_subject None test_lease)\<lparr>expiresAt := None\<rparr>)\<rparr>
        \<lparr>subject := Some ((lease_subject None test_lease)\<lparr>expiresAt := None\<rparr>
            \<lparr>expiresAt := Some (toISOString 1000)\<rparr>)\<rparr>) ''u'' 0 0)"
    by code_simp
qed (simp_all add: time_of_def)

text \<open>The lease boundary. \<open>validateLease\<close> admits a lease, unchanged, if and only if it matches
  the schema, its signature verifies when a secret is configured, the subject's tenant (when there
  is one) is the lease's, the expiry is readable and in the future, the required scope is granted,
  and the policy allows executing it.\<close>

theorem validateLease_admits_iff:
  "validateLease P b lease sub required n1 n2 n3 n4 u1 u2 u3 = Inr l \<longleftrightarrow>
     l = lease \<and> ExecutionLeaseHeaderSchema P lease
     \<and> (truthy (boundary_secret b) \<longrightarrow> verifyLeaseSignature P lease (the (boundary_secret b)))
     \<and> (\<forall>s. sub = Some s \<and> ctx_tenantId s \<noteq> [] \<longrightarrow> tenant_id lease = ctx_tenantId s)
     \<and> (\<exists>e. date_parse (expires_at lease) = Some e \<and> n1 < e)
     \<and> (truthy required \<longrightarrow> the required \<in> set (scopes lease))
     \<and> allowed (evaluate (boundary_config b) (boundary_snapshot b)
          (lease_request sub required lease n2 u1 u2) u3 n3 n4)"
  unfolding validateLease_def Let_def by (auto split: option.splits if_splits)

theorem validateLease_admits_iff_witness:
  "validateLease test_platform test_boundary test_lease None (Some ''fs.read'')
     1767225660000 1767225660000 1767225660000 1767225660000 [] [] [] = Inr test_lease"
proof -
  have "ExecutionLeaseHeaderSchema test_platform test_lease"
    "verifyLeaseSignature test_platform test_lease (the (boundary_secret test_boundary))"
    "date_parse (expires_at test_lease) = Some 1767225900000" "''fs.read'' \<in> set (scopes test_lease)"
    "allowed (evaluate (boundary_config test_boundary) (boundary_snapshot test_boundary)
       (lease_request None (Some ''fs.read'') test_lease 1767225660000 [] []) [] 1767225660000 1767225660000)"
    by code_simp+
  then show ?thesis by (subst validateLease_admits_iff) simp
qed

text \<open>Tenant isolation of execution. A lease the boundary admits is executed on behalf of a
  subject of the lease's own tenant, whatever subject was presented, even one whose tenant is
  blank.\<close>

theorem validateLease_tenant:
  assumes "validateLease P b lease sub required n1 n2 n3 n4 u1 u2 u3 = Inr l" and "\<not> uuid_ok P []"
  shows "ctx_tenantId (lease_subject sub lease) = tenant_id lease"
proof (rule reference.lease_request_tenant)
  show "allowed (evaluate (boundary_config b) (boundary_snapshot b)
      (lease_request sub required lease n2 u1 u2) u3 n3 n4)"
    using assms(1) unfolding validateLease_def Let_def by (auto split: if_splits)
  have "ExecutionLeaseHeaderSchema P lease" using assms(1) unfolding validateLease_def by (auto split: if_splits)
  then show "tenant_id lease \<noteq> []" using assms(2) by (auto simp: ExecutionLeaseHeaderSchema_def)
qed

theorem validateLease_tenant_witness:
  "ctx_tenantId (lease_subject (Some ((lease_subject None test_lease)\<lparr>rawTokenHash := None\<rparr>)) test_lease)
     = tenant_id test_lease"
proof (rule validateLease_tenant)
  show "validateLease test_platform test_boundary test_lease
     (Some ((lease_subject None test_lease)\<lparr>rawTokenHash := None\<rparr>)) (Some ''fs.read'')
     1767225660000 1767225660000 1767225660000 1767225660000 [] [] [] = Inr test_lease"
    by code_simp
qed simp

end
