(* ===== verification/Receipts.thy ===== *)
theory Receipts
  imports Workflow_Dag Policy "HOL-Library.Char_ord" "HOL-Library.List_Lexorder"
begin

text \<open>
  Execution receipts: their schemas (\<open>packages/contracts/src/tasks/index.ts\<close>) and the receipt
  verifier (\<open>services/backend/src/receipts/receipt-verifier.ts\<close>). A receipt arrives as an
  untyped object, \<open>raw_receipt\<close>, with every field either schema may look at; parsing gives the
  typed receipt or fails. The verifier's checks run in the order of the code, and the text
  \<open>zod\<close> reports for a malformed object is an argument.
\<close>

section \<open>Receipts and their schemas\<close>

datatype receipt_status = SUCCESS | FAILURE | STATUS_CANCELLED

fun status_str :: "receipt_status \<Rightarrow> string" where
  "status_str SUCCESS = ''SUCCESS''"
| "status_str FAILURE = ''FAILURE''"
| "status_str STATUS_CANCELLED = ''CANCELLED''"

record raw_receipt =
  raw_receiptId :: string
  raw_workflowId :: "string option"
  raw_taskId :: string
  raw_leaseId :: string
  raw_agentId :: string
  raw_tenantId :: string
  raw_status :: receipt_status
  raw_exitCode :: "int option"
  raw_completedNodes :: "string list option"
  raw_failedNodes :: "string list option"
  raw_nodeOutputs :: "(string \<times> json) list option"
  raw_evidenceChecksum :: string
  raw_output :: "(string \<times> json) list option"
  raw_errorMessage :: "string option"
  raw_completedAt :: string
  raw_signature :: string

record execution_receipt =
  receiptId :: string
  receipt_taskId :: string
  leaseId :: string
  receipt_agentId :: string
  receipt_tenantId :: string
  status :: receipt_status
  exitCode :: int
  evidenceChecksum :: string
  receipt_output :: "(string \<times> json) list option"
  receipt_errorMessage :: "string option"
  completedAt :: string
  receipt_signature :: string

record workflow_execution_receipt =
  w_receiptId :: string
  w_workflowId :: string
  w_taskId :: string
  w_leaseId :: string
  w_agentId :: string
  w_tenantId :: string
  w_status :: receipt_status
  completedNodes :: "string list"
  failedNodes :: "string list"
  nodeOutputs :: "(string \<times> json) list"
  w_evidenceChecksum :: string
  w_errorMessage :: "string option"
  w_completedAt :: string
  w_signature :: string

text \<open>\<open>/^[a-f0-9]{64}$/\<close>\<close>

definition is_sha256_hex :: "string \<Rightarrow> bool" where
  "is_sha256_hex s \<longleftrightarrow> length s = 64 \<and> list_all (\<lambda>c. c \<in> set ''0123456789abcdef'') s"

definition common_fields_ok :: "platform \<Rightarrow> raw_receipt \<Rightarrow> bool" where
  "common_fields_ok P r \<longleftrightarrow>
     uuid_ok P (raw_receiptId r) \<and> uuid_ok P (raw_taskId r) \<and> uuid_ok P (raw_leaseId r) \<and>
     uuid_ok P (raw_agentId r) \<and> uuid_ok P (raw_tenantId r) \<and> is_sha256_hex (raw_evidenceChecksum r) \<and>
     datetime_ok P (raw_completedAt r) \<and> raw_signature r \<noteq> []"

definition ExecutionReceiptSchema :: "platform \<Rightarrow> raw_receipt \<Rightarrow> execution_receipt option" where
  "ExecutionReceiptSchema P r =
     (if common_fields_ok P r then
        Some \<lparr>receiptId = raw_receiptId r, receipt_taskId = raw_taskId r, leaseId = raw_leaseId r,
          receipt_agentId = raw_agentId r, receipt_tenantId = raw_tenantId r, status = raw_status r,
          exitCode = nullish (raw_exitCode r) 0, evidenceChecksum = raw_evidenceChecksum r,
          receipt_output = raw_output r, receipt_errorMessage = raw_errorMessage r,
          completedAt = raw_completedAt r, receipt_signature = raw_signature r\<rparr>
      else None)"

definition WorkflowExecutionReceiptSchema :: "platform \<Rightarrow> raw_receipt \<Rightarrow> workflow_execution_receipt option" where
  "WorkflowExecutionReceiptSchema P r =
     (case (raw_workflowId r, raw_completedNodes r) of
        (Some wid, Some completed) \<Rightarrow>
          if common_fields_ok P r \<and> uuid_ok P wid then
            Some \<lparr>w_receiptId = raw_receiptId r, w_workflowId = wid, w_taskId = raw_taskId r,
              w_leaseId = raw_leaseId r, w_agentId = raw_agentId r, w_tenantId = raw_tenantId r,
              w_status = raw_status r, completedNodes = completed,
              failedNodes = nullish (raw_failedNodes r) [], nodeOutputs = nullish (raw_nodeOutputs r) [],
              w_evidenceChecksum = raw_evidenceChecksum r, w_errorMessage = raw_errorMessage r,
              w_completedAt = raw_completedAt r, w_signature = raw_signature r\<rparr>
          else None
      | _ \<Rightarrow> None)"

section \<open>Evidence and signatures\<close>

definition computeEvidenceHash :: "platform \<Rightarrow> (string \<times> json) list option \<Rightarrow> string" where
  "computeEvidenceHash P out = sha256 P (stringify (JObj (nullish out [])))"

definition computeReceiptSignature :: "platform \<Rightarrow> execution_receipt \<Rightarrow> string \<Rightarrow> string" where
  "computeReceiptSignature P r secret =
     hmac_sha256 P secret (join '':'' [receiptId r, receipt_taskId r, leaseId r, receipt_agentId r,
       receipt_tenantId r, status_str (status r), int_str (exitCode r), evidenceChecksum r, completedAt r])"

definition computeWorkflowReceiptSignature :: "platform \<Rightarrow> workflow_execution_receipt \<Rightarrow> string \<Rightarrow> string" where
  "computeWorkflowReceiptSignature P r secret =
     hmac_sha256 P secret (join '':'' [w_receiptId r, w_workflowId r, w_taskId r, w_leaseId r, w_agentId r,
       w_tenantId r, status_str (w_status r), join '','' (sort (completedNodes r)), w_evidenceChecksum r,
       w_completedAt r])"

definition verifyReceiptSignature :: "platform \<Rightarrow> execution_receipt \<Rightarrow> string \<Rightarrow> bool" where
  "verifyReceiptSignature P r secret =
     signature_matches (receipt_signature r) (computeReceiptSignature P r secret)"

definition verifyWorkflowReceiptSignature :: "platform \<Rightarrow> workflow_execution_receipt \<Rightarrow> string \<Rightarrow> bool" where
  "verifyWorkflowReceiptSignature P r secret =
     signature_matches (w_signature r) (computeWorkflowReceiptSignature P r secret)"

section \<open>The verifier\<close>

record receipt_expectations =
  expectedTaskId :: string
  expectedWorkflowId :: "string option"
  expectedLeaseId :: "string option"
  expectedAgentId :: string
  expectedTenantId :: string

type_synonym verification = "(string \<times> string) option"

text \<open>A \<open>verification\<close> is \<open>None\<close> for \<open>valid: true\<close>, and otherwise the error code and message.\<close>

definition mismatch :: "string \<Rightarrow> string \<Rightarrow> string \<Rightarrow> string" where
  "mismatch field actual expected =
     ''Receipt '' @ field @ '' '' @ quoted actual @ '' does not match expected '' @ quoted expected @ ''.''"

definition verify_receipt :: "platform \<Rightarrow> string \<Rightarrow> string \<Rightarrow> raw_receipt \<Rightarrow> receipt_expectations \<Rightarrow> verification" where
  "verify_receipt P secret zod_message raw x =
     (case ExecutionReceiptSchema P raw of
        None \<Rightarrow> Some (''MALFORMED_RECEIPT'', ''Receipt schema validation failed: '' @ zod_message)
      | Some r \<Rightarrow>
        if receipt_taskId r \<noteq> expectedTaskId x
        then Some (''TASK_ID_MISMATCH'', mismatch ''task_id'' (receipt_taskId r) (expectedTaskId x))
        else if truthy (expectedLeaseId x) \<and> Some (leaseId r) \<noteq> expectedLeaseId x
        then Some (''LEASE_ID_MISMATCH'', mismatch ''lease_id'' (leaseId r) (the (expectedLeaseId x)))
        else if receipt_tenantId r \<noteq> expectedTenantId x
        then Some (''TENANT_MISMATCH'', mismatch ''tenant_id'' (receipt_tenantId r) (expectedTenantId x))
        else if receipt_agentId r \<noteq> expectedAgentId x
        then Some (''AGENT_ID_MISMATCH'', mismatch ''agent_id'' (receipt_agentId r) (expectedAgentId x))
        else if evidenceChecksum r \<noteq> computeEvidenceHash P (receipt_output r)
        then Some (''EVIDENCE_HASH_MISMATCH'', ''Receipt evidence checksum '' @ quoted (evidenceChecksum r)
               @ '' does not match computed output hash '' @ quoted (computeEvidenceHash P (receipt_output r)) @ ''.'')
        else if \<not> verifyReceiptSignature P r secret
        then Some (''INVALID_RECEIPT_SIGNATURE'', ''Receipt cryptographic signature is invalid or tampered.'')
        else None)"

definition verifyWorkflowReceipt ::
  "platform \<Rightarrow> string \<Rightarrow> string \<Rightarrow> raw_receipt \<Rightarrow> receipt_expectations \<Rightarrow> verification" where
  "verifyWorkflowReceipt P secret zod_message raw x =
     (case WorkflowExecutionReceiptSchema P raw of
        None \<Rightarrow> Some (''MALFORMED_WORKFLOW_RECEIPT'', ''Workflow receipt schema validation failed: '' @ zod_message)
      | Some r \<Rightarrow>
        if w_taskId r \<noteq> expectedTaskId x
        then Some (''TASK_ID_MISMATCH'', mismatch ''task_id'' (w_taskId r) (expectedTaskId x))
        else if truthy (expectedWorkflowId x) \<and> Some (w_workflowId r) \<noteq> expectedWorkflowId x
        then Some (''WORKFLOW_ID_MISMATCH'', mismatch ''workflow_id'' (w_workflowId r) (the (expectedWorkflowId x)))
        else if truthy (expectedLeaseId x) \<and> Some (w_leaseId r) \<noteq> expectedLeaseId x
        then Some (''LEASE_ID_MISMATCH'', mismatch ''lease_id'' (w_leaseId r) (the (expectedLeaseId x)))
        else if w_tenantId r \<noteq> expectedTenantId x
        then Some (''TENANT_MISMATCH'', mismatch ''tenant_id'' (w_tenantId r) (expectedTenantId x))
        else if w_agentId r \<noteq> expectedAgentId x
        then Some (''AGENT_ID_MISMATCH'', mismatch ''agent_id'' (w_agentId r) (expectedAgentId x))
        else if w_evidenceChecksum r \<noteq> computeEvidenceHash P (Some (nodeOutputs r))
        then Some (''EVIDENCE_HASH_MISMATCH'', ''Receipt evidence checksum '' @ quoted (w_evidenceChecksum r)
               @ '' does not match computed nodeOutputs hash ''
               @ quoted (computeEvidenceHash P (Some (nodeOutputs r))) @ ''.'')
        else if \<not> verifyWorkflowReceiptSignature P r secret
        then Some (''INVALID_RECEIPT_SIGNATURE'', ''Workflow receipt cryptographic signature is invalid or tampered.'')
        else None)"

section \<open>Lemmas\<close>

lemma verify_receipt_None:
  assumes "verify_receipt P secret z raw x = None"
  shows "raw_taskId raw = expectedTaskId x" "raw_tenantId raw = expectedTenantId x"
    and "raw_agentId raw = expectedAgentId x"
    and "truthy (expectedLeaseId x) \<Longrightarrow> expectedLeaseId x = Some (raw_leaseId raw)"
    and "\<exists>r. ExecutionReceiptSchema P raw = Some r \<and> verifyReceiptSignature P r secret
           \<and> evidenceChecksum r = computeEvidenceHash P (receipt_output r)"
  using assms unfolding verify_receipt_def
  by (auto simp: ExecutionReceiptSchema_def split: if_splits option.splits)

lemma verifyWorkflowReceipt_None:
  assumes "verifyWorkflowReceipt P secret z raw x = None"
  shows "raw_taskId raw = expectedTaskId x" "raw_tenantId raw = expectedTenantId x"
    and "raw_agentId raw = expectedAgentId x"
    and "truthy (expectedLeaseId x) \<Longrightarrow> expectedLeaseId x = Some (raw_leaseId raw)"
    and "\<exists>r. WorkflowExecutionReceiptSchema P raw = Some r \<and> verifyWorkflowReceiptSignature P r secret
           \<and> w_evidenceChecksum r = computeEvidenceHash P (Some (nodeOutputs r))"
  using assms unfolding verifyWorkflowReceipt_def
  by (auto simp: WorkflowExecutionReceiptSchema_def split: if_splits option.splits)

lemma execution_schema_taskId: "ExecutionReceiptSchema P raw = Some r \<Longrightarrow> receipt_taskId r = raw_taskId raw"
  by (auto simp: ExecutionReceiptSchema_def split: if_splits)

lemma workflow_schema_taskId: "WorkflowExecutionReceiptSchema P raw = Some r \<Longrightarrow> w_taskId r = raw_taskId raw"
  by (auto simp: WorkflowExecutionReceiptSchema_def split: if_splits option.splits)

end
