(* ===== verification/Task_Lifecycle.thy ===== *)
theory Task_Lifecycle
  imports Receipts "HOL-Library.Sublist" Complex_Main
begin

text \<open>
  The three state machines of the system. The backend's task machine
  (\<open>services/backend/src/tasks/state-machine.ts\<close>) and the desktop agent's lifecycle manager
  (\<open>apps/desktop-agent/src/lifecycle/index.ts\<close>) are transition tables; the agent's connection
  machine (\<open>apps/desktop-agent/src/communication/connection-state-machine.ts\<close>) accepts every
  transition but those out of REVOKED, and computes the reconnection back-off. The task machine
  interprets \<open>transition_table\<close> and the connection machine \<open>op_invariant\<close>; delays are rational numbers and \<open>Math.random()\<close> is an
  argument.
\<close>

section \<open>The task state machine\<close>

datatype task_state =
    SUBMITTED | POLICY_EVALUATED | LEASED | DISPATCHED | EXECUTING | AWAITING_APPROVAL
  | RECEIPT_VERIFIED | COMPLETED | FAILED | CANCELLED

fun allowed_transitions :: "task_state \<Rightarrow> task_state list" where
  "allowed_transitions SUBMITTED = [POLICY_EVALUATED, FAILED, CANCELLED]"
| "allowed_transitions POLICY_EVALUATED = [LEASED, FAILED, CANCELLED]"
| "allowed_transitions LEASED = [DISPATCHED, FAILED, CANCELLED]"
| "allowed_transitions DISPATCHED = [EXECUTING, AWAITING_APPROVAL, FAILED, CANCELLED]"
| "allowed_transitions EXECUTING = [RECEIPT_VERIFIED, AWAITING_APPROVAL, FAILED, CANCELLED]"
| "allowed_transitions AWAITING_APPROVAL = [EXECUTING, FAILED, CANCELLED]"
| "allowed_transitions RECEIPT_VERIFIED = [COMPLETED, FAILED]"
| "allowed_transitions COMPLETED = []"
| "allowed_transitions FAILED = []"
| "allowed_transitions CANCELLED = []"

definition canTransition :: "task_state \<Rightarrow> task_state \<Rightarrow> bool" where
  "canTransition currentState targetState \<longleftrightarrow> targetState \<in> set (allowed_transitions currentState)"

definition isTerminal :: "task_state \<Rightarrow> bool" where
  "isTerminal s \<longleftrightarrow> s = COMPLETED \<or> s = FAILED \<or> s = CANCELLED"

record task_error =
  code :: string
  message :: string

record policy_decision_summary =
  pd_allowed :: bool
  pd_reason :: "string option"
  pd_policyVersion :: "string option"
  pd_policyHash :: "string option"

datatype settled_receipt =
    SingleReceipt execution_receipt
  | WorkflowReceipt workflow_execution_receipt

record task_record =
  task_taskId :: string
  task_tenantId :: string
  task_workspaceId :: "string option"
  submittedBy :: string
  title :: string
  targetAgentId :: string
  task_capabilityId :: string
  task_runtimeCategory :: string
  parameters :: "(string \<times> json) list"
  requestedScope :: string
  state :: task_state
  lease :: "execution_lease_header option"
  receipt :: "settled_receipt option"
  task_evidenceChecksum :: "string option"
  isWorkflow :: bool
  task_dag :: "workflow_dag option"
  policyDecision :: "policy_decision_summary option"
  error :: "task_error option"
  task_createdAt :: string
  updatedAt :: string

text \<open>\<open>TaskStateMachineError\<close>: the two states and the reason given.\<close>

datatype transition_error = TaskStateMachineError task_state task_state "string option"

definition transition ::
  "task_record \<Rightarrow> task_state \<Rightarrow> string option \<Rightarrow> int \<Rightarrow> transition_error + task_record" where
  "transition task targetState why now =
     (if \<not> canTransition (state task) targetState
      then Inl (TaskStateMachineError (state task) targetState why)
      else Inr (task\<lparr>state := targetState,
             error := (if targetState = FAILED \<and> truthy why
                       then Some \<lparr>code = ''TASK_EXECUTION_FAILED'', message = the why\<rparr> else error task),
             updatedAt := toISOString now\<rparr>))"

text \<open>A sequence of requested transitions: the first illegal one stops it.\<close>

fun run_transitions ::
  "task_record \<Rightarrow> (task_state \<times> string option \<times> int) list \<Rightarrow> transition_error + task_record" where
  "run_transitions task [] = Inr task"
| "run_transitions task ((target, why, now) # rest) =
     (case transition task target why now of
        Inl e \<Rightarrow> Inl e
      | Inr task' \<Rightarrow> run_transitions task' rest)"

interpretation task_machine: transition_table canTransition isTerminal
  by unfold_locales (auto simp: canTransition_def isTerminal_def)

lemma transition_Inr:
  "transition task target why now = Inr t \<Longrightarrow>
   canTransition (state task) target \<and> state t = target \<and> task_taskId t = task_taskId task
   \<and> task_tenantId t = task_tenantId task \<and> lease t = lease task"
  by (auto simp: transition_def split: if_splits)

text \<open>The states still to be visited on the way to COMPLETED.\<close>

fun milestones :: "task_state \<Rightarrow> task_state list" where
  "milestones SUBMITTED = [POLICY_EVALUATED, LEASED, DISPATCHED, EXECUTING, RECEIPT_VERIFIED, COMPLETED]"
| "milestones POLICY_EVALUATED = [LEASED, DISPATCHED, EXECUTING, RECEIPT_VERIFIED, COMPLETED]"
| "milestones LEASED = [DISPATCHED, EXECUTING, RECEIPT_VERIFIED, COMPLETED]"
| "milestones DISPATCHED = [EXECUTING, RECEIPT_VERIFIED, COMPLETED]"
| "milestones AWAITING_APPROVAL = [EXECUTING, RECEIPT_VERIFIED, COMPLETED]"
| "milestones EXECUTING = [RECEIPT_VERIFIED, COMPLETED]"
| "milestones RECEIPT_VERIFIED = [COMPLETED]"
| "milestones _ = []"

lemma milestones_step:
  "\<lbrakk>canTransition s t; t \<noteq> FAILED; t \<noteq> CANCELLED\<rbrakk> \<Longrightarrow> subseq (milestones s) (t # milestones t)"
  by (cases s) (auto simp: canTransition_def)

lemma run_terminal: "\<lbrakk>isTerminal (state task); run_transitions task steps = Inr t\<rbrakk> \<Longrightarrow> steps = [] \<and> t = task"
proof (cases steps)
  case (Cons s rest)
  assume "isTerminal (state task)" "run_transitions task steps = Inr t"
  with Cons show ?thesis
    by (cases s) (auto simp: transition_def task_machine.terminal_closed)
qed simp

lemma run_milestones:
  "\<lbrakk>run_transitions task steps = Inr t; state t = COMPLETED\<rbrakk> \<Longrightarrow> subseq (milestones (state task)) (map fst steps)"
proof (induction task steps rule: run_transitions.induct)
  case (1 task)
  then show ?case by simp
next
  case (2 task target why now rest)
  then obtain t' where t': "transition task target why now = Inr t'" and run: "run_transitions t' rest = Inr t"
    by (auto split: sum.splits)
  note step = transition_Inr [OF t']
  have alive: "target \<noteq> FAILED" "target \<noteq> CANCELLED"
    using run_terminal [OF _ run] step "2.prems"(2) by (auto simp: isTerminal_def)
  have "subseq (milestones (state task)) (target # milestones target)"
    using milestones_step step alive by blast
  moreover have "subseq (milestones target) (map fst rest)"
    using "2.IH" [OF t' run "2.prems"(2)] step by simp
  ultimately show ?case by (metis list.simps(9) fst_conv subseq_Cons2 subseq_order.order_trans)
qed

definition test_task :: task_record where
  "test_task = \<lparr>task_taskId = ''T1'', task_tenantId = ''acme'', task_workspaceId = None, submittedBy = ''u1'',
     title = ''t'', targetAgentId = ''A1'', task_capabilityId = ''fs.read'', task_runtimeCategory = ''fs'',
     parameters = [], requestedScope = ''fs.read'', state = SUBMITTED, lease = Some test_lease, receipt = None,
     task_evidenceChecksum = None, isWorkflow = False, task_dag = None, policyDecision = None, error = None,
     task_createdAt = ''2026-01-01T00:00:00.000Z'', updatedAt = ''2026-01-01T00:00:00.000Z''\<rparr>"

text \<open>No short cut to completion. However the transitions of a task are requested, a task that
  started in SUBMITTED and is COMPLETED has passed, in this order, through policy evaluation,
  leasing, dispatch, execution and receipt verification.\<close>

theorem task_completion_path:
  assumes "run_transitions task steps = Inr t" "state task = SUBMITTED" "state t = COMPLETED"
  shows "subseq [POLICY_EVALUATED, LEASED, DISPATCHED, EXECUTING, RECEIPT_VERIFIED, COMPLETED] (map fst steps)"
  using run_milestones [OF assms(1,3)] assms(2) by simp

theorem task_completion_path_witness:
  "subseq [POLICY_EVALUATED, LEASED, DISPATCHED, EXECUTING, RECEIPT_VERIFIED, COMPLETED]
     (map fst [(POLICY_EVALUATED, None :: string option, 0 :: int), (LEASED, None, 1), (DISPATCHED, None, 2),
       (AWAITING_APPROVAL, None, 3), (EXECUTING, None, 4), (RECEIPT_VERIFIED, None, 5), (COMPLETED, None, 6)])"
  by (rule task_completion_path [where task = test_task and t = "test_task\<lparr>state := COMPLETED, updatedAt := toISOString 6\<rparr>"])
    (simp_all add: transition_def canTransition_def test_task_def)

text \<open>Terminal states absorb. A COMPLETED, FAILED or CANCELLED task refuses every further
  transition with the error naming both states, and conversely every non-terminal state can still
  fail: a task is never stuck outside the terminal states.\<close>

theorem task_terminal_iff:
  "isTerminal (state task) \<longleftrightarrow>
     (\<forall>target why now. transition task target why now = Inl (TaskStateMachineError (state task) target why))"
  by (cases "state task") (auto simp: isTerminal_def transition_def canTransition_def)

section \<open>The lifecycle of the desktop agent\<close>

datatype agent_state = STARTING | READY | DEGRADED | STOPPING | STOPPED | AGENT_FAILED

fun valid_transitions :: "agent_state \<Rightarrow> agent_state list" where
  "valid_transitions STARTING = [READY, AGENT_FAILED, STOPPING]"
| "valid_transitions READY = [DEGRADED, STOPPING, AGENT_FAILED]"
| "valid_transitions DEGRADED = [READY, STOPPING, AGENT_FAILED]"
| "valid_transitions STOPPING = [STOPPED, AGENT_FAILED]"
| "valid_transitions STOPPED = [STARTING]"
| "valid_transitions AGENT_FAILED = [STARTING, STOPPED]"

definition isReady :: "agent_state \<Rightarrow> bool" where
  "isReady s \<longleftrightarrow> s = READY"

definition isStoppingOrStopped :: "agent_state \<Rightarrow> bool" where
  "isStoppingOrStopped s \<longleftrightarrow> s = STOPPING \<or> s = STOPPED"

datatype lifecycle_error = InvalidLifecycleTransition agent_state agent_state "agent_state list" string

text \<open>\<open>AgentLifecycleManager.transitionTo\<close>: the new current state or the error.\<close>

definition lifecycle_transitionTo :: "agent_state \<Rightarrow> agent_state \<Rightarrow> string option \<Rightarrow> lifecycle_error + agent_state" where
  "lifecycle_transitionTo current nextState why =
     (if nextState \<notin> set (valid_transitions current)
      then Inl (InvalidLifecycleTransition current nextState (valid_transitions current) (or_else why ''unspecified''))
      else Inr nextState)"

definition lifecycle_step :: "agent_state \<Rightarrow> agent_state \<Rightarrow> bool" where
  "lifecycle_step s t \<longleftrightarrow> (\<exists>why. lifecycle_transitionTo s t why = Inr t)"

lemma lifecycle_step_iff: "lifecycle_step s t \<longleftrightarrow> t \<in> set (valid_transitions s)"
  by (auto simp: lifecycle_step_def lifecycle_transitionTo_def)

text \<open>The agent becomes READY only through STARTING or out of DEGRADED, and from every state there
  is a sequence of legal transitions back to READY: the manager cannot lock an agent out.\<close>

theorem agent_lifecycle_recovers:
  "(lifecycle_step s READY \<longrightarrow> s = STARTING \<or> s = DEGRADED) \<and> lifecycle_step\<^sup>*\<^sup>* s READY"
proof
  show "lifecycle_step s READY \<longrightarrow> s = STARTING \<or> s = DEGRADED"
    by (cases s) (auto simp: lifecycle_step_iff)
  have start: "lifecycle_step\<^sup>*\<^sup>* STARTING READY" by (simp add: lifecycle_step_iff r_into_rtranclp)
  then have stopped: "lifecycle_step\<^sup>*\<^sup>* STOPPED READY"
    by (rule converse_rtranclp_into_rtranclp [rotated]) (simp add: lifecycle_step_iff)
  then have stopping: "lifecycle_step\<^sup>*\<^sup>* STOPPING READY"
    by (rule converse_rtranclp_into_rtranclp [rotated]) (simp add: lifecycle_step_iff)
  have "lifecycle_step\<^sup>*\<^sup>* AGENT_FAILED READY"
    using start by (rule converse_rtranclp_into_rtranclp [rotated]) (simp add: lifecycle_step_iff)
  moreover have "lifecycle_step\<^sup>*\<^sup>* DEGRADED READY" by (simp add: lifecycle_step_iff r_into_rtranclp)
  ultimately show "lifecycle_step\<^sup>*\<^sup>* s READY" using start stopped stopping by (cases s) auto
qed

theorem agent_lifecycle_recovers_witness: "lifecycle_step\<^sup>*\<^sup>* AGENT_FAILED READY \<and> \<not> lifecycle_step STOPPED READY"
  using agent_lifecycle_recovers [of AGENT_FAILED] agent_lifecycle_recovers [of STOPPED] by auto

section \<open>The connection machine\<close>

datatype connection_state =
    UNPAIRED | PAIRING | CONNECTING | REGISTERING | CONNECTED_ACTIVE | CONN_DEGRADED | OFFLINE | REVOKED

record backoff_config =
  initialDelayMs :: rat
  maxDelayMs :: rat
  multiplier :: rat

record connection_machine =
  currentState :: connection_state
  attemptCount :: nat
  timerHandle :: "rat option"

definition isConnected :: "connection_machine \<Rightarrow> bool" where
  "isConnected m \<longleftrightarrow> currentState m = CONNECTED_ACTIVE"

definition isOffline :: "connection_machine \<Rightarrow> bool" where
  "isOffline m \<longleftrightarrow> currentState m \<in> {OFFLINE, CONN_DEGRADED, UNPAIRED, REVOKED}"

definition resetAttempts :: "connection_machine \<Rightarrow> connection_machine" where
  "resetAttempts m = m\<lparr>attemptCount := 0\<rparr>"

datatype connection_error = TrustRevoked connection_state

definition connection_transitionTo ::
  "connection_machine \<Rightarrow> connection_state \<Rightarrow> connection_error + connection_machine" where
  "connection_transitionTo m newState =
     (if currentState m = newState then Inr m
      else if currentState m = REVOKED \<and> newState \<noteq> UNPAIRED then Inl (TrustRevoked newState)
      else let m' = m\<lparr>currentState := newState\<rparr>
           in Inr (if newState = CONNECTED_ACTIVE then resetAttempts m' else m'))"

text \<open>\<open>u\<close> is \<open>Math.random()\<close>, in the half-open unit interval.\<close>

definition calculateNextBackoffMs ::
  "backoff_config \<Rightarrow> connection_machine \<Rightarrow> rat \<Rightarrow> connection_machine \<times> rat" where
  "calculateNextBackoffMs cfg m u =
     (let baseDelay = min (maxDelayMs cfg) (initialDelayMs cfg * multiplier cfg ^ attemptCount m);
          jitteredDelay = of_int \<lfloor>u * baseDelay\<rfloor>
      in (m\<lparr>attemptCount := attemptCount m + 1\<rparr>, max (initialDelayMs cfg / 2) jitteredDelay))"

definition cancelScheduledReconnect :: "connection_machine \<Rightarrow> connection_machine" where
  "cancelScheduledReconnect m = m\<lparr>timerHandle := None\<rparr>"

definition scheduleReconnect ::
  "backoff_config \<Rightarrow> connection_machine \<Rightarrow> rat \<Rightarrow> connection_machine \<times> rat" where
  "scheduleReconnect cfg m u =
     (let (m', delayMs) = calculateNextBackoffMs cfg (cancelScheduledReconnect m) u
      in (m'\<lparr>timerHandle := Some delayMs\<rparr>, delayMs))"

text \<open>The public operations as one step; a refused transition leaves the machine as it is, and
  \<open>Fire\<close> is the timer's callback.\<close>

datatype connection_op = TransitionTo connection_state | ScheduleReconnect rat | CancelReconnect | ResetAttempts | Fire

fun connection_step :: "backoff_config \<Rightarrow> connection_machine \<Rightarrow> connection_op \<Rightarrow> connection_machine" where
  "connection_step cfg m (TransitionTo s) = (case connection_transitionTo m s of Inl _ \<Rightarrow> m | Inr m' \<Rightarrow> m')"
| "connection_step cfg m (ScheduleReconnect u) = fst (scheduleReconnect cfg m u)"
| "connection_step cfg m CancelReconnect = cancelScheduledReconnect m"
| "connection_step cfg m ResetAttempts = resetAttempts m"
| "connection_step cfg m Fire = m\<lparr>timerHandle := None\<rparr>"

text \<open>Revocation is kept by every operation that is not a return to UNPAIRED.\<close>

definition keeps_trust :: "connection_op \<Rightarrow> bool" where
  "keeps_trust op \<longleftrightarrow> op \<noteq> TransitionTo UNPAIRED"

definition guarded_step :: "backoff_config \<Rightarrow> connection_machine \<Rightarrow> connection_op \<Rightarrow> connection_machine" where
  "guarded_step cfg m op = (if keeps_trust op then connection_step cfg m op else m)"

interpretation revoked: op_invariant "guarded_step cfg" "\<lambda>m. currentState m = REVOKED"
proof
  fix s :: connection_machine and op
  assume "currentState s = REVOKED"
  then show "currentState (guarded_step cfg s op) = REVOKED"
    by (cases op) (auto simp: guarded_step_def keeps_trust_def connection_transitionTo_def scheduleReconnect_def
        calculateNextBackoffMs_def cancelScheduledReconnect_def resetAttempts_def Let_def split: sum.splits)
qed

lemma guarded_run:
  "\<forall>op \<in> set ops. keeps_trust op \<Longrightarrow> foldl (guarded_step cfg) m ops = foldl (connection_step cfg) m ops"
  by (induction ops arbitrary: m) (auto simp: guarded_step_def)

text \<open>Revoked trust. An agent whose trust is revoked stays REVOKED through any sequence of
  transitions, reconnection attempts, timer events and resets, until it is explicitly unpaired.\<close>

theorem revoked_until_unpaired:
  assumes "currentState m = REVOKED" "TransitionTo UNPAIRED \<notin> set ops"
  shows "currentState (foldl (connection_step cfg) m ops) = REVOKED"
proof -
  have "\<forall>op \<in> set ops. keeps_trust op" using assms(2) by (auto simp: keeps_trust_def)
  with revoked.inv_run [of m cfg ops] assms(1) show ?thesis by (simp add: guarded_run)
qed

definition test_backoff :: backoff_config where
  "test_backoff = \<lparr>initialDelayMs = 1000, maxDelayMs = 60000, multiplier = 2\<rparr>"

theorem revoked_until_unpaired_witness:
  "currentState (foldl (connection_step test_backoff) \<lparr>currentState = REVOKED, attemptCount = 3, timerHandle = None\<rparr>
     [ScheduleReconnect (1/2), Fire, TransitionTo CONNECTING, TransitionTo CONNECTED_ACTIVE]) = REVOKED"
  by (rule revoked_until_unpaired) simp_all

text \<open>Back-off bounds. With a positive initial delay not above the maximum, every delay
  lies between half the initial delay and the maximum, whatever the attempt count and the random
  draw; scheduling counts the attempt and becoming active resets the count.\<close>

theorem backoff_bounds:
  assumes "0 < initialDelayMs cfg" "initialDelayMs cfg \<le> maxDelayMs cfg" "0 \<le> u" "u < 1"
    and "scheduleReconnect cfg m u = (m', d)"
  shows "initialDelayMs cfg / 2 \<le> d \<and> d \<le> maxDelayMs cfg \<and> attemptCount m' = attemptCount m + 1
    \<and> timerHandle m' = Some d
    \<and> (connection_transitionTo m' CONNECTED_ACTIVE = Inr m'' \<and> currentState m' \<noteq> CONNECTED_ACTIVE
        \<longrightarrow> attemptCount m'' = 0)"
proof -
  let ?base = "min (maxDelayMs cfg) (initialDelayMs cfg * multiplier cfg ^ attemptCount m)"
  have d: "d = max (initialDelayMs cfg / 2) (of_int \<lfloor>u * ?base\<rfloor>)"
    and m': "attemptCount m' = attemptCount m + 1" "timerHandle m' = Some d"
    using assms(5) by (auto simp: scheduleReconnect_def calculateNextBackoffMs_def cancelScheduledReconnect_def Let_def)
  have "u * ?base \<le> maxDelayMs cfg"
  proof (cases "0 \<le> ?base")
    case True
    then have "u * ?base \<le> 1 * ?base" using assms(4) by (intro mult_right_mono) auto
    then show ?thesis by linarith
  next
    case False
    then have "u * ?base \<le> 0" using assms(3) by (intro mult_nonneg_nonpos) auto
    then show ?thesis using assms(1,2) by linarith
  qed
  then have "of_int \<lfloor>u * ?base\<rfloor> \<le> maxDelayMs cfg" using of_int_floor_le order_trans by blast
  with d m' assms(1,2) show ?thesis
    by (auto simp: connection_transitionTo_def resetAttempts_def Let_def split: if_splits)
qed

theorem backoff_bounds_witness:
  "initialDelayMs test_backoff / 2 \<le> 1000 \<and> (1000::rat) \<le> maxDelayMs test_backoff"
proof -
  have "scheduleReconnect test_backoff \<lparr>currentState = OFFLINE, attemptCount = 1, timerHandle = None\<rparr> (1/2)
      = (\<lparr>currentState = OFFLINE, attemptCount = 2, timerHandle = Some 1000\<rparr>, 1000)"
    by (simp add: scheduleReconnect_def calculateNextBackoffMs_def cancelScheduledReconnect_def test_backoff_def Let_def)
  from backoff_bounds [OF _ _ _ _ this] show ?thesis by (simp add: test_backoff_def)
qed

end
