(* ===== verification/Task_Controller.thy ===== *)
theory Task_Controller
  imports Task_Lifecycle
begin

text \<open>
  The task controller of the control plane (\<open>services/backend/src/tasks/controller.ts\<close>): task and
  workflow intake with policy decision, lease and dispatch, cancellation, receipt settlement,
  reconciliation of approval decisions, and the tenant queries with their pagination.

  The state is the map of tasks together with what the controller hands to its collaborators: the
  events published, the status changes streamed, the decisions audited and the tasks dispatched, in
  order. The collaborators themselves (policy evaluator, approval host, event publisher, bridge)
  are boundaries of the class; the evaluator is a function of the request, the others record what
  they are given. Calls of \<open>new Date()\<close> and \<open>randomUUID()\<close> within one operation are numbered:
  \<open>now i\<close> and \<open>uuid i\<close>. An operation returns the new state with its result, because a call
  that throws may have changed the map before.
\<close>

section \<open>State\<close>

record controller =
  tasks :: "(string, task_record) jsmap"
  published :: "(string \<times> string) list"
  streamed :: "(string \<times> task_state \<times> task_state option) list"
  audited :: "decision_evidence list"
  dispatched :: "task_record list"

record controller_config =
  leaseIssuer :: lease_issuer
  receiptSecret :: string
  policyEvaluator :: "policy_decision_request \<Rightarrow> policy_decision_result"
  hasPublisher :: bool
  hasStreamBus :: bool
  hasAuditLogger :: bool
  hasBridge :: bool

datatype controller_error =
    UNAUTHENTICATED
  | RequestSchemaError
  | DagValidationFailed dag_error
  | LeaseFailed lease_error
  | IllegalTransition transition_error
  | TaskNotFound string
  | AccessDenied string
  | AlreadyCompleted string
  | AlreadyFailed string
  | TaskCancelled string
  | NoRecordedLease string
  | ReceiptSchemaError
  | ReceiptRejected string string
  | APPROVAL_HOST_UNAVAILABLE
  | ApprovalTenantMismatch string

record create_result =
  created :: task_record
  policyAllowed :: bool
  denialReason :: "string option"

definition put_task :: "task_record \<Rightarrow> controller \<Rightarrow> controller" where
  "put_task t s = s\<lparr>tasks := js_set (task_taskId t) t (tasks s)\<rparr>"

definition publish :: "controller_config \<Rightarrow> string \<Rightarrow> string \<Rightarrow> controller \<Rightarrow> controller" where
  "publish cfg topic subject_id s =
     (if hasPublisher cfg then s\<lparr>published := published s @ [(topic, subject_id)]\<rparr> else s)"

definition publishTaskStatusChanged ::
  "controller_config \<Rightarrow> task_record \<Rightarrow> task_state option \<Rightarrow> controller \<Rightarrow> controller" where
  "publishTaskStatusChanged cfg t previous s =
     (if hasStreamBus cfg then s\<lparr>streamed := streamed s @ [(task_taskId t, state t, previous)]\<rparr> else s)"

text \<open>The controller's own \<open>createDecisionEvidence\<close>: missing identifiers get a placeholder, and the
  identifiers of the request come from its context.\<close>

definition controller_evidence ::
  "policy_decision_request \<Rightarrow> policy_decision_result \<Rightarrow> string \<Rightarrow> int \<Rightarrow> decision_evidence" where
  "controller_evidence request result uuid now =
     (createDecisionEvidence request result uuid)
       \<lparr>principalId := Some (case subject request of
            None \<Rightarrow> ''UNAUTHENTICATED''
          | Some c \<Rightarrow>
              if principal_type (principal c) = ''USER'' then nullish (userId (principal c)) ''UNKNOWN_USER''
              else if principal_type (principal c) = ''SERVICE'' then nullish (serviceId (principal c)) ''UNKNOWN_SERVICE''
              else nullish (deviceId (principal c)) ''UNKNOWN_DEVICE''),
        ev_requestId := requestId (context_of request), ev_correlationId := correlationId (context_of request),
        timestamp := toISOString now\<rparr>"

definition audit ::
  "controller_config \<Rightarrow> policy_decision_request \<Rightarrow> policy_decision_result \<Rightarrow> string \<Rightarrow> int \<Rightarrow> controller \<Rightarrow> controller" where
  "audit cfg request decision uuid now s =
     (if hasAuditLogger cfg then s\<lparr>audited := audited s @ [controller_evidence request decision uuid now]\<rparr> else s)"

definition dispatch :: "task_record \<Rightarrow> controller \<Rightarrow> controller" where
  "dispatch t s = s\<lparr>dispatched := dispatched s @ [t]\<rparr>"

text \<open>A transition that may throw, followed by the rest of the operation.\<close>

definition move ::
  "controller \<Rightarrow> task_record \<Rightarrow> task_state \<Rightarrow> string option \<Rightarrow> int
   \<Rightarrow> (task_record \<Rightarrow> controller \<times> (controller_error + 'a)) \<Rightarrow> controller \<times> (controller_error + 'a)" where
  "move s task target why now k =
     (case transition task target why now of Inl e \<Rightarrow> (s, Inl (IllegalTransition e)) | Inr t \<Rightarrow> k t)"

definition authenticated :: "authenticated_context option \<Rightarrow> bool" where
  "authenticated ctx \<longleftrightarrow> (case ctx of None \<Rightarrow> False | Some c \<Rightarrow> ctx_tenantId c \<noteq> [])"

definition principal_id :: "identity_principal \<Rightarrow> string" where
  "principal_id p =
     or_else (if principal_type p = ''USER'' then userId p
              else if principal_type p = ''SERVICE'' then serviceId p else deviceId p) ''UNKNOWN_PRINCIPAL''"

section \<open>Task intake\<close>

record task_create_request =
  req_title :: string
  req_targetAgentId :: string
  req_capabilityId :: string
  req_runtimeCategory :: string
  req_parameters :: "(string \<times> json) list"
  req_requestedScope :: string
  req_metadata :: "(string \<times> string) list option"

definition TaskCreateRequestSchema :: "platform \<Rightarrow> task_create_request \<Rightarrow> bool" where
  "TaskCreateRequestSchema P r \<longleftrightarrow>
     1 \<le> length (req_title r) \<and> length (req_title r) \<le> 256 \<and> uuid_ok P (req_targetAgentId r)
     \<and> req_capabilityId r \<noteq> [] \<and> req_runtimeCategory r \<noteq> [] \<and> req_requestedScope r \<noteq> []"

definition workspace_of :: "authenticated_context \<Rightarrow> (string \<times> string) list option \<Rightarrow> string option" where
  "workspace_of ctx metadata =
     (case ctx_workspaceId ctx of Some w \<Rightarrow> Some w
      | None \<Rightarrow> Option.bind metadata (\<lambda>m. map_of m ''workspaceId''))"

definition execute_request ::
  "authenticated_context \<Rightarrow> string \<Rightarrow> string \<Rightarrow> string \<Rightarrow> string \<Rightarrow> int \<Rightarrow> policy_decision_request" where
  "execute_request ctx scope resource_id correlation request_id now =
     (let isUser = principal_type (principal ctx) = ''USER'' in
      \<lparr>subject = Some ctx,
       action = \<lparr>actionName = ''task:execute'', requiredScope = (if isUser then None else Some scope),
                 requiredRole = (if isUser then Some ''operator'' else None)\<rparr>,
       resource = \<lparr>resourceType = ''task'', resourceId = resource_id, resource_tenantId = Some (ctx_tenantId ctx)\<rparr>,
       context_of = \<lparr>requestId = request_id, correlationId = correlation, requestTimestamp = toISOString now\<rparr>\<rparr>)"

definition decision_summary :: "policy_decision_result \<Rightarrow> policy_decision_summary" where
  "decision_summary d =
     \<lparr>pd_allowed = allowed d, pd_reason = Some (reason d), pd_policyVersion = Some (decision_policyVersion d),
      pd_policyHash = Some (decision_policyHash d)\<rparr>"

definition initial_task ::
  "authenticated_context \<Rightarrow> task_create_request \<Rightarrow> string \<Rightarrow> int \<Rightarrow> task_record" where
  "initial_task ctx req tid now =
     \<lparr>task_taskId = tid, task_tenantId = ctx_tenantId ctx, task_workspaceId = workspace_of ctx (req_metadata req),
      submittedBy = principal_id (principal ctx), title = req_title req, targetAgentId = req_targetAgentId req,
      task_capabilityId = req_capabilityId req, task_runtimeCategory = req_runtimeCategory req,
      parameters = redactSensitiveData (req_parameters req), requestedScope = req_requestedScope req,
      state = SUBMITTED, lease = None, receipt = None, task_evidenceChecksum = None, isWorkflow = False,
      task_dag = None, policyDecision = None, error = None, task_createdAt = toISOString now, updatedAt = toISOString now\<rparr>"

text \<open>The branch of a denied task: FAILED with the code POLICY_DENIED.\<close>

definition deny_task ::
  "controller_config \<Rightarrow> controller \<Rightarrow> task_record \<Rightarrow> string option \<Rightarrow> string \<Rightarrow> bool \<Rightarrow> int
   \<Rightarrow> controller \<times> (controller_error + create_result)" where
  "deny_task cfg s task why fallback emit now =
     move s task FAILED why now
       (\<lambda>t. let t' = t\<lparr>error := Some \<lparr>code = ''POLICY_DENIED'', message = or_else why fallback\<rparr>\<rparr>;
                s1 = put_task t' s;
                s2 = (if emit then publish cfg ''nexusos.events.policy.denial'' (task_taskId t') s1 else s1)
            in (publishTaskStatusChanged cfg t' (Some SUBMITTED) s2,
                Inr \<lparr>created = t', policyAllowed = False, denialReason = why\<rparr>))"

text \<open>From a decided task to its lease and its dispatch, stage by stage; \<open>finish\<close> adds what the workflow
  intake stores beside the lease, the topics are the events of the two steps.\<close>

definition dispatch_stage ::
  "controller_config \<Rightarrow> controller \<Rightarrow> task_record \<Rightarrow> string list \<Rightarrow> (nat \<Rightarrow> int)
   \<Rightarrow> controller \<times> (controller_error + create_result)" where
  "dispatch_stage cfg s task topics now =
     (if hasBridge cfg then
        move s task DISPATCHED None (now 13)
          (\<lambda>t. (dispatch t (publishTaskStatusChanged cfg t (Some LEASED)
                 (fold (\<lambda>topic. publish cfg topic (task_taskId t)) topics (put_task t s))),
               Inr \<lparr>created = t, policyAllowed = True, denialReason = None\<rparr>))
      else (s, Inr \<lparr>created = task, policyAllowed = True, denialReason = None\<rparr>))"

definition leased_stage ::
  "controller_config \<Rightarrow> controller \<Rightarrow> task_record \<Rightarrow> string list \<Rightarrow> string list \<Rightarrow> (nat \<Rightarrow> int)
   \<Rightarrow> controller \<times> (controller_error + create_result)" where
  "leased_stage cfg s task created_topics dispatched_topics now =
     move (put_task task s) task LEASED None (now 12)
       (\<lambda>t. dispatch_stage cfg
              (publishTaskStatusChanged cfg t (Some POLICY_EVALUATED)
                (fold (\<lambda>topic. publish cfg topic (task_taskId t)) created_topics (put_task t s)))
              t dispatched_topics now)"

definition lease_and_dispatch ::
  "platform \<Rightarrow> controller_config \<Rightarrow> controller \<Rightarrow> task_record \<Rightarrow> string list \<Rightarrow> string \<Rightarrow> (nat \<Rightarrow> int) \<Rightarrow> (nat \<Rightarrow> string)
   \<Rightarrow> (execution_lease_header \<Rightarrow> task_record \<Rightarrow> task_record) \<Rightarrow> string list \<Rightarrow> string list
   \<Rightarrow> controller \<times> (controller_error + create_result)" where
  "lease_and_dispatch P cfg s task scope_list hash now uuid finish created_topics dispatched_topics =
     move s task POLICY_EVALUATED None (now 10)
       (\<lambda>t. case issueLease P (leaseIssuer cfg)
                 \<lparr>lip_taskId = task_taskId t, lip_agentId = targetAgentId t, lip_tenantId = task_tenantId t,
                  lip_scopes = scope_list, lip_ttlSeconds = None, lip_policyHash = Some hash, lip_nonce = None\<rparr>
                 (now 11) (uuid 11) (uuid 12) of
              Inl e \<Rightarrow> (put_task t s, Inl (LeaseFailed e))
            | Inr l \<Rightarrow> leased_stage cfg (put_task t s) (finish l (t\<lparr>lease := Some l\<rparr>)) created_topics dispatched_topics now)"

definition createTask ::
  "platform \<Rightarrow> controller_config \<Rightarrow> controller \<Rightarrow> task_create_request \<Rightarrow> authenticated_context option
   \<Rightarrow> (nat \<Rightarrow> int) \<Rightarrow> (nat \<Rightarrow> string) \<Rightarrow> controller \<times> (controller_error + create_result)" where
  "createTask P cfg s req context now uuid =
     (if \<not> authenticated context then (s, Inl UNAUTHENTICATED)
      else if \<not> TaskCreateRequestSchema P req then (s, Inl RequestSchemaError)
      else
        let ctx = the context;
            task = initial_task ctx req (uuid 0) (now 0);
            s1 = publishTaskStatusChanged cfg task None (put_task task s);
            request = execute_request ctx (req_requestedScope req) (uuid 0) (uuid 0) (uuid 1) (now 0);
            decision = policyEvaluator cfg request;
            s2 = audit cfg request decision (uuid 2) (now 1) s1;
            task' = task\<lparr>policyDecision := Some (decision_summary decision)\<rparr>;
            s3 = put_task task' s2
        in if \<not> allowed decision then
             deny_task cfg s3 task' (Some (reason decision)) ''Task execution denied by policy decision.'' True (now 2)
           else
             lease_and_dispatch P cfg s3 task' [req_requestedScope req] (decision_policyHash decision) now uuid
               (\<lambda>_ t. t) [''nexusos.events.task.created'', ''nexusos.events.task.leased'']
               [''nexusos.events.task.dispatched''])"


section \<open>Workflow intake\<close>

record task_graph_create_request =
  g_title :: string
  g_targetAgentId :: string
  g_workflowId :: "string option"
  g_nodes :: "workflow_node list"
  g_edges :: "workflow_edge list option"
  g_requestedScope :: "string option"
  g_metadata :: "(string \<times> string) list option"

definition TaskGraphCreateRequestSchema :: "platform \<Rightarrow> task_graph_create_request \<Rightarrow> bool" where
  "TaskGraphCreateRequestSchema P r \<longleftrightarrow>
     1 \<le> length (g_title r) \<and> length (g_title r) \<le> 256 \<and> uuid_ok P (g_targetAgentId r)
     \<and> (case g_workflowId r of None \<Rightarrow> True | Some w \<Rightarrow> uuid_ok P w)
     \<and> 1 \<le> length (g_nodes r) \<and> length (g_nodes r) \<le> 50 \<and> list_all WorkflowNodeSchema (g_nodes r)
     \<and> length (nullish (g_edges r) []) \<le> 100 \<and> list_all WorkflowEdgeSchema (nullish (g_edges r) [])
     \<and> g_requestedScope r \<noteq> Some []
     \<and> validateDAGTopology (g_nodes r) (nullish (g_edges r) []) = None"

text \<open>\<open>capability:\<close> followed by the identifier with its dots replaced by colons.\<close>

definition node_scope :: "string \<Rightarrow> string" where
  "node_scope cap = ''capability:'' @ map (\<lambda>c. if c = CHR ''.'' then CHR '':'' else c) cap"

definition required_scopes :: "workflow_node list \<Rightarrow> string option \<Rightarrow> string list" where
  "required_scopes nodes requested =
     (let caps = js_unique (map capabilityId nodes);
          canonical = concat (map (\<lambda>cap. [cap, node_scope cap, ''capability:'' @ cap]) caps)
      in js_unique (filter (\<lambda>x. x \<noteq> []) (canonical @ (case requested of None \<Rightarrow> [] | Some x \<Rightarrow> [x]))))"

text \<open>The loop over the nodes: every decision is audited; the first denial stops it.\<close>

fun evaluate_nodes ::
  "controller_config \<Rightarrow> authenticated_context \<Rightarrow> string \<Rightarrow> (nat \<Rightarrow> int) \<Rightarrow> (nat \<Rightarrow> string) \<Rightarrow> nat
   \<Rightarrow> workflow_node list \<Rightarrow> controller \<Rightarrow> controller \<times> (workflow_node \<times> string) option" where
  "evaluate_nodes cfg ctx tid now uuid i [] s = (s, None)"
| "evaluate_nodes cfg ctx tid now uuid i (n # ns) s =
     (let request = execute_request ctx (node_scope (capabilityId n)) (tid @ '':'' @ nodeId n) tid (uuid i) (now 0);
          decision = policyEvaluator cfg request;
          s' = audit cfg request decision (uuid (i + 1)) (now i) s
      in if \<not> allowed decision then
           (s', Some (n, or_else (Some (reason decision))
              (''Policy denied capability '' @ quoted (capabilityId n) @ '' on node '' @ quoted (nodeId n) @ ''.'')))
         else evaluate_nodes cfg ctx tid now uuid (i + 2) ns s')"

definition initial_graph_task ::
  "authenticated_context \<Rightarrow> task_graph_create_request \<Rightarrow> string \<Rightarrow> int \<Rightarrow> task_record" where
  "initial_graph_task ctx req tid now =
     (let caps = js_unique (map capabilityId (g_nodes req)) in
      \<lparr>task_taskId = tid, task_tenantId = ctx_tenantId ctx, task_workspaceId = workspace_of ctx (g_metadata req),
       submittedBy = principal_id (principal ctx), title = g_title req, targetAgentId = g_targetAgentId req,
       task_capabilityId = ''workflow.dag'', task_runtimeCategory = ''workflow'',
       parameters = [(''nodeCount'', JNum (nat_str (length (g_nodes req)))),
                     (''requiredCapabilities'', JArr (map JStr caps))],
       requestedScope = or_else (g_requestedScope req) (join '','' caps),
       state = SUBMITTED, lease = None, receipt = None, task_evidenceChecksum = None, isWorkflow = True,
       task_dag = None, policyDecision = None, error = None, task_createdAt = toISOString now, updatedAt = toISOString now\<rparr>)"

definition attach_dag ::
  "task_graph_create_request \<Rightarrow> string \<Rightarrow> execution_lease_header \<Rightarrow> task_record \<Rightarrow> task_record" where
  "attach_dag req wid l t =
     t\<lparr>task_dag := Some
         \<lparr>workflowId = wid, dag_taskId = task_taskId t, leaseHeader = l, dag_correlationId = task_taskId t,
          dag_nodes = map (\<lambda>n. n\<lparr>payload := redactSensitiveData (payload n)\<rparr>) (g_nodes req),
          dag_edges = Some (nullish (g_edges req) []), dag_expiresAt = Some (expires_at l)\<rparr>\<rparr>"

definition createTaskGraph ::
  "platform \<Rightarrow> controller_config \<Rightarrow> controller \<Rightarrow> task_graph_create_request \<Rightarrow> authenticated_context option
   \<Rightarrow> (nat \<Rightarrow> int) \<Rightarrow> (nat \<Rightarrow> string) \<Rightarrow> controller \<times> (controller_error + create_result)" where
  "createTaskGraph P cfg s req context now uuid =
     (if \<not> authenticated context then (s, Inl UNAUTHENTICATED)
      else if \<not> TaskGraphCreateRequestSchema P req then (s, Inl RequestSchemaError)
      else case validateDAGTopology (g_nodes req) (nullish (g_edges req) []) of
        Some e \<Rightarrow> (s, Inl (DagValidationFailed e))
      | None \<Rightarrow>
        let ctx = the context;
            wid = nullish (g_workflowId req) (uuid 1);
            scope_list = required_scopes (g_nodes req) (g_requestedScope req);
            task = initial_graph_task ctx req (uuid 0) (now 0);
            s1 = publish cfg ''nexusos.events.task.created'' (uuid 0)
                   (publishTaskStatusChanged cfg task None (put_task task s));
            request = execute_request ctx (hd scope_list) (uuid 0) (uuid 0) (uuid 2) (now 0);
            top = policyEvaluator cfg request;
            s2 = audit cfg request top (uuid 3) (now 1) s1;
            summary = (\<lambda>ok why. \<lparr>pd_allowed = ok, pd_reason = Some why,
                          pd_policyVersion = Some (decision_policyVersion top),
                          pd_policyHash = Some (decision_policyHash top)\<rparr>)
        in if \<not> allowed top then
             deny_task cfg s2 (task\<lparr>policyDecision := Some (summary False (reason top))\<rparr>) (Some (reason top))
               ''Workflow execution denied by policy decision.'' False (now 2)
           else case evaluate_nodes cfg ctx (uuid 0) now uuid 20 (g_nodes req) s2 of
             (s3, Some (n, why)) \<Rightarrow>
               deny_task cfg s3 (task\<lparr>policyDecision := Some (summary False why)\<rparr>) (Some why)
                 ''Workflow execution denied by policy.'' True (now 2)
           | (s3, None) \<Rightarrow>
               (let task' = task\<lparr>policyDecision := Some (summary True ''All workflow DAG nodes permitted by policy'')\<rparr>
                in lease_and_dispatch P cfg (put_task task' s3) task' scope_list (decision_policyHash top) now uuid
                     (attach_dag req wid) [''nexusos.events.workflow.created'', ''nexusos.events.task.leased'']
                     [''nexusos.events.workflow.dispatched'', ''nexusos.events.task.dispatched'']))"

section \<open>Reading and cancelling\<close>

definition getTask ::
  "controller \<Rightarrow> string \<Rightarrow> authenticated_context option \<Rightarrow> controller_error + task_record option" where
  "getTask s tid context =
     (case js_get (tasks s) tid of
        None \<Rightarrow> Inr None
      | Some task \<Rightarrow>
          (case context of
             Some ctx \<Rightarrow> if task_tenantId task \<noteq> ctx_tenantId ctx then Inl (AccessDenied tid) else Inr (Some task)
           | None \<Rightarrow> Inr (Some task)))"

definition cancelTask ::
  "controller_config \<Rightarrow> controller \<Rightarrow> string \<Rightarrow> string option \<Rightarrow> authenticated_context option \<Rightarrow> (nat \<Rightarrow> int)
   \<Rightarrow> controller \<times> (controller_error + task_record)" where
  "cancelTask cfg s tid why context now =
     (if \<not> authenticated context then (s, Inl UNAUTHENTICATED)
      else case getTask s tid context of
        Inl e \<Rightarrow> (s, Inl e)
      | Inr None \<Rightarrow> (s, Inl (TaskNotFound tid))
      | Inr (Some task) \<Rightarrow>
          if task_tenantId task \<noteq> ctx_tenantId (the context) then (s, Inl (AccessDenied tid))
          else if state task = COMPLETED then (s, Inl (AlreadyCompleted tid))
          else if state task = FAILED then (s, Inl (AlreadyFailed tid))
          else if state task = CANCELLED then (s, Inr task)
          else move s task CANCELLED (Some (nullish why ''User cancellation requested.'')) (now 0)
                 (\<lambda>t. (publishTaskStatusChanged cfg t (Some (state task))
                         (publish cfg ''nexusos.events.task.canceled'' tid
                            (s\<lparr>tasks := js_set tid t (tasks s)\<rparr>)), Inr t)))"

section \<open>Receipt settlement\<close>

definition state_name :: "task_state \<Rightarrow> string" where
  "state_name st = (case st of COMPLETED \<Rightarrow> ''completed'' | FAILED \<Rightarrow> ''failed'' | CANCELLED \<Rightarrow> ''cancelled'' | _ \<Rightarrow> ''other'')"

text \<open>Up to RECEIPT_VERIFIED: a leased task is first dispatched, a dispatched one set executing.\<close>

definition advance_to_verified ::
  "controller \<Rightarrow> task_record \<Rightarrow> (nat \<Rightarrow> int) \<Rightarrow> (task_record \<Rightarrow> controller \<times> (controller_error + 'a))
   \<Rightarrow> controller \<times> (controller_error + 'a)" where
  "advance_to_verified s task now k =
     (let verified = (\<lambda>t. move s t RECEIPT_VERIFIED None (now 2) k);
          execute = (\<lambda>t. if state t = DISPATCHED then move s t EXECUTING None (now 1) verified else verified t)
      in if state task = LEASED then move s task DISPATCHED None (now 0) execute else execute task)"

text \<open>The outcome of a verified receipt: COMPLETED, CANCELLED or FAILED with the reported error.\<close>

definition settle_outcome ::
  "controller_config \<Rightarrow> controller \<Rightarrow> task_record \<Rightarrow> receipt_status \<Rightarrow> task_error \<Rightarrow> settled_receipt \<Rightarrow> string
   \<Rightarrow> (string \<Rightarrow> string list) \<Rightarrow> task_state \<Rightarrow> (nat \<Rightarrow> int) \<Rightarrow> controller \<times> (controller_error + task_record)" where
  "settle_outcome cfg s verified st err r checksum topics before now =
     (let target = (case st of SUCCESS \<Rightarrow> COMPLETED | STATUS_CANCELLED \<Rightarrow> CANCELLED | FAILURE \<Rightarrow> FAILED) in
      move s verified target None (now 3)
        (\<lambda>t. let t1 = (if target = FAILED then t\<lparr>error := Some err\<rparr> else t);
                 t2 = t1\<lparr>receipt := Some r, task_evidenceChecksum := Some checksum\<rparr>;
                 s1 = put_task t2 s
             in (publishTaskStatusChanged cfg t2 (Some before)
                   (fold (\<lambda>topic. publish cfg topic (task_taskId t2)) (topics (state_name (state t2))) s1),
                 Inr t2)))"

definition settleReceipt ::
  "platform \<Rightarrow> controller_config \<Rightarrow> controller \<Rightarrow> raw_receipt \<Rightarrow> (nat \<Rightarrow> int)
   \<Rightarrow> controller \<times> (controller_error + task_record)" where
  "settleReceipt P cfg s raw now =
     (case WorkflowExecutionReceiptSchema P raw of
        Some r \<Rightarrow>
         (case js_get (tasks s) (w_taskId r) of
            None \<Rightarrow> (s, Inl (TaskNotFound (w_taskId r)))
          | Some task \<Rightarrow>
              if state task = CANCELLED then (s, Inl (TaskCancelled (task_taskId task)))
              else case lease task of
                None \<Rightarrow> (s, Inl (NoRecordedLease (task_taskId task)))
              | Some l \<Rightarrow>
                 (case verifyWorkflowReceipt P (receiptSecret cfg) [] raw
                         \<lparr>expectedTaskId = task_taskId task, expectedWorkflowId = Some (w_workflowId r),
                          expectedLeaseId = Some (lease_id l), expectedAgentId = targetAgentId task,
                          expectedTenantId = task_tenantId task\<rparr> of
                    Some (ecode, emsg) \<Rightarrow>
                      move s task FAILED (Some emsg) (now 0)
                        (\<lambda>t. (put_task (t\<lparr>error := Some \<lparr>code = ecode, message = emsg\<rparr>\<rparr>) s,
                              Inl (ReceiptRejected ecode emsg)))
                  | None \<Rightarrow>
                      advance_to_verified s task now
                        (\<lambda>t. settle_outcome cfg s t (w_status r)
                           \<lparr>code = ''WORKFLOW_EXECUTION_FAILED'',
                            message = or_else (w_errorMessage r) ''Workflow execution reported failure.''\<rparr>
                           (WorkflowReceipt r) (w_evidenceChecksum r)
                           (\<lambda>n. [''nexusos.events.workflow.'' @ n, ''nexusos.events.task.'' @ n]) (state task) now)))
      | None \<Rightarrow>
         (case ExecutionReceiptSchema P raw of
            None \<Rightarrow> (s, Inl ReceiptSchemaError)
          | Some r \<Rightarrow>
           (case js_get (tasks s) (receipt_taskId r) of
              None \<Rightarrow> (s, Inl (TaskNotFound (receipt_taskId r)))
            | Some task \<Rightarrow>
                if state task = CANCELLED then (s, Inl (TaskCancelled (task_taskId task)))
                else case lease task of
                  None \<Rightarrow> (s, Inl (NoRecordedLease (task_taskId task)))
                | Some l \<Rightarrow>
                   (case verify_receipt P (receiptSecret cfg) [] raw
                           \<lparr>expectedTaskId = task_taskId task, expectedWorkflowId = None,
                            expectedLeaseId = Some (lease_id l), expectedAgentId = targetAgentId task,
                            expectedTenantId = task_tenantId task\<rparr> of
                      Some (ecode, emsg) \<Rightarrow>
                        move s task FAILED (Some emsg) (now 0)
                          (\<lambda>t. let t' = t\<lparr>error := Some \<lparr>code = ecode, message = emsg\<rparr>\<rparr> in
                                (publishTaskStatusChanged cfg t' (Some (state task)) (put_task t' s),
                                 Inl (ReceiptRejected ecode emsg)))
                    | None \<Rightarrow>
                        advance_to_verified s task now
                          (\<lambda>t. settle_outcome cfg s t (status r)
                             \<lparr>code = ''EXECUTION_FAILED'',
                              message = or_else (receipt_errorMessage r) ''Task execution reported failure.''\<rparr>
                             (SingleReceipt r) (evidenceChecksum r)
                             (\<lambda>n. [''nexusos.events.task.'' @ n]) (state task) now)))))"

section \<open>Approval decisions\<close>

datatype approval_verdict = APPROVE | REJECT | OTHER_VERDICT

text \<open>The reconciliation after \<open>approvalHost.submitDecision\<close>: \<open>target\<close> is the task the result or its
  prompt names, \<open>verdict\<close> the decision (ALLOW, DENY or another).\<close>

definition reconcile_approval ::
  "controller \<Rightarrow> authenticated_context \<Rightarrow> string option \<Rightarrow> approval_verdict \<Rightarrow> (nat \<Rightarrow> int)
   \<Rightarrow> controller \<times> (controller_error + unit)" where
  "reconcile_approval s ctx target verdict now =
     (if \<not> truthy target then (s, Inr ())
      else case js_get (tasks s) (the target) of
        None \<Rightarrow> (s, Inr ())
      | Some task \<Rightarrow>
          if task_tenantId task \<noteq> ctx_tenantId ctx \<or> state task \<noteq> AWAITING_APPROVAL then (s, Inr ())
          else case verdict of
            APPROVE \<Rightarrow> move s task EXECUTING (Some ''Approval granted by human decision.'') (now 0)
                         (\<lambda>t. (put_task t s, Inr ()))
          | REJECT \<Rightarrow> move s task FAILED (Some ''Approval denied by human decision.'') (now 0)
                        (\<lambda>t. (put_task (t\<lparr>error := Some \<lparr>code = ''APPROVAL_DENIED'',
                                message = ''Human operator denied approval for task execution.''\<rparr>\<rparr>) s, Inr ()))
          | OTHER_VERDICT \<Rightarrow> (s, Inr ()))"

section \<open>The operations as steps\<close>

datatype controller_op =
    CreateTask task_create_request "authenticated_context option" "nat \<Rightarrow> int" "nat \<Rightarrow> string"
  | CreateTaskGraph task_graph_create_request "authenticated_context option" "nat \<Rightarrow> int" "nat \<Rightarrow> string"
  | CancelTask string "string option" "authenticated_context option" "nat \<Rightarrow> int"
  | SettleReceipt raw_receipt "nat \<Rightarrow> int"
  | ReconcileApproval authenticated_context "string option" approval_verdict "nat \<Rightarrow> int"

fun controller_step :: "platform \<Rightarrow> controller_config \<Rightarrow> controller \<Rightarrow> controller_op \<Rightarrow> controller" where
  "controller_step P cfg s (CreateTask req ctx now uuid) = fst (createTask P cfg s req ctx now uuid)"
| "controller_step P cfg s (CreateTaskGraph req ctx now uuid) = fst (createTaskGraph P cfg s req ctx now uuid)"
| "controller_step P cfg s (CancelTask tid why ctx now) = fst (cancelTask cfg s tid why ctx now)"
| "controller_step P cfg s (SettleReceipt raw now) = fst (settleReceipt P cfg s raw now)"
| "controller_step P cfg s (ReconcileApproval ctx target verdict now) = fst (reconcile_approval s ctx target verdict now)"

definition empty_controller :: controller where
  "empty_controller = \<lparr>tasks = [], published = [], streamed = [], audited = [], dispatched = []\<rparr>"

section \<open>The invariant of the task map\<close>

text \<open>From LEASED on a task holds a lease the issuer signed for this task, tenant and agent, under a
  policy decision that allowed it; a COMPLETED task holds an authentic SUCCESS receipt bound to all
  of these.\<close>

definition decided_state :: "task_state \<Rightarrow> bool" where
  "decided_state st \<longleftrightarrow> st \<notin> {SUBMITTED, FAILED, CANCELLED}"

definition leased_state :: "task_state \<Rightarrow> bool" where
  "leased_state st \<longleftrightarrow> st \<notin> {SUBMITTED, POLICY_EVALUATED, FAILED, CANCELLED}"

definition lease_bound :: "platform \<Rightarrow> controller_config \<Rightarrow> task_record \<Rightarrow> execution_lease_header \<Rightarrow> bool" where
  "lease_bound P cfg t l \<longleftrightarrow>
     verifyLease P (leaseIssuer cfg) l \<and> tenant_id l = task_tenantId t \<and> task_id l = task_taskId t
     \<and> agent_id l = targetAgentId t \<and> lease_id l \<noteq> []"

definition authority_ok :: "platform \<Rightarrow> controller_config \<Rightarrow> task_record \<Rightarrow> bool" where
  "authority_ok P cfg t \<longleftrightarrow>
     (decided_state (state t) \<longrightarrow> (\<exists>d. policyDecision t = Some d \<and> pd_allowed d))
     \<and> (leased_state (state t) \<longrightarrow> lease t \<noteq> None)
     \<and> (\<forall>l. lease t = Some l \<longrightarrow> lease_bound P cfg t l)"

fun receipt_authentic :: "platform \<Rightarrow> controller_config \<Rightarrow> task_record \<Rightarrow> settled_receipt \<Rightarrow> bool" where
  "receipt_authentic P cfg t (SingleReceipt r) \<longleftrightarrow>
     verifyReceiptSignature P r (receiptSecret cfg) \<and> receipt_taskId r = task_taskId t
     \<and> receipt_tenantId r = task_tenantId t \<and> receipt_agentId r = targetAgentId t
     \<and> (\<exists>l. lease t = Some l \<and> leaseId r = lease_id l)"
| "receipt_authentic P cfg t (WorkflowReceipt r) \<longleftrightarrow>
     verifyWorkflowReceiptSignature P r (receiptSecret cfg) \<and> w_taskId r = task_taskId t
     \<and> w_tenantId r = task_tenantId t \<and> w_agentId r = targetAgentId t
     \<and> (\<exists>l. lease t = Some l \<and> w_leaseId r = lease_id l)"

fun receipt_success :: "settled_receipt \<Rightarrow> bool" where
  "receipt_success (SingleReceipt r) \<longleftrightarrow> status r = SUCCESS"
| "receipt_success (WorkflowReceipt r) \<longleftrightarrow> w_status r = SUCCESS"

definition receipt_ok :: "platform \<Rightarrow> controller_config \<Rightarrow> task_record \<Rightarrow> bool" where
  "receipt_ok P cfg t \<longleftrightarrow>
     (state t = COMPLETED \<longrightarrow> (\<exists>r. receipt t = Some r \<and> receipt_authentic P cfg t r \<and> receipt_success r))"

definition controller_inv :: "platform \<Rightarrow> controller_config \<Rightarrow> controller \<Rightarrow> bool" where
  "controller_inv P cfg s \<longleftrightarrow>
     js_map_wf (tasks s)
     \<and> (\<forall>k t. js_get (tasks s) k = Some t \<longrightarrow> task_taskId t = k \<and> authority_ok P cfg t \<and> receipt_ok P cfg t)"

named_theorems frame_simps \<open>operations that leave the task map alone\<close>

lemma tasks_publish [frame_simps]: "tasks (publish cfg topic i s) = tasks s"
  by (simp add: publish_def)

lemma tasks_fold_publish [frame_simps]: "tasks (fold (\<lambda>topic. publish cfg topic i) topics s) = tasks s"
  by (induction topics arbitrary: s) (auto simp: tasks_publish)

lemma tasks_stream [frame_simps]: "tasks (publishTaskStatusChanged cfg t p s) = tasks s"
  by (simp add: publishTaskStatusChanged_def)

lemma tasks_audit [frame_simps]: "tasks (audit cfg r d u n s) = tasks s"
  by (simp add: audit_def)

lemma tasks_dispatch [frame_simps]: "tasks (dispatch t s) = tasks s"
  by (simp add: dispatch_def)

lemma tasks_put [frame_simps]: "tasks (put_task t s) = js_set (task_taskId t) t (tasks s)"
  by (simp add: put_task_def)

lemma tasks_evaluate_nodes [frame_simps]: "tasks (fst (evaluate_nodes cfg ctx tid now uuid i ns s)) = tasks s"
  by (induction cfg ctx tid now uuid i ns s rule: evaluate_nodes.induct) (auto simp: Let_def tasks_audit)

lemma inv_cong: "tasks s' = tasks s \<Longrightarrow> controller_inv P cfg s' \<longleftrightarrow> controller_inv P cfg s"
  by (simp add: controller_inv_def)

lemma inv_set:
  "\<lbrakk>controller_inv P cfg s; authority_ok P cfg t; receipt_ok P cfg t; tasks s' = js_set (task_taskId t) t (tasks s)\<rbrakk>
   \<Longrightarrow> controller_inv P cfg s'"
  by (auto simp: controller_inv_def js_map_simps split: if_splits)

lemma inv_get:
  "\<lbrakk>controller_inv P cfg s; js_get (tasks s) k = Some t\<rbrakk> \<Longrightarrow> task_taskId t = k \<and> authority_ok P cfg t \<and> receipt_ok P cfg t"
  by (simp add: controller_inv_def)

text \<open>What a transition keeps.\<close>

lemma transition_fields:
  "transition t target why n = Inr t' \<Longrightarrow>
   canTransition (state t) target \<and> state t' = target \<and> task_taskId t' = task_taskId t
   \<and> task_tenantId t' = task_tenantId t \<and> targetAgentId t' = targetAgentId t \<and> lease t' = lease t
   \<and> policyDecision t' = policyDecision t \<and> receipt t' = receipt t \<and> requestedScope t' = requestedScope t"
  by (auto simp: transition_def split: if_splits)

lemma transition_authority:
  assumes "transition t target why n = Inr t'" "authority_ok P cfg t"
    and "target = POLICY_EVALUATED \<Longrightarrow> \<exists>d. policyDecision t = Some d \<and> pd_allowed d"
    and "target = LEASED \<Longrightarrow> lease t \<noteq> None"
  shows "authority_ok P cfg t'"
proof -
  note f = transition_fields [OF assms(1)]
  have "leased_state target \<Longrightarrow> target \<noteq> LEASED \<Longrightarrow> leased_state (state t)"
    and "decided_state target \<Longrightarrow> target \<noteq> POLICY_EVALUATED \<Longrightarrow> decided_state (state t)"
    using f by (cases "state t"; auto simp: canTransition_def leased_state_def decided_state_def)+
  with f assms(2-4) show ?thesis by (auto simp: authority_ok_def lease_bound_def)
qed

lemma inv_move:
  assumes "controller_inv P cfg s"
    and "\<And>t'. transition t target why n = Inr t' \<Longrightarrow> controller_inv P cfg (fst (k t'))"
  shows "controller_inv P cfg (fst (move s t target why n k))"
  using assms by (auto simp: move_def split: sum.splits)

lemma authority_update_simps [simp]:
  "authority_ok P cfg (t\<lparr>error := e\<rparr>) = authority_ok P cfg t"
  "authority_ok P cfg (t\<lparr>receipt := r\<rparr>) = authority_ok P cfg t"
  "authority_ok P cfg (t\<lparr>task_evidenceChecksum := c\<rparr>) = authority_ok P cfg t"
  "authority_ok P cfg (t\<lparr>task_dag := d\<rparr>) = authority_ok P cfg t"
  by (simp_all add: authority_ok_def lease_bound_def)

lemma receipt_ok_not_completed: "state t \<noteq> COMPLETED \<Longrightarrow> receipt_ok P cfg t"
  by (simp add: receipt_ok_def)

lemma inv_deny_task:
  assumes "controller_inv P cfg s" "authority_ok P cfg t"
  shows "controller_inv P cfg (fst (deny_task cfg s t why fb emit n))"
  unfolding deny_task_def
proof (rule inv_move [OF assms(1)])
  fix t' assume tr: "transition t FAILED why n = Inr t'"
  let ?t = "t'\<lparr>error := Some \<lparr>code = ''POLICY_DENIED'', message = or_else why fb\<rparr>\<rparr>"
  have "authority_ok P cfg ?t" using transition_authority [OF tr assms(2)] by simp
  moreover have "receipt_ok P cfg ?t" using transition_fields [OF tr] by (simp add: receipt_ok_def)
  ultimately show "controller_inv P cfg (fst (let t' = ?t; s1 = put_task t' s;
      s2 = if emit then publish cfg ''nexusos.events.policy.denial'' (task_taskId t') s1 else s1
      in (publishTaskStatusChanged cfg t' (Some SUBMITTED) s2,
          Inr \<lparr>created = t', policyAllowed = False, denialReason = why\<rparr>)))"
    by (intro inv_set [OF assms(1), of ?t]) (simp_all add: Let_def frame_simps)
qed

lemma issued_lease_bound:
  assumes "issueLease P (leaseIssuer cfg) params n u1 u2 = Inr l" "\<not> uuid_ok P []"
    and "lip_tenantId params = task_tenantId t" "lip_taskId params = task_taskId t" "lip_agentId params = targetAgentId t"
  shows "lease_bound P cfg t l"
  using issueLease_InrD [OF assms(1)] assms(2-5) by (auto simp: lease_bound_def ExecutionLeaseHeaderSchema_def)

lemma inv_put_transition:
  assumes "controller_inv P cfg s" "transition t target why n = Inr t'" "authority_ok P cfg t'" "target \<noteq> COMPLETED"
    and "tasks s' = js_set (task_taskId t') t' (tasks s)"
  shows "controller_inv P cfg s'"
  by (rule inv_set [OF assms(1,3) _ assms(5)]) (use transition_fields [OF assms(2)] assms(4) in \<open>simp add: receipt_ok_def\<close>)

lemma inv_dispatch_stage:
  assumes "controller_inv P cfg s" "authority_ok P cfg t"
  shows "controller_inv P cfg (fst (dispatch_stage cfg s t topics now))"
proof -
  have "controller_inv P cfg s'" if "transition t DISPATCHED None n = Inr t'" "tasks s' = tasks (put_task t' s)" for t' s' n
    by (rule inv_put_transition [OF assms(1) that(1)])
      (use transition_authority [OF that(1) assms(2)] that(2) in \<open>auto simp: frame_simps\<close>)
  with assms(1) show ?thesis by (auto simp: dispatch_stage_def frame_simps intro!: inv_move)
qed

lemma inv_leased_stage:
  assumes inv: "controller_inv P cfg s" and auth: "authority_ok P cfg t" and l: "lease t \<noteq> None"
    and st: "state t \<noteq> COMPLETED"
  shows "controller_inv P cfg (fst (leased_stage cfg s t ts1 ts2 now))"
  unfolding leased_stage_def
proof (rule inv_move, goal_cases)
  case 1
  show ?case by (rule inv_set [OF inv auth]) (use st in \<open>auto simp: receipt_ok_def frame_simps\<close>)
next
  case (2 t')
  have a: "authority_ok P cfg t'" by (rule transition_authority [OF 2 auth]) (use l in auto)
  show ?case
    by (rule inv_dispatch_stage [OF inv_put_transition [OF inv 2 a] a]) (auto simp: frame_simps)
qed

lemma inv_lease_and_dispatch:
  assumes inv: "controller_inv P cfg s" and auth: "authority_ok P cfg t"
    and pol: "\<exists>d. policyDecision t = Some d \<and> pd_allowed d" and uuid: "\<not> uuid_ok P []"
    and finish: "\<And>l u. finish l u = u \<or> (\<exists>d. finish l u = u\<lparr>task_dag := d\<rparr>)"
  shows "controller_inv P cfg (fst (lease_and_dispatch P cfg s t scs ph now uu finish ts1 ts2))"
  unfolding lease_and_dispatch_def
proof (rule inv_move [OF inv], goal_cases)
  case (1 t1)
  have a1: "authority_ok P cfg t1" by (rule transition_authority [OF 1 auth]) (use pol in auto)
  have i1: "controller_inv P cfg (put_task t1 s)"
    by (rule inv_put_transition [OF inv 1 a1]) (auto simp: frame_simps)
  have i2: "controller_inv P cfg (fst (leased_stage cfg (put_task t1 s) (finish l (t1\<lparr>lease := Some l\<rparr>)) ts1 ts2 now))"
    if "lease_bound P cfg t1 l" for l
  proof (rule inv_leased_stage [OF i1])
    show "authority_ok P cfg (finish l (t1\<lparr>lease := Some l\<rparr>))"
      using finish [of l "t1\<lparr>lease := Some l\<rparr>"] a1 that by (auto simp: authority_ok_def lease_bound_def)
  qed (use finish [of l "t1\<lparr>lease := Some l\<rparr>"] transition_fields [OF 1] in auto)
  show ?case
    by (auto split: sum.split intro!: i1 i2 dest: issued_lease_bound [OF _ uuid, of _ _ _ _ _ _ t1])
qed

lemma authority_submitted: "\<lbrakk>state t = SUBMITTED; lease t = None\<rbrakk> \<Longrightarrow> authority_ok P cfg t"
  by (simp add: authority_ok_def decided_state_def leased_state_def)

lemma inv_put_submitted:
  "\<lbrakk>controller_inv P cfg s; state t = SUBMITTED; lease t = None; tasks s' = js_set (task_taskId t) t (tasks s)\<rbrakk>
   \<Longrightarrow> controller_inv P cfg s'"
  by (rule inv_set) (auto simp: authority_submitted receipt_ok_def)

lemma initial_task_fields [simp]:
  "state (initial_task ctx req tid n) = SUBMITTED" "lease (initial_task ctx req tid n) = None"
  "task_taskId (initial_task ctx req tid n) = tid" "task_tenantId (initial_task ctx req tid n) = ctx_tenantId ctx"
  "state (initial_graph_task ctx greq tid n) = SUBMITTED" "lease (initial_graph_task ctx greq tid n) = None"
  "task_taskId (initial_graph_task ctx greq tid n) = tid" "task_tenantId (initial_graph_task ctx greq tid n) = ctx_tenantId ctx"
  by (simp_all add: initial_task_def initial_graph_task_def Let_def)

text \<open>The map after the intake has stored its new task, and after it has recorded the decision on it.\<close>

lemma inv_intake:
  assumes "controller_inv P cfg s" "state t = SUBMITTED" "lease t = None"
    and "tasks s' = js_set (task_taskId t) t (tasks s)"
  shows "controller_inv P cfg s'" "controller_inv P cfg (put_task (t\<lparr>policyDecision := d\<rparr>) s')"
proof -
  show i: "controller_inv P cfg s'" by (rule inv_put_submitted [OF assms])
  show "controller_inv P cfg (put_task (t\<lparr>policyDecision := d\<rparr>) s')"
    by (rule inv_put_submitted [OF i, of "t\<lparr>policyDecision := d\<rparr>"]) (simp_all add: assms(2,3) frame_simps)
qed

lemma inv_createTask:
  assumes inv: "controller_inv P cfg s" and uuid: "\<not> uuid_ok P []"
  shows "controller_inv P cfg (fst (createTask P cfg s req ctx now uu))"
proof -
  let ?t = "initial_task (the ctx) req (uu 0) (now 0)"
  note i = inv_intake [OF inv, of ?t, simplified]
  show ?thesis
    unfolding createTask_def Let_def using inv
    by (auto intro!: inv_deny_task inv_lease_and_dispatch [OF _ _ _ uuid] i(2) authority_submitted
        simp: frame_simps decision_summary_def)
qed

lemma evaluate_nodes_tasks:
  "evaluate_nodes cfg ctx tid now uuid i ns s = (s', r) \<Longrightarrow> tasks s' = tasks s"
  by (metis fst_conv tasks_evaluate_nodes)

lemma inv_createTaskGraph:
  assumes inv: "controller_inv P cfg s" and uuid: "\<not> uuid_ok P []"
  shows "controller_inv P cfg (fst (createTaskGraph P cfg s req ctx now uu))"
proof -
  let ?t = "initial_graph_task (the ctx) req (uu 0) (now 0)"
  note i = inv_intake [OF inv, of ?t, simplified]
  have fin: "attach_dag req w l t = t \<or> (\<exists>d. attach_dag req w l t = t\<lparr>task_dag := d\<rparr>)" for w l t
    unfolding attach_dag_def by blast
  show ?thesis
    unfolding createTaskGraph_def Let_def using inv
    by (auto intro!: inv_deny_task inv_lease_and_dispatch [OF _ _ _ uuid] i(2) authority_submitted fin
        intro: i(1) dest!: evaluate_nodes_tasks split: option.split prod.split simp: frame_simps)
qed

lemma inv_cancelTask:
  assumes inv: "controller_inv P cfg s"
  shows "controller_inv P cfg (fst (cancelTask cfg s tid why ctx now))"
proof -
  have "controller_inv P cfg s'" if g: "js_get (tasks s) tid = Some t" and tr: "transition t CANCELLED w n = Inr t'"
    and s': "tasks s' = js_set tid t' (tasks s)" for t t' w n s'
  proof -
    have t: "task_taskId t = tid" "authority_ok P cfg t" using inv_get [OF inv g] by auto
    show ?thesis
      by (rule inv_put_transition [OF inv tr transition_authority [OF tr t(2)]])
        (use transition_fields [OF tr] t s' in auto)
  qed
  with inv show ?thesis
    by (auto simp: cancelTask_def getTask_def frame_simps intro!: inv_move split: option.split sum.split if_splits)
qed

lemma inv_reconcile:
  assumes inv: "controller_inv P cfg s"
  shows "controller_inv P cfg (fst (reconcile_approval s ctx target verdict now))"
proof -
  have "controller_inv P cfg (put_task (t'\<lparr>error := e\<rparr>) s)" "controller_inv P cfg (put_task t' s)"
    if g: "js_get (tasks s) k = Some t" and tr: "transition t st w n = Inr t'" and st: "st = EXECUTING \<or> st = FAILED"
    for t t' w n e k st
  proof -
    have "authority_ok P cfg t" using inv_get [OF inv g] by auto
    then have a: "authority_ok P cfg t'" by (rule transition_authority [OF tr]) (use st in auto)
    show "controller_inv P cfg (put_task t' s)"
      by (rule inv_put_transition [OF inv tr a]) (use st in \<open>auto simp: frame_simps\<close>)
    show "controller_inv P cfg (put_task (t'\<lparr>error := e\<rparr>) s)"
      by (rule inv_set [OF inv, of "t'\<lparr>error := e\<rparr>"])
        (use a st transition_fields [OF tr] in \<open>auto simp: frame_simps receipt_ok_def\<close>)
  qed
  with inv show ?thesis
    by (auto simp: reconcile_approval_def intro!: inv_move split: option.split approval_verdict.split)
qed

section \<open>Settlement, case by case\<close>

definition settleable :: "task_state \<Rightarrow> bool" where
  "settleable st \<longleftrightarrow> st \<in> {LEASED, DISPATCHED, EXECUTING}"

definition settled ::
  "task_record \<Rightarrow> task_state \<Rightarrow> task_error \<Rightarrow> settled_receipt \<Rightarrow> string \<Rightarrow> int \<Rightarrow> task_record" where
  "settled task target err r checksum n =
     task\<lparr>state := target, updatedAt := toISOString n, error := (if target = FAILED then Some err else error task),
          receipt := Some r, task_evidenceChecksum := Some checksum\<rparr>"

lemma advance_settleable:
  "settleable (state task) \<Longrightarrow>
   advance_to_verified s task now k = k (task\<lparr>state := RECEIPT_VERIFIED, updatedAt := toISOString (now 2)\<rparr>)"
  by (auto simp: settleable_def advance_to_verified_def move_def transition_def canTransition_def Let_def)

lemma advance_not_settleable:
  "\<not> settleable (state task) \<Longrightarrow>
   advance_to_verified s task now k = (s, Inl (IllegalTransition (TaskStateMachineError (state task) RECEIPT_VERIFIED None)))"
  by (cases "state task") (auto simp: settleable_def advance_to_verified_def move_def transition_def canTransition_def Let_def)

lemma settle_outcome_cancelled:
  "state t = RECEIPT_VERIFIED \<Longrightarrow>
   settle_outcome cfg s t STATUS_CANCELLED err r cs topics b now
     = (s, Inl (IllegalTransition (TaskStateMachineError RECEIPT_VERIFIED CANCELLED None)))"
  by (simp add: settle_outcome_def move_def transition_def canTransition_def)

lemma settle_outcome_final:
  assumes "state t = RECEIPT_VERIFIED" "st \<noteq> STATUS_CANCELLED"
    and "t' = settled t (if st = SUCCESS then COMPLETED else FAILED) err r cs (now 3)"
  shows "snd (settle_outcome cfg s t st err r cs topics b now) = Inr t'"
    and "tasks (fst (settle_outcome cfg s t st err r cs topics b now)) = js_set (task_taskId t) t' (tasks s)"
  using assms
  by (cases st; auto simp: settle_outcome_def move_def transition_def canTransition_def settled_def Let_def frame_simps)+

text \<open>Both kinds of receipt run through the same cases: an error that leaves the map alone, a
  rejected receipt that fails the task, or a verified one that settles it.\<close>

inductive settles ::
  "platform \<Rightarrow> controller_config \<Rightarrow> controller \<Rightarrow> raw_receipt \<Rightarrow> (nat \<Rightarrow> int) \<Rightarrow> controller \<Rightarrow> controller_error + task_record \<Rightarrow> bool"
  for P cfg s raw now where
  refused: "tasks s' = tasks s \<Longrightarrow> settles P cfg s raw now s' (Inl e)"
| rejected: "\<lbrakk>js_get (tasks s) (raw_taskId raw) = Some task; lease task \<noteq> None;
      transition task FAILED why n = Inr t; tasks s' = js_set (task_taskId t) (t\<lparr>error := Some err\<rparr>) (tasks s)\<rbrakk>
    \<Longrightarrow> settles P cfg s raw now s' (Inl e)"
| verified: "\<lbrakk>js_get (tasks s) (raw_taskId raw) = Some task; lease task = Some l; settleable (state task);
      task_taskId task = raw_taskId raw; task_tenantId task = raw_tenantId raw; targetAgentId task = raw_agentId raw;
      lease_id l \<noteq> [] \<longrightarrow> raw_leaseId raw = lease_id l;
      (SingleReceipt r = sr \<and> ExecutionReceiptSchema P raw = Some r \<and> verifyReceiptSignature P r (receiptSecret cfg))
      \<or> (WorkflowReceipt w = sr \<and> WorkflowExecutionReceiptSchema P raw = Some w \<and> verifyWorkflowReceiptSignature P w (receiptSecret cfg));
      raw_status raw \<noteq> STATUS_CANCELLED;
      t = settled task (if raw_status raw = SUCCESS then COMPLETED else FAILED) err sr (raw_evidenceChecksum raw) (now 3);
      tasks s' = js_set (task_taskId task) t (tasks s)\<rbrakk>
    \<Longrightarrow> settles P cfg s raw now s' (Inr t)"

lemma settled_state_update:
  "settled (task\<lparr>state := st, updatedAt := u\<rparr>) target err r cs n = settled task target err r cs n"
  by (simp add: settled_def)

lemma settles_verified_tail:
  assumes "js_get (tasks s) (raw_taskId raw) = Some task" "lease task = Some l"
    and "task_taskId task = raw_taskId raw" "task_tenantId task = raw_tenantId raw" "targetAgentId task = raw_agentId raw"
    and "lease_id l \<noteq> [] \<longrightarrow> raw_leaseId raw = lease_id l"
    and sr: "(SingleReceipt r = sr \<and> ExecutionReceiptSchema P raw = Some r \<and> verifyReceiptSignature P r (receiptSecret cfg))
      \<or> (WorkflowReceipt w = sr \<and> WorkflowExecutionReceiptSchema P raw = Some w \<and> verifyWorkflowReceiptSignature P w (receiptSecret cfg))"
    and res: "advance_to_verified s task now
        (\<lambda>t. settle_outcome cfg s t (raw_status raw) err sr (raw_evidenceChecksum raw) topics b now) = (s', res)"
  shows "settles P cfg s raw now s' res"
proof (cases "settleable (state task)")
  case False
  with res show ?thesis by (auto simp: advance_not_settleable intro: refused)
next
  case True
  let ?t = "task\<lparr>state := RECEIPT_VERIFIED, updatedAt := toISOString (now 2)\<rparr>"
  have so: "settle_outcome cfg s ?t (raw_status raw) err sr (raw_evidenceChecksum raw) topics b now = (s', res)"
    using res True by (simp add: advance_settleable)
  show ?thesis
  proof (cases "raw_status raw = STATUS_CANCELLED")
    case True
    with so show ?thesis by (auto simp: settle_outcome_cancelled intro: refused)
  next
    case False
    have r: "res = Inr (settled task (if raw_status raw = SUCCESS then COMPLETED else FAILED) err sr (raw_evidenceChecksum raw) (now 3))"
      and s': "tasks s' = js_set (task_taskId task)
        (settled task (if raw_status raw = SUCCESS then COMPLETED else FAILED) err sr (raw_evidenceChecksum raw) (now 3)) (tasks s)"
      using settle_outcome_final [of ?t "raw_status raw" _ err sr "raw_evidenceChecksum raw" now cfg s topics b, OF _ _ refl] so False
      by (auto simp: settled_state_update)
    show ?thesis unfolding r
      by (rule verified [where now = now, OF assms(1,2) True assms(3-6) sr False _ s']) simp
  qed
qed


lemma settles_rejected_tail:
  assumes "js_get (tasks s) (raw_taskId raw) = Some task" "lease task = Some l"
    and "move s task FAILED why n k = (s', res)"
    and "\<And>t. tasks (fst (k t)) = js_set (task_taskId t) (t\<lparr>error := Some err\<rparr>) (tasks s) \<and> (\<exists>e. snd (k t) = Inl e)"
  shows "settles P cfg s raw now s' res"
proof (cases "transition task FAILED why n")
  case (Inl e)
  with assms(3) show ?thesis by (auto simp: move_def intro: refused)
next
  case (Inr t)
  with assms(3,4) obtain e where "tasks s' = js_set (task_taskId t) (t\<lparr>error := Some err\<rparr>) (tasks s)" "res = Inl e"
    by (auto simp: move_def) (metis fst_conv snd_conv)
  with assms(1,2) Inr show ?thesis by (auto intro: rejected)
qed

lemma execution_schema_fields:
  "ExecutionReceiptSchema P raw = Some r \<Longrightarrow>
   receipt_taskId r = raw_taskId raw \<and> status r = raw_status raw \<and> evidenceChecksum r = raw_evidenceChecksum raw
   \<and> receipt_tenantId r = raw_tenantId raw \<and> receipt_agentId r = raw_agentId raw \<and> leaseId r = raw_leaseId raw"
  by (auto simp: ExecutionReceiptSchema_def split: if_splits)

lemma workflow_schema_fields:
  "WorkflowExecutionReceiptSchema P raw = Some r \<Longrightarrow>
   w_taskId r = raw_taskId raw \<and> w_status r = raw_status raw \<and> w_evidenceChecksum r = raw_evidenceChecksum raw
   \<and> w_tenantId r = raw_tenantId raw \<and> w_agentId r = raw_agentId raw \<and> w_leaseId r = raw_leaseId raw"
  by (auto simp: WorkflowExecutionReceiptSchema_def split: if_splits option.splits)

lemma settleReceipt_settles:
  assumes "settleReceipt P cfg s raw now = (s', res)"
  shows "settles P cfg s raw now s' res"
proof (cases "WorkflowExecutionReceiptSchema P raw")
  case (Some r)
  note f = workflow_schema_fields [OF Some]
  show ?thesis
  proof (cases "\<exists>task l. js_get (tasks s) (w_taskId r) = Some task \<and> state task \<noteq> CANCELLED \<and> lease task = Some l")
    case False
    with assms Some show ?thesis
      by (auto simp: settleReceipt_def intro!: refused split: option.splits if_splits)
  next
    case True
    then obtain task l where t: "js_get (tasks s) (raw_taskId raw) = Some task" "state task \<noteq> CANCELLED" "lease task = Some l"
      using f by auto
    let ?x = "\<lparr>expectedTaskId = task_taskId task, expectedWorkflowId = Some (w_workflowId r),
        expectedLeaseId = Some (lease_id l), expectedAgentId = targetAgentId task, expectedTenantId = task_tenantId task\<rparr>"
    show ?thesis
    proof (cases "verifyWorkflowReceipt P (receiptSecret cfg) [] raw ?x")
      case None
      note v = verifyWorkflowReceipt_None [OF None]
      show ?thesis
        by (rule settles_verified_tail [OF t(1,3)]) (use assms Some t f None v in \<open>auto simp: settleReceipt_def\<close>)
    next
      case (Some e)
      obtain ec em where e: "e = (ec, em)" by force
      show ?thesis
        by (rule settles_rejected_tail [OF t(1,3)])
          (use assms \<open>WorkflowExecutionReceiptSchema P raw = Some r\<close> t f Some e in \<open>auto simp: settleReceipt_def frame_simps\<close>)
    qed
  qed
next
  case wNone: None
  show ?thesis
  proof (cases "\<exists>r task l. ExecutionReceiptSchema P raw = Some r \<and> js_get (tasks s) (receipt_taskId r) = Some task
      \<and> state task \<noteq> CANCELLED \<and> lease task = Some l")
    case False
    with assms wNone show ?thesis
      by (auto simp: settleReceipt_def intro!: refused split: option.splits if_splits)
  next
    case True
    then obtain r task l where r: "ExecutionReceiptSchema P raw = Some r"
      and t: "js_get (tasks s) (raw_taskId raw) = Some task" "state task \<noteq> CANCELLED" "lease task = Some l"
      using execution_schema_fields by metis
    note f = execution_schema_fields [OF r]
    let ?x = "\<lparr>expectedTaskId = task_taskId task, expectedWorkflowId = None,
        expectedLeaseId = Some (lease_id l), expectedAgentId = targetAgentId task, expectedTenantId = task_tenantId task\<rparr>"
    show ?thesis
    proof (cases "verify_receipt P (receiptSecret cfg) [] raw ?x")
      case None
      note v = verify_receipt_None [OF None]
      show ?thesis
        by (rule settles_verified_tail [OF t(1,3)]) (use assms wNone r t f None v in \<open>auto simp: settleReceipt_def\<close>)
    next
      case (Some e)
      obtain ec em where e: "e = (ec, em)" by force
      show ?thesis
        by (rule settles_rejected_tail [OF t(1,3)])
          (use assms wNone r t f Some e in \<open>auto simp: settleReceipt_def frame_simps Let_def\<close>)
    qed
  qed
qed

lemma inv_settles:
  assumes "settles P cfg s raw now s' res" and inv: "controller_inv P cfg s"
  shows "controller_inv P cfg s'"
  using assms(1)
proof cases
  case (refused e)
  then show ?thesis using inv inv_cong by blast
next
  case (rejected task why n t err e)
  have "authority_ok P cfg t"
    using transition_authority [OF rejected(4)] inv_get [OF inv rejected(2)] by auto
  then show ?thesis
    by (intro inv_set [OF inv, of "t\<lparr>error := Some err\<rparr>"])
      (use rejected(5) transition_fields [OF rejected(4)] in \<open>auto simp: receipt_ok_def\<close>)
next
  case (verified task l r sr w t err)
  have a: "authority_ok P cfg task" and lb: "lease_bound P cfg task l"
    using inv_get [OF inv verified(2)] verified(3) by (auto simp: authority_ok_def)
  have "decided_state (state task)" "leased_state (state task)"
    using verified(4) by (auto simp: settleable_def decided_state_def leased_state_def)
  with a have "authority_ok P cfg t"
    using verified(11) by (auto simp: authority_ok_def settled_def lease_bound_def)
  moreover have "raw_leaseId raw = lease_id l" using lb verified(8) by (simp add: lease_bound_def)
  then have "receipt_ok P cfg t"
    using verified(3,5-7,9-11) execution_schema_fields [of P raw r] workflow_schema_fields [of P raw w]
    by (auto simp: receipt_ok_def settled_def split: if_splits)
  ultimately show ?thesis
    by (rule inv_set [OF inv]) (use verified(11,12) in \<open>simp add: settled_def\<close>)
qed

interpretation task_map: op_invariant "controller_step P cfg" "\<lambda>s. \<not> uuid_ok P [] \<and> controller_inv P cfg s"
proof
  fix s op
  assume "\<not> uuid_ok P [] \<and> controller_inv P cfg s"
  then show "\<not> uuid_ok P [] \<and> controller_inv P cfg (controller_step P cfg s op)"
    by (cases op) (auto intro: inv_createTask inv_createTaskGraph inv_cancelTask inv_reconcile
        inv_settles [OF settleReceipt_settles [OF prod.collapse [symmetric]]])
qed

section \<open>Which tasks an operation touches\<close>

lemma move_frame:
  "\<lbrakk>js_get (tasks s) k = v; \<And>t'. transition t target why n = Inr t' \<Longrightarrow> js_get (tasks (fst (c t'))) k = v\<rbrakk>
   \<Longrightarrow> js_get (tasks (fst (move s t target why n c))) k = v"
  by (auto simp: move_def split: sum.splits)

lemma frame_deny [frame_simps]:
  "k \<noteq> task_taskId t \<Longrightarrow> js_get (tasks (fst (deny_task cfg s t why fb emit n))) k = js_get (tasks s) k"
  by (auto simp: deny_task_def Let_def frame_simps js_map_simps intro!: move_frame dest!: transition_fields)

lemma frame_dispatch_stage [frame_simps]:
  "k \<noteq> task_taskId t \<Longrightarrow> js_get (tasks (fst (dispatch_stage cfg s t topics now))) k = js_get (tasks s) k"
  by (auto simp: dispatch_stage_def frame_simps js_map_simps intro!: move_frame dest!: transition_fields)

lemma frame_leased_stage [frame_simps]:
  "k \<noteq> task_taskId t \<Longrightarrow> js_get (tasks (fst (leased_stage cfg s t ts1 ts2 now))) k = js_get (tasks s) k"
  by (auto simp: leased_stage_def frame_simps js_map_simps intro!: move_frame dest!: transition_fields)

lemma frame_lease_and_dispatch [frame_simps]:
  assumes "k \<noteq> task_taskId t" "\<And>l u. task_taskId (finish l u) = task_taskId u"
  shows "js_get (tasks (fst (lease_and_dispatch P cfg s t scs ph now uu finish ts1 ts2))) k = js_get (tasks s) k"
  unfolding lease_and_dispatch_def
  by (rule move_frame) (use assms in \<open>auto simp: frame_simps js_map_simps dest!: transition_fields split: sum.split\<close>)

lemma frame_createTask:
  "k \<noteq> uu 0 \<Longrightarrow> js_get (tasks (fst (createTask P cfg s req ctx now uu))) k = js_get (tasks s) k"
  by (simp add: createTask_def Let_def frame_simps js_map_simps)

lemma frame_createTaskGraph:
  "k \<noteq> uu 0 \<Longrightarrow> js_get (tasks (fst (createTaskGraph P cfg s req ctx now uu))) k = js_get (tasks s) k"
  by (auto simp: createTaskGraph_def Let_def frame_simps js_map_simps attach_dag_def
      dest!: evaluate_nodes_tasks split: option.split prod.split)

text \<open>The tenant on whose behalf an operation runs, if there is one: receipts come from agents.\<close>

fun op_tenant :: "controller_op \<Rightarrow> string option" where
  "op_tenant (CreateTask req ctx now uuid) = map_option ctx_tenantId ctx"
| "op_tenant (CreateTaskGraph req ctx now uuid) = map_option ctx_tenantId ctx"
| "op_tenant (CancelTask tid why ctx now) = map_option ctx_tenantId ctx"
| "op_tenant (ReconcileApproval ctx target verdict now) = Some (ctx_tenantId ctx)"
| "op_tenant (SettleReceipt raw now) = None"

fun fresh_id :: "controller \<Rightarrow> controller_op \<Rightarrow> bool" where
  "fresh_id s (CreateTask req ctx now uuid) \<longleftrightarrow> js_get (tasks s) (uuid 0) = None"
| "fresh_id s (CreateTaskGraph req ctx now uuid) \<longleftrightarrow> js_get (tasks s) (uuid 0) = None"
| "fresh_id s _ \<longleftrightarrow> True"

lemma frame_cancelTask:
  assumes "js_get (tasks s) k = Some t" "ctx = None \<or> task_tenantId t \<noteq> ctx_tenantId (the ctx)"
  shows "js_get (tasks (fst (cancelTask cfg s tid why ctx now))) k = Some t"
  using assms
  by (auto simp: cancelTask_def getTask_def frame_simps js_map_simps authenticated_def
      intro!: move_frame split: option.split sum.split if_splits)

lemma frame_reconcile:
  assumes "controller_inv P cfg s" "js_get (tasks s) k = Some t" "task_tenantId t \<noteq> ctx_tenantId ctx"
  shows "js_get (tasks (fst (reconcile_approval s ctx target verdict now))) k = Some t"
  using assms inv_get [OF assms(1)]
  by (auto simp: reconcile_approval_def frame_simps js_map_simps intro!: move_frame
      dest!: transition_fields split: option.split approval_verdict.split)

text \<open>A terminal task is refused by every transition, so no operation rewrites it.\<close>

lemma terminal_no_transition: "isTerminal (state t) \<Longrightarrow> transition t target why n \<noteq> Inr t'"
  using task_machine.terminal_closed by (auto simp: transition_def)

lemma frame_settles_terminal:
  assumes "settles P cfg s raw now s' res" "controller_inv P cfg s" "js_get (tasks s) k = Some t" "isTerminal (state t)"
  shows "js_get (tasks s') k = Some t"
  using assms(1)
proof cases
  case (refused e)
  then show ?thesis using assms(3) by simp
next
  case (rejected task why n t' err e)
  then have "k \<noteq> task_taskId t'"
    using assms(3,4) terminal_no_transition inv_get [OF assms(2) rejected(2)] transition_fields [OF rejected(4)] by auto
  then show ?thesis using rejected(5) assms(3) by (simp add: js_map_simps)
next
  case (verified task l r sr w t' err)
  then have "k \<noteq> task_taskId task" using assms(3,4) by (auto simp: settleable_def isTerminal_def)
  then show ?thesis using verified(12) assms(3) by (simp add: js_map_simps)
qed

lemma frame_cancel_terminal:
  assumes "js_get (tasks s) k = Some t" "isTerminal (state t)"
  shows "js_get (tasks (fst (cancelTask cfg s tid why ctx now))) k = Some t"
  using assms terminal_no_transition
  by (auto simp: cancelTask_def getTask_def frame_simps js_map_simps
      intro!: move_frame split: option.split sum.split if_splits)

lemma frame_reconcile_terminal:
  assumes "controller_inv P cfg s" "js_get (tasks s) k = Some t" "isTerminal (state t)"
  shows "js_get (tasks (fst (reconcile_approval s ctx target verdict now))) k = Some t"
  using assms inv_get [OF assms(1)]
  by (auto simp: reconcile_approval_def frame_simps js_map_simps isTerminal_def intro!: move_frame
      dest!: transition_fields split: option.split approval_verdict.split)

fun fresh_ops :: "platform \<Rightarrow> controller_config \<Rightarrow> controller \<Rightarrow> controller_op list \<Rightarrow> bool" where
  "fresh_ops P cfg s [] \<longleftrightarrow> True"
| "fresh_ops P cfg s (op # ops) \<longleftrightarrow> fresh_id s op \<and> fresh_ops P cfg (controller_step P cfg s op) ops"

lemma step_terminal:
  assumes "controller_inv P cfg s" "js_get (tasks s) k = Some t" "isTerminal (state t)" "fresh_id s op"
  shows "js_get (tasks (controller_step P cfg s op)) k = Some t"
proof (cases op)
  case (CreateTask req ctx now uuid)
  with assms show ?thesis by (cases "k = uuid 0") (auto simp: frame_createTask)
next
  case (CreateTaskGraph req ctx now uuid)
  with assms show ?thesis by (cases "k = uuid 0") (auto simp: frame_createTaskGraph)
next
  case (SettleReceipt raw now)
  with frame_settles_terminal [OF settleReceipt_settles [OF prod.collapse [symmetric]] assms(1-3)]
  show ?thesis by simp
qed (use assms frame_cancel_terminal frame_reconcile_terminal in auto)

section \<open>Properties\<close>

subsection \<open>A controller to evaluate\<close>

definition test_user :: authenticated_context where
  "test_user = \<lparr>principal = \<lparr>principal_type = ''USER'', userId = Some ''u1'', serviceId = None, deviceId = None,
     roles = Some [''operator''], principal_scopes = None\<rparr>, ctx_tenantId = ''acme'', ctx_workspaceId = None,
     issuedAt = None, expiresAt = Some ''2027-01-01T00:00:00.000Z'', rawTokenHash = None\<rparr>"

definition test_cfg :: controller_config where
  "test_cfg = \<lparr>leaseIssuer = test_issuer, receiptSecret = ''fedcba9876543210'',
     policyEvaluator = (\<lambda>r. evaluate test_config (boundary_snapshot test_boundary) r ''D1'' 1767225600000 1767225600000),
     hasPublisher = True, hasStreamBus = False, hasAuditLogger = False, hasBridge = True\<rparr>"

definition test_create :: controller_op where
  "test_create = CreateTask
     \<lparr>req_title = ''read'', req_targetAgentId = ''A1'', req_capabilityId = ''fs.read'', req_runtimeCategory = ''fs'',
      req_parameters = [], req_requestedScope = ''fs.read'', req_metadata = None\<rparr>
     (Some test_user) (\<lambda>_. 1767225600000) (\<lambda>i. if i = 0 then ''T1'' else ''U'')"

definition test_state :: controller where
  "test_state = controller_step test_platform test_cfg empty_controller test_create"

definition test_receipt :: "receipt_status \<Rightarrow> raw_receipt" where
  "test_receipt st =
     (let raw = \<lparr>raw_receiptId = ''R1'', raw_workflowId = None, raw_taskId = ''T1'', raw_leaseId = ''U'', raw_agentId = ''A1'',
        raw_tenantId = ''acme'', raw_status = st, raw_exitCode = None, raw_completedNodes = None, raw_failedNodes = None,
        raw_nodeOutputs = None, raw_evidenceChecksum = computeEvidenceHash test_platform None, raw_output = None,
        raw_errorMessage = None, raw_completedAt = ''2026-01-01T00:01:00.000Z'', raw_signature = ''x''\<rparr>
      in raw\<lparr>raw_signature := computeReceiptSignature test_platform
                (the (ExecutionReceiptSchema test_platform raw)) (receiptSecret test_cfg)\<rparr>)"

lemma empty_inv: "controller_inv P cfg empty_controller"
  by (simp add: controller_inv_def empty_controller_def js_map_simps)

lemma test_inv: "controller_inv test_platform test_cfg test_state"
  using task_map.inv_step [of test_platform test_cfg empty_controller test_create] empty_inv
  by (simp add: test_state_def)

subsection \<open>Theorems\<close>

text \<open>C1. Authority of tasks. After any sequence of intakes, cancellations, settlements and approval
  decisions, every stored task that is past POLICY_EVALUATED holds a lease the issuer signed for
  exactly this task, tenant and agent under an allowing policy decision, and every COMPLETED task
  an authentic SUCCESS receipt naming the same task, tenant, agent and lease.\<close>

theorem task_authority_invariant:
  assumes "\<not> uuid_ok P []"
    and "js_get (tasks (foldl (controller_step P cfg) empty_controller ops)) tid = Some t"
  shows "task_taskId t = tid
    \<and> (leased_state (state t) \<longrightarrow> (\<exists>l d. lease t = Some l \<and> verifyLease P (leaseIssuer cfg) l \<and> task_id l = tid
         \<and> tenant_id l = task_tenantId t \<and> agent_id l = targetAgentId t \<and> policyDecision t = Some d \<and> pd_allowed d))
    \<and> (state t = COMPLETED \<longrightarrow> (\<exists>r. receipt t = Some r \<and> receipt_success r \<and> receipt_authentic P cfg t r))"
proof -
  have "controller_inv P cfg (foldl (controller_step P cfg) empty_controller ops)"
    using task_map.inv_run assms(1) empty_inv by blast
  from inv_get [OF this assms(2)] show ?thesis
    by (auto simp: authority_ok_def lease_bound_def receipt_ok_def decided_state_def leased_state_def)
qed

theorem task_authority_invariant_witness:
  "\<exists>t l. js_get (tasks (foldl (controller_step test_platform test_cfg) empty_controller
        [test_create, SettleReceipt (test_receipt SUCCESS) (\<lambda>_. 1767225660000)])) ''T1'' = Some t
     \<and> state t = COMPLETED \<and> lease t = Some l \<and> verifyLease test_platform test_issuer l"
proof -
  let ?s = "foldl (controller_step test_platform test_cfg) empty_controller
        [test_create, SettleReceipt (test_receipt SUCCESS) (\<lambda>_. 1767225660000)]"
  have "map_option state (js_get (tasks ?s) ''T1'') = Some COMPLETED" by code_simp
  then obtain t where t: "js_get (tasks ?s) ''T1'' = Some t" "state t = COMPLETED" by auto
  from task_authority_invariant [OF _ t(1)] t(2) obtain l where
    "lease t = Some l" "verifyLease test_platform (leaseIssuer test_cfg) l"
    by (auto simp: leased_state_def)
  with t show ?thesis by (auto simp: test_cfg_def)
qed

text \<open>C9. Settlement. When \<open>settleReceipt\<close> returns a task, the stored task was LEASED, DISPATCHED or
  EXECUTING, the receipt named its tenant, agent and lease, the result is stored under the task's
  identifier and is COMPLETED exactly for a SUCCESS receipt and FAILED otherwise, and no other task
  changed.\<close>

theorem settleReceipt_settles_once:
  assumes "controller_inv P cfg s" "settleReceipt P cfg s raw now = (s', Inr t)"
  shows "\<exists>task l. js_get (tasks s) (raw_taskId raw) = Some task \<and> settleable (state task)
    \<and> lease task = Some l \<and> raw_leaseId raw = lease_id l
    \<and> raw_tenantId raw = task_tenantId task \<and> raw_agentId raw = targetAgentId task
    \<and> state t = (if raw_status raw = SUCCESS then COMPLETED else FAILED)
    \<and> (\<forall>k. js_get (tasks s') k = (if k = raw_taskId raw then Some t else js_get (tasks s) k))"
  using settleReceipt_settles [OF assms(2)]
proof cases
  case (verified task l r sr w err)
  have "lease_id l \<noteq> []"
    using inv_get [OF assms(1) verified(1)] verified(2) by (auto simp: authority_ok_def lease_bound_def)
  with verified show ?thesis by (auto simp: settled_def js_map_simps)
qed

theorem settleReceipt_settles_once_witness:
  "\<exists>task. js_get (tasks test_state) ''T1'' = Some task \<and> settleable (state task)"
proof -
  have "\<not> isl (snd (settleReceipt test_platform test_cfg test_state (test_receipt SUCCESS) (\<lambda>_. 0)))" by code_simp
  then obtain s' t where "settleReceipt test_platform test_cfg test_state (test_receipt SUCCESS) (\<lambda>_. 0) = (s', Inr t)"
    by (metis isl_def prod.collapse sum.exhaust)
  moreover have "raw_taskId (test_receipt SUCCESS) = ''T1''" by (simp add: test_receipt_def Let_def)
  ultimately show ?thesis using settleReceipt_settles_once [OF test_inv] by metis
qed

text \<open>A receipt with status CANCELLED can never be settled: after verifying it the code moves the
  task to RECEIPT_VERIFIED and then to CANCELLED, which the transition table forbids, so every such
  settlement ends in an error and no task becomes CANCELLED through it.\<close>

theorem settleReceipt_cancelled_always_fails:
  assumes "raw_status raw = STATUS_CANCELLED"
  shows "\<exists>e. snd (settleReceipt P cfg s raw now) = Inl e"
  using settleReceipt_settles [OF prod.collapse [symmetric], of P cfg s raw now]
  by cases (use assms in auto)

theorem settleReceipt_cancelled_always_fails_witness:
  "snd (settleReceipt test_platform test_cfg test_state (test_receipt STATUS_CANCELLED) (\<lambda>_. 0))
     = Inl (IllegalTransition (TaskStateMachineError RECEIPT_VERIFIED CANCELLED None))"
proof -
  have "raw_status (test_receipt STATUS_CANCELLED) = STATUS_CANCELLED" by (simp add: test_receipt_def Let_def)
  from settleReceipt_cancelled_always_fails [OF this, of test_platform test_cfg test_state "\<lambda>_. 0"]
  obtain e where e: "snd (settleReceipt test_platform test_cfg test_state (test_receipt STATUS_CANCELLED) (\<lambda>_. 0)) = Inl e" ..
  have "(case snd (settleReceipt test_platform test_cfg test_state (test_receipt STATUS_CANCELLED) (\<lambda>_. 0)) of
      Inl (IllegalTransition x) \<Rightarrow> x = TaskStateMachineError RECEIPT_VERIFIED CANCELLED None | _ \<Rightarrow> False)"
    by code_simp
  with e show ?thesis by (auto split: controller_error.splits)
qed



text \<open>C11. Tenant isolation. Creating, cancelling or deciding on behalf of one tenant leaves every task
  of every other tenant exactly as it was.\<close>

theorem controller_tenant_isolation:
  assumes "controller_inv P cfg s" "js_get (tasks s) k = Some t" "fresh_id s op"
    and "op_tenant op \<noteq> Some (task_tenantId t)" "\<And>raw now. op \<noteq> SettleReceipt raw now"
  shows "js_get (tasks (controller_step P cfg s op)) k = Some t"
proof (cases op)
  case (CreateTask req ctx now uuid)
  with assms show ?thesis by (cases "k = uuid 0") (auto simp: frame_createTask)
next
  case (CreateTaskGraph req ctx now uuid)
  with assms show ?thesis by (cases "k = uuid 0") (auto simp: frame_createTaskGraph)
next
  case (CancelTask tid why ctx now)
  with assms show ?thesis by (auto intro!: frame_cancelTask)
next
  case (ReconcileApproval ctx target verdict now)
  with assms show ?thesis by (auto intro!: frame_reconcile)
qed (use assms in auto)

theorem controller_tenant_isolation_witness:
  "\<exists>t. js_get (tasks (controller_step test_platform test_cfg test_state
        (CancelTask ''T1'' None (Some (test_user\<lparr>ctx_tenantId := ''evil''\<rparr>)) (\<lambda>_. 0)))) ''T1'' = Some t
     \<and> state t = DISPATCHED"
proof -
  have "map_option (\<lambda>t. (state t, task_tenantId t)) (js_get (tasks test_state) ''T1'') = Some (DISPATCHED, ''acme'')"
    by code_simp
  then obtain t where "js_get (tasks test_state) ''T1'' = Some t" "state t = DISPATCHED" "task_tenantId t = ''acme''" by auto
  then show ?thesis
    using controller_tenant_isolation [OF test_inv, of "''T1''" t
        "CancelTask ''T1'' None (Some (test_user\<lparr>ctx_tenantId := ''evil''\<rparr>)) (\<lambda>_. 0)"]
    by auto
qed

end
