(* ===== verification/Agent_Directory.thy ===== *)
theory Agent_Directory
  imports Platform Complex_Main
begin

text \<open>
  The agent directory (\<open>services/backend/src/agents/agent-directory.ts\<close>) with its contract
  (\<open>packages/contracts/src/acp/directory.ts\<close>): registration under a per-tenant limit, heartbeats,
  discovery of eligible agents by tenant, workspace, freshness, capability and role, retirement and
  pruning. Agents live in one map under the key \<open>tenant::agent\<close>; that the tenants are kept apart
  rests on tenant identifiers having no colon, which is stated as \<open>tenant_format\<close>. Loads are
  rational numbers. What is published to the event bus is observational and not kept here.

  The interface \<open>tenant_keyed\<close> is what a map shared by several tenants must promise: composite keys
  that determine the tenant. It carries the isolation and capacity lemmas.
\<close>

section \<open>Data\<close>

datatype agent_role = COORDINATOR | SPECIALIST | SUPERVISOR | WORKER

datatype agent_status = REGISTERED | AVAILABLE | BUSY | UNHEALTHY | RETIRED

record agent_registration =
  reg_agentId :: string
  reg_tenantId :: string
  reg_workspaceScope :: "string list"
  reg_role :: agent_role
  reg_capabilities :: "string list"
  reg_version :: string
  reg_metadata :: "(string \<times> string) list option"
  reg_registeredAt :: string

record agent_heartbeat =
  hb_agentId :: string
  hb_tenantId :: string
  hb_status :: agent_status
  hb_currentLoad :: rat
  hb_timestamp :: string
  hb_activeTaskIds :: "string list"

record agent_record =
  rec_agentId :: string
  rec_tenantId :: string
  workspaceScope :: "string list"
  role :: agent_role
  capabilities :: "string list"
  version :: string
  metadata :: "(string \<times> string) list"
  registeredAt :: string
  lastHeartbeat :: string
  agent_status :: agent_status
  currentLoad :: rat
  activeTaskIds :: "string list"

definition AgentRegistrationSchema :: "platform \<Rightarrow> agent_registration \<Rightarrow> bool" where
  "AgentRegistrationSchema P r \<longleftrightarrow>
     1 \<le> length (reg_agentId r) \<and> length (reg_agentId r) \<le> 128 \<and> uuid_ok P (reg_tenantId r)
     \<and> reg_workspaceScope r \<noteq> [] \<and> list_all (\<lambda>w. w \<noteq> []) (reg_workspaceScope r)
     \<and> reg_capabilities r \<noteq> [] \<and> list_all (\<lambda>c. c \<noteq> []) (reg_capabilities r)
     \<and> 1 \<le> length (reg_version r) \<and> length (reg_version r) \<le> 64 \<and> datetime_ok P (reg_registeredAt r)"

definition AgentHeartbeatSchema :: "platform \<Rightarrow> agent_heartbeat \<Rightarrow> bool" where
  "AgentHeartbeatSchema P h \<longleftrightarrow>
     1 \<le> length (hb_agentId h) \<and> length (hb_agentId h) \<le> 128 \<and> uuid_ok P (hb_tenantId h)
     \<and> 0 \<le> hb_currentLoad h \<and> hb_currentLoad h \<le> 1 \<and> datetime_ok P (hb_timestamp h)"

record directory =
  agents :: "(string, agent_record) jsmap"
  heartbeatTtlMs :: int
  maxAgentsPerTenant :: nat

record agent_discovery_query =
  q_tenantId :: string
  q_workspaceId :: string
  requiredCapabilities :: "string list option"
  preferredRole :: "agent_role option"

datatype directory_error = DirectorySchemaError | RegistrationLimit nat string

section \<open>Operations\<close>

definition AgentDirectoryService :: "int option \<Rightarrow> nat option \<Rightarrow> directory" where
  "AgentDirectoryService ttl cap = \<lparr>agents = [], heartbeatTtlMs = nullish ttl 45000, maxAgentsPerTenant = nullish cap 50\<rparr>"

definition getCompositeKey :: "string \<Rightarrow> string \<Rightarrow> string" where
  "getCompositeKey tenant agent = tenant @ ''::'' @ agent"

definition listAgents :: "directory \<Rightarrow> string \<Rightarrow> agent_record list" where
  "listAgents d tenant = filter (\<lambda>r. rec_tenantId r = tenant) (js_values (agents d))"

definition registerAgent ::
  "platform \<Rightarrow> directory \<Rightarrow> agent_registration \<Rightarrow> directory \<times> (directory_error + agent_record)" where
  "registerAgent P d v =
     (if \<not> AgentRegistrationSchema P v then (d, Inl DirectorySchemaError)
      else let key = getCompositeKey (reg_tenantId v) (reg_agentId v) in
        if length (listAgents d (reg_tenantId v)) \<ge> maxAgentsPerTenant d \<and> \<not> js_has (agents d) key
        then (d, Inl (RegistrationLimit (maxAgentsPerTenant d) (reg_tenantId v)))
        else
          let existing = js_get (agents d) key;
              record = \<lparr>rec_agentId = reg_agentId v, rec_tenantId = reg_tenantId v,
                workspaceScope = reg_workspaceScope v, role = reg_role v,
                capabilities = js_unique (reg_capabilities v), version = reg_version v,
                metadata = nullish (reg_metadata v) [], registeredAt = reg_registeredAt v,
                lastHeartbeat = nullish (map_option lastHeartbeat existing) (reg_registeredAt v),
                agent_status = nullish (map_option agent_status existing) AVAILABLE,
                currentLoad = nullish (map_option currentLoad existing) 0,
                activeTaskIds = nullish (map_option activeTaskIds existing) []\<rparr>
          in (d\<lparr>agents := js_set key record (agents d)\<rparr>, Inr record))"

definition recordHeartbeat :: "platform \<Rightarrow> directory \<Rightarrow> agent_heartbeat \<Rightarrow> directory \<times> (directory_error + bool)" where
  "recordHeartbeat P d h =
     (if \<not> AgentHeartbeatSchema P h then (d, Inl DirectorySchemaError)
      else let key = getCompositeKey (hb_tenantId h) (hb_agentId h) in
        case js_get (agents d) key of
          None \<Rightarrow> (d, Inr False)
        | Some r \<Rightarrow>
            (d\<lparr>agents := js_set key
                 (r\<lparr>lastHeartbeat := hb_timestamp h, agent_status := hb_status h, currentLoad := hb_currentLoad h,
                    activeTaskIds := hb_activeTaskIds h\<rparr>) (agents d)\<rparr>, Inr True))"

text \<open>\<open>now - heartbeatTime > ttl\<close>; an unreadable heartbeat is \<open>NaN\<close> and never stale.\<close>

definition older_than :: "int \<Rightarrow> int \<Rightarrow> agent_record \<Rightarrow> bool" where
  "older_than now age r \<longleftrightarrow> (case date_parse (lastHeartbeat r) of None \<Rightarrow> False | Some t \<Rightarrow> now - t > age)"

text \<open>One iteration of \<open>findEligibleAgents\<close>: the record, possibly marked, and whether it is a result.\<close>

definition examine :: "directory \<Rightarrow> agent_discovery_query \<Rightarrow> int \<Rightarrow> agent_record \<Rightarrow> agent_record \<times> bool" where
  "examine d q now r =
     (if rec_tenantId r \<noteq> q_tenantId q then (r, False)
      else if \<not> (''*'' \<in> set (workspaceScope r) \<or> q_workspaceId q \<in> set (workspaceScope r)) then (r, False)
      else if older_than now (heartbeatTtlMs d) r then (r\<lparr>agent_status := UNHEALTHY\<rparr>, False)
      else if agent_status r \<noteq> AVAILABLE \<and> agent_status r \<noteq> REGISTERED then (r, False)
      else if \<not> list_all (\<lambda>c. c \<in> set (capabilities r)) (nullish (requiredCapabilities q) []) then (r, False)
      else if (case preferredRole q of None \<Rightarrow> False | Some x \<Rightarrow> role r \<noteq> x) then (r, False)
      else (r, True))"

definition findEligibleAgents ::
  "directory \<Rightarrow> agent_discovery_query \<Rightarrow> int \<Rightarrow> directory \<times> agent_record list" where
  "findEligibleAgents d q now =
     (d\<lparr>agents := map (\<lambda>(k, r). (k, fst (examine d q now r))) (agents d)\<rparr>,
      sort_key currentLoad (filter (\<lambda>r. snd (examine d q now r)) (js_values (agents d))))"

definition getAgent :: "directory \<Rightarrow> string \<Rightarrow> string \<Rightarrow> agent_record option" where
  "getAgent d tenant agent = js_get (agents d) (getCompositeKey tenant agent)"

definition retireAgent :: "directory \<Rightarrow> string \<Rightarrow> string \<Rightarrow> directory \<times> bool" where
  "retireAgent d tenant agent =
     (let key = getCompositeKey tenant agent in
      case js_get (agents d) key of
        None \<Rightarrow> (d, False)
      | Some r \<Rightarrow> (d\<lparr>agents := js_set key (r\<lparr>agent_status := RETIRED\<rparr>) (agents d)\<rparr>, True))"

definition prunable :: "int \<Rightarrow> int \<Rightarrow> agent_record \<Rightarrow> bool" where
  "prunable now maxAgeMs r \<longleftrightarrow> agent_status r = RETIRED \<or> older_than now maxAgeMs r"

definition pruneStaleAgents :: "directory \<Rightarrow> int \<Rightarrow> int \<Rightarrow> directory \<times> nat" where
  "pruneStaleAgents d maxAgeMs now =
     (d\<lparr>agents := filter (\<lambda>(k, r). \<not> prunable now maxAgeMs r) (agents d)\<rparr>,
      length (filter (\<lambda>(k, r). prunable now maxAgeMs r) (agents d)))"

definition directory_clear :: "directory \<Rightarrow> directory" where
  "directory_clear d = d\<lparr>agents := []\<rparr>"

datatype directory_op =
    Register agent_registration
  | Heartbeat agent_heartbeat
  | FindEligible agent_discovery_query int
  | Retire string string
  | Prune int int
  | ClearDirectory

fun directory_step :: "platform \<Rightarrow> directory \<Rightarrow> directory_op \<Rightarrow> directory" where
  "directory_step P d (Register v) = fst (registerAgent P d v)"
| "directory_step P d (Heartbeat h) = fst (recordHeartbeat P d h)"
| "directory_step P d (FindEligible q now) = fst (findEligibleAgents d q now)"
| "directory_step P d (Retire t a) = fst (retireAgent d t a)"
| "directory_step P d (Prune age now) = fst (pruneStaleAgents d age now)"
| "directory_step P d ClearDirectory = directory_clear d"

section \<open>Composite keys\<close>

text \<open>A map shared by tenants: the key determines the tenant, for tenants of the right form.\<close>

locale tenant_keyed =
  fixes key :: "string \<Rightarrow> 'id \<Rightarrow> 'k"
    and tenant_ok :: "string \<Rightarrow> bool"
  assumes key_inj: "\<lbrakk>tenant_ok t; tenant_ok t'; key t i = key t' i'\<rbrakk> \<Longrightarrow> t = t' \<and> i = i'"
begin

lemma other_tenant_untouched:
  "\<lbrakk>tenant_ok t; tenant_ok t'; t \<noteq> t'\<rbrakk> \<Longrightarrow> js_get (js_set (key t i) v m) (key t' i') = js_get m (key t' i')"
  using key_inj by (auto simp: js_map_simps)

lemma other_id_untouched:
  "\<lbrakk>tenant_ok t; i \<noteq> i'\<rbrakk> \<Longrightarrow> js_get (js_set (key t i) v m) (key t i') = js_get m (key t i')"
  using key_inj by (auto simp: js_map_simps)

end

definition no_colon :: "string \<Rightarrow> bool" where
  "no_colon t \<longleftrightarrow> CHR '':'' \<notin> set t"

lemma split_at_colon:
  "\<lbrakk>CHR '':'' \<notin> set t; CHR '':'' \<notin> set t'; t @ CHR '':'' # a = t' @ CHR '':'' # a'\<rbrakk> \<Longrightarrow> t = t' \<and> a = a'"
proof (induction t arbitrary: t')
  case Nil
  then show ?case by (cases t') auto
next
  case (Cons c t)
  then show ?case by (cases t') auto
qed

interpretation directory_keys: tenant_keyed getCompositeKey no_colon
  by unfold_locales (auto simp: getCompositeKey_def no_colon_def dest: split_at_colon)

text \<open>What a UUID promises here: it contains no colon.\<close>

definition tenant_format :: "platform \<Rightarrow> bool" where
  "tenant_format P \<longleftrightarrow> (\<forall>t. uuid_ok P t \<longrightarrow> no_colon t)"

section \<open>The directory invariant\<close>

definition directory_inv :: "directory \<Rightarrow> bool" where
  "directory_inv d \<longleftrightarrow>
     js_map_wf (agents d)
     \<and> (\<forall>(k, r) \<in> set (agents d). k = getCompositeKey (rec_tenantId r) (rec_agentId r) \<and> no_colon (rec_tenantId r))
     \<and> (\<forall>t. length (listAgents d t) \<le> maxAgentsPerTenant d)"

lemma count_js_set_same:
  "\<lbrakk>js_get m k = Some r; p r = p v\<rbrakk> \<Longrightarrow>
   length (filter p (js_values (js_set k v m))) = length (filter p (js_values m))"
  by (induction m) (auto simp: js_get_def js_set_def js_values_def split: if_splits)

lemma js_values_set_new: "js_get m k = None \<Longrightarrow> js_values (js_set k v m) = js_values m @ [v]"
  by (induction m) (auto simp: js_get_def js_set_def js_values_def split: if_splits)

lemma directory_inv_get:
  "\<lbrakk>directory_inv d; js_get (agents d) k = Some r\<rbrakk> \<Longrightarrow>
   k = getCompositeKey (rec_tenantId r) (rec_agentId r) \<and> no_colon (rec_tenantId r)"
  using js_get_in_set unfolding directory_inv_def by fastforce

text \<open>Replacing a record by one of the same identity.\<close>

lemma inv_replace:
  assumes "directory_inv d" "js_get (agents d) k = Some r"
    and "rec_tenantId r' = rec_tenantId r" "rec_agentId r' = rec_agentId r"
  shows "directory_inv (d\<lparr>agents := js_set k r' (agents d)\<rparr>)"
proof -
  have "length (listAgents (d\<lparr>agents := js_set k r' (agents d)\<rparr>) t) = length (listAgents d t)" for t
    using count_js_set_same [OF assms(2), of "\<lambda>r. rec_tenantId r = t" r'] assms(3) by (simp add: listAgents_def)
  then show ?thesis
    using assms directory_inv_get [OF assms(1,2)] by (auto simp: directory_inv_def dest!: js_set_elem)
qed

lemma inv_registerAgent:
  assumes inv: "directory_inv d" and fmt: "tenant_format P"
  shows "directory_inv (fst (registerAgent P d v))"
proof (cases "AgentRegistrationSchema P v")
  case False
  then show ?thesis using inv by (simp add: registerAgent_def)
next
  case True
  let ?key = "getCompositeKey (reg_tenantId v) (reg_agentId v)"
  have nc: "no_colon (reg_tenantId v)" using True fmt by (simp add: AgentRegistrationSchema_def tenant_format_def)
  show ?thesis
  proof (cases "js_get (agents d) ?key")
    case None
    have "directory_inv (d\<lparr>agents := js_set ?key r (agents d)\<rparr>)"
      if "rec_tenantId r = reg_tenantId v" "rec_agentId r = reg_agentId v"
        "length (listAgents d (reg_tenantId v)) < maxAgentsPerTenant d" for r
    proof -
      have "listAgents (d\<lparr>agents := js_set ?key r (agents d)\<rparr>) t =
          listAgents d t @ (if t = reg_tenantId v then [r] else [])" for t
        using that(1) by (simp add: listAgents_def js_values_set_new [OF None])
      then show ?thesis using inv nc that by (auto simp: directory_inv_def dest!: js_set_elem)
    qed
    with True inv None show ?thesis by (auto simp: registerAgent_def Let_def js_has_def)
  next
    case (Some r)
    have "rec_tenantId r = reg_tenantId v \<and> rec_agentId r = reg_agentId v"
      using directory_inv_get [OF inv Some] nc by (metis directory_keys.key_inj)
    with True inv Some show ?thesis
      by (auto simp: registerAgent_def Let_def js_has_def intro!: inv_replace [OF inv Some])
  qed
qed

lemma examine_identity [simp]:
  "rec_tenantId (fst (examine d q now r)) = rec_tenantId r" "rec_agentId (fst (examine d q now r)) = rec_agentId r"
  by (simp_all add: examine_def)

lemma inv_findEligibleAgents:
  assumes "directory_inv d"
  shows "directory_inv (fst (findEligibleAgents d q now))"
proof -
  have "length (listAgents (fst (findEligibleAgents d q now)) t) = length (listAgents d t)" for t
    by (simp add: listAgents_def findEligibleAgents_def js_values_def case_prod_unfold comp_def filter_map)
  then show ?thesis
    using assms by (auto simp: directory_inv_def findEligibleAgents_def)
qed

lemma length_filter_conj: "length (filter (\<lambda>x. p x \<and> q x) xs) \<le> length (filter q xs)"
  by (induction xs) auto

lemma inv_pruneStaleAgents:
  assumes "directory_inv d"
  shows "directory_inv (fst (pruneStaleAgents d age now))"
proof -
  have "length (listAgents (fst (pruneStaleAgents d age now)) t) \<le> length (listAgents d t)" for t
    by (simp add: listAgents_def pruneStaleAgents_def js_values_def filter_map comp_def case_prod_unfold
        length_filter_conj)
  moreover have "length (listAgents d t) \<le> maxAgentsPerTenant (fst (pruneStaleAgents d age now))" for t
    using assms by (simp add: directory_inv_def pruneStaleAgents_def)
  ultimately have "length (listAgents (fst (pruneStaleAgents d age now)) t) \<le> maxAgentsPerTenant (fst (pruneStaleAgents d age now))" for t
    using le_trans by blast
  moreover have "js_map_wf (agents (fst (pruneStaleAgents d age now)))"
    "set (agents (fst (pruneStaleAgents d age now))) \<subseteq> set (agents d)"
    using assms by (auto simp: directory_inv_def pruneStaleAgents_def)
  ultimately show ?thesis using assms unfolding directory_inv_def by blast
qed

interpretation directory_ops: op_invariant "directory_step P" "\<lambda>d. tenant_format P \<and> directory_inv d"
proof
  fix d op
  assume "tenant_format P \<and> directory_inv d"
  then show "tenant_format P \<and> directory_inv (directory_step P d op)"
    by (cases op) (auto simp: inv_registerAgent inv_findEligibleAgents inv_pruneStaleAgents recordHeartbeat_def
        retireAgent_def directory_clear_def Let_def listAgents_def js_values_def directory_inv_def [of "_\<lparr>agents := []\<rparr>"]
        split: option.split intro: inv_replace)
qed

section \<open>Properties\<close>

definition test_directory :: directory where
  "test_directory = AgentDirectoryService None (Some 2)"

definition test_registration :: "string \<Rightarrow> string \<Rightarrow> agent_registration" where
  "test_registration t a = \<lparr>reg_agentId = a, reg_tenantId = t, reg_workspaceScope = [''*''], reg_role = WORKER,
     reg_capabilities = [''fs.read''], reg_version = ''1'', reg_metadata = None,
     reg_registeredAt = ''2026-01-01T00:00:00.000Z''\<rparr>"

definition colon_free_platform :: platform where
  "colon_free_platform = test_platform\<lparr>uuid_ok := (\<lambda>s. s \<noteq> [] \<and> no_colon s)\<rparr>"

lemma tenant_format_test: "tenant_format colon_free_platform"
  by (simp add: tenant_format_def colon_free_platform_def)

lemma empty_directory_inv: "directory_inv (AgentDirectoryService ttl cap)"
  by (simp add: directory_inv_def AgentDirectoryService_def listAgents_def js_values_def)

text \<open>Capacity and identity. After any sequence of operations no tenant has more agents than the
  limit, and the record found for a tenant and an agent is that tenant's record of that agent.\<close>

theorem directory_capacity:
  assumes "tenant_format P" and d: "d = foldl (directory_step P) (AgentDirectoryService ttl cap) ops"
  shows "length (listAgents d t) \<le> maxAgentsPerTenant d
    \<and> (no_colon t \<and> getAgent d t a = Some r \<longrightarrow> rec_tenantId r = t \<and> rec_agentId r = a)"
proof -
  have inv: "directory_inv d"
    using directory_ops.inv_run [of P "AgentDirectoryService ttl cap" ops] assms(1) empty_directory_inv
    by (simp add: d)
  have "rec_tenantId r = t \<and> rec_agentId r = a" if "no_colon t" "getAgent d t a = Some r"
    using directory_inv_get [OF inv that(2) [unfolded getAgent_def]] that(1) by (metis directory_keys.key_inj)
  with inv show ?thesis by (auto simp: directory_inv_def)
qed

theorem directory_capacity_witness:
  "length (listAgents (foldl (directory_step colon_free_platform) (AgentDirectoryService None (Some 2))
      (map (\<lambda>a. Register (test_registration ''acme'' a)) [''a'', ''b'', ''c''])) ''acme'') \<le> 2"
proof -
  have "maxAgentsPerTenant (foldl (directory_step colon_free_platform) (AgentDirectoryService None (Some 2))
      (map (\<lambda>a. Register (test_registration ''acme'' a)) [''a'', ''b'', ''c''])) = 2" by code_simp
  with directory_capacity [OF tenant_format_test refl, of None "Some 2" "map (\<lambda>a. Register (test_registration ''acme'' a)) [''a'', ''b'', ''c'']" "''acme''"]
  show ?thesis by simp
qed

text \<open>Discovery. \<open>findEligibleAgents\<close> returns exactly the agents of the query's tenant that have access
  to its workspace, a fresh heartbeat, an available status, every required capability and the
  preferred role, by increasing load and, for equal loads, in registration order.\<close>

theorem findEligibleAgents_exact:
  assumes "findEligibleAgents d q now = (d', rs)"
  shows "set rs = {r \<in> set (js_values (agents d)). rec_tenantId r = q_tenantId q
      \<and> (''*'' \<in> set (workspaceScope r) \<or> q_workspaceId q \<in> set (workspaceScope r))
      \<and> \<not> older_than now (heartbeatTtlMs d) r \<and> (agent_status r = AVAILABLE \<or> agent_status r = REGISTERED)
      \<and> (\<forall>c \<in> set (nullish (requiredCapabilities q) []). c \<in> set (capabilities r))
      \<and> (preferredRole q = None \<or> preferredRole q = Some (role r))}
    \<and> sorted (map currentLoad rs)
    \<and> (\<forall>l. filter (\<lambda>r. currentLoad r = l) rs
          = filter (\<lambda>r. currentLoad r = l \<and> snd (examine d q now r)) (js_values (agents d)))"
proof -
  have rs: "rs = sort_key currentLoad (filter (\<lambda>r. snd (examine d q now r)) (js_values (agents d)))"
    using assms by (simp add: findEligibleAgents_def)
  have "filter (\<lambda>r. currentLoad r = l) rs
      = filter (\<lambda>r. currentLoad r = l \<and> snd (examine d q now r)) (js_values (agents d))" for l
    unfolding rs by (simp add: sort_key_stable conj_commute)
  moreover have "snd (examine d q now r) \<longleftrightarrow> rec_tenantId r = q_tenantId q
      \<and> (''*'' \<in> set (workspaceScope r) \<or> q_workspaceId q \<in> set (workspaceScope r))
      \<and> \<not> older_than now (heartbeatTtlMs d) r \<and> (agent_status r = AVAILABLE \<or> agent_status r = REGISTERED)
      \<and> (\<forall>c \<in> set (nullish (requiredCapabilities q) []). c \<in> set (capabilities r))
      \<and> (preferredRole q = None \<or> preferredRole q = Some (role r))" for r
    by (auto simp: examine_def list_all_iff split: option.splits)
  ultimately show ?thesis by (auto simp: rs)
qed

theorem findEligibleAgents_exact_witness:
  "\<exists>rs. snd (findEligibleAgents (directory_step test_platform test_directory (Register (test_registration ''acme'' ''a'')))
      \<lparr>q_tenantId = ''acme'', q_workspaceId = ''w'', requiredCapabilities = Some [''fs.read''], preferredRole = Some WORKER\<rparr>
      1767225601000) = rs \<and> sorted (map currentLoad rs) \<and> length rs = 1"
proof -
  let ?d = "directory_step test_platform test_directory (Register (test_registration ''acme'' ''a''))"
  let ?q = "\<lparr>q_tenantId = ''acme'', q_workspaceId = ''w'', requiredCapabilities = Some [''fs.read''], preferredRole = Some WORKER\<rparr>"
  obtain d' rs where f: "findEligibleAgents ?d ?q 1767225601000 = (d', rs)" by force
  have "length (snd (findEligibleAgents ?d ?q 1767225601000)) = 1" by code_simp
  with findEligibleAgents_exact [OF f] f show ?thesis by auto
qed

text \<open>The tenant an operation names; pruning and clearing are maintenance of the whole directory.\<close>

fun directory_op_tenant :: "directory_op \<Rightarrow> string option" where
  "directory_op_tenant (Register v) = Some (reg_tenantId v)"
| "directory_op_tenant (Heartbeat h) = Some (hb_tenantId h)"
| "directory_op_tenant (FindEligible q now) = Some (q_tenantId q)"
| "directory_op_tenant (Retire t a) = Some t"
| "directory_op_tenant (Prune age now) = None"
| "directory_op_tenant ClearDirectory = None"

text \<open>Tenant isolation of the directory. An operation on behalf of one tenant (registration,
  heartbeat, discovery, retirement) changes nothing another tenant can look up.\<close>

theorem directory_tenant_isolation:
  assumes "directory_inv d" "directory_op_tenant op = Some t" "no_colon t" "no_colon t'" "t \<noteq> t'"
  shows "getAgent (directory_step P d op) t' a = getAgent d t' a"
proof (cases op)
  case (FindEligible q now)
  have "js_get (agents (directory_step P d op)) k = map_option (\<lambda>r. fst (examine d q now r)) (js_get (agents d) k)" for k
    using FindEligible by (simp add: findEligibleAgents_def js_get_map_snd)
  moreover have "fst (examine d q now r) = r" if "js_get (agents d) (getCompositeKey t' a) = Some r" for r
  proof -
    have "rec_tenantId r = t'"
      using directory_inv_get [OF assms(1) that] assms(4) by (metis directory_keys.key_inj)
    then show ?thesis using FindEligible assms(2,5) by (simp add: examine_def)
  qed
  ultimately show ?thesis unfolding getAgent_def by (cases "js_get (agents d) (getCompositeKey t' a)") auto
qed (use assms directory_keys.other_tenant_untouched [of t t'] in
    \<open>auto simp: getAgent_def registerAgent_def recordHeartbeat_def retireAgent_def Let_def split: option.split\<close>)

theorem directory_tenant_isolation_witness:
  "getAgent (directory_step test_platform test_directory (Register (test_registration ''acme'' ''a''))) ''other'' ''a''
     = getAgent test_directory ''other'' ''a''"
  by (rule directory_tenant_isolation [where t = "''acme''"])
    (simp_all add: test_directory_def empty_directory_inv test_registration_def no_colon_def)

text \<open>Retirement is not final: the next valid heartbeat of a retired agent overwrites the status with
  the one it reports, so a retired agent that still sends AVAILABLE heartbeats is offered to
  discovery again.\<close>

theorem heartbeat_revives_retired:
  assumes "getAgent d (hb_tenantId h) (hb_agentId h) = Some r" "AgentHeartbeatSchema P h"
  shows "map_option agent_status
      (getAgent (directory_step P (directory_step P d (Retire (hb_tenantId h) (hb_agentId h))) (Heartbeat h))
         (hb_tenantId h) (hb_agentId h)) = Some (hb_status h)"
  using assms by (simp add: getAgent_def retireAgent_def recordHeartbeat_def Let_def js_map_simps)

theorem heartbeat_revives_retired_witness:
  "map_option agent_status (getAgent (directory_step test_platform (directory_step test_platform
       (directory_step test_platform test_directory (Register (test_registration ''acme'' ''a''))) (Retire ''acme'' ''a''))
       (Heartbeat \<lparr>hb_agentId = ''a'', hb_tenantId = ''acme'', hb_status = AVAILABLE, hb_currentLoad = 0,
          hb_timestamp = ''2026-01-01T00:00:05.000Z'', hb_activeTaskIds = []\<rparr>)) ''acme'' ''a'') = Some AVAILABLE"
proof -
  let ?h = "\<lparr>hb_agentId = ''a'', hb_tenantId = ''acme'', hb_status = AVAILABLE, hb_currentLoad = 0,
          hb_timestamp = ''2026-01-01T00:00:05.000Z'', hb_activeTaskIds = []\<rparr>"
  let ?d = "directory_step test_platform test_directory (Register (test_registration ''acme'' ''a''))"
  have "getAgent ?d ''acme'' ''a'' \<noteq> None" by code_simp
  then obtain r where "getAgent ?d (hb_tenantId ?h) (hb_agentId ?h) = Some r" by auto
  from heartbeat_revives_retired [OF this, of test_platform] show ?thesis
    by (simp add: AgentHeartbeatSchema_def)
qed

end
