(* ===== verification/Stream_Events.thy ===== *)
theory Stream_Events
  imports Json Platform
begin

text \<open>
  The tenant-scoped event bus (\<open>services/backend/src/events/stream-event-bus.ts\<close>) and the stream
  cursors of its contract (\<open>packages/contracts/src/events/stream.ts\<close>): sequence numbers per tenant,
  a bounded replay buffer per tenant, evaluation of a client's cursor, and subscriptions that first
  replay and then follow the live events.

  A subscriber's callback is modelled by the list of events it has been given, \<open>delivered\<close>, and
  the list of reset notices; callbacks do not throw. Redaction of payloads is an argument
  (\<open>sanitize\<close>). \<open>subscribe\<close> also takes the events its own replay callbacks caused to be
  published, which the code queues; the steps below are those of callbacks that publish nothing.

  Proved: cursors read back; the buffer of a tenant is always a suffix of what was published for it,
  within its bound; a replay returns exactly the events after the cursor, or the client is reset; and
  every subscriber has been given exactly the matching events after its starting point, in order.
\<close>

section \<open>Cursors\<close>

definition is_hex_char :: "char \<Rightarrow> bool" where
  "is_hex_char c \<longleftrightarrow> hex_val c \<noteq> None"

text \<open>\<open>[0-9a-f]{8}-[0-9a-f]{4}-[0-9a-f]{4}-[0-9a-f]{4}-[0-9a-f]{12}\<close>, in any case.\<close>

definition uuid_shaped :: "string \<Rightarrow> bool" where
  "uuid_shaped s \<longleftrightarrow> length s = 36 \<and>
     (\<forall>i < 36. if i \<in> {8, 13, 18, 23} then s ! i = CHR ''-'' else is_hex_char (s ! i))"

definition MAX_SAFE_INTEGER :: nat where
  "MAX_SAFE_INTEGER = 9007199254740991"

text \<open>The two parts of a well-formed cursor; a colon cannot occur in either.\<close>

definition cursor_parts :: "string \<Rightarrow> string \<times> string" where
  "cursor_parts s = (take 36 s, drop 37 s)"

definition isValidStreamCursor :: "string \<Rightarrow> bool" where
  "isValidStreamCursor s \<longleftrightarrow>
     uuid_shaped (take 36 s) \<and> take 1 (drop 36 s) = '':''
     \<and> drop 37 s \<noteq> [] \<and> hd (drop 37 s) \<noteq> CHR ''0'' \<and> list_all is_digit (drop 37 s)
     \<and> digits_val (drop 37 s) \<le> MAX_SAFE_INTEGER \<and> 0 < digits_val (drop 37 s)"

definition parseStreamCursor :: "string \<Rightarrow> (string \<times> nat) option" where
  "parseStreamCursor s =
     (if isValidStreamCursor s then Some (fst (cursor_parts s), digits_val (snd (cursor_parts s))) else None)"

datatype stream_error =
    InvalidEpochId string
  | InvalidSequence nat
  | EventSchemaError
  | PayloadTooLarge nat
  | TooManyStreams nat string

definition formatStreamCursor :: "platform \<Rightarrow> string \<Rightarrow> nat \<Rightarrow> stream_error + string" where
  "formatStreamCursor P epochId sequenceNumber =
     (if \<not> uuid_ok P epochId then Inl (InvalidEpochId epochId)
      else if sequenceNumber > MAX_SAFE_INTEGER \<or> sequenceNumber < 1 then Inl (InvalidSequence sequenceNumber)
      else Inr (epochId @ '':'' @ nat_str sequenceNumber))"

section \<open>Events\<close>

record stream_event =
  schema_id :: string
  se_version :: string
  event_id :: string
  epoch_id :: string
  sequence_number :: nat
  cursor :: string
  se_tenant_id :: string
  se_workspace_id :: "string option"
  correlation_id :: string
  occurred_at :: string
  producer_id :: string
  se_payload :: "(string \<times> json) list"

definition event_categories :: "string list" where
  "event_categories = map (\<lambda>s. ''nexusos.events.'' @ s)
     [''agent.status_changed'', ''delegation.created'', ''delegation.progress'', ''delegation.completed'',
      ''delegation.failed'', ''delegation.cancelled'', ''task.status_changed'', ''approval.requested'',
      ''approval.decided'', ''graph.evolved'', ''telemetry.sample'', ''stream.reset'']"

definition TELEMETRY_STREAM_VERSION :: string where
  "TELEMETRY_STREAM_VERSION = ''1.0.0''"

definition MAX_TELEMETRY_PAYLOAD_BYTES :: nat where
  "MAX_TELEMETRY_PAYLOAD_BYTES = 16384"

text \<open>\<open>Buffer.byteLength(JSON.stringify(p), 'utf-8')\<close>\<close>

definition payload_bytes :: "(string \<times> json) list \<Rightarrow> nat" where
  "payload_bytes p = byte_length (stringify (JObj p))"

definition TelemetryStreamEventSchema :: "platform \<Rightarrow> stream_event \<Rightarrow> bool" where
  "TelemetryStreamEventSchema P e \<longleftrightarrow>
     schema_id e \<in> set event_categories \<and> se_version e = TELEMETRY_STREAM_VERSION \<and> uuid_ok P (event_id e) \<and> uuid_ok P (epoch_id e) \<and> 0 < sequence_number e
     \<and> isValidStreamCursor (cursor e) \<and> uuid_ok P (se_tenant_id e) \<and> uuid_ok P (correlation_id e)
     \<and> datetime_ok P (occurred_at e) \<and> 1 \<le> length (producer_id e) \<and> length (producer_id e) \<le> 128
     \<and> payload_bytes (se_payload e) \<le> MAX_TELEMETRY_PAYLOAD_BYTES
     \<and> cursor e = epoch_id e @ '':'' @ nat_str (sequence_number e)"

record publish_input =
  in_schema_id :: string
  in_tenant_id :: string
  in_workspace_id :: "string option"
  in_correlation_id :: "string option"
  in_producer_id :: "string option"
  in_payload :: "(string \<times> json) list"
  in_event_id :: "string option"
  in_occurred_at :: "string option"
  skipRedaction :: bool

text \<open>\<open>createTelemetryStreamEvent\<close>; \<open>uuid\<close> and \<open>now\<close> stand in for what the caller leaves out.\<close>

definition createTelemetryStreamEvent ::
  "platform \<Rightarrow> string \<Rightarrow> string \<Rightarrow> nat \<Rightarrow> string \<Rightarrow> string option \<Rightarrow> string \<Rightarrow> string \<Rightarrow> (string \<times> json) list
   \<Rightarrow> string option \<Rightarrow> string option \<Rightarrow> string \<Rightarrow> int \<Rightarrow> stream_error + stream_event" where
  "createTelemetryStreamEvent P sid epoch sq tenant ws corr producer pl eid occ uuid now =
     (case formatStreamCursor P epoch sq of
        Inl e \<Rightarrow> Inl e
      | Inr cur \<Rightarrow>
         (let e = \<lparr>schema_id = sid, se_version = TELEMETRY_STREAM_VERSION, event_id = nullish eid uuid, epoch_id = epoch, sequence_number = sq, cursor = cur,
                se_tenant_id = tenant, se_workspace_id = ws, correlation_id = corr,
                occurred_at = nullish occ (toISOString now), producer_id = producer, se_payload = pl\<rparr>
          in if TelemetryStreamEventSchema P e then Inr e else Inl EventSchemaError))"

section \<open>The replay buffer\<close>

text \<open>\<open>eventTime < cutoff\<close>, false for an unreadable time.\<close>

definition expired :: "int \<Rightarrow> int \<Rightarrow> stream_event \<Rightarrow> bool" where
  "expired maxAge now e \<longleftrightarrow> (case date_parse (occurred_at e) of None \<Rightarrow> False | Some t \<Rightarrow> t < now - maxAge)"

fun buffer_prune :: "int \<Rightarrow> int \<Rightarrow> stream_event list \<Rightarrow> stream_event list" where
  "buffer_prune maxAge now [] = []"
| "buffer_prune maxAge now (e # es) = (if expired maxAge now e then buffer_prune maxAge now es else e # es)"

text \<open>\<open>while (events.length >= maxBufferSize) events.shift()\<close>; on an empty array \<open>shift\<close> changes
  nothing, so a size of 0 would never end and the buffer sizes here are positive.\<close>

fun buffer_evict :: "nat \<Rightarrow> stream_event list \<Rightarrow> stream_event list" where
  "buffer_evict cap [] = []"
| "buffer_evict cap (e # es) = (if length (e # es) \<ge> cap then buffer_evict cap es else e # es)"

definition buffer_push :: "nat \<Rightarrow> int \<Rightarrow> stream_event \<Rightarrow> int \<Rightarrow> stream_event list \<Rightarrow> stream_event list" where
  "buffer_push cap maxAge e now es = buffer_evict cap (buffer_prune maxAge now es) @ [e]"

definition getEventsSince :: "int \<Rightarrow> nat \<Rightarrow> int \<Rightarrow> stream_event list \<Rightarrow> stream_event list" where
  "getEventsSince maxAge sq now es = filter (\<lambda>e. sequence_number e > sq) (buffer_prune maxAge now es)"

definition getOldestSequence :: "int \<Rightarrow> int \<Rightarrow> stream_event list \<Rightarrow> nat option" where
  "getOldestSequence maxAge now es =
     (case buffer_prune maxAge now es of [] \<Rightarrow> None | e # _ \<Rightarrow> Some (sequence_number e))"

section \<open>The bus\<close>

datatype reset_reason = MALFORMED_CURSOR | SERVER_EPOCH_CHANGED | FUTURE_CURSOR_DETECTED | REPLAY_BUFFER_EXPIRED

record reset_payload =
  reset_reason :: reset_reason
  currentEpoch :: string
  currentSequence :: nat
  requestedCursor :: string
  message :: "string option"

datatype replay_result = ReplayNone | Replay "stream_event list" | Reset reset_payload

record subscriber =
  sub_id :: string
  sub_tenantId :: string
  sub_workspaceId :: "string option"
  maxEvaluatedReplaySeq :: "nat option"
  lastDeliveredSeq :: "nat option"
  delivered :: "stream_event list"
  resets :: "reset_payload list"
  startSeq :: nat

text \<open>\<open>startSeq\<close> is not in the code: the sequence number after which the subscription follows the stream.\<close>

record bus =
  streamEpochId :: string
  tenantSequences :: "(string, nat) jsmap"
  replayBuffers :: "(string, stream_event list) jsmap"
  subscribers :: "(string, subscriber list) jsmap"
  maxReplayBufferCapacity :: nat
  maxReplayAgeMs :: int
  maxStreamsPerTenant :: nat

definition getLatestSequence :: "bus \<Rightarrow> string \<Rightarrow> nat" where
  "getLatestSequence b tenant = nullish (js_get (tenantSequences b) tenant) 0"

definition getActiveStreamCount :: "bus \<Rightarrow> string \<Rightarrow> nat" where
  "getActiveStreamCount b tenant = length (nullish (js_get (subscribers b) tenant) [])"

definition canSubscribe :: "bus \<Rightarrow> string \<Rightarrow> bool" where
  "canSubscribe b tenant \<longleftrightarrow> getActiveStreamCount b tenant < maxStreamsPerTenant b"

definition replay_buffer :: "bus \<Rightarrow> string \<Rightarrow> stream_event list" where
  "replay_buffer b tenant = nullish (js_get (replayBuffers b) tenant) []"

definition matchesWorkspace :: "string option \<Rightarrow> stream_event \<Rightarrow> bool" where
  "matchesWorkspace ws e =
     (if \<not> truthy ws \<or> ws = Some ''*'' then True
      else if \<not> truthy (se_workspace_id e) \<or> se_workspace_id e = Some ''*'' then True
      else se_workspace_id e = ws)"

definition within :: "stream_event \<Rightarrow> nat option \<Rightarrow> bool" where
  "within e bound \<longleftrightarrow> (case bound of None \<Rightarrow> False | Some n \<Rightarrow> sequence_number e \<le> n)"

text \<open>\<open>options.listener(event)\<close> with its bookkeeping, and the subscriber's live listener.\<close>

definition deliver :: "stream_event \<Rightarrow> subscriber \<Rightarrow> subscriber" where
  "deliver e s = s\<lparr>lastDeliveredSeq := Some (sequence_number e), delivered := delivered s @ [e]\<rparr>"

definition live_listener :: "stream_event \<Rightarrow> subscriber \<Rightarrow> subscriber" where
  "live_listener e s =
     (if within e (maxEvaluatedReplaySeq s) then s
      else if within e (lastDeliveredSeq s) then s
      else deliver e s)"

definition dispatchToSubscribers :: "stream_event \<Rightarrow> bus \<Rightarrow> bus" where
  "dispatchToSubscribers e b =
     (case js_get (subscribers b) (se_tenant_id e) of
        None \<Rightarrow> b
      | Some subs \<Rightarrow>
          b\<lparr>subscribers := js_set (se_tenant_id e)
              (map (\<lambda>s. if matchesWorkspace (sub_workspaceId s) e then live_listener e s else s) subs) (subscribers b)\<rparr>)"

definition publish_event ::
  "platform \<Rightarrow> ((string \<times> json) list \<Rightarrow> (string \<times> json) list) \<Rightarrow> bus \<Rightarrow> publish_input \<Rightarrow> (nat \<Rightarrow> string) \<Rightarrow> (nat \<Rightarrow> int)
   \<Rightarrow> bus \<times> (stream_error + stream_event)" where
  "publish_event P sanitize b i uuid now =
     (if payload_bytes (in_payload i) > MAX_TELEMETRY_PAYLOAD_BYTES
      then (b, Inl (PayloadTooLarge (payload_bytes (in_payload i))))
      else
        let tenant = in_tenant_id i;
            pl = (if skipRedaction i then in_payload i else sanitize (in_payload i));
            currentSeq = getLatestSequence b tenant + 1;
            b1 = b\<lparr>tenantSequences := js_set tenant currentSeq (tenantSequences b)\<rparr>;
            corr = (if truthy (in_correlation_id i) \<and> uuid_ok P (the (in_correlation_id i))
                    then the (in_correlation_id i) else uuid 0)
        in case createTelemetryStreamEvent P (in_schema_id i) (streamEpochId b) currentSeq tenant (in_workspace_id i) corr
                  (nullish (in_producer_id i) ''backend.stream-bus'') pl (in_event_id i) (in_occurred_at i) (uuid 1) (now 0) of
             Inl e \<Rightarrow> (b1, Inl e)
           | Inr e \<Rightarrow>
              (let b2 = b1\<lparr>replayBuffers := js_set tenant
                      (buffer_push (maxReplayBufferCapacity b) (maxReplayAgeMs b) e (now 1) (replay_buffer b1 tenant))
                      (replayBuffers b1)\<rparr>
               in (dispatchToSubscribers e b2, Inr e)))"

fun reset_message :: "reset_reason \<Rightarrow> string" where
  "reset_message MALFORMED_CURSOR = ''Supplied Last-Event-ID format is invalid. Must match <uuid>:<positive-int>.''"
| "reset_message SERVER_EPOCH_CHANGED =
     ''Server process has restarted. Stored stream cursor belongs to a prior epoch.''"
| "reset_message FUTURE_CURSOR_DETECTED = ''Supplied sequence number is ahead of current server head.''"
| "reset_message REPLAY_BUFFER_EXPIRED = ''Requested stream cursor has expired from the bounded replay buffer.''"

definition reset_of :: "bus \<Rightarrow> string \<Rightarrow> reset_reason \<Rightarrow> string \<Rightarrow> replay_result" where
  "reset_of b tenant why cur =
     Reset \<lparr>reset_reason = why, currentEpoch = streamEpochId b, currentSequence = getLatestSequence b tenant,
            requestedCursor = cur, message = Some (reset_message why)\<rparr>"

definition evaluateReplay :: "bus \<Rightarrow> string \<Rightarrow> string option \<Rightarrow> int \<Rightarrow> bus \<times> replay_result" where
  "evaluateReplay b tenant cur now =
     (case cur of
        None \<Rightarrow> (b, ReplayNone)
      | Some c \<Rightarrow>
         (if \<not> isValidStreamCursor c then (b, reset_of b tenant MALFORMED_CURSOR c)
          else case parseStreamCursor c of
            None \<Rightarrow>
              (b, Reset \<lparr>reset_reason = MALFORMED_CURSOR, currentEpoch = streamEpochId b,
                         currentSequence = getLatestSequence b tenant, requestedCursor = c, message = None\<rparr>)
          | Some (epochId, sequenceNumber) \<Rightarrow>
              if epochId \<noteq> streamEpochId b then (b, reset_of b tenant SERVER_EPOCH_CHANGED c)
              else if sequenceNumber > getLatestSequence b tenant then (b, reset_of b tenant FUTURE_CURSOR_DETECTED c)
              else if sequenceNumber = getLatestSequence b tenant then (b, Replay [])
              else
                let buffer = buffer_prune (maxReplayAgeMs b) now (replay_buffer b tenant);
                    b' = b\<lparr>replayBuffers := js_set tenant buffer (replayBuffers b)\<rparr>
                in case getOldestSequence (maxReplayAgeMs b) now buffer of
                     None \<Rightarrow> (b', reset_of b tenant REPLAY_BUFFER_EXPIRED c)
                   | Some oldest \<Rightarrow>
                       if sequenceNumber < oldest then (b', reset_of b tenant REPLAY_BUFFER_EXPIRED c)
                       else (b', Replay (getEventsSince (maxReplayAgeMs b) sequenceNumber now buffer))))"

record subscription_options =
  opt_tenantId :: string
  opt_workspaceId :: "string option"
  opt_cursor :: "string option"
  has_onReset :: bool

text \<open>The delivery of a replay and the drain of the queue, on the subscriber's own state.\<close>

definition replay_to :: "stream_event list \<Rightarrow> subscriber \<Rightarrow> subscriber" where
  "replay_to es s = foldl (\<lambda>s e. if matchesWorkspace (sub_workspaceId s) e then deliver e s else s) s es"

definition drain :: "stream_event list \<Rightarrow> subscriber \<Rightarrow> subscriber" where
  "drain queued s =
     foldl (\<lambda>s e. if within e (maxEvaluatedReplaySeq s) \<or> within e (lastDeliveredSeq s) then s
                  else if matchesWorkspace (sub_workspaceId s) e then deliver e s else s) s queued"

definition start_subscriber ::
  "subscription_options \<Rightarrow> string \<Rightarrow> replay_result \<Rightarrow> nat \<Rightarrow> stream_event list \<Rightarrow> subscriber" where
  "start_subscriber opts uuid r latest queued =
     (let s0 = \<lparr>sub_id = uuid, sub_tenantId = opt_tenantId opts, sub_workspaceId = opt_workspaceId opts,
            maxEvaluatedReplaySeq = None, lastDeliveredSeq = None, delivered = [], resets = [], startSeq = latest\<rparr>
      in drain queued
        (case r of
           ReplayNone \<Rightarrow> s0
         | Reset p \<Rightarrow> if has_onReset opts then s0\<lparr>resets := [p]\<rparr> else s0
         | Replay es \<Rightarrow>
             (let horizon = (if es \<noteq> [] then Some (sequence_number (last es))
                             else map_option snd (Option.bind (opt_cursor opts) parseStreamCursor));
                  from_seq = nullish (map_option snd (Option.bind (opt_cursor opts) parseStreamCursor)) latest
              in replay_to es (s0\<lparr>maxEvaluatedReplaySeq := horizon, startSeq := from_seq\<rparr>))))"

definition subscribe ::
  "bus \<Rightarrow> subscription_options \<Rightarrow> string \<Rightarrow> int \<Rightarrow> stream_event list \<Rightarrow> bus \<times> (stream_error + replay_result)" where
  "subscribe b opts uuid now queued =
     (let tenant = opt_tenantId opts;
          subs = nullish (js_get (subscribers b) tenant) []
      in if length subs \<ge> maxStreamsPerTenant b then (b, Inl (TooManyStreams (maxStreamsPerTenant b) tenant))
         else let (b', r) = evaluateReplay b tenant (opt_cursor opts) now;
                  s = start_subscriber opts uuid r (getLatestSequence b tenant) queued
              in (b'\<lparr>subscribers := js_set tenant (subs @ [s]) (subscribers b')\<rparr>, Inr r))"

text \<open>\<open>unsubscribe\<close> of the handle with this identifier; the tenant's entry goes with its last subscriber.\<close>

definition unsubscribe :: "bus \<Rightarrow> string \<Rightarrow> string \<Rightarrow> bus" where
  "unsubscribe b tenant i =
     (case js_get (subscribers b) tenant of
        None \<Rightarrow> b
      | Some subs \<Rightarrow>
          (let rest = filter (\<lambda>s. sub_id s \<noteq> i) subs in
           b\<lparr>subscribers := (if rest = [] then js_delete tenant (subscribers b) else js_set tenant rest (subscribers b))\<rparr>))"

definition getReplayEvents :: "bus \<Rightarrow> string \<Rightarrow> int \<Rightarrow> bus \<times> stream_event list" where
  "getReplayEvents b tenant now =
     (case js_get (replayBuffers b) tenant of
        None \<Rightarrow> (b, [])
      | Some es \<Rightarrow>
          (let es' = buffer_prune (maxReplayAgeMs b) now es in
           (b\<lparr>replayBuffers := js_set tenant es' (replayBuffers b)\<rparr>, es')))"

definition bus_clear :: "bus \<Rightarrow> string \<Rightarrow> bus" where
  "bus_clear b tenant =
     (if tenant \<noteq> [] then
        b\<lparr>tenantSequences := js_delete tenant (tenantSequences b), replayBuffers := js_delete tenant (replayBuffers b),
          subscribers := js_delete tenant (subscribers b)\<rparr>
      else b\<lparr>tenantSequences := [], replayBuffers := [], subscribers := []\<rparr>)"

definition new_bus :: "string \<Rightarrow> nat \<Rightarrow> int \<Rightarrow> nat \<Rightarrow> bus" where
  "new_bus epoch cap age streams =
     \<lparr>streamEpochId = epoch, tenantSequences = [], replayBuffers = [], subscribers = [],
      maxReplayBufferCapacity = cap, maxReplayAgeMs = age, maxStreamsPerTenant = streams\<rparr>"

section \<open>Cursors read back\<close>

lemma uuid_shaped_length: "uuid_shaped e \<Longrightarrow> length e = 36"
  by (simp add: uuid_shaped_def)

lemma parse_cursor:
  assumes "uuid_shaped e" "1 \<le> n" "n \<le> MAX_SAFE_INTEGER"
  shows "isValidStreamCursor (e @ '':'' @ nat_str n)" "parseStreamCursor (e @ '':'' @ nat_str n) = Some (e, n)"
proof -
  have len: "length e = 36" using assms(1) by (rule uuid_shaped_length)
  have parts: "take 36 (e @ '':'' @ nat_str n) = e" "drop 36 (e @ '':'' @ nat_str n) = '':'' @ nat_str n"
    "drop 37 (e @ '':'' @ nat_str n) = nat_str n"
    using len by simp_all
  show v: "isValidStreamCursor (e @ '':'' @ nat_str n)"
    unfolding isValidStreamCursor_def parts using assms hd_nat_str [of n] digits_nat_str [of _ n]
    by (simp add: list_all_iff)
  show "parseStreamCursor (e @ '':'' @ nat_str n) = Some (e, n)"
    using v parts by (simp add: parseStreamCursor_def cursor_parts_def)
qed

section \<open>The bus and the history of what it published\<close>

datatype bus_op =
    Publish publish_input "nat \<Rightarrow> string" "nat \<Rightarrow> int"
  | Subscribe subscription_options string int
  | Unsubscribe string string
  | EvaluateReplay string "string option" int
  | GetReplayEvents string int
  | ClearBus string

type_synonym bus_history = "bus \<times> stream_event list"

text \<open>The second component is the list of published events, which the code does not keep; clearing a
  tenant starts its history anew.\<close>

fun bus_step ::
  "platform \<Rightarrow> ((string \<times> json) list \<Rightarrow> (string \<times> json) list) \<Rightarrow> bus_history \<Rightarrow> bus_op \<Rightarrow> bus_history" where
  "bus_step P z (b, h) (Publish i uuid now) =
     (case publish_event P z b i uuid now of (b', Inr e) \<Rightarrow> (b', h @ [e]) | (b', Inl _) \<Rightarrow> (b', h))"
| "bus_step P z (b, h) (Subscribe opts uuid now) = (fst (subscribe b opts uuid now []), h)"
| "bus_step P z (b, h) (Unsubscribe tenant i) = (unsubscribe b tenant i, h)"
| "bus_step P z (b, h) (EvaluateReplay tenant cur now) = (fst (evaluateReplay b tenant cur now), h)"
| "bus_step P z (b, h) (GetReplayEvents tenant now) = (fst (getReplayEvents b tenant now), h)"
| "bus_step P z (b, h) (ClearBus tenant) =
     (bus_clear b tenant, if tenant \<noteq> [] then filter (\<lambda>e. se_tenant_id e \<noteq> tenant) h else [])"

definition tenant_events :: "string \<Rightarrow> stream_event list \<Rightarrow> stream_event list" where
  "tenant_events t h = filter (\<lambda>e. se_tenant_id e = t) h"

definition stamped :: "string \<Rightarrow> stream_event \<Rightarrow> bool" where
  "stamped epoch e \<longleftrightarrow> cursor e = epoch @ '':'' @ nat_str (sequence_number e)
     \<and> 1 \<le> sequence_number e \<and> sequence_number e \<le> MAX_SAFE_INTEGER"

definition history_ok :: "bus \<Rightarrow> stream_event list \<Rightarrow> string \<Rightarrow> bool" where
  "history_ok b h t \<longleftrightarrow>
     sorted_wrt (<) (map sequence_number (tenant_events t h))
     \<and> (\<forall>e \<in> set (tenant_events t h). sequence_number e \<le> getLatestSequence b t \<and> stamped (streamEpochId b) e)"

definition buffer_ok :: "bus \<Rightarrow> stream_event list \<Rightarrow> string \<Rightarrow> bool" where
  "buffer_ok b h t \<longleftrightarrow>
     (\<exists>pre. tenant_events t h = pre @ replay_buffer b t) \<and> length (replay_buffer b t) \<le> maxReplayBufferCapacity b"

definition bounded_by :: "nat option \<Rightarrow> nat \<Rightarrow> bool" where
  "bounded_by m n \<longleftrightarrow> (\<forall>k. m = Some k \<longrightarrow> k \<le> n)"

definition subscriber_ok :: "nat \<Rightarrow> stream_event list \<Rightarrow> subscriber \<Rightarrow> bool" where
  "subscriber_ok latest es s \<longleftrightarrow>
     delivered s = filter (\<lambda>e. matchesWorkspace (sub_workspaceId s) e \<and> sequence_number e > startSeq s) es
     \<and> startSeq s \<le> latest \<and> bounded_by (maxEvaluatedReplaySeq s) latest \<and> bounded_by (lastDeliveredSeq s) latest"

definition streams_ok :: "bus \<Rightarrow> stream_event list \<Rightarrow> string \<Rightarrow> bool" where
  "streams_ok b h t \<longleftrightarrow>
     (\<forall>s \<in> set (nullish (js_get (subscribers b) t) []). subscriber_ok (getLatestSequence b t) (tenant_events t h) s)
     \<and> getActiveStreamCount b t \<le> maxStreamsPerTenant b"

definition bus_inv :: "bus_history \<Rightarrow> bool" where
  "bus_inv bh \<longleftrightarrow> 0 < maxReplayBufferCapacity (fst bh)
     \<and> (\<forall>t. history_ok (fst bh) (snd bh) t \<and> buffer_ok (fst bh) (snd bh) t \<and> streams_ok (fst bh) (snd bh) t)"

lemmas bus_inv_defs = bus_inv_def history_ok_def buffer_ok_def streams_ok_def

lemma buffer_prune_suffix: "\<exists>pre. es = pre @ buffer_prune age now es"
  by (induction es) (auto, metis append_Cons)

lemma buffer_evict_suffix: "\<exists>pre. es = pre @ buffer_evict cap es"
  by (induction es) (auto, metis append_Cons)

lemma buffer_evict_length: "0 < cap \<Longrightarrow> length (buffer_evict cap es) < cap"
  by (induction es) auto

lemma buffer_prune_length: "length (buffer_prune age now es) \<le> length es"
  by (induction es) auto

lemma buffer_prune_idem: "buffer_prune age now (buffer_prune age now es) = buffer_prune age now es"
  by (induction es) auto

lemma buffer_push_ok:
  assumes "0 < cap"
  shows "length (buffer_push cap age e now es) \<le> cap" "\<exists>pre. es @ [e] = pre @ buffer_push cap age e now es"
proof -
  show "length (buffer_push cap age e now es) \<le> cap"
    using buffer_evict_length [OF assms, of "buffer_prune age now es"] by (simp add: buffer_push_def)
  obtain p where p: "es = p @ buffer_prune age now es" using buffer_prune_suffix by blast
  obtain q where q: "buffer_prune age now es = q @ buffer_evict cap (buffer_prune age now es)"
    using buffer_evict_suffix by blast
  have "es @ [e] = (p @ q) @ buffer_push cap age e now es"
    unfolding buffer_push_def using p q by (metis append.assoc)
  then show "\<exists>pre. es @ [e] = pre @ buffer_push cap age e now es" by blast
qed

named_theorems bus_simps \<open>what the fields of the bus are after an operation\<close>

lemma dispatch_fields [bus_simps]:
  "streamEpochId (dispatchToSubscribers e b) = streamEpochId b"
  "tenantSequences (dispatchToSubscribers e b) = tenantSequences b"
  "replayBuffers (dispatchToSubscribers e b) = replayBuffers b"
  "maxReplayBufferCapacity (dispatchToSubscribers e b) = maxReplayBufferCapacity b"
  "maxReplayAgeMs (dispatchToSubscribers e b) = maxReplayAgeMs b"
  "maxStreamsPerTenant (dispatchToSubscribers e b) = maxStreamsPerTenant b"
  by (simp_all add: dispatchToSubscribers_def split: option.split)

lemma dispatch_subscribers [bus_simps]:
  "js_get (subscribers (dispatchToSubscribers e b)) t =
     (if t = se_tenant_id e
      then map_option (map (\<lambda>s. if matchesWorkspace (sub_workspaceId s) e then live_listener e s else s)) (js_get (subscribers b) t)
      else js_get (subscribers b) t)"
  by (auto simp: dispatchToSubscribers_def js_map_simps split: option.split)

lemma create_event_fields:
  "createTelemetryStreamEvent P sid epoch sq tenant ws corr producer pl eid occ uuid now = Inr e \<Longrightarrow>
   sequence_number e = sq \<and> se_tenant_id e = tenant \<and> epoch_id e = epoch \<and> se_workspace_id e = ws \<and> se_payload e = pl
   \<and> stamped epoch e"
  by (auto simp: createTelemetryStreamEvent_def formatStreamCursor_def stamped_def Let_def split: sum.splits if_splits)

lemma publish_event_Inl:
  assumes "publish_event P z b i uuid now = (b', Inl err)"
  shows "b' = b \<or> b' = b\<lparr>tenantSequences := js_set (in_tenant_id i) (getLatestSequence b (in_tenant_id i) + 1) (tenantSequences b)\<rparr>"
  using assms by (auto simp: publish_event_def Let_def split: sum.splits if_splits)

lemma publish_event_Inr:
  assumes "publish_event P z b i uuid now = (b', Inr e)"
  shows "se_tenant_id e = in_tenant_id i" "sequence_number e = getLatestSequence b (in_tenant_id i) + 1"
    and "se_payload e = (if skipRedaction i then in_payload i else z (in_payload i))"
    and "getLatestSequence b' t = (if t = in_tenant_id i then sequence_number e else getLatestSequence b t)"
    and "replay_buffer b' t = (if t = in_tenant_id i
          then buffer_push (maxReplayBufferCapacity b) (maxReplayAgeMs b) e (now 1) (replay_buffer b t) else replay_buffer b t)"
    and "js_get (subscribers b') t = (if t = in_tenant_id i
          then map_option (map (\<lambda>s. if matchesWorkspace (sub_workspaceId s) e then live_listener e s else s)) (js_get (subscribers b) t)
          else js_get (subscribers b) t)"
    and "maxReplayBufferCapacity b' = maxReplayBufferCapacity b" "maxReplayAgeMs b' = maxReplayAgeMs b"
    and "maxStreamsPerTenant b' = maxStreamsPerTenant b" "streamEpochId b' = streamEpochId b"
    and "stamped (streamEpochId b) e"
  using assms
  by (auto simp: publish_event_def Let_def bus_simps getLatestSequence_def replay_buffer_def js_map_simps nullish_def
      dest!: create_event_fields split: sum.splits if_splits)

lemma tenant_events_snoc: "tenant_events t (h @ [e]) = tenant_events t h @ (if se_tenant_id e = t then [e] else [])"
  by (simp add: tenant_events_def)

lemma subscriber_ok_mono: "\<lbrakk>subscriber_ok n es s; n \<le> m\<rbrakk> \<Longrightarrow> subscriber_ok m es s"
  by (auto simp: subscriber_ok_def bounded_by_def)

lemma live_listener_ok:
  assumes "subscriber_ok n es s" "sequence_number e = Suc n"
  shows "subscriber_ok (Suc n) (es @ [e]) (if matchesWorkspace (sub_workspaceId s) e then live_listener e s else s)"
proof -
  have "\<not> within e (maxEvaluatedReplaySeq s)" "\<not> within e (lastDeliveredSeq s)"
    using assms by (auto simp: subscriber_ok_def bounded_by_def within_def split: option.splits)
  then show ?thesis
    using assms by (auto simp: subscriber_ok_def bounded_by_def live_listener_def deliver_def)
qed

lemma inv_publish_Inl:
  assumes inv: "bus_inv (b, h)" and p: "publish_event P z b i uuid now = (b', Inl err)"
  shows "bus_inv (b', h)"
proof -
  have same: "replay_buffer b' t = replay_buffer b t" "js_get (subscribers b') t = js_get (subscribers b) t"
    "maxReplayBufferCapacity b' = maxReplayBufferCapacity b" "maxStreamsPerTenant b' = maxStreamsPerTenant b"
    "streamEpochId b' = streamEpochId b" "getLatestSequence b t \<le> getLatestSequence b' t" for t
    using publish_event_Inl [OF p] by (auto simp: replay_buffer_def getLatestSequence_def js_map_simps nullish_def)
  show ?thesis
    using inv same(6) le_trans subscriber_ok_mono
    unfolding bus_inv_defs getActiveStreamCount_def fst_conv snd_conv same by blast
qed

lemma inv_publish_Inr:
  assumes inv: "bus_inv (b, h)" and p: "publish_event P z b i uuid now = (b', Inr e)"
  shows "bus_inv (b', h @ [e])"
proof -
  note f = publish_event_Inr [OF p]
  let ?t = "in_tenant_id i" and ?n = "getLatestSequence b (in_tenant_id i)"
  have cap: "0 < maxReplayBufferCapacity b" using inv by (simp add: bus_inv_def)
  have old: "history_ok b h t" "buffer_ok b h t" "streams_ok b h t" for t using inv by (simp_all add: bus_inv_def)
  have hist: "history_ok b' (h @ [e]) t" for t
    using old(1) [of t] f(1,2,4,10,11) by (auto simp: history_ok_def tenant_events_snoc sorted_wrt_append le_SucI less_Suc_eq_le)
  have buf: "buffer_ok b' (h @ [e]) t" for t
  proof (cases "t = ?t")
    case True
    obtain pre where pre: "tenant_events t h = pre @ replay_buffer b t" using old(2) [of t] by (auto simp: buffer_ok_def)
    obtain q where "replay_buffer b t @ [e] = q @ replay_buffer b' t"
      using buffer_push_ok(2) [OF cap] f(5) True by metis
    then have "tenant_events t (h @ [e]) = (pre @ q) @ replay_buffer b' t"
      using pre f(1) True by (simp add: tenant_events_snoc)
    then show ?thesis using buffer_push_ok(1) [OF cap] f(5,7) True unfolding buffer_ok_def by metis
  next
    case False
    then show ?thesis using old(2) [of t] f by (simp add: buffer_ok_def tenant_events_snoc)
  qed
  have str: "streams_ok b' (h @ [e]) t" for t
  proof (cases "t = ?t")
    case True
    have each: "subscriber_ok (Suc ?n) (tenant_events ?t h @ [e]) (if matchesWorkspace (sub_workspaceId s) e then live_listener e s else s)"
      if "s \<in> set (nullish (js_get (subscribers b) ?t) [])" for s
      using that old(3) [of ?t] f(2) by (intro live_listener_ok) (simp_all add: streams_ok_def)
    have subs: "nullish (js_get (subscribers b') ?t) [] =
        map (\<lambda>s. if matchesWorkspace (sub_workspaceId s) e then live_listener e s else s) (nullish (js_get (subscribers b) ?t) [])"
      using f(6) [of ?t] by (simp add: nullish_def split: option.splits)
    have "subscriber_ok (Suc ?n) (tenant_events ?t h @ [e]) s" if "s \<in> set (nullish (js_get (subscribers b') ?t) [])" for s
      using that each unfolding subs set_map by blast
    moreover have "getActiveStreamCount b' ?t = getActiveStreamCount b ?t" by (simp add: getActiveStreamCount_def subs)
    ultimately show ?thesis
      using old(3) [of ?t] f(1,2,4,9) True by (simp add: streams_ok_def tenant_events_snoc)
  next
    case False
    then show ?thesis using old(3) [of t] f by (simp add: streams_ok_def tenant_events_snoc getActiveStreamCount_def)
  qed
  show ?thesis using hist buf str cap f(7) by (simp add: bus_inv_def)
qed

text \<open>Dropping old events from the front of the buffers keeps the invariant.\<close>

lemma inv_shorter_buffers:
  assumes "bus_inv (b, h)" "b' = b\<lparr>replayBuffers := js_set t (buffer_prune age now (replay_buffer b t)) (replayBuffers b)\<rparr>"
  shows "bus_inv (b', h)"
proof -
  have same: "getLatestSequence b' u = getLatestSequence b u" "subscribers b' = subscribers b"
    "getActiveStreamCount b' u = getActiveStreamCount b u" "maxStreamsPerTenant b' = maxStreamsPerTenant b"
    "maxReplayBufferCapacity b' = maxReplayBufferCapacity b" "streamEpochId b' = streamEpochId b"
    "replay_buffer b' u = (if u = t then buffer_prune age now (replay_buffer b t) else replay_buffer b u)" for u
    using assms(2) by (simp_all add: getLatestSequence_def getActiveStreamCount_def replay_buffer_def js_map_simps nullish_def)
  have "buffer_ok b' h u" for u
  proof -
    obtain pre where pre: "tenant_events u h = pre @ replay_buffer b u"
      and len: "length (replay_buffer b u) \<le> maxReplayBufferCapacity b"
      using assms(1) unfolding bus_inv_def buffer_ok_def by auto
    obtain q where q: "replay_buffer b t = q @ buffer_prune age now (replay_buffer b t)" using buffer_prune_suffix by blast
    have "tenant_events u h = (if u = t then pre @ q else pre) @ replay_buffer b' u"
      using pre q by (auto simp: same(7))
    then show ?thesis
      unfolding buffer_ok_def using len buffer_prune_length [of age now "replay_buffer b t"] by (auto simp: same(5,7))
  qed
  then show ?thesis using assms(1) by (simp add: bus_inv_def history_ok_def streams_ok_def same(1-6))
qed

lemma evaluateReplay_bus:
  "fst (evaluateReplay b t cur now) = b \<or> fst (evaluateReplay b t cur now) =
     b\<lparr>replayBuffers := js_set t (buffer_prune (maxReplayAgeMs b) now (replay_buffer b t)) (replayBuffers b)\<rparr>"
  by (auto simp: evaluateReplay_def Let_def split: option.split)

lemma inv_evaluateReplay: "bus_inv (b, h) \<Longrightarrow> bus_inv (fst (evaluateReplay b t cur now), h)"
  using evaluateReplay_bus [of b t cur now] inv_shorter_buffers by metis

lemma inv_getReplayEvents: "bus_inv (b, h) \<Longrightarrow> bus_inv (fst (getReplayEvents b t now), h)"
  by (auto simp: getReplayEvents_def Let_def replay_buffer_def nullish_def
      intro: inv_shorter_buffers [of _ _ _ t "maxReplayAgeMs b" now] split: option.split)

section \<open>Replay\<close>

lemma evaluateReplay_Replay:
  assumes "snd (evaluateReplay b t cur now) = Replay es"
  obtains c n where "cur = Some c" "parseStreamCursor c = Some (streamEpochId b, n)" "n \<le> getLatestSequence b t"
    and "if n = getLatestSequence b t then es = []
         else (\<exists>e rest. buffer_prune (maxReplayAgeMs b) now (replay_buffer b t) = e # rest \<and> sequence_number e \<le> n
               \<and> es = filter (\<lambda>e. sequence_number e > n) (e # rest))"
  using assms
  by (auto simp: evaluateReplay_def reset_of_def Let_def getOldestSequence_def getEventsSince_def buffer_prune_idem
      split: option.splits if_splits list.splits)

lemma filter_none: "(\<And>x. x \<in> set xs \<Longrightarrow> \<not> Q x) \<Longrightarrow> filter Q xs = []"
  by (induction xs) auto

lemma sorted_suffix_filter:
  assumes "sorted_wrt (<) (map sequence_number (pre @ e # rest))" "sequence_number e \<le> n"
  shows "filter (\<lambda>e. sequence_number e > n) (pre @ e # rest) = filter (\<lambda>e. sequence_number e > n) (e # rest)"
proof -
  have "filter (\<lambda>e. sequence_number e > n) pre = []"
    using assms by (intro filter_none) (auto simp: sorted_wrt_append)
  then show ?thesis by simp
qed

lemma inv_D:
  assumes "bus_inv (b, h)"
  shows "sorted_wrt (<) (map sequence_number (tenant_events t h))"
    and "e \<in> set (tenant_events t h) \<Longrightarrow> sequence_number e \<le> getLatestSequence b t \<and> stamped (streamEpochId b) e"
    and "\<exists>pre. tenant_events t h = pre @ replay_buffer b t"
    and "s \<in> set (nullish (js_get (subscribers b) t) []) \<Longrightarrow> subscriber_ok (getLatestSequence b t) (tenant_events t h) s"
    and "getActiveStreamCount b t \<le> maxStreamsPerTenant b"
    and "length (replay_buffer b t) \<le> maxReplayBufferCapacity b"
  using assms by (simp_all add: bus_inv_defs)

lemma nothing_after_latest:
  assumes "bus_inv (b, h)"
  shows "filter (\<lambda>e. Q e \<and> sequence_number e > getLatestSequence b t) (tenant_events t h) = []"
  using inv_D(2) [OF assms, of _ t] by (intro filter_none) fastforce

lemma replay_lossless:
  assumes inv: "bus_inv (b, h)" and r: "snd (evaluateReplay b t cur now) = Replay es"
  obtains c n where "cur = Some c" "parseStreamCursor c = Some (streamEpochId b, n)" "n \<le> getLatestSequence b t"
    and "es = filter (\<lambda>e. sequence_number e > n) (tenant_events t h)"
proof -
  obtain c n where c: "cur = Some c" "parseStreamCursor c = Some (streamEpochId b, n)" "n \<le> getLatestSequence b t"
    and es: "if n = getLatestSequence b t then es = []
         else (\<exists>e rest. buffer_prune (maxReplayAgeMs b) now (replay_buffer b t) = e # rest \<and> sequence_number e \<le> n
               \<and> es = filter (\<lambda>e. sequence_number e > n) (e # rest))"
    using r by (rule evaluateReplay_Replay)
  have "es = filter (\<lambda>e. sequence_number e > n) (tenant_events t h)"
  proof (cases "n = getLatestSequence b t")
    case True
    then show ?thesis using es nothing_after_latest [OF inv, of "\<lambda>_. True" t] by simp
  next
    case False
    then obtain e rest where er: "buffer_prune (maxReplayAgeMs b) now (replay_buffer b t) = e # rest"
      "sequence_number e \<le> n" "es = filter (\<lambda>e. sequence_number e > n) (e # rest)"
      using es by auto
    obtain pre where "tenant_events t h = pre @ replay_buffer b t" using inv_D(3) [OF inv] by blast
    moreover obtain q where "replay_buffer b t = q @ e # rest" using buffer_prune_suffix er(1) by metis
    ultimately have split: "tenant_events t h = (pre @ q) @ e # rest" by simp
    show ?thesis
      using sorted_suffix_filter [of "pre @ q" e rest n] inv_D(1) [OF inv, of t] er(2,3) unfolding split by simp
  qed
  then show ?thesis using that c by blast
qed

section \<open>Subscriptions\<close>

lemma replay_to_eq:
  "replay_to es s =
     s\<lparr>delivered := delivered s @ filter (matchesWorkspace (sub_workspaceId s)) es,
       lastDeliveredSeq := (if filter (matchesWorkspace (sub_workspaceId s)) es = [] then lastDeliveredSeq s
                            else Some (sequence_number (last (filter (matchesWorkspace (sub_workspaceId s)) es))))\<rparr>"
  unfolding replay_to_def by (induction es arbitrary: s) (auto simp: deliver_def)

lemma start_subscriber_ok:
  assumes inv: "bus_inv (b, h)"
  shows "subscriber_ok (getLatestSequence b (opt_tenantId opts)) (tenant_events (opt_tenantId opts) h)
           (start_subscriber opts uuid (snd (evaluateReplay b (opt_tenantId opts) (opt_cursor opts) now))
              (getLatestSequence b (opt_tenantId opts)) [])"
proof (cases "snd (evaluateReplay b (opt_tenantId opts) (opt_cursor opts) now)")
  case (Replay es)
  let ?t = "opt_tenantId opts"
  obtain c n where c: "opt_cursor opts = Some c" "parseStreamCursor c = Some (streamEpochId b, n)"
    and n: "n \<le> getLatestSequence b ?t" and es: "es = filter (\<lambda>e. sequence_number e > n) (tenant_events ?t h)"
    using replay_lossless [OF inv Replay] by metis
  have le: "sequence_number e \<le> getLatestSequence b ?t" if "e \<in> set es" for e
    using that inv_D(2) [OF inv, of e ?t] by (simp add: es)
  have last: "sequence_number (last xs) \<le> getLatestSequence b ?t" if "xs \<noteq> []" "set xs \<subseteq> set es" for xs
    using that le last_in_set by blast
  have del: "filter (matchesWorkspace w) es = filter (\<lambda>e. matchesWorkspace w e \<and> sequence_number e > n) (tenant_events ?t h)" for w
    by (simp add: es conj_commute)
  show ?thesis
    unfolding Replay using n last [of es] last [of "filter (matchesWorkspace (opt_workspaceId opts)) es"]
    by (auto simp: start_subscriber_def Let_def drain_def subscriber_ok_def bounded_by_def nullish_def
        replay_to_eq del [symmetric] c)
qed (use nothing_after_latest [OF inv] in
    \<open>auto simp: start_subscriber_def Let_def drain_def subscriber_ok_def bounded_by_def\<close>)

lemma inv_subscribe:
  assumes inv: "bus_inv (b, h)"
  shows "bus_inv (fst (subscribe b opts uuid now []), h)"
proof (cases "length (nullish (js_get (subscribers b) (opt_tenantId opts)) []) \<ge> maxStreamsPerTenant b")
  case True
  then show ?thesis using inv by (simp add: subscribe_def Let_def)
next
  case False
  let ?t = "opt_tenantId opts"
  let ?subs = "nullish (js_get (subscribers b) ?t) []"
  let ?r = "evaluateReplay b ?t (opt_cursor opts) now"
  let ?s = "start_subscriber opts uuid (snd ?r) (getLatestSequence b ?t) []"
  have b': "fst (subscribe b opts uuid now []) = (fst ?r)\<lparr>subscribers := js_set ?t (?subs @ [?s]) (subscribers (fst ?r))\<rparr>"
    using False by (simp add: subscribe_def Let_def split: prod.split)
  have inv1: "bus_inv (fst ?r, h)" using inv by (rule inv_evaluateReplay)
  have same: "getLatestSequence (fst ?r) u = getLatestSequence b u" "subscribers (fst ?r) = subscribers b"
    "maxStreamsPerTenant (fst ?r) = maxStreamsPerTenant b" for u
    using evaluateReplay_bus [of b ?t "opt_cursor opts" now] by (auto simp: getLatestSequence_def)
  have "streams_ok (fst (subscribe b opts uuid now [])) h u" for u
    using inv_D(4) [OF inv, of _ u] inv_D(5) [OF inv, of u] start_subscriber_ok [OF inv, of opts uuid now] False same
    by (auto simp: streams_ok_def b' getActiveStreamCount_def getLatestSequence_def js_map_simps nullish_def)
  then show ?thesis
    using inv1 unfolding b' by (simp add: bus_inv_def history_ok_def buffer_ok_def getLatestSequence_def replay_buffer_def)
qed

lemma inv_unsubscribe:
  assumes inv: "bus_inv (b, h)"
  shows "bus_inv (unsubscribe b t i, h)"
proof -
  have "streams_ok (unsubscribe b t i) h u" for u
    using inv_D(4) [OF inv, of _ u] inv_D(5) [OF inv, of u]
    by (auto simp: streams_ok_def unsubscribe_def Let_def getActiveStreamCount_def getLatestSequence_def js_map_simps nullish_def
        split: option.splits intro: le_trans [OF length_filter_le])
  moreover have "history_ok (unsubscribe b t i) h u = history_ok b h u" "buffer_ok (unsubscribe b t i) h u = buffer_ok b h u"
    "maxReplayBufferCapacity (unsubscribe b t i) = maxReplayBufferCapacity b" for u
    by (auto simp: history_ok_def buffer_ok_def unsubscribe_def getLatestSequence_def replay_buffer_def Let_def split: option.splits)
  ultimately show ?thesis using inv by (simp add: bus_inv_def)
qed

lemma inv_clear:
  assumes inv: "bus_inv (b, h)"
  shows "bus_inv (bus_clear b t, if t \<noteq> [] then filter (\<lambda>e. se_tenant_id e \<noteq> t) h else [])"
proof -
  let ?h = "if t \<noteq> [] then filter (\<lambda>e. se_tenant_id e \<noteq> t) h else []"
  have ev: "tenant_events u ?h = (if t = [] \<or> u = t then [] else tenant_events u h)" for u
    by (auto simp: tenant_events_def intro!: filter_cong filter_none)
  have "history_ok (bus_clear b t) ?h u \<and> buffer_ok (bus_clear b t) ?h u \<and> streams_ok (bus_clear b t) ?h u" for u
  proof (cases "t = [] \<or> u = t")
    case True
    then show ?thesis
      unfolding history_ok_def buffer_ok_def streams_ok_def ev
      by (auto simp: bus_clear_def getActiveStreamCount_def replay_buffer_def js_map_simps nullish_def)
  next
    case False
    then have "getLatestSequence (bus_clear b t) u = getLatestSequence b u" "replay_buffer (bus_clear b t) u = replay_buffer b u"
      "js_get (subscribers (bus_clear b t)) u = js_get (subscribers b) u" "streamEpochId (bus_clear b t) = streamEpochId b"
      by (simp_all add: bus_clear_def getLatestSequence_def replay_buffer_def js_map_simps)
    then show ?thesis
      using inv False unfolding bus_inv_def history_ok_def buffer_ok_def streams_ok_def ev getActiveStreamCount_def
      by (simp add: bus_clear_def)
  qed
  then show ?thesis using inv by (simp add: bus_inv_def bus_clear_def)
qed

lemma inv_bus_step: "bus_inv bh \<Longrightarrow> bus_inv (bus_step P z bh op)"
proof (cases bh)
  case (Pair b h)
  assume "bus_inv bh"
  then have inv: "bus_inv (b, h)" by (simp add: Pair)
  show ?thesis
  proof (cases op)
    case (Publish i uuid now)
    then show ?thesis
      using inv_publish_Inl [OF inv] inv_publish_Inr [OF inv] by (auto simp: Pair split: prod.split sum.split)
  qed (use inv in \<open>simp_all add: Pair inv_subscribe inv_unsubscribe inv_evaluateReplay inv_getReplayEvents inv_clear
        del: if_split\<close>)
qed

lemma inv_new_bus: "0 < cap \<Longrightarrow> bus_inv (new_bus epoch cap age streams, [])"
  by (simp add: bus_inv_defs new_bus_def tenant_events_def replay_buffer_def getActiveStreamCount_def js_map_simps nullish_def)

interpretation bus_ops: op_invariant "bus_step P z" bus_inv for P z
  by unfold_locales (rule inv_bus_step)

lemma inv_bus_run:
  "\<lbrakk>0 < cap; foldl (bus_step P z) (new_bus epoch cap age streams, []) ops = (b, h)\<rbrakk> \<Longrightarrow> bus_inv (b, h)"
  using bus_ops.inv_run [OF inv_new_bus] by metis

text \<open>The limits and the epoch are fixed when the bus is made.\<close>

definition bus_limits :: "bus \<Rightarrow> string \<times> nat \<times> int \<times> nat" where
  "bus_limits b = (streamEpochId b, maxReplayBufferCapacity b, maxReplayAgeMs b, maxStreamsPerTenant b)"

lemma bus_limits_step: "bus_limits (fst (bus_step P z bh op)) = bus_limits (fst bh)"
proof (cases bh)
  case (Pair b h)
  show ?thesis
  proof (cases op)
    case (Publish i uuid now)
    then show ?thesis
      by (auto simp: Pair bus_limits_def split: prod.split sum.split dest!: publish_event_Inl dest: publish_event_Inr(7-10))
  next
    case (Subscribe opts uuid now)
    then show ?thesis
      using evaluateReplay_bus [of b "opt_tenantId opts" "opt_cursor opts" now]
      by (auto simp: Pair bus_limits_def subscribe_def Let_def split: prod.split)
  next
    case (EvaluateReplay t cur now)
    then show ?thesis using evaluateReplay_bus [of b t cur now] by (auto simp: Pair bus_limits_def)
  qed (simp_all add: Pair bus_limits_def unsubscribe_def getReplayEvents_def bus_clear_def Let_def split: option.split)
qed

interpretation bus_config: op_invariant "bus_step P z" "\<lambda>bh. bus_limits (fst bh) = c" for P z c
  by unfold_locales (simp add: bus_limits_step)

lemma bus_run_limits:
  assumes "foldl (bus_step P z) (new_bus epoch cap age streams, []) ops = (b, h)"
  shows "streamEpochId b = epoch" "maxReplayBufferCapacity b = cap" "maxReplayAgeMs b = age" "maxStreamsPerTenant b = streams"
  using bus_config.inv_run [of "(new_bus epoch cap age streams, [])" "(epoch, cap, age, streams)" P z ops] assms
  by (simp_all add: bus_limits_def new_bus_def)

section \<open>Cursors are canonical\<close>

lemma digit_char_val: "is_digit c \<Longrightarrow> digit_char (digit_val c) = c"
  by (simp add: digit_char_def digit_val_def is_digit_def)

lemma char_0: "digit_char 0 = CHR ''0''"
  by code_simp

lemma digits_val_pos: "\<lbrakk>ds \<noteq> []; list_all is_digit ds; hd ds \<noteq> CHR ''0''\<rbrakk> \<Longrightarrow> 0 < digits_val ds"
proof (induction ds rule: rev_induct)
  case (snoc c ds)
  show ?case
  proof (cases "ds = []")
    case True
    then have "digit_char (digit_val c) \<noteq> digit_char 0" 
      using snoc.prems digit_char_val [of c] by (simp add: char_0)
    then have "digit_val c \<noteq> 0" by metis
    then show ?thesis using True by (simp add: digits_val_def)
  next
    case False
    then show ?thesis using snoc by simp
  qed
qed simp

lemma nat_str_digits_val:
  "\<lbrakk>ds \<noteq> []; list_all is_digit ds; hd ds \<noteq> CHR ''0''\<rbrakk> \<Longrightarrow> nat_str (digits_val ds) = ds"
proof (induction ds rule: rev_induct)
  case (snoc c ds)
  have "is_digit c" using snoc.prems by simp
  then have d: "digit_val c < 10" "digit_char (digit_val c) = c"
    using digit_char_val by (auto simp: is_digit_def digit_val_def simp del: One_nat_def)
  show ?case
  proof (cases "ds = []")
    case True
    then show ?thesis using d by (simp add: digits_val_def nat_str.simps)
  next
    case False
    then have "nat_str (digits_val ds) = ds" "0 < digits_val ds" using snoc by (auto intro!: digits_val_pos)
    then show ?thesis using d by (subst nat_str.simps) simp
  qed
qed simp

lemma parse_cursor_canonical:
  assumes "parseStreamCursor c = Some (e, n)"
  shows "c = e @ '':'' @ nat_str n" "uuid_shaped e" "1 \<le> n" "n \<le> MAX_SAFE_INTEGER"
proof -
  have v: "isValidStreamCursor c" and e: "e = take 36 c" and n: "n = digits_val (drop 37 c)"
    using assms by (auto simp: parseStreamCursor_def cursor_parts_def split: if_splits)
  have "nat_str n = drop 37 c" unfolding n using v by (intro nat_str_digits_val) (auto simp: isValidStreamCursor_def)
  moreover have "c = take 36 c @ take 1 (drop 36 c) @ drop 37 c"
    by (metis append_take_drop_id drop_drop numeral_plus_one semiring_norm(26,5) add.commute)
  ultimately show "c = e @ '':'' @ nat_str n" using v e by (simp add: isValidStreamCursor_def)
  show "uuid_shaped e" "1 \<le> n" "n \<le> MAX_SAFE_INTEGER" using v by (auto simp: isValidStreamCursor_def e n)
qed

section \<open>What the bus promises\<close>

definition test_epoch :: string where
  "test_epoch = ''00000000-0000-4000-8000-000000000000''"

definition test_publish :: "string \<Rightarrow> string option \<Rightarrow> bus_op" where
  "test_publish t ws = Publish \<lparr>in_schema_id = ''nexusos.events.graph.evolved'', in_tenant_id = t, in_workspace_id = ws,
      in_correlation_id = None, in_producer_id = None, in_payload = [], in_event_id = None, in_occurred_at = None,
      skipRedaction = False\<rparr> (\<lambda>_. ''u'') (\<lambda>_. 0)"

definition test_subscribe :: bus_op where
  "test_subscribe = Subscribe \<lparr>opt_tenantId = ''t1'', opt_workspaceId = Some ''w'',
      opt_cursor = Some (test_epoch @ '':1''), has_onReset = True\<rparr> ''s1'' 0"

definition test_bus_run :: bus_history where
  "test_bus_run = foldl (bus_step test_platform id) (new_bus test_epoch 3 1000 2, [])
     [test_publish ''t1'' (Some ''w''), test_publish ''t2'' None, test_publish ''t1'' (Some ''w''), test_subscribe,
      test_publish ''t1'' (Some ''v''), test_publish ''t1'' (Some ''w'')]"

lemma test_bus_run_eq:
  "foldl (bus_step test_platform id) (new_bus test_epoch 3 1000 2, [])
     [test_publish ''t1'' (Some ''w''), test_publish ''t2'' None, test_publish ''t1'' (Some ''w''), test_subscribe,
      test_publish ''t1'' (Some ''v''), test_publish ''t1'' (Some ''w'')] = (fst test_bus_run, snd test_bus_run)"
  by (simp add: test_bus_run_def)

text \<open>What the witnesses observe of the run, evaluated once.\<close>

lemma test_bus_observed:
  "map (\<lambda>s. map sequence_number (delivered s)) (nullish (js_get (subscribers (fst test_bus_run)) ''t1'') []) = [[2, 4]]
   \<and> (case snd (evaluateReplay (fst test_bus_run) ''t1'' (Some (test_epoch @ '':2'')) 0) of
        Replay es \<Rightarrow> map sequence_number es = [3, 4] | Reset p \<Rightarrow> False | ReplayNone \<Rightarrow> False)"
proof -
  have "case test_bus_run of (b, h) \<Rightarrow>
      map (\<lambda>s. map sequence_number (delivered s)) (nullish (js_get (subscribers b) ''t1'') []) = [[2, 4]]
      \<and> (case snd (evaluateReplay b ''t1'' (Some (test_epoch @ '':2'')) 0) of
           Replay es \<Rightarrow> map sequence_number es = [3, 4] | Reset p \<Rightarrow> False | ReplayNone \<Rightarrow> False)"
    by code_simp
  then show ?thesis by (simp only: case_prod_beta)
qed

lemma pos3: "0 < (3 :: nat)"
  by simp

lemma uuid_shaped_test [simp]: "uuid_shaped test_epoch"
  by code_simp

text \<open>C36. After any sequence of operations on a new bus, a subscriber of a tenant has been given exactly
  the events published for that tenant after its starting point that match its workspace: in order, each
  once, none lost, and none of another tenant.\<close>
theorem subscriber_sees_exactly:
  assumes "0 < cap" "foldl (bus_step P z) (new_bus epoch cap age streams, []) ops = (b, h)"
    and "s \<in> set (nullish (js_get (subscribers b) t) [])"
  shows "delivered s = filter (\<lambda>e. matchesWorkspace (sub_workspaceId s) e \<and> sequence_number e > startSeq s) (tenant_events t h)
    \<and> sorted_wrt (<) (map sequence_number (delivered s)) \<and> (\<forall>e \<in> set (delivered s). se_tenant_id e = t)"
proof -
  note inv = inv_bus_run [OF assms(1,2)]
  have del: "delivered s = filter (\<lambda>e. matchesWorkspace (sub_workspaceId s) e \<and> sequence_number e > startSeq s) (tenant_events t h)"
    using inv_D(4) [OF inv assms(3)] by (simp add: subscriber_ok_def)
  moreover have "sorted_wrt (<) (map sequence_number (delivered s))"
    using inv_D(1) [OF inv, of t] unfolding del sorted_wrt_map by (rule sorted_wrt_filter)
  moreover have "\<forall>e \<in> set (delivered s). se_tenant_id e = t" unfolding del by (simp add: tenant_events_def)
  ultimately show ?thesis by blast
qed

theorem subscriber_sees_exactly_witness:
  "map (\<lambda>s. map sequence_number (delivered s)) (nullish (js_get (subscribers (fst test_bus_run)) ''t1'') []) = [[2, 4]]
   \<and> sorted_wrt (<) (map sequence_number (delivered (hd (nullish (js_get (subscribers (fst test_bus_run)) ''t1'') []))))"
proof -
  let ?subs = "nullish (js_get (subscribers (fst test_bus_run)) ''t1'') []"
  have ev: "map (\<lambda>s. map sequence_number (delivered s)) ?subs = [[2, 4]]" by (rule conjunct1 [OF test_bus_observed])
  then have "?subs \<noteq> []" by (metis list.map_disc_iff list.distinct(1))
  then have "hd ?subs \<in> set ?subs" by (rule hd_in_set)
  from subscriber_sees_exactly [OF pos3 test_bus_run_eq this, THEN conjunct2, THEN conjunct1] ev show ?thesis by (rule conjI [rotated])
qed

text \<open>A client that comes back with a cursor is given exactly the events of its tenant after it
  (the cursor being one of this epoch, not ahead of the stream), or a reset that names the current epoch
  and sequence; it never silently loses an event.\<close>
theorem evaluateReplay_lossless:
  assumes "0 < cap" "foldl (bus_step P z) (new_bus epoch cap age streams, []) ops = (b, h)"
  shows "case snd (evaluateReplay b t (Some c) now) of
           Replay es \<Rightarrow> (\<exists>n. parseStreamCursor c = Some (epoch, n) \<and> n \<le> getLatestSequence b t
                           \<and> es = filter (\<lambda>e. sequence_number e > n) (tenant_events t h))
         | Reset p \<Rightarrow> currentEpoch p = epoch \<and> currentSequence p = getLatestSequence b t \<and> requestedCursor p = c
         | ReplayNone \<Rightarrow> False"
proof (cases "snd (evaluateReplay b t (Some c) now)")
  case ReplayNone
  then show ?thesis by (auto simp: evaluateReplay_def reset_of_def Let_def split: option.splits if_splits)
next
  case (Replay es)
  obtain n where "parseStreamCursor c = Some (epoch, n)" "n \<le> getLatestSequence b t"
      "es = filter (\<lambda>e. sequence_number e > n) (tenant_events t h)"
    using replay_lossless [OF inv_bus_run [OF assms] Replay] bus_run_limits(1) [OF assms(2)] by blast
  then show ?thesis unfolding Replay by simp
next
  case (Reset p)
  then show ?thesis
    using bus_run_limits(1) [OF assms(2)]
    by (auto simp: evaluateReplay_def reset_of_def Let_def split: option.splits if_splits)
qed

theorem evaluateReplay_lossless_witness:
  "(case snd (evaluateReplay (fst test_bus_run) ''t1'' (Some (test_epoch @ '':2'')) 0) of
      Replay es \<Rightarrow> map sequence_number es = [3, 4]
        \<and> (\<exists>n. parseStreamCursor (test_epoch @ '':2'') = Some (test_epoch, n) \<and> n \<le> getLatestSequence (fst test_bus_run) ''t1''
             \<and> es = filter (\<lambda>e. sequence_number e > n) (tenant_events ''t1'' (snd test_bus_run)))
    | Reset p \<Rightarrow> False | ReplayNone \<Rightarrow> False)"
proof -
  let ?r = "snd (evaluateReplay (fst test_bus_run) ''t1'' (Some (test_epoch @ '':2'')) 0)"
  have "(case ?r of Replay es \<Rightarrow> map sequence_number es = [3, 4] | Reset p \<Rightarrow> False | ReplayNone \<Rightarrow> False)"
    by (rule conjunct2 [OF test_bus_observed])
  then show ?thesis
    using evaluateReplay_lossless [OF pos3 test_bus_run_eq, of "test_epoch @ '':2''" "''t1''" 0]
    by (cases ?r) (simp_all only: replay_result.case simp_thms)
qed

text \<open>The cursor of an event that is still in the unexpired part of the buffer is always accepted:
  the client gets everything published after that event.\<close>
theorem retained_cursor_resumes:
  assumes "0 < cap" "foldl (bus_step P z) (new_bus epoch cap age streams, []) ops = (b, h)" "uuid_shaped epoch"
    and "e \<in> set (buffer_prune age now (replay_buffer b t))"
  shows "snd (evaluateReplay b t (Some (cursor e)) now) =
           Replay (filter (\<lambda>e'. sequence_number e' > sequence_number e) (tenant_events t h))"
proof -
  note inv = inv_bus_run [OF assms(1,2)] and lim = bus_run_limits [OF assms(2)]
  obtain pre where pre: "tenant_events t h = pre @ replay_buffer b t" using inv_D(3) [OF inv] by blast
  obtain q where q: "replay_buffer b t = q @ buffer_prune age now (replay_buffer b t)" using buffer_prune_suffix by blast
  have "e \<in> set (tenant_events t h)" using assms(4) q unfolding pre by (metis Un_iff set_append)
  then have e: "sequence_number e \<le> getLatestSequence b t" "stamped epoch e" using inv_D(2) [OF inv] lim(1) by auto
  then have c: "isValidStreamCursor (cursor e)" "parseStreamCursor (cursor e) = Some (epoch, sequence_number e)"
    using parse_cursor [OF assms(3)] by (auto simp: stamped_def)
  obtain o1 rest where o1: "buffer_prune age now (replay_buffer b t) = o1 # rest" using assms(4) by (cases "buffer_prune age now (replay_buffer b t)") auto
  have "sorted_wrt (<) (map sequence_number (pre @ q @ o1 # rest))"
    using inv_D(1) [OF inv, of t] pre q o1 by metis
  then have old: "sequence_number o1 \<le> sequence_number e"
    using assms(4) unfolding o1 by (auto simp: sorted_wrt_append)
  have "\<exists>es. snd (evaluateReplay b t (Some (cursor e)) now) = Replay es"
    using c e(1) old o1 buffer_prune_idem [of age now "replay_buffer b t"] lim
    by (simp add: evaluateReplay_def Let_def getOldestSequence_def)
  then obtain es where r: "snd (evaluateReplay b t (Some (cursor e)) now) = Replay es" ..
  obtain n where "parseStreamCursor (cursor e) = Some (epoch, n)" "es = filter (\<lambda>e. sequence_number e > n) (tenant_events t h)"
    using replay_lossless [OF inv r] lim(1) by blast
  then show ?thesis using r c(2) by simp
qed

text \<open>Whatever was done to the bus, a tenant's replay buffer holds at most the configured number of
  events, which are the latest ones published for that tenant, and a tenant never has more than the
  configured number of open streams.\<close>
theorem bus_bounds:
  assumes "0 < cap" "foldl (bus_step P z) (new_bus epoch cap age streams, []) ops = (b, h)"
  shows "length (replay_buffer b t) \<le> cap \<and> (\<exists>pre. tenant_events t h = pre @ replay_buffer b t)
    \<and> getActiveStreamCount b t \<le> streams"
  using inv_D(3,5,6) [OF inv_bus_run [OF assms], of t] bus_run_limits [OF assms(2)] by simp

text \<open>C39. A cursor reads back as the epoch and sequence number it was formatted from, and no other text
  does: leading zeros, signs, other separators and unsafe integers are refused.\<close>
theorem stream_cursor_roundtrip:
  assumes "uuid_ok P e" "uuid_shaped e" "1 \<le> n" "n \<le> MAX_SAFE_INTEGER"
  shows "parseStreamCursor c = Some (e, n) \<longleftrightarrow> formatStreamCursor P e n = Inr c"
proof
  assume "parseStreamCursor c = Some (e, n)"
  with parse_cursor_canonical(1) assms show "formatStreamCursor P e n = Inr c" by (simp add: formatStreamCursor_def)
next
  assume "formatStreamCursor P e n = Inr c"
  with parse_cursor(2) [OF assms(2-4)] assms show "parseStreamCursor c = Some (e, n)"
    by (auto simp: formatStreamCursor_def split: if_splits)
qed

theorem stream_cursor_roundtrip_witness:
  "parseStreamCursor (test_epoch @ '':42'') = Some (test_epoch, 42)
   \<and> parseStreamCursor (test_epoch @ '':042'') \<noteq> Some (test_epoch, 42)"
proof -
  have ok: "uuid_ok test_platform test_epoch" "1 \<le> (42 :: nat)" "42 \<le> MAX_SAFE_INTEGER"
    by (simp_all add: test_epoch_def MAX_SAFE_INTEGER_def)
  have "formatStreamCursor test_platform test_epoch 42 = Inr (test_epoch @ '':42'')"
    "formatStreamCursor test_platform test_epoch 42 \<noteq> Inr (test_epoch @ '':042'')"
    by code_simp+
  then show ?thesis using stream_cursor_roundtrip [OF ok(1) uuid_shaped_test ok(2,3)] by blast
qed

lemma start_subscriber_fields:
  "sub_id (start_subscriber opts uuid r latest []) = uuid"
  "sub_workspaceId (start_subscriber opts uuid r latest []) = opt_workspaceId opts"
  "startSeq (start_subscriber opts uuid r latest []) =
     (case r of Replay es \<Rightarrow> nullish (map_option snd (Option.bind (opt_cursor opts) parseStreamCursor)) latest | _ \<Rightarrow> latest)"
  "resets (start_subscriber opts uuid r latest []) = (case r of Reset p \<Rightarrow> if has_onReset opts then [p] else [] | _ \<Rightarrow> [])"
  by (simp_all add: start_subscriber_def Let_def drain_def replay_to_eq split: replay_result.split)

text \<open>A subscription is refused exactly when the tenant already has its number of streams, and then
  changes nothing; otherwise it is added to the tenant's streams, follows the stream from its cursor if
  that is replayed and from now on if not, and is told of a reset when it asked to be.\<close>
theorem subscribe_spec:
  "case subscribe b opts uuid now [] of
     (b', Inl e) \<Rightarrow> b' = b \<and> \<not> canSubscribe b (opt_tenantId opts) \<and> e = TooManyStreams (maxStreamsPerTenant b) (opt_tenantId opts)
   | (b', Inr r) \<Rightarrow> canSubscribe b (opt_tenantId opts) \<and> r = snd (evaluateReplay b (opt_tenantId opts) (opt_cursor opts) now)
       \<and> (\<exists>s. js_get (subscribers b') (opt_tenantId opts) = Some (nullish (js_get (subscribers b) (opt_tenantId opts)) [] @ [s])
            \<and> sub_id s = uuid \<and> sub_workspaceId s = opt_workspaceId opts
            \<and> (case r of Replay es \<Rightarrow> Option.bind (opt_cursor opts) parseStreamCursor = Some (streamEpochId b, startSeq s)
               | _ \<Rightarrow> startSeq s = getLatestSequence b (opt_tenantId opts))
            \<and> resets s = (case r of Reset p \<Rightarrow> if has_onReset opts then [p] else [] | _ \<Rightarrow> []))"
proof (cases "canSubscribe b (opt_tenantId opts)")
  case True
  let ?r = "evaluateReplay b (opt_tenantId opts) (opt_cursor opts) now"
  let ?s = "start_subscriber opts uuid (snd ?r) (getLatestSequence b (opt_tenantId opts)) []"
  have start: "case snd ?r of Replay es \<Rightarrow> Option.bind (opt_cursor opts) parseStreamCursor = Some (streamEpochId b, startSeq ?s)
               | _ \<Rightarrow> startSeq ?s = getLatestSequence b (opt_tenantId opts)"
  proof (cases "snd ?r")
    case (Replay es)
    then obtain c n where "opt_cursor opts = Some c" "parseStreamCursor c = Some (streamEpochId b, n)"
      by (rule evaluateReplay_Replay)
    then show ?thesis unfolding start_subscriber_fields Replay by (simp add: nullish_def)
  qed (simp_all add: start_subscriber_fields)
  have sub: "subscribe b opts uuid now [] =
      ((fst ?r)\<lparr>subscribers := js_set (opt_tenantId opts) (nullish (js_get (subscribers b) (opt_tenantId opts)) [] @ [?s])
          (subscribers (fst ?r))\<rparr>, Inr (snd ?r))"
    using True by (simp add: subscribe_def canSubscribe_def getActiveStreamCount_def Let_def case_prod_unfold)
  show ?thesis
    unfolding sub prod.case sum.case using True start
    by (intro conjI exI [of _ ?s]) (simp_all add: start_subscriber_fields(1,2,4) js_map_simps)
next
  case False
  then show ?thesis by (simp add: subscribe_def canSubscribe_def getActiveStreamCount_def Let_def)
qed

end
