(* ===== verification/Delegation.thy ===== *)
theory Delegation
  imports Receipts Agent_Directory
begin

text \<open>
  The sub-agent delegation coordinator (\<open>services/backend/src/agents/delegation-coordinator.ts\<close>)
  and its contract (\<open>packages/contracts/src/acp/delegation.ts\<close>): delegation of a sub-task under an
  attenuated lease, settlement of the child's receipt, the composite receipt of a parent, cascading
  cancellation, failure handling and the listing of sessions. The lease issuer and the agent directory
  are the models of \<open>Leases\<close> and \<open>Agent_Directory\<close>. The clock and \<open>randomUUID\<close> are
  arguments; \<open>now i\<close> and \<open>uuid i\<close> are the successive readings in one call. Events
  published to the bus are observational and not kept here.

  Proved: every session ever recorded carries an authentic lease that attenuates its parent's; the
  number of active children of a task stays within the fan-out limit as long as delegation identifiers
  are fresh (and may exceed it otherwise); cancellation reaches exactly the sessions that are linked to
  the cancelled task through unfinished ones; and when a receipt is accepted.
\<close>

section \<open>Data\<close>

definition MAX_DEPTH :: int where "MAX_DEPTH = 3"

definition MAX_FAN_OUT :: nat where "MAX_FAN_OUT = 5"

definition MAX_TIMEOUT_MS :: int where "MAX_TIMEOUT_MS = 300000"

definition DEFAULT_TIMEOUT_MS :: int where "DEFAULT_TIMEOUT_MS = 60000"

datatype delegation_status = ACCEPTED | REJECTED | EXECUTING | COMPLETED | FAILED | CANCELLED | TIMED_OUT

record delegation_request =
  rq_delegationId :: string
  rq_parentTaskId :: string
  rq_parentLeaseId :: string
  rq_delegatorAgentId :: string
  rq_targetAgentId :: string
  rq_tenantId :: string
  rq_workspaceId :: string
  rq_subGoal :: string
  rq_capabilityId :: string
  rq_requestedScopes :: "string list"
  rq_delegationDepth :: int
  rq_timeoutMs :: "int option"
  rq_idempotencyKey :: string
  rq_correlationId :: string
  rq_compensationPayload :: "(string \<times> json) list option"

definition request_timeout :: "delegation_request \<Rightarrow> int" where
  "request_timeout r = nullish (rq_timeoutMs r) DEFAULT_TIMEOUT_MS"

definition SubAgentDelegationRequestSchema :: "platform \<Rightarrow> delegation_request \<Rightarrow> bool" where
  "SubAgentDelegationRequestSchema P r \<longleftrightarrow>
     uuid_ok P (rq_delegationId r) \<and> uuid_ok P (rq_parentTaskId r) \<and> uuid_ok P (rq_parentLeaseId r)
     \<and> sized 128 (rq_delegatorAgentId r) \<and> sized 128 (rq_targetAgentId r)
     \<and> uuid_ok P (rq_tenantId r) \<and> uuid_ok P (rq_workspaceId r)
     \<and> sized 4096 (rq_subGoal r) \<and> sized 128 (rq_capabilityId r)
     \<and> rq_requestedScopes r \<noteq> [] \<and> list_all (\<lambda>s. s \<noteq> []) (rq_requestedScopes r)
     \<and> 1 \<le> rq_delegationDepth r \<and> rq_delegationDepth r \<le> MAX_DEPTH
     \<and> 0 < request_timeout r \<and> request_timeout r \<le> MAX_TIMEOUT_MS
     \<and> sized 128 (rq_idempotencyKey r) \<and> uuid_ok P (rq_correlationId r)"

record delegation_response =
  rs_delegationId :: string
  rs_parentTaskId :: string
  rs_childTaskId :: string
  rs_childLeaseId :: string
  rs_assignedAgentId :: string
  rs_tenantId :: string
  rs_workspaceId :: string
  rs_status :: delegation_status
  rs_delegationDepth :: int
  rs_acceptedAt :: string

definition SubAgentDelegationResponseSchema :: "platform \<Rightarrow> delegation_response \<Rightarrow> bool" where
  "SubAgentDelegationResponseSchema P r \<longleftrightarrow>
     uuid_ok P (rs_delegationId r) \<and> uuid_ok P (rs_parentTaskId r) \<and> uuid_ok P (rs_childTaskId r)
     \<and> uuid_ok P (rs_childLeaseId r) \<and> sized 128 (rs_assignedAgentId r) \<and> uuid_ok P (rs_tenantId r)
     \<and> uuid_ok P (rs_workspaceId r) \<and> 1 \<le> rs_delegationDepth r \<and> rs_delegationDepth r \<le> MAX_DEPTH
     \<and> datetime_ok P (rs_acceptedAt r)"

record delegation_session =
  ds_delegationId :: string
  ds_parentTaskId :: string
  ds_parentLeaseId :: string
  ds_childTaskId :: string
  ds_childLease :: delegated_lease_header
  ds_delegatorAgentId :: string
  ds_assignedAgentId :: string
  ds_tenantId :: string
  ds_workspaceId :: string
  ds_depth :: int
  ds_status :: delegation_status
  ds_requestedScopes :: "string list"
  ds_expiresAt :: "int option"
  ds_idempotencyKey :: string
  ds_correlationId :: string
  ds_compensationPayload :: "(string \<times> json) list option"
  ds_childReceipt :: "execution_receipt option"
  ds_rejectionReason :: "string option"

record coordinator =
  sessions :: "(string, delegation_session) jsmap"
  parentToChildren :: "(string, string list) jsmap"
  childToSession :: "(string, string) jsmap"
  idempotencyCache :: "(string, string) jsmap"
  revokedTasks :: "string list"
  maxDepth :: int
  maxFanOut :: nat

datatype delegation_error =
    RequestSchemaError
  | ParentRevoked string
  | ParentLeaseForged
  | ParentLeaseExpired
  | ParentTaskIdMismatch string string
  | CrossTenantDelegation string string
  | RecursionLimit int int
  | InvalidDepthSequence int int
  | RootDepthNotOne int
  | FanOutExceeded string nat nat
  | PrivilegeEscalation "string option"
  | TargetNotRegistered string string
  | WorkspaceNotAuthorized string string
  | LeaseIssueError lease_error
  | InvalidAcceptedAt
  | ResponseSchemaError

section \<open>Delegating\<close>

definition DelegationCoordinator :: "int option \<Rightarrow> nat option \<Rightarrow> coordinator" where
  "DelegationCoordinator depth fan =
     \<lparr>sessions = [], parentToChildren = [], childToSession = [], idempotencyCache = [], revokedTasks = [],
      maxDepth = nullish depth MAX_DEPTH, maxFanOut = nullish fan MAX_FAN_OUT\<rparr>"

definition active_status :: "delegation_status \<Rightarrow> bool" where
  "active_status s \<longleftrightarrow> s \<noteq> COMPLETED \<and> s \<noteq> FAILED \<and> s \<noteq> CANCELLED \<and> s \<noteq> TIMED_OUT"

definition child_delegations :: "coordinator \<Rightarrow> string \<Rightarrow> string list" where
  "child_delegations c p = nullish (js_get (parentToChildren c) p) []"

definition active_session :: "coordinator \<Rightarrow> string \<Rightarrow> bool" where
  "active_session c i \<longleftrightarrow> (case js_get (sessions c) i of None \<Rightarrow> False | Some s \<Rightarrow> active_status (ds_status s))"

definition getActiveChildCount :: "coordinator \<Rightarrow> string \<Rightarrow> nat" where
  "getActiveChildCount c p = length (filter (active_session c) (child_delegations c p))"

text \<open>Guards 2 to 8, in order; \<open>None\<close> when all pass.\<close>

definition delegate_guard ::
  "platform \<Rightarrow> lease_issuer \<Rightarrow> directory \<Rightarrow> coordinator \<Rightarrow> delegation_request \<Rightarrow> parent_lease \<Rightarrow> int
   \<Rightarrow> delegation_error option" where
  "delegate_guard P issuer dir c r parent now =
     (let base = base_lease parent;
          attenuation = verifyScopeAttenuation (scopes base) (rq_requestedScopes r);
          target = getAgent dir (rq_tenantId r) (rq_targetAgentId r)
      in if \<not> parent_signature_ok P (secretKey issuer) parent then Some ParentLeaseForged
         else if num_le (date_parse (expires_at base)) (Some now) then Some ParentLeaseExpired
         else if task_id base \<noteq> rq_parentTaskId r then Some (ParentTaskIdMismatch (task_id base) (rq_parentTaskId r))
         else if rq_tenantId r \<noteq> tenant_id base then Some (CrossTenantDelegation (tenant_id base) (rq_tenantId r))
         else if rq_delegationDepth r > maxDepth c then Some (RecursionLimit (rq_delegationDepth r) (maxDepth c))
         else case (case parent of
                DelegatedLease l \<Rightarrow>
                  if rq_delegationDepth r \<noteq> delegation_depth l + 1
                  then Some (InvalidDepthSequence (delegation_depth l) (rq_delegationDepth r)) else None
              | ExecutionLease _ \<Rightarrow>
                  if rq_delegationDepth r \<noteq> 1 then Some (RootDepthNotOne (rq_delegationDepth r)) else None) of
           Some e \<Rightarrow> Some e
         | None \<Rightarrow>
           if getActiveChildCount c (rq_parentTaskId r) \<ge> maxFanOut c
           then Some (FanOutExceeded (rq_parentTaskId r) (getActiveChildCount c (rq_parentTaskId r)) (maxFanOut c))
           else if \<not> valid attenuation then Some (PrivilegeEscalation (errorMessage attenuation))
           else case target of
             None \<Rightarrow> Some (TargetNotRegistered (rq_targetAgentId r) (rq_tenantId r))
           | Some a \<Rightarrow>
               if \<not> (''*'' \<in> set (workspaceScope a) \<or> rq_workspaceId r \<in> set (workspaceScope a))
               then Some (WorkspaceNotAuthorized (rq_targetAgentId r) (rq_workspaceId r)) else None)"

definition lease_params :: "delegation_request \<Rightarrow> parent_lease \<Rightarrow> string \<Rightarrow> delegated_lease_issue_params" where
  "lease_params r parent child =
     \<lparr>parentLease = parent, parentTaskId = rq_parentTaskId r, childTaskId = child, childAgentId = rq_targetAgentId r,
      dl_tenantId = rq_tenantId r, workspaceId = rq_workspaceId r, attenuatedScopes = rq_requestedScopes r,
      delegationDepth = rq_delegationDepth r, dl_ttlSeconds = Some (request_timeout r div 1000),
      dl_policyHash = None, dl_nonce = None\<rparr>"

definition new_session ::
  "delegation_request \<Rightarrow> parent_lease \<Rightarrow> string \<Rightarrow> delegated_lease_header \<Rightarrow> delegation_session" where
  "new_session r parent child lease =
     \<lparr>ds_delegationId = rq_delegationId r, ds_parentTaskId = rq_parentTaskId r,
      ds_parentLeaseId = lease_id (base_lease parent), ds_childTaskId = child, ds_childLease = lease,
      ds_delegatorAgentId = rq_delegatorAgentId r, ds_assignedAgentId = rq_targetAgentId r,
      ds_tenantId = rq_tenantId r, ds_workspaceId = rq_workspaceId r, ds_depth = rq_delegationDepth r,
      ds_status = ACCEPTED, ds_requestedScopes = rq_requestedScopes r, ds_expiresAt = date_parse (expires_at lease),
      ds_idempotencyKey = rq_idempotencyKey r, ds_correlationId = rq_correlationId r,
      ds_compensationPayload = rq_compensationPayload r, ds_childReceipt = None, ds_rejectionReason = None\<rparr>"

definition idempotency_key :: "delegation_request \<Rightarrow> string" where
  "idempotency_key r = rq_parentTaskId r @ ''::'' @ rq_idempotencyKey r"

definition record_session :: "coordinator \<Rightarrow> delegation_request \<Rightarrow> delegation_session \<Rightarrow> coordinator" where
  "record_session c r s =
     c\<lparr>sessions := js_set (ds_delegationId s) s (sessions c),
       parentToChildren := js_set (rq_parentTaskId r) (js_add (ds_delegationId s) (child_delegations c (rq_parentTaskId r)))
         (parentToChildren c),
       childToSession := js_set (ds_childTaskId s) (ds_delegationId s) (childToSession c),
       idempotencyCache := js_set (idempotency_key r) (ds_delegationId s) (idempotencyCache c)\<rparr>"

text \<open>The response for a session, parsed by its schema.\<close>

definition session_response :: "platform \<Rightarrow> delegation_session \<Rightarrow> delegation_error + delegation_response" where
  "session_response P s =
     (case to_iso (date_parse (issued_at (ds_childLease s))) of
        None \<Rightarrow> Inl InvalidAcceptedAt
      | Some accepted \<Rightarrow>
          (let r = \<lparr>rs_delegationId = ds_delegationId s, rs_parentTaskId = ds_parentTaskId s,
                 rs_childTaskId = ds_childTaskId s, rs_childLeaseId = lease_id (ds_childLease s),
                 rs_assignedAgentId = ds_assignedAgentId s, rs_tenantId = ds_tenantId s,
                 rs_workspaceId = ds_workspaceId s, rs_status = ds_status s, rs_delegationDepth = ds_depth s,
                 rs_acceptedAt = accepted\<rparr>
           in if SubAgentDelegationResponseSchema P r then Inr r else Inl ResponseSchemaError))"

definition known_session :: "coordinator \<Rightarrow> delegation_request \<Rightarrow> delegation_session option" where
  "known_session c r =
     (let i = js_get (idempotencyCache c) (idempotency_key r) in
      if truthy i then js_get (sessions c) (the i) else None)"

definition delegateSubTask ::
  "platform \<Rightarrow> lease_issuer \<Rightarrow> directory \<Rightarrow> coordinator \<Rightarrow> delegation_request \<Rightarrow> parent_lease
   \<Rightarrow> (nat \<Rightarrow> int) \<Rightarrow> (nat \<Rightarrow> string) \<Rightarrow> coordinator \<times> (delegation_error + delegation_response)" where
  "delegateSubTask P issuer dir c r parent now uuid =
     (if \<not> SubAgentDelegationRequestSchema P r then (c, Inl RequestSchemaError)
      else if rq_parentTaskId r \<in> set (revokedTasks c) then (c, Inl (ParentRevoked (rq_parentTaskId r)))
      else case known_session c r of
        Some s \<Rightarrow> (c, session_response P s)
      | None \<Rightarrow>
         (case delegate_guard P issuer dir c r parent (now 0) of
            Some e \<Rightarrow> (c, Inl e)
          | None \<Rightarrow>
             (case issueDelegatedLease P issuer (lease_params r parent (uuid 0)) (now 1) (uuid 1) (uuid 2) of
                Inl e \<Rightarrow> (c, Inl (LeaseIssueError e))
              | Inr lease \<Rightarrow>
                  (let s = new_session r parent (uuid 0) lease in (record_session c r s, session_response P s)))))"

section \<open>Settling, cancelling, failing\<close>

text \<open>\<open>valid: true\<close> is \<open>None\<close>, otherwise the error text.\<close>

definition settleChildReceipt ::
  "coordinator \<Rightarrow> execution_receipt \<Rightarrow> int \<Rightarrow> coordinator \<times> string option" where
  "settleChildReceipt c r now =
     (case js_get (childToSession c) (receipt_taskId r) of
        None \<Rightarrow> (c, Some (''No active delegation session found for child task '' @ receipt_taskId r @ ''.''))
      | Some i \<Rightarrow>
         (if i = [] then (c, Some (''No active delegation session found for child task '' @ receipt_taskId r @ ''.''))
          else case js_get (sessions c) i of
            None \<Rightarrow> (c, Some (''Delegation session '' @ i @ '' not found.''))
          | Some s \<Rightarrow>
             if ds_parentTaskId s \<in> set (revokedTasks c) \<or> ds_status s = CANCELLED
             then (c, Some ''Late child receipt rejected: Parent task or delegation was cancelled.'')
             else if leaseId r \<noteq> lease_id (ds_childLease s)
             then (c, Some ''Child receipt lease ID mismatch with issued child lease.'')
             else if receipt_tenantId r \<noteq> ds_tenantId s then (c, Some ''Child receipt tenant ID mismatch.'')
             else if receipt_signature r = [] \<or> trim (receipt_signature r) = []
             then (c, Some ''Child receipt is unsigned or missing signature.'')
             else if num_gt (Some now) (ds_expiresAt s)
             then (c\<lparr>sessions := js_set i (s\<lparr>ds_status := TIMED_OUT\<rparr>) (sessions c)\<rparr>,
                   Some ''Child task timed out before receipt settlement.'')
             else (c\<lparr>sessions := js_set i (s\<lparr>ds_childReceipt := Some r,
                      ds_status := (if status r = SUCCESS then COMPLETED else FAILED)\<rparr>) (sessions c)\<rparr>, None)))"

text \<open>The inner loop of \<open>cancelDelegation\<close>: the coordinator, the queue and the cancelled tasks.\<close>

definition unfinished :: "delegation_session \<Rightarrow> bool" where
  "unfinished s \<longleftrightarrow> ds_status s \<noteq> COMPLETED \<and> ds_status s \<noteq> CANCELLED"

definition cancel_session :: "string \<Rightarrow> delegation_session \<Rightarrow> coordinator \<Rightarrow> coordinator" where
  "cancel_session i s c =
     c\<lparr>sessions := js_set i (s\<lparr>ds_status := CANCELLED\<rparr>) (sessions c),
       revokedTasks := js_add (ds_childTaskId s) (revokedTasks c)\<rparr>"

fun cancel_children ::
  "string list \<Rightarrow> coordinator \<times> string list \<times> string list \<Rightarrow> coordinator \<times> string list \<times> string list" where
  "cancel_children [] st = st"
| "cancel_children (i # is) (c, queue, out) =
     (case js_get (sessions c) i of
        None \<Rightarrow> cancel_children is (c, queue, out)
      | Some s \<Rightarrow>
          if unfinished s
          then cancel_children is (cancel_session i s c, queue @ [ds_childTaskId s], out @ [ds_childTaskId s])
          else cancel_children is (c, queue, out))"

definition unfinished_count :: "coordinator \<Rightarrow> nat" where
  "unfinished_count c = length (filter (\<lambda>(_, s). unfinished s) (sessions c))"

lemma unfinished_count_cancel:
  "\<lbrakk>js_get (sessions c) i = Some s; unfinished s\<rbrakk> \<Longrightarrow> Suc (unfinished_count (cancel_session i s c)) = unfinished_count c"
  using js_set_count [of "sessions c" i s unfinished "s\<lparr>ds_status := CANCELLED\<rparr>"]
  by (simp add: unfinished_count_def cancel_session_def unfinished_def)

text \<open>Every session that is cancelled is one unfinished session less and one task more in the queue.\<close>

lemma cancel_children_measure:
  "cancel_children is (c, queue, out) = (c', queue', out') \<Longrightarrow>
   unfinished_count c' + length queue' = unfinished_count c + length queue"
proof (induction "is" arbitrary: c queue out)
  case (Cons i "is")
  show ?case
  proof (cases "js_get (sessions c) i")
    case None
    then show ?thesis using Cons by simp
  next
    case (Some s)
    then show ?thesis
      using Cons.prems Cons.IH [of c queue out] Cons.IH [of "cancel_session i s c" "queue @ [ds_childTaskId s]"]
        unfinished_count_cancel [OF Some] by (auto split: if_splits)
  qed
qed simp

function cancel_loop :: "coordinator \<Rightarrow> string list \<Rightarrow> string list \<Rightarrow> coordinator \<times> string list" where
  "cancel_loop c [] out = (c, out)"
| "cancel_loop c (p # queue) out =
     (case cancel_children (child_delegations c p) (c, queue, out) of (c', queue', out') \<Rightarrow> cancel_loop c' queue' out')"
  by pat_completeness auto
termination
  by (relation "measure (\<lambda>(c, queue, out). unfinished_count c + length queue)")
    (simp_all, metis (no_types, lifting) cancel_children_measure case_prod_conv lessI surj_pair)

definition cancelDelegation :: "coordinator \<Rightarrow> string \<Rightarrow> coordinator \<times> string list" where
  "cancelDelegation c parent = cancel_loop (c\<lparr>revokedTasks := js_add parent (revokedTasks c)\<rparr>) [parent] []"

definition handleChildFailure ::
  "coordinator \<Rightarrow> string \<Rightarrow> string \<Rightarrow> coordinator \<times> (string \<times> json) list option" where
  "handleChildFailure c child error =
     (case js_get (childToSession c) child of
        None \<Rightarrow> (c, None)
      | Some i \<Rightarrow>
         (if i = [] then (c, None)
          else case js_get (sessions c) i of
            None \<Rightarrow> (c, None)
          | Some s \<Rightarrow>
              (c\<lparr>sessions := js_set i (s\<lparr>ds_status := FAILED, ds_rejectionReason := Some error\<rparr>) (sessions c)\<rparr>,
               ds_compensationPayload s)))"

section \<open>The composite receipt\<close>

datatype composite_outcome = COMPOSITE_SUCCESS | COMPOSITE_FAILED | COMPOSITE_CANCELLED | PARTIAL_COMPENSATION

fun composite_status_str :: "composite_outcome \<Rightarrow> string" where
  "composite_status_str COMPOSITE_SUCCESS = ''SUCCESS''"
| "composite_status_str COMPOSITE_FAILED = ''FAILED''"
| "composite_status_str COMPOSITE_CANCELLED = ''CANCELLED''"
| "composite_status_str PARTIAL_COMPENSATION = ''PARTIAL_COMPENSATION''"

record composite_params =
  cp_parentTaskId :: string
  cp_parentLeaseId :: string
  cp_tenantId :: string
  cp_workspaceId :: string
  cp_coordinatorAgentId :: string
  cp_output :: "(string \<times> json) list option"
  cp_errorMessage :: "string option"

record composite_receipt =
  cr_receiptId :: string
  cr_parentTaskId :: string
  cr_parentLeaseId :: string
  cr_tenantId :: string
  cr_workspaceId :: string
  cr_coordinatorAgentId :: string
  cr_status :: composite_outcome
  cr_childReceipts :: "execution_receipt list"
  evidenceTreeHash :: string
  cr_output :: "(string \<times> json) list option"
  cr_errorMessage :: "string option"
  cr_completedAt :: string
  cr_signature :: string

text \<open>\<open>ExecutionReceiptSchema\<close> on a receipt that has its fields already.\<close>

definition receipt_well_formed :: "platform \<Rightarrow> execution_receipt \<Rightarrow> bool" where
  "receipt_well_formed P r \<longleftrightarrow>
     uuid_ok P (receiptId r) \<and> uuid_ok P (receipt_taskId r) \<and> uuid_ok P (leaseId r) \<and> uuid_ok P (receipt_agentId r)
     \<and> uuid_ok P (receipt_tenantId r) \<and> is_sha256_hex (evidenceChecksum r) \<and> datetime_ok P (completedAt r)
     \<and> receipt_signature r \<noteq> []"

definition CompositeExecutionReceiptSchema :: "platform \<Rightarrow> composite_receipt \<Rightarrow> bool" where
  "CompositeExecutionReceiptSchema P r \<longleftrightarrow>
     uuid_ok P (cr_receiptId r) \<and> uuid_ok P (cr_parentTaskId r) \<and> uuid_ok P (cr_parentLeaseId r)
     \<and> uuid_ok P (cr_tenantId r) \<and> uuid_ok P (cr_workspaceId r) \<and> sized 128 (cr_coordinatorAgentId r)
     \<and> list_all (receipt_well_formed P) (cr_childReceipts r) \<and> is_sha256_hex (evidenceTreeHash r)
     \<and> datetime_ok P (cr_completedAt r) \<and> cr_signature r \<noteq> []"

text \<open>The loop over the children: their receipts, whether one failed, whether a failed one can be compensated.\<close>

fun collect_receipts ::
  "coordinator \<Rightarrow> string list \<Rightarrow> execution_receipt list \<times> bool \<times> bool \<Rightarrow> execution_receipt list \<times> bool \<times> bool" where
  "collect_receipts c [] acc = acc"
| "collect_receipts c (i # is) (rs, failure, compensation) =
     collect_receipts c is
       (case js_get (sessions c) i of
          None \<Rightarrow> (rs, failure, compensation)
        | Some s \<Rightarrow>
           (case ds_childReceipt s of
              Some r \<Rightarrow>
                if status r \<noteq> SUCCESS
                then (rs @ [r], True, compensation \<or> ds_compensationPayload s \<noteq> None)
                else (rs @ [r], failure, compensation)
            | None \<Rightarrow>
                if ds_status s = FAILED \<or> ds_status s = TIMED_OUT
                then (rs, True, compensation \<or> ds_compensationPayload s \<noteq> None)
                else (rs, failure, compensation)))"

definition evidenceTreeHashPayload :: "string \<Rightarrow> (string \<times> json) list option \<Rightarrow> string" where
  "evidenceTreeHashPayload checksums out =
     checksums @ ''#'' @ (case out of None \<Rightarrow> [] | Some kvs \<Rightarrow> stringify (JObj kvs))"

definition receipt_checksums :: "execution_receipt list \<Rightarrow> string" where
  "receipt_checksums rs =
     join ''|'' (sort (map (\<lambda>r. receipt_taskId r @ '':'' @ status_str (status r) @ '':'' @ evidenceChecksum r) rs))"

definition composite_status :: "coordinator \<Rightarrow> string \<Rightarrow> bool \<Rightarrow> bool \<Rightarrow> composite_outcome" where
  "composite_status c parent failure compensation =
     (if parent \<in> set (revokedTasks c) then COMPOSITE_CANCELLED
      else if failure then (if compensation then PARTIAL_COMPENSATION else COMPOSITE_FAILED)
      else COMPOSITE_SUCCESS)"

text \<open>\<open>None\<close> when the result does not satisfy its schema, where the code throws.\<close>

definition generateCompositeReceipt ::
  "platform \<Rightarrow> lease_issuer \<Rightarrow> coordinator \<Rightarrow> composite_params \<Rightarrow> int \<Rightarrow> string \<Rightarrow> composite_receipt option" where
  "generateCompositeReceipt P issuer c params now uuid =
     (let (rs, failure, compensation) =
            collect_receipts c (child_delegations c (cp_parentTaskId params)) ([], False, False);
          tree = sha256 P (cp_parentTaskId params @ '':'' @ evidenceTreeHashPayload (receipt_checksums rs) (cp_output params));
          st = composite_status c (cp_parentTaskId params) failure compensation;
          completed = toISOString now;
          sig = hmac_sha256 P (secretKey issuer)
            (join '':'' [uuid, cp_parentTaskId params, cp_parentLeaseId params, cp_tenantId params,
               composite_status_str st, tree, completed]);
          r = \<lparr>cr_receiptId = uuid, cr_parentTaskId = cp_parentTaskId params, cr_parentLeaseId = cp_parentLeaseId params,
               cr_tenantId = cp_tenantId params, cr_workspaceId = cp_workspaceId params,
               cr_coordinatorAgentId = cp_coordinatorAgentId params, cr_status = st, cr_childReceipts = rs,
               evidenceTreeHash = tree, cr_output = cp_output params, cr_errorMessage = cp_errorMessage params,
               cr_completedAt = completed, cr_signature = sig\<rparr>
      in if CompositeExecutionReceiptSchema P r then Some r else None)"

section \<open>Reading\<close>

definition getSession :: "coordinator \<Rightarrow> string \<Rightarrow> delegation_session option" where
  "getSession c i = js_get (sessions c) i"

definition getSessionByChildTask :: "coordinator \<Rightarrow> string \<Rightarrow> delegation_session option" where
  "getSessionByChildTask c child =
     (case js_get (childToSession c) child of
        None \<Rightarrow> None
      | Some i \<Rightarrow> if i = [] then None else getSession c i)"

text \<open>\<open>recordProgress\<close> changes nothing; it tells whether there is a session to report on.\<close>

definition recordProgress :: "coordinator \<Rightarrow> string \<Rightarrow> bool" where
  "recordProgress c child \<longleftrightarrow> getSessionByChildTask c child \<noteq> None"

record delegation_summary =
  su_delegationId :: string
  su_parentTaskId :: string
  su_parentLeaseId :: string
  su_childTaskId :: string
  su_childLeaseId :: string
  su_delegatorAgentId :: string
  su_assignedAgentId :: string
  su_tenantId :: string
  su_workspaceId :: string
  su_depth :: int
  su_status :: delegation_status
  su_requestedScopes :: "string list"
  su_expiresAt :: "int option"
  su_correlationId :: string
  su_rejectionReason :: "string option"
  su_hasCompensation :: bool
  su_hasChildReceipt :: bool

definition session_summary :: "delegation_session \<Rightarrow> delegation_summary" where
  "session_summary s =
     \<lparr>su_delegationId = ds_delegationId s, su_parentTaskId = ds_parentTaskId s, su_parentLeaseId = ds_parentLeaseId s,
      su_childTaskId = ds_childTaskId s, su_childLeaseId = lease_id (ds_childLease s),
      su_delegatorAgentId = ds_delegatorAgentId s, su_assignedAgentId = ds_assignedAgentId s,
      su_tenantId = ds_tenantId s, su_workspaceId = ds_workspaceId s, su_depth = ds_depth s, su_status = ds_status s,
      su_requestedScopes = ds_requestedScopes s, su_expiresAt = ds_expiresAt s, su_correlationId = ds_correlationId s,
      su_rejectionReason = ds_rejectionReason s, su_hasCompensation = (ds_compensationPayload s \<noteq> None),
      su_hasChildReceipt = (ds_childReceipt s \<noteq> None)\<rparr>"

record list_options =
  lo_parentTaskId :: "string option"
  lo_workspaceId :: "string option"
  lo_status :: "delegation_status option"
  lo_limit :: "int option"

definition session_listed :: "string \<Rightarrow> list_options \<Rightarrow> delegation_session \<Rightarrow> bool" where
  "session_listed tenant opts s \<longleftrightarrow>
     ds_tenantId s = tenant
     \<and> \<not> (truthy (lo_workspaceId opts) \<and> Some (ds_workspaceId s) \<noteq> lo_workspaceId opts)
     \<and> \<not> (truthy (lo_parentTaskId opts) \<and> Some (ds_parentTaskId s) \<noteq> lo_parentTaskId opts)
     \<and> (case lo_status opts of None \<Rightarrow> True | Some x \<Rightarrow> ds_status s = x)"

text \<open>The loop pushes a summary before it compares the number of results with the limit.\<close>

fun list_loop :: "int \<Rightarrow> (delegation_session \<Rightarrow> bool) \<Rightarrow> delegation_summary list \<Rightarrow> delegation_session list
    \<Rightarrow> delegation_summary list" where
  "list_loop limit p acc [] = acc"
| "list_loop limit p acc (s # ss) =
     (if \<not> p s then list_loop limit p acc ss
      else let acc' = acc @ [session_summary s] in
        if int (length acc') \<ge> limit then acc' else list_loop limit p acc' ss)"

definition listSessions :: "coordinator \<Rightarrow> string \<Rightarrow> list_options \<Rightarrow> delegation_summary list" where
  "listSessions c tenant opts =
     list_loop (min (nullish (lo_limit opts) 50) 100) (session_listed tenant opts) [] (js_values (sessions c))"

definition coordinator_clear :: "coordinator \<Rightarrow> coordinator" where
  "coordinator_clear c =
     c\<lparr>sessions := [], parentToChildren := [], childToSession := [], idempotencyCache := [], revokedTasks := []\<rparr>"

section \<open>Cascading cancellation\<close>

text \<open>
  The specification of the worklist: a delegation is reached from a task when it is an unfinished child
  of it, or an unfinished child of the task of a delegation that is reached.
\<close>

inductive cascade :: "coordinator \<Rightarrow> string \<Rightarrow> string \<Rightarrow> bool" for c p where
  cascade_root: "\<lbrakk>i \<in> set (child_delegations c p); js_get (sessions c) i = Some s; unfinished s\<rbrakk> \<Longrightarrow> cascade c p i"
| cascade_step: "\<lbrakk>cascade c p i; js_get (sessions c) i = Some s; j \<in> set (child_delegations c (ds_childTaskId s));
    js_get (sessions c) j = Some s'; unfinished s'\<rbrakk> \<Longrightarrow> cascade c p j"

definition tasks_of :: "coordinator \<Rightarrow> string set \<Rightarrow> string set" where
  "tasks_of c C = {ds_childTaskId s | i s. i \<in> C \<and> js_get (sessions c) i = Some s}"

definition cancelled_on :: "coordinator \<Rightarrow> string set \<Rightarrow> coordinator \<Rightarrow> bool" where
  "cancelled_on A C c \<longleftrightarrow>
     (\<forall>i. js_get (sessions c) i =
        (if i \<in> C then map_option (\<lambda>s. s\<lparr>ds_status := CANCELLED\<rparr>) (js_get (sessions A) i) else js_get (sessions A) i))
     \<and> parentToChildren c = parentToChildren A \<and> childToSession c = childToSession A
     \<and> idempotencyCache c = idempotencyCache A \<and> maxDepth c = maxDepth A \<and> maxFanOut c = maxFanOut A"

text \<open>The invariant of the worklist while the children \<open>pend\<close> of \<open>p0\<close> are still to be looked at:
  the sessions in \<open>C\<close> are cancelled, all of them are reached, and what is not yet in \<open>C\<close> can only
  be missing below a queued task or among \<open>pend\<close>.\<close>

definition closed_below :: "coordinator \<Rightarrow> string \<Rightarrow> string \<Rightarrow> string list \<Rightarrow> string list \<Rightarrow> string set \<Rightarrow> bool" where
  "closed_below A p p0 pend queue C \<longleftrightarrow>
     (\<forall>t \<in> insert p (tasks_of A C) - set queue.
        \<forall>j \<in> set (child_delegations A t). \<forall>s. js_get (sessions A) j = Some s \<longrightarrow> unfinished s \<longrightarrow>
           j \<in> C \<or> (t = p0 \<and> j \<in> set pend))"

definition work_inv ::
  "coordinator \<Rightarrow> string \<Rightarrow> string \<Rightarrow> string list \<Rightarrow> coordinator \<Rightarrow> string list \<Rightarrow> string list \<Rightarrow> string set \<Rightarrow> bool" where
  "work_inv A p p0 pend c queue out C \<longleftrightarrow>
     cancelled_on A C c \<and> (\<forall>i \<in> C. cascade A p i)
     \<and> set (revokedTasks c) = insert p (set (revokedTasks A) \<union> tasks_of A C) \<and> set out = tasks_of A C
     \<and> set queue \<subseteq> insert p (tasks_of A C)
     \<and> closed_below A p p0 pend queue C"

lemma tasks_of_insert: "js_get (sessions A) i = Some s \<Longrightarrow> tasks_of A (insert i C) = insert (ds_childTaskId s) (tasks_of A C)"
  by (auto simp: tasks_of_def)

lemma cancelled_on_insert:
  assumes "cancelled_on A C c" "js_get (sessions c) i = Some s" "unfinished s"
  shows "cancelled_on A (insert i C) (cancel_session i s c)" "i \<notin> C" "js_get (sessions A) i = Some s"
proof -
  have "js_get (sessions c) i =
      (if i \<in> C then map_option (\<lambda>s. s\<lparr>ds_status := CANCELLED\<rparr>) (js_get (sessions A) i) else js_get (sessions A) i)"
    using assms(1) by (simp add: cancelled_on_def)
  then have "(if i \<in> C then map_option (\<lambda>s. s\<lparr>ds_status := CANCELLED\<rparr>) (js_get (sessions A) i) else js_get (sessions A) i) = Some s"
    using assms(2) by simp
  then show i: "i \<notin> C" "js_get (sessions A) i = Some s" using assms(3) by (auto simp: unfinished_def split: if_splits)
  show "cancelled_on A (insert i C) (cancel_session i s c)"
    using assms(1) i by (simp add: cancelled_on_def cancel_session_def js_map_simps)
qed

lemma closed_below_insert:
  assumes "closed_below A p p0 (i # is) queue C" "js_get (sessions A) i = Some s"
  shows "closed_below A p p0 is (queue @ [ds_childTaskId s]) (insert i C)"
  unfolding closed_below_def
proof (intro ballI allI impI)
  fix t j s'
  assume t: "t \<in> insert p (tasks_of A (insert i C)) - set (queue @ [ds_childTaskId s])"
    and j: "j \<in> set (child_delegations A t)" "js_get (sessions A) j = Some s'" "unfinished s'"
  from t have "t \<in> insert p (tasks_of A C) - set queue" unfolding tasks_of_insert [OF assms(2)] by auto
  with assms(1) j have "j \<in> C \<or> (t = p0 \<and> j \<in> set (i # is))" unfolding closed_below_def by blast
  then show "j \<in> insert i C \<or> (t = p0 \<and> j \<in> set is)" by auto
qed

lemma closed_below_skip:
  assumes "closed_below A p p0 (i # is) queue C" "\<And>s. js_get (sessions A) i = Some s \<Longrightarrow> \<not> unfinished s \<or> i \<in> C"
  shows "closed_below A p p0 is queue C"
  using assms unfolding closed_below_def by (metis set_ConsD)

lemma closed_below_pop:
  assumes "closed_below A p p0 [] (q # queue) C"
  shows "closed_below A p q (child_delegations A q) queue C"
  unfolding closed_below_def
proof (intro ballI allI impI)
  fix t j s
  assume t: "t \<in> insert p (tasks_of A C) - set queue" and j: "j \<in> set (child_delegations A t)"
    and s: "js_get (sessions A) j = Some s" "unfinished s"
  show "j \<in> C \<or> (t = q \<and> j \<in> set (child_delegations A q))"
  proof (cases "t = q")
    case True
    then show ?thesis using j by simp
  next
    case False
    then have "t \<in> insert p (tasks_of A C) - set (q # queue)" using t by simp
    then show ?thesis using assms j s unfolding closed_below_def by fastforce
  qed
qed

lemma reached_child:
  assumes "\<forall>i \<in> C. cascade A p i" "p0 \<in> insert p (tasks_of A C)" "i \<in> set (child_delegations A p0)"
    and "js_get (sessions A) i = Some s" "unfinished s"
  shows "cascade A p i"
  using assms by (auto simp: tasks_of_def intro: cascade.intros)

lemma cancel_children_inv:
  assumes "work_inv A p p0 is c queue out C" "p0 \<in> insert p (tasks_of A C)" "set is \<subseteq> set (child_delegations A p0)"
    and "cancel_children is (c, queue, out) = (c', queue', out')"
  shows "\<exists>C'. work_inv A p p0 [] c' queue' out' C'"
  using assms
proof (induction "is" arbitrary: c queue out C)
  case Nil
  then show ?case by auto
next
  case (Cons i "is")
  show ?case
  proof (cases "\<exists>s. js_get (sessions c) i = Some s \<and> unfinished s")
    case True
    then obtain s where s: "js_get (sessions c) i = Some s" "unfinished s" by blast
    have can: "cancelled_on A C c" using Cons.prems(1) by (simp add: work_inv_def)
    note ins = cancelled_on_insert [OF can s]
    have "cascade A p i"
      using Cons.prems ins(3) s(2) by (intro reached_child [of C A p p0 i s]) (simp_all add: work_inv_def)
    moreover have "closed_below A p p0 is (queue @ [ds_childTaskId s]) (insert i C)"
      using Cons.prems(1) unfolding work_inv_def by (intro closed_below_insert [OF _ ins(3)]) blast
    ultimately have "work_inv A p p0 is (cancel_session i s c) (queue @ [ds_childTaskId s]) (out @ [ds_childTaskId s]) (insert i C)"
      using Cons.prems(1) ins unfolding work_inv_def tasks_of_insert [OF ins(3)]
      by (auto simp: cancel_session_def)
    then show ?thesis
      using Cons.prems(2-4) s ins(3)
      by (intro Cons.IH [of "cancel_session i s c" "queue @ [ds_childTaskId s]" "out @ [ds_childTaskId s]" "insert i C"])
        (auto simp: tasks_of_insert)
  next
    case False
    then have skip: "cancel_children (i # is) (c, queue, out) = cancel_children is (c, queue, out)"
      by (auto split: option.split)
    have "js_get (sessions c) i =
        (if i \<in> C then map_option (\<lambda>s. s\<lparr>ds_status := CANCELLED\<rparr>) (js_get (sessions A) i) else js_get (sessions A) i)"
      using Cons.prems(1) by (simp add: work_inv_def cancelled_on_def)
    then have "\<not> unfinished s \<or> i \<in> C" if "js_get (sessions A) i = Some s" for s
      using False that by (cases "i \<in> C") auto
    then have "work_inv A p p0 is c queue out C"
      using Cons.prems(1) closed_below_skip [of A p p0 i "is" queue C] unfolding work_inv_def by blast
    then show ?thesis using Cons.IH Cons.prems(2-4) skip by simp
  qed
qed

lemma cancel_loop_inv:
  assumes "work_inv A p p0 [] c queue out C" "cancel_loop c queue out = (c', out')"
  shows "\<exists>C' q0. work_inv A p q0 [] c' [] out' C'"
  using assms
proof (induction c queue out arbitrary: p0 C rule: cancel_loop.induct)
  case (1 c out)
  then show ?case by auto
next
  case (2 c q queue out)
  obtain c1 queue1 out1 where step: "cancel_children (child_delegations c q) (c, queue, out) = (c1, queue1, out1)"
    by (metis surj_pair)
  have same: "child_delegations c q = child_delegations A q"
    using "2.prems"(1) by (simp add: work_inv_def cancelled_on_def child_delegations_def)
  have "work_inv A p q (child_delegations A q) c queue out C" 
    using "2.prems"(1) closed_below_pop [of A p p0 q queue C] by (simp add: work_inv_def)
  moreover have "q \<in> insert p (tasks_of A C)" using "2.prems"(1) by (auto simp: work_inv_def)
  ultimately obtain C1 where "work_inv A p q [] c1 queue1 out1 C1"
    using cancel_children_inv step same by (metis subset_refl)
  then show ?case using "2.IH" [OF step [symmetric] refl] "2.prems"(2) step by simp
qed

lemma work_inv_closed:
  assumes "work_inv A p q0 [] c [] out C"
  shows "C = {i. cascade A p i}"
proof (intro equalityI subsetI CollectI)
  show "cascade A p i" if "i \<in> C" for i using that assms by (simp add: work_inv_def)
next
  fix i
  assume "i \<in> {i. cascade A p i}"
  then have "cascade A p i" by simp
  then show "i \<in> C"
  proof (induction rule: cascade.induct)
    case (cascade_root i s)
    then show ?case using assms by (auto simp: work_inv_def closed_below_def)
  next
    case (cascade_step i s j s')
    then have "ds_childTaskId s \<in> tasks_of A C" by (auto simp: tasks_of_def)
    then show ?case using cascade_step.hyps assms by (auto simp: work_inv_def closed_below_def)
  qed
qed

lemma cancelDelegation_effect:
  assumes "cancelDelegation c p = (c', out)"
  shows "cancelled_on c {i. cascade c p i} c'"
    and "set (revokedTasks c') = insert p (set (revokedTasks c) \<union> tasks_of c {i. cascade c p i})"
    and "set out = tasks_of c {i. cascade c p i}"
proof -
  have "work_inv c p p [] (c\<lparr>revokedTasks := js_add p (revokedTasks c)\<rparr>) [p] [] {}"
    by (auto simp: work_inv_def closed_below_def cancelled_on_def tasks_of_def)
  then obtain C q0 where w: "work_inv c p q0 [] c' [] out C"
    using cancel_loop_inv assms unfolding cancelDelegation_def by metis
  have C: "C = {i. cascade c p i}" using w by (rule work_inv_closed)
  show "cancelled_on c {i. cascade c p i} c'"
    and "set (revokedTasks c') = insert p (set (revokedTasks c) \<union> tasks_of c {i. cascade c p i})"
    and "set out = tasks_of c {i. cascade c p i}"
    using w unfolding C by (simp_all add: work_inv_def)
qed

section \<open>Runs of the coordinator\<close>

datatype delegation_op =
    Delegate directory delegation_request parent_lease "nat \<Rightarrow> int" "nat \<Rightarrow> string"
  | SettleChild execution_receipt int
  | CancelTree string
  | ChildFailed string string
  | ClearSessions

fun delegation_step :: "platform \<Rightarrow> lease_issuer \<Rightarrow> coordinator \<Rightarrow> delegation_op \<Rightarrow> coordinator" where
  "delegation_step P issuer c (Delegate dir r parent now uuid) = fst (delegateSubTask P issuer dir c r parent now uuid)"
| "delegation_step P issuer c (SettleChild r now) = fst (settleChildReceipt c r now)"
| "delegation_step P issuer c (CancelTree p) = fst (cancelDelegation c p)"
| "delegation_step P issuer c (ChildFailed child error) = fst (handleChildFailure c child error)"
| "delegation_step P issuer c ClearSessions = coordinator_clear c"

text \<open>What an accepted delegation has been checked for.\<close>

lemma delegate_guard_NoneD:
  assumes "delegate_guard P issuer dir c r parent now = None"
  shows "parent_signature_ok P (secretKey issuer) parent" "task_id (base_lease parent) = rq_parentTaskId r"
    and "rq_tenantId r = tenant_id (base_lease parent)" "rq_delegationDepth r \<le> maxDepth c"
    and "case parent of DelegatedLease l \<Rightarrow> rq_delegationDepth r = delegation_depth l + 1 | ExecutionLease _ \<Rightarrow> rq_delegationDepth r = 1"
    and "getActiveChildCount c (rq_parentTaskId r) < maxFanOut c"
    and "valid (verifyScopeAttenuation (scopes (base_lease parent)) (rq_requestedScopes r))"
    and "\<exists>a. getAgent dir (rq_tenantId r) (rq_targetAgentId r) = Some a
           \<and> (''*'' \<in> set (workspaceScope a) \<or> rq_workspaceId r \<in> set (workspaceScope a))"
  using assms unfolding delegate_guard_def Let_def by (auto split: if_splits option.splits parent_lease.splits)

lemma delegateSubTask_cases:
  obtains (unchanged) "fst (delegateSubTask P issuer dir c r parent now uuid) = c"
  | (accepted) lease where "fst (delegateSubTask P issuer dir c r parent now uuid) = record_session c r (new_session r parent (uuid 0) lease)"
      "SubAgentDelegationRequestSchema P r" "rq_parentTaskId r \<notin> set (revokedTasks c)"
      "delegate_guard P issuer dir c r parent (now 0) = None"
      "issueDelegatedLease P issuer (lease_params r parent (uuid 0)) (now 1) (uuid 1) (uuid 2) = Inr lease"
  unfolding delegateSubTask_def Let_def by (fastforce split: if_splits option.splits sum.splits)

definition session_authorised :: "platform \<Rightarrow> lease_issuer \<Rightarrow> int \<Rightarrow> delegation_session \<Rightarrow> bool" where
  "session_authorised P issuer depth s \<longleftrightarrow>
     (let l = ds_childLease s in
      verifyDelegatedLease P issuer l
      \<and> task_id l = ds_childTaskId s \<and> agent_id l = ds_assignedAgentId s \<and> tenant_id l = ds_tenantId s
      \<and> workspace_id l = ds_workspaceId s \<and> scopes l = ds_requestedScopes s \<and> delegation_depth l = ds_depth s
      \<and> 1 \<le> ds_depth s \<and> ds_depth s \<le> min 3 depth
      \<and> (\<exists>parent. parent_signature_ok P (secretKey issuer) parent
           \<and> lease_id (base_lease parent) = ds_parentLeaseId s \<and> task_id (base_lease parent) = ds_parentTaskId s
           \<and> tenant_id (base_lease parent) = ds_tenantId s
           \<and> scope_set (ds_requestedScopes s) \<subseteq> scope_set (scopes (base_lease parent))
           \<and> int (lease_depth parent) + 1 = ds_depth s))"

lemma new_session_authorised:
  assumes "SubAgentDelegationRequestSchema P r" "delegate_guard P issuer dir c r parent now = None"
    and "issueDelegatedLease P issuer (lease_params r parent child) now' u1 u2 = Inr lease"
  shows "session_authorised P issuer (maxDepth c) (new_session r parent child lease)"
proof -
  note D = issueDelegatedLease_InrD [OF assms(3)] and G = delegate_guard_NoneD [OF assms(2)]
  have depth: "1 \<le> rq_delegationDepth r" "rq_delegationDepth r \<le> 3"
    using assms(1) by (simp_all add: SubAgentDelegationRequestSchema_def MAX_DEPTH_def)
  have "int (lease_depth parent) + 1 = rq_delegationDepth r"
    using G(5) depth by (cases parent) auto
  moreover have "scope_set (rq_requestedScopes r) \<subseteq> scope_set (scopes (base_lease parent))"
    using G(7) by (auto simp: attenuation_valid_iff)
  ultimately show ?thesis
    unfolding session_authorised_def Let_def new_session_def
    using D(2,4-8,12) G(1-4) depth by (auto simp: lease_params_def)
qed

text \<open>Settling, cancelling and failing change the status, the receipt and the reason of a session only.\<close>

definition session_core :: "delegation_session \<Rightarrow> delegation_session" where
  "session_core s = s\<lparr>ds_status := ACCEPTED, ds_childReceipt := None, ds_rejectionReason := None\<rparr>"

lemma session_authorised_core: "session_authorised P issuer d (session_core s) = session_authorised P issuer d s"
  by (simp add: session_authorised_def session_core_def)

lemma map_option_core_cancel:
  "map_option session_core (if b then map_option (\<lambda>s. s\<lparr>ds_status := CANCELLED\<rparr>) x else x) = map_option session_core x"
  by (cases x) (simp_all add: session_core_def)

lemma core_kept:
  "map_option session_core (js_get (sessions (fst (settleChildReceipt c r now))) i) = map_option session_core (js_get (sessions c) i)"
  "map_option session_core (js_get (sessions (fst (handleChildFailure c child err))) i) = map_option session_core (js_get (sessions c) i)"
  "map_option session_core (js_get (sessions (fst (cancelDelegation c p))) i) = map_option session_core (js_get (sessions c) i)"
proof -
  show "map_option session_core (js_get (sessions (fst (settleChildReceipt c r now))) i) = map_option session_core (js_get (sessions c) i)"
    by (auto simp: settleChildReceipt_def js_map_simps session_core_def split: option.splits)
  show "map_option session_core (js_get (sessions (fst (handleChildFailure c child err))) i) = map_option session_core (js_get (sessions c) i)"
    by (auto simp: handleChildFailure_def js_map_simps session_core_def split: option.splits)
  obtain c' out where "cancelDelegation c p = (c', out)" by (metis surj_pair)
  then show "map_option session_core (js_get (sessions (fst (cancelDelegation c p))) i) = map_option session_core (js_get (sessions c) i)"
    using cancelDelegation_effect(1) by (simp add: cancelled_on_def map_option_core_cancel)
qed

lemma limits_kept:
  "maxDepth (delegation_step P issuer c op) = maxDepth c" "maxFanOut (delegation_step P issuer c op) = maxFanOut c"
proof -
  have "maxDepth (delegation_step P issuer c op) = maxDepth c \<and> maxFanOut (delegation_step P issuer c op) = maxFanOut c"
  proof (cases op)
    case (Delegate dir r parent now uuid)
    show ?thesis
      by (cases rule: delegateSubTask_cases [of P issuer dir c r parent now uuid]) (simp_all add: Delegate record_session_def)
  next
    case (CancelTree p)
    obtain c' out where "cancelDelegation c p = (c', out)" by (metis surj_pair)
    then show ?thesis using cancelDelegation_effect(1) CancelTree by (simp add: cancelled_on_def)
  qed (auto simp: settleChildReceipt_def handleChildFailure_def coordinator_clear_def split: option.splits)
  then show "maxDepth (delegation_step P issuer c op) = maxDepth c" "maxFanOut (delegation_step P issuer c op) = maxFanOut c"
    by auto
qed

definition sessions_inv :: "platform \<Rightarrow> lease_issuer \<Rightarrow> int \<Rightarrow> coordinator \<Rightarrow> bool" where
  "sessions_inv P issuer d c \<longleftrightarrow> maxDepth c = d \<and>
     (\<forall>i s. js_get (sessions c) i = Some s \<longrightarrow> ds_delegationId s = i \<and> session_authorised P issuer d s)"

lemma sessions_inv_core:
  assumes "sessions_inv P issuer d c" "maxDepth c' = maxDepth c"
    and "\<And>i. map_option session_core (js_get (sessions c') i) = map_option session_core (js_get (sessions c) i)"
  shows "sessions_inv P issuer d c'"
  unfolding sessions_inv_def
proof (intro conjI allI impI)
  show "maxDepth c' = d" using assms(1,2) by (simp add: sessions_inv_def)
next
  fix i s
  assume "js_get (sessions c') i = Some s"
  with assms(3) [of i] obtain s0 where s0: "js_get (sessions c) i = Some s0" "session_core s = session_core s0"
    by (cases "js_get (sessions c) i") auto
  then have "session_authorised P issuer d s0" "ds_delegationId s0 = i" using assms(1) by (simp_all add: sessions_inv_def)
  then show "session_authorised P issuer d s"
    using s0(2) session_authorised_core by metis
  have "ds_delegationId (session_core s) = ds_delegationId s" for s by (simp add: session_core_def)
  then show "ds_delegationId s = i" using s0(2) \<open>ds_delegationId s0 = i\<close> by metis
qed

lemma sessions_inv_step:
  assumes inv: "sessions_inv P issuer d c"
  shows "sessions_inv P issuer d (delegation_step P issuer c op)"
proof (cases op)
  case (Delegate dir r parent now uuid)
  show ?thesis
  proof (cases rule: delegateSubTask_cases [of P issuer dir c r parent now uuid])
    case unchanged
    then show ?thesis using inv by (simp add: Delegate)
  next
    case (accepted lease)
    have "session_authorised P issuer d (new_session r parent (uuid 0) lease)"
      using new_session_authorised [OF accepted(2,4,5)] inv by (simp add: sessions_inv_def)
    moreover have "ds_delegationId (new_session r parent (uuid 0) lease) = rq_delegationId r" by (simp add: new_session_def)
    ultimately show ?thesis
      using inv accepted(1) by (auto simp: Delegate sessions_inv_def record_session_def js_map_simps split: if_splits)
  qed
next
  case ClearSessions
  then show ?thesis using inv by (simp add: sessions_inv_def coordinator_clear_def js_map_simps)
qed (rule sessions_inv_core [OF inv limits_kept(1)], simp add: core_kept)+

interpretation delegation_sessions: op_invariant "delegation_step P issuer" "sessions_inv P issuer d" for P issuer d
  by unfold_locales (rule sessions_inv_step)

section \<open>Fan-out\<close>

text \<open>The delegation identifier of a request is chosen by its sender; here it is one not in use.\<close>

fun fresh_op :: "coordinator \<Rightarrow> delegation_op \<Rightarrow> bool" where
  "fresh_op c (Delegate dir r parent now uuid) \<longleftrightarrow> \<not> js_has (sessions c) (rq_delegationId r)"
| "fresh_op c _ \<longleftrightarrow> True"

fun fresh_ids :: "platform \<Rightarrow> lease_issuer \<Rightarrow> coordinator \<Rightarrow> delegation_op list \<Rightarrow> bool" where
  "fresh_ids P issuer c [] \<longleftrightarrow> True"
| "fresh_ids P issuer c (op # ops) \<longleftrightarrow> fresh_op c op \<and> fresh_ids P issuer (delegation_step P issuer c op) ops"

definition fan_out_inv :: "coordinator \<Rightarrow> bool" where
  "fan_out_inv c \<longleftrightarrow>
     (\<forall>p. getActiveChildCount c p \<le> maxFanOut c \<and> (\<forall>i \<in> set (child_delegations c p). js_has (sessions c) i))"

lemma fan_out_finish:
  assumes "fan_out_inv c" "parentToChildren c' = parentToChildren c" "maxFanOut c' = maxFanOut c"
    and "\<And>i. active_session c' i \<Longrightarrow> active_session c i" "\<And>i. js_has (sessions c) i \<Longrightarrow> js_has (sessions c') i"
  shows "fan_out_inv c'"
proof -
  have kids: "child_delegations c' p = child_delegations c p" for p using assms(2) by (simp add: child_delegations_def)
  have "getActiveChildCount c' p \<le> getActiveChildCount c p" for p
    unfolding getActiveChildCount_def kids by (rule filter_length_mono) (rule assms(4))
  then show ?thesis using assms(1,3,5) by (fastforce simp: fan_out_inv_def kids intro: le_trans)
qed

lemma fan_out_delegate:
  assumes inv: "fan_out_inv c" and fresh: "\<not> js_has (sessions c) (rq_delegationId r)"
    and room: "getActiveChildCount c (rq_parentTaskId r) < maxFanOut c" and id: "ds_delegationId s = rq_delegationId r"
  shows "fan_out_inv (record_session c r s)"
proof -
  let ?c = "record_session c r s" and ?i = "rq_delegationId r"
  have new: "?i \<notin> set (child_delegations c p)" for p using inv fresh by (auto simp: fan_out_inv_def)
  have kids: "child_delegations ?c p = (if p = rq_parentTaskId r then child_delegations c p @ [?i] else child_delegations c p)" for p
    using new [of p] id
    by (cases "p = rq_parentTaskId r") (simp_all add: child_delegations_def record_session_def js_map_simps js_add_def nullish_def)
  have act: "active_session ?c j = active_session c j" if "j \<noteq> ?i" for j
    using that id by (simp add: active_session_def record_session_def js_map_simps)
  have "filter (active_session ?c) (child_delegations c p) = filter (active_session c) (child_delegations c p)" for p
    by (rule filter_cong [OF refl]) (metis act new)
  then have le: "getActiveChildCount ?c p \<le> (if p = rq_parentTaskId r then Suc (getActiveChildCount c p) else getActiveChildCount c p)" for p
    by (simp add: getActiveChildCount_def kids)
  have "getActiveChildCount ?c p \<le> maxFanOut ?c" for p
  proof (cases "p = rq_parentTaskId r")
    case True
    then show ?thesis using le [of p] room by (simp add: record_session_def)
  next
    case False
    then have "getActiveChildCount ?c p \<le> getActiveChildCount c p" using le [of p] by simp
    also have "\<dots> \<le> maxFanOut c" using inv by (simp add: fan_out_inv_def)
    finally show ?thesis by (simp add: record_session_def)
  qed
  moreover have "js_has (sessions ?c) j" if "j \<in> set (child_delegations ?c p)" for p j
  proof -
    have "j = ?i \<or> js_has (sessions c) j" using that inv unfolding kids fan_out_inv_def by (auto split: if_splits)
    then show ?thesis using id by (auto simp: record_session_def js_map_simps)
  qed
  ultimately show ?thesis by (simp add: fan_out_inv_def)
qed

lemma active_after:
  "active_session (fst (settleChildReceipt c r now)) i \<Longrightarrow> active_session c i"
  "active_session (fst (handleChildFailure c child err)) i \<Longrightarrow> active_session c i"
  "active_session (fst (cancelDelegation c p)) i \<Longrightarrow> active_session c i"
proof -
  show "active_session (fst (settleChildReceipt c r now)) i \<Longrightarrow> active_session c i"
    by (auto simp: settleChildReceipt_def active_session_def active_status_def js_map_simps split: option.splits if_splits)
  show "active_session (fst (handleChildFailure c child err)) i \<Longrightarrow> active_session c i"
    by (auto simp: handleChildFailure_def active_session_def active_status_def js_map_simps split: option.splits if_splits)
  obtain c' out where "cancelDelegation c p = (c', out)" by (metis surj_pair)
  then have "js_get (sessions (fst (cancelDelegation c p))) i =
      (if cascade c p i then map_option (\<lambda>s. s\<lparr>ds_status := CANCELLED\<rparr>) (js_get (sessions c) i) else js_get (sessions c) i)"
    using cancelDelegation_effect(1) by (auto simp: cancelled_on_def)
  then show "active_session (fst (cancelDelegation c p)) i \<Longrightarrow> active_session c i"
    by (auto simp: active_session_def active_status_def split: option.splits if_splits)
qed

lemma has_of_core:
  assumes "\<And>i. map_option session_core (js_get m' i) = map_option session_core (js_get m i)"
  shows "js_has m i \<Longrightarrow> js_has m' i"
  using assms [of i] by (auto simp: js_has_def)

lemma fan_out_step:
  assumes inv: "fan_out_inv c" and fresh: "fresh_op c op"
  shows "fan_out_inv (delegation_step P issuer c op)"
proof (cases op)
  case (Delegate dir r parent now uuid)
  show ?thesis
  proof (cases rule: delegateSubTask_cases [of P issuer dir c r parent now uuid])
    case unchanged
    then show ?thesis using inv by (simp add: Delegate)
  next
    case (accepted lease)
    have "fan_out_inv (record_session c r (new_session r parent (uuid 0) lease))"
      using inv fresh delegate_guard_NoneD(6) [OF accepted(4)] unfolding Delegate fresh_op.simps
      by (intro fan_out_delegate) (simp_all add: new_session_def)
    then show ?thesis using accepted(1) by (simp add: Delegate)
  qed
next
  case (SettleChild r now)
  show ?thesis unfolding SettleChild delegation_step.simps
    by (rule fan_out_finish [OF inv _ _ active_after(1) has_of_core [OF core_kept(1)]])
      (auto simp: settleChildReceipt_def split: option.splits)
next
  case (ChildFailed child err)
  show ?thesis unfolding ChildFailed delegation_step.simps
    by (rule fan_out_finish [OF inv _ _ active_after(2) has_of_core [OF core_kept(2)]])
      (auto simp: handleChildFailure_def split: option.splits)
next
  case (CancelTree p)
  obtain c' out where "cancelDelegation c p = (c', out)" by (metis surj_pair)
  then have "parentToChildren (fst (cancelDelegation c p)) = parentToChildren c" "maxFanOut (fst (cancelDelegation c p)) = maxFanOut c"
    using cancelDelegation_effect(1) by (simp_all add: cancelled_on_def)
  then show ?thesis unfolding CancelTree delegation_step.simps
    by (rule fan_out_finish [OF inv _ _ active_after(3) has_of_core [OF core_kept(3)]])
next
  case ClearSessions
  then show ?thesis
    by (simp add: fan_out_inv_def coordinator_clear_def getActiveChildCount_def child_delegations_def js_map_simps nullish_def)
qed

lemma fan_out_run:
  "\<lbrakk>fan_out_inv c; fresh_ids P issuer c ops\<rbrakk> \<Longrightarrow> fan_out_inv (foldl (delegation_step P issuer) c ops)"
  by (induction ops arbitrary: c) (auto intro: fan_out_step)

lemma maxFanOut_run: "maxFanOut (foldl (delegation_step P issuer) c ops) = maxFanOut c"
  by (induction ops arbitrary: c) (auto simp: limits_kept)

lemma fan_out_new: "fan_out_inv (DelegationCoordinator d f)"
  by (simp add: fan_out_inv_def DelegationCoordinator_def getActiveChildCount_def child_delegations_def js_map_simps nullish_def)

section \<open>The composite receipt of a parent\<close>

definition child_failed :: "coordinator \<Rightarrow> string \<Rightarrow> bool" where
  "child_failed c i \<longleftrightarrow>
     (case js_get (sessions c) i of
        None \<Rightarrow> False
      | Some s \<Rightarrow> (case ds_childReceipt s of Some r \<Rightarrow> status r \<noteq> SUCCESS
                   | None \<Rightarrow> ds_status s = FAILED \<or> ds_status s = TIMED_OUT))"

definition child_compensable :: "coordinator \<Rightarrow> string \<Rightarrow> bool" where
  "child_compensable c i \<longleftrightarrow> Option.bind (js_get (sessions c) i) ds_compensationPayload \<noteq> None"

definition child_receipts :: "coordinator \<Rightarrow> string list \<Rightarrow> execution_receipt list" where
  "child_receipts c is = List.map_filter (\<lambda>i. Option.bind (js_get (sessions c) i) ds_childReceipt) is"

lemma collect_receipts_eq:
  "collect_receipts c is (rs, f, k) =
     (rs @ child_receipts c is, f \<or> (\<exists>i \<in> set is. child_failed c i),
      k \<or> (\<exists>i \<in> set is. child_failed c i \<and> child_compensable c i))"
proof (induction "is" arbitrary: rs f k)
  case Nil
  then show ?case by (simp add: child_receipts_def List.map_filter_def)
next
  case (Cons i "is")
  show ?case
    by (auto simp: Cons.IH child_receipts_def child_failed_def child_compensable_def List.map_filter_def split: option.splits)
qed

section \<open>Properties\<close>

definition test_agents :: directory where
  "test_agents = fst (registerAgent test_platform test_directory (test_registration ''acme'' ''A2''))"

definition test_request :: "string \<Rightarrow> string \<Rightarrow> delegation_request" where
  "test_request i k = \<lparr>rq_delegationId = i, rq_parentTaskId = ''T1'', rq_parentLeaseId = ''L1'', rq_delegatorAgentId = ''A1'',
     rq_targetAgentId = ''A2'', rq_tenantId = ''acme'', rq_workspaceId = ''W1'', rq_subGoal = ''g'', rq_capabilityId = ''c'',
     rq_requestedScopes = [''fs.read''], rq_delegationDepth = 1, rq_timeoutMs = None, rq_idempotencyKey = k,
     rq_correlationId = ''X'', rq_compensationPayload = None\<rparr>"

definition test_delegate :: "string \<Rightarrow> string \<Rightarrow> string \<Rightarrow> delegation_op" where
  "test_delegate i k u = Delegate test_agents (test_request i k) (ExecutionLease test_lease) (\<lambda>_. 1767225660000)
     (\<lambda>n. u @ nat_str n)"

definition test_coordinator :: coordinator where
  "test_coordinator = foldl (delegation_step test_platform test_issuer) (DelegationCoordinator None (Some 2))
     [test_delegate ''D1'' ''k1'' ''C'']"



text \<open>C13. Cancelling a task cancels exactly the delegations reached from it through unfinished ones, and
  changes no other session; the task and the tasks of those delegations, and no others, are revoked from
  then on, and the latter are what is reported. The traversal ends on every coordinator, also when the
  delegations form a cycle.\<close>
theorem cancelDelegation_exact:
  assumes "cancelDelegation c p = (c', out)"
  shows "getSession c' i = (if cascade c p i then map_option (\<lambda>s. s\<lparr>ds_status := CANCELLED\<rparr>) (getSession c i) else getSession c i)
    \<and> set out = {ds_childTaskId s | j s. cascade c p j \<and> getSession c j = Some s}
    \<and> set (revokedTasks c') = insert p (set (revokedTasks c) \<union> set out)"
  using cancelDelegation_effect [OF assms] by (simp add: cancelled_on_def getSession_def tasks_of_def)

theorem cancelDelegation_exact_witness:
  "snd (cancelDelegation test_coordinator ''T1'') = [''C0''] \<and> ''T1'' \<in> set (revokedTasks (fst (cancelDelegation test_coordinator ''T1'')))"
proof -
  have "snd (cancelDelegation test_coordinator ''T1'') = [''C0'']" by code_simp
  with cancelDelegation_exact [OF surjective_pairing] show ?thesis by blast
qed

text \<open>As long as delegation identifiers are not reused, no task ever has more active delegations than
  the fan-out limit.\<close>
theorem delegation_fan_out:
  assumes "fresh_ids P issuer (DelegationCoordinator d f) ops"
    and "foldl (delegation_step P issuer) (DelegationCoordinator d f) ops = c"
  shows "getActiveChildCount c p \<le> nullish f MAX_FAN_OUT"
  using fan_out_run [OF fan_out_new assms(1)] maxFanOut_run [of P issuer "DelegationCoordinator d f" ops] assms(2)
  by (simp add: fan_out_inv_def DelegationCoordinator_def)

theorem delegation_fan_out_witness:
  "getActiveChildCount test_coordinator ''T1'' = 1 \<and> getActiveChildCount test_coordinator ''T1'' \<le> 2"
proof -
  have "fresh_ids test_platform test_issuer (DelegationCoordinator None (Some 2)) [test_delegate ''D1'' ''k1'' ''C'']" by code_simp
  from delegation_fan_out [OF this test_coordinator_def [symmetric], of "''T1''"]
  have "getActiveChildCount test_coordinator ''T1'' \<le> 2" by (simp add: nullish_def)
  moreover have "getActiveChildCount test_coordinator ''T1'' = 1" by code_simp
  ultimately show ?thesis by simp
qed

text \<open>Reusing a delegation identifier escapes the fan-out limit: when an accepted delegation carries the
  identifier of an active child of the same task, a further lease is issued but the number of active
  children stays the same, and the earlier child's session is replaced by the new one's.\<close>
theorem reused_delegation_uncounted:
  assumes "delegateSubTask P issuer dir c r parent now uuid = (c', Inr resp)" "c' \<noteq> c"
    and "rq_delegationId r \<in> set (child_delegations c (rq_parentTaskId r))" "active_session c (rq_delegationId r)"
  shows "getActiveChildCount c' (rq_parentTaskId r) = getActiveChildCount c (rq_parentTaskId r)
    \<and> map_option ds_childTaskId (getSession c' (rq_delegationId r)) = Some (uuid 0)"
proof (cases rule: delegateSubTask_cases [of P issuer dir c r parent now uuid])
  case unchanged
  then show ?thesis using assms(1,2) by simp
next
  case (accepted lease)
  let ?s = "new_session r parent (uuid 0) lease"
  have c': "c' = record_session c r ?s" using accepted(1) assms(1) by simp
  have id: "ds_delegationId ?s = rq_delegationId r" "ds_status ?s = ACCEPTED" "ds_childTaskId ?s = uuid 0"
    by (simp_all add: new_session_def)
  have "child_delegations c' (rq_parentTaskId r) = child_delegations c (rq_parentTaskId r)"
    using assms(3) id unfolding c' by (simp add: child_delegations_def record_session_def js_map_simps js_add_def nullish_def)
  moreover have "active_session c' = active_session c"
    using assms(4) id unfolding c' by (intro ext) (simp add: active_session_def record_session_def js_map_simps active_status_def)
  ultimately have "getActiveChildCount c' (rq_parentTaskId r) = getActiveChildCount c (rq_parentTaskId r)"
    by (simp add: getActiveChildCount_def)
  moreover have "getSession c' (rq_delegationId r) = Some ?s"
    using id(1) unfolding c' by (simp add: getSession_def record_session_def js_map_simps)
  ultimately show ?thesis using id(3) by simp
qed

theorem reused_delegation_uncounted_witness:
  "getActiveChildCount (delegation_step test_platform test_issuer test_coordinator (test_delegate ''D1'' ''k2'' ''E'')) ''T1''
     = getActiveChildCount test_coordinator ''T1''"
proof -
  let ?d = "delegateSubTask test_platform test_issuer test_agents test_coordinator (test_request ''D1'' ''k2'')
      (ExecutionLease test_lease) (\<lambda>_. 1767225660000) (\<lambda>n. ''E'' @ nat_str n)"
  have "case snd ?d of Inl _ \<Rightarrow> False | Inr _ \<Rightarrow> True" by code_simp
  then obtain resp where "snd ?d = Inr resp" by (cases "snd ?d") simp_all
  then have d: "?d = (fst ?d, Inr resp)" by (simp add: prod_eq_iff)
  have "map fst (idempotencyCache (fst ?d)) \<noteq> map fst (idempotencyCache test_coordinator)" by code_simp
  then have n: "fst ?d \<noteq> test_coordinator" by metis
  have a: "''D1'' \<in> set (child_delegations test_coordinator ''T1'')" "active_session test_coordinator ''D1''" by code_simp+
  show ?thesis using reused_delegation_uncounted [OF d n] a by (simp add: test_delegate_def test_request_def)
qed

text \<open>A child's receipt is accepted exactly when there is a session for its task whose parent is not
  revoked and that is not cancelled, the lease and tenant are the session's, the signature is not blank
  and the session has not expired; then the session records it and is \<open>COMPLETED\<close> for a success and
  \<open>FAILED\<close> otherwise, whatever it was before.\<close>
theorem settleChildReceipt_accepts_iff:
  "(snd (settleChildReceipt c r now) = None \<longleftrightarrow>
      (\<exists>s. getSessionByChildTask c (receipt_taskId r) = Some s
         \<and> ds_parentTaskId s \<notin> set (revokedTasks c) \<and> ds_status s \<noteq> CANCELLED
         \<and> leaseId r = lease_id (ds_childLease s) \<and> receipt_tenantId r = ds_tenantId s \<and> trim (receipt_signature r) \<noteq> []
         \<and> \<not> num_gt (Some now) (ds_expiresAt s)))
   \<and> (snd (settleChildReceipt c r now) = None \<longrightarrow>
      getSessionByChildTask (fst (settleChildReceipt c r now)) (receipt_taskId r) =
        map_option (\<lambda>s. s\<lparr>ds_childReceipt := Some r, ds_status := (if status r = SUCCESS then COMPLETED else FAILED)\<rparr>)
          (getSessionByChildTask c (receipt_taskId r)))"
proof -
  have "trim [] = []" by (simp add: trim_def)
  then show ?thesis
    by (auto simp: settleChildReceipt_def getSessionByChildTask_def getSession_def js_map_simps split: option.splits)
qed

definition test_child_receipt :: execution_receipt where
  "test_child_receipt = \<lparr>receiptId = ''R1'', receipt_taskId = ''C0'', leaseId = ''C1'', receipt_agentId = ''A2'',
     receipt_tenantId = ''acme'', status = SUCCESS, exitCode = 0, evidenceChecksum = replicate 64 (CHR ''a''),
     receipt_output = None, receipt_errorMessage = None, completedAt = ''2026-01-01T00:01:30.000Z'', receipt_signature = ''s''\<rparr>"

theorem settleChildReceipt_accepts_iff_witness:
  "snd (settleChildReceipt test_coordinator test_child_receipt 1767225670000) = None
   \<and> map_option ds_status (getSessionByChildTask (fst (settleChildReceipt test_coordinator test_child_receipt 1767225670000)) ''C0'')
       = Some COMPLETED"
proof -
  let ?x = "settleChildReceipt test_coordinator test_child_receipt 1767225670000"
  have "snd ?x = None" "receipt_taskId test_child_receipt = ''C0''" "status test_child_receipt = SUCCESS"
    "map_option (\<lambda>_. ()) (getSessionByChildTask test_coordinator ''C0'') = Some ()" by code_simp+
  then show ?thesis
    using settleChildReceipt_accepts_iff [of test_coordinator test_child_receipt 1767225670000] by auto
qed

text \<open>The composite receipt of a task carries the receipts of its children in the order of their
  delegation, and its status is \<open>CANCELLED\<close> exactly when the task is revoked, otherwise \<open>SUCCESS\<close>
  exactly when no child has failed (children that have not reported count as not failed), and
  \<open>PARTIAL_COMPENSATION\<close> exactly when a failed child has a compensation.\<close>
theorem composite_receipt_status:
  assumes "generateCompositeReceipt P issuer c params now uuid = Some r"
  shows "cr_childReceipts r = child_receipts c (child_delegations c (cp_parentTaskId params))
    \<and> (cr_status r = COMPOSITE_CANCELLED \<longleftrightarrow> cp_parentTaskId params \<in> set (revokedTasks c))
    \<and> (cp_parentTaskId params \<notin> set (revokedTasks c) \<longrightarrow>
        (cr_status r = COMPOSITE_SUCCESS \<longleftrightarrow> (\<forall>i \<in> set (child_delegations c (cp_parentTaskId params)). \<not> child_failed c i))
        \<and> (cr_status r = PARTIAL_COMPENSATION \<longleftrightarrow>
             (\<exists>i \<in> set (child_delegations c (cp_parentTaskId params)). child_failed c i \<and> child_compensable c i)))"
  using assms by (auto simp: generateCompositeReceipt_def Let_def collect_receipts_eq composite_status_def split: if_splits)

definition test_composite :: composite_params where
  "test_composite = \<lparr>cp_parentTaskId = ''T1'', cp_parentLeaseId = ''L1'', cp_tenantId = ''acme'', cp_workspaceId = ''W1'',
     cp_coordinatorAgentId = ''A1'', cp_output = None, cp_errorMessage = None\<rparr>"

theorem composite_receipt_status_witness:
  "case generateCompositeReceipt test_platform test_issuer test_coordinator test_composite 1767225670000 ''R9'' of
     None \<Rightarrow> False
   | Some r \<Rightarrow> cr_status r = COMPOSITE_SUCCESS \<and> cr_childReceipts r = child_receipts test_coordinator [''D1'']"
proof -
  let ?g = "generateCompositeReceipt test_platform test_issuer test_coordinator test_composite 1767225670000 ''R9''"
  have "map_option cr_status ?g = Some COMPOSITE_SUCCESS" "child_delegations test_coordinator ''T1'' = [''D1'']"
    "cp_parentTaskId test_composite = ''T1''" by code_simp+
  then show ?thesis
    using composite_receipt_status [of test_platform test_issuer test_coordinator test_composite 1767225670000 "''R9''"]
    by (auto split: option.split)
qed

end
