(* ===== verification/Execution_Queue.thy ===== *)
theory Execution_Queue
  imports Json Leases "HOL-Library.Multiset" Complex_Main
begin

text \<open>
  The desktop agent's execution queue (\<open>apps/desktop-agent/src/scheduler/execution-queue.ts\<close>) with
  the priority and retry policies (\<open>priority-policy.ts\<close>, \<open>retry-policy.ts\<close>, \<open>types.ts\<close>): five
  lanes served in priority order, round-robin over the tenants of a lane, capacity and per-tenant
  quota, expiry and ageing. The lanes are a function from the lane to its items, as the code's
  \<open>Record\<close>; an item's expiry may be \<open>NaN\<close> (\<open>None\<close>), which never expires.

  The specification of the queue is a bag of items (\<open>queue_bag\<close>); the interface \<open>bag_queue\<close> states
  what a client may rely on, and the queue is shown to implement it: nothing is lost or duplicated.
  Further: capacity and quota, priority order, and that round-robin serves the oldest item of a lane
  after at most as many turns as there are tenants, whatever arrives meanwhile.
\<close>

section \<open>Items and policies\<close>

datatype lane = CRITICAL | INTERACTIVE | NORMAL | RETRY | BACKGROUND

datatype risk_tier = RISK_LOW | RISK_MEDIUM | RISK_HIGH | RISK_CRITICAL

text \<open>\<open>TaskExecutionRequest\<close> of the orchestrator, without the texts that only go into an approval prompt.\<close>

record task_request =
  rq_task_id :: string
  rq_step_id :: string
  rq_correlation_id :: string
  rq_leaseHeader :: execution_lease_header
  rq_capabilityId :: string
  rq_runtimeCategory :: string
  rq_payload :: "(string \<times> json) list"
  rq_timeoutMs :: "int option"
  rq_idempotency_key :: "string option"
  rq_message_id :: "string option"
  rq_riskTier :: "risk_tier option"
  rq_requiresApproval :: bool
  rq_actionIdentifier :: "string option"

record scheduled_item =
  request :: task_request
  priorityLane :: lane
  item_tenant :: string
  queuedAt :: int
  item_expiresAt :: "int option"
  retryCount :: nat
  nextRetryAt :: "int option"

definition payload_flag :: "task_request \<Rightarrow> string \<Rightarrow> bool" where
  "payload_flag r k \<longleftrightarrow> map_of (rq_payload r) k = Some (JBool True)"

definition derivePriorityLane :: "task_request \<Rightarrow> lane" where
  "derivePriorityLane r =
     (if payload_flag r ''isCritical'' \<and> ''agent:foundation'' \<in> set (scopes (rq_leaseHeader r)) then CRITICAL
      else if payload_flag r ''isInteractive'' then INTERACTIVE
      else if payload_flag r ''isBackground'' then BACKGROUND
      else NORMAL)"

definition shouldPromoteForAging :: "int \<Rightarrow> scheduled_item \<Rightarrow> int \<Rightarrow> bool" where
  "shouldPromoteForAging threshold item now \<longleftrightarrow> priorityLane item = NORMAL \<and> now - queuedAt item \<ge> threshold"

record retry_policy =
  maxRetries :: nat
  rp_initialDelayMs :: rat
  rp_maxDelayMs :: int
  backoffMultiplier :: rat

definition isRetryableError :: "string option \<Rightarrow> bool" where
  "isRetryableError e \<longleftrightarrow>
     (if \<not> truthy e then False
      else the e \<in> {''NETWORK_TIMEOUT'', ''RATE_LIMITED'', ''PROVIDER_CAPACITY'', ''TRANSIENT_ERROR''})"

definition shouldRetry :: "retry_policy \<Rightarrow> nat \<Rightarrow> string option \<Rightarrow> bool" where
  "shouldRetry rp attempts e \<longleftrightarrow> attempts < maxRetries rp \<and> isRetryableError e"

text \<open>\<open>Math.pow(m, attempts - 1)\<close> for an attempt count of at least one; \<open>u\<close> is \<open>Math.random()\<close>.\<close>

definition calculateNextBackoffDelay :: "retry_policy \<Rightarrow> nat \<Rightarrow> rat \<Rightarrow> int" where
  "calculateNextBackoffDelay rp attempts u =
     (let baseDelay = rp_initialDelayMs rp * backoffMultiplier rp ^ (attempts - 1);
          jitterFactor = 1 / 2 + u * 1
      in min (rp_maxDelayMs rp) \<lfloor>baseDelay * jitterFactor\<rfloor>)"

section \<open>The queue\<close>

record exec_queue =
  lanes :: "lane \<Rightarrow> scheduled_item list"
  lastServedTenant :: "lane \<Rightarrow> string option"
  maxCapacity :: nat
  maxPerTenantQuota :: nat
  agingThresholdMs :: int

definition ExecutionQueue :: "nat \<Rightarrow> nat \<Rightarrow> int \<Rightarrow> exec_queue" where
  "ExecutionQueue cap quota aging =
     \<lparr>lanes = (\<lambda>_. []), lastServedTenant = (\<lambda>_. None), maxCapacity = cap, maxPerTenantQuota = quota,
      agingThresholdMs = aging\<rparr>"

definition laneOrder :: "lane list" where
  "laneOrder = [CRITICAL, INTERACTIVE, NORMAL, RETRY, BACKGROUND]"

definition getSize :: "exec_queue \<Rightarrow> nat" where
  "getSize q = length (lanes q CRITICAL) + length (lanes q INTERACTIVE) + length (lanes q NORMAL)
     + length (lanes q RETRY) + length (lanes q BACKGROUND)"

definition getTenantCount :: "exec_queue \<Rightarrow> string \<Rightarrow> nat" where
  "getTenantCount q tenant = sum_list (map (\<lambda>l. length (filter (\<lambda>i. item_tenant i = tenant) (lanes q l))) laneOrder)"

definition getLaneCount :: "exec_queue \<Rightarrow> lane \<Rightarrow> nat" where
  "getLaneCount q l = length (lanes q l)"

definition enqueue :: "exec_queue \<Rightarrow> scheduled_item \<Rightarrow> exec_queue \<times> bool" where
  "enqueue q item =
     (if priorityLane item \<noteq> CRITICAL \<and> getSize q \<ge> maxCapacity q then (q, False)
      else if priorityLane item \<noteq> CRITICAL \<and> getTenantCount q (item_tenant item) \<ge> maxPerTenantQuota q then (q, False)
      else if priorityLane item = CRITICAL \<and> getSize q \<ge> maxCapacity q + 10 then (q, False)
      else (q\<lparr>lanes := (lanes q)(priorityLane item := lanes q (priorityLane item) @ [item])\<rparr>, True))"

definition uniqueTenants :: "scheduled_item list \<Rightarrow> string list" where
  "uniqueTenants items = js_unique (map item_tenant items)"

definition target_tenant :: "string option \<Rightarrow> string list \<Rightarrow> string" where
  "target_tenant lastTenant tenants =
     (if truthy lastTenant then
        case find_index (\<lambda>t. Some t = lastTenant) tenants of
          Some i \<Rightarrow> tenants ! ((i + 1) mod length tenants)
        | None \<Rightarrow> tenants ! 0
      else tenants ! 0)"

text \<open>\<open>-1\<close> is \<open>None\<close>.\<close>

definition findRoundRobinIndex :: "string option \<Rightarrow> scheduled_item list \<Rightarrow> nat option" where
  "findRoundRobinIndex lastTenant items =
     (if items = [] then None
      else let tenants = uniqueTenants items in
        if length tenants = 1 then Some 0
        else find_index (\<lambda>i. item_tenant i = target_tenant lastTenant tenants) items)"

text \<open>\<open>!item.nextRetryAt || now >= item.nextRetryAt\<close>\<close>

definition retry_due :: "int \<Rightarrow> scheduled_item \<Rightarrow> bool" where
  "retry_due now item \<longleftrightarrow> (case nextRetryAt item of None \<Rightarrow> True | Some t \<Rightarrow> t = 0 \<or> now \<ge> t)"

definition lane_index :: "exec_queue \<Rightarrow> int \<Rightarrow> lane \<Rightarrow> nat option" where
  "lane_index q now l =
     (if lanes q l = [] then None
      else if l = RETRY then find_index (retry_due now) (lanes q l)
      else findRoundRobinIndex (lastServedTenant q l) (lanes q l))"

text \<open>\<open>items.splice(i, 1)[0]\<close> and the bookkeeping.\<close>

definition drop_from :: "exec_queue \<Rightarrow> lane \<Rightarrow> nat \<Rightarrow> exec_queue" where
  "drop_from q l i = q\<lparr>lanes := (lanes q)(l := remove_nth i (lanes q l))\<rparr>"

definition take_from :: "exec_queue \<Rightarrow> lane \<Rightarrow> nat \<Rightarrow> exec_queue \<times> scheduled_item" where
  "take_from q l i =
     (let item = lanes q l ! i in
      ((drop_from q l i)\<lparr>lastServedTenant := (lastServedTenant q)(l := Some (item_tenant item))\<rparr>, item))"

fun dequeue_lanes :: "exec_queue \<Rightarrow> int \<Rightarrow> lane list \<Rightarrow> exec_queue \<times> scheduled_item option" where
  "dequeue_lanes q now [] = (q, None)"
| "dequeue_lanes q now (l # ls) =
     (case lane_index q now l of
        Some i \<Rightarrow> (let (q', item) = take_from q l i in (q', Some item))
      | None \<Rightarrow> dequeue_lanes q now ls)"

definition dequeue :: "exec_queue \<Rightarrow> int \<Rightarrow> exec_queue \<times> scheduled_item option" where
  "dequeue q now = dequeue_lanes q now laneOrder"

fun peek_lanes :: "exec_queue \<Rightarrow> int \<Rightarrow> lane list \<Rightarrow> scheduled_item option" where
  "peek_lanes q now [] = None"
| "peek_lanes q now (l # ls) =
     (case lane_index q now l of Some i \<Rightarrow> Some (lanes q l ! i) | None \<Rightarrow> peek_lanes q now ls)"

definition peek :: "exec_queue \<Rightarrow> int \<Rightarrow> scheduled_item option" where
  "peek q now = peek_lanes q now laneOrder"

fun remove_lanes :: "exec_queue \<Rightarrow> string \<Rightarrow> string option \<Rightarrow> lane list \<Rightarrow> exec_queue \<times> scheduled_item option" where
  "remove_lanes q tid tenant [] = (q, None)"
| "remove_lanes q tid tenant (l # ls) =
     (case find_index (\<lambda>i. rq_task_id (request i) = tid) (lanes q l) of
        None \<Rightarrow> remove_lanes q tid tenant ls
      | Some i \<Rightarrow>
          (let item = lanes q l ! i in
           if truthy tenant \<and> Some (item_tenant item) \<noteq> tenant then (q, None)
           else (drop_from q l i, Some item)))"

definition queue_remove :: "exec_queue \<Rightarrow> string \<Rightarrow> string option \<Rightarrow> exec_queue \<times> scheduled_item option" where
  "queue_remove q tid tenant = remove_lanes q tid tenant laneOrder"

text \<open>\<open>now > item.expiresAt\<close>\<close>

definition item_expired :: "int \<Rightarrow> scheduled_item \<Rightarrow> bool" where
  "item_expired now item \<longleftrightarrow> num_gt (Some now) (item_expiresAt item)"

definition pruneExpired :: "exec_queue \<Rightarrow> int \<Rightarrow> exec_queue \<times> scheduled_item list" where
  "pruneExpired q now =
     (q\<lparr>lanes := (\<lambda>l. filter (\<lambda>i. \<not> item_expired now i) (lanes q l))\<rparr>,
      concat (map (\<lambda>l. filter (item_expired now) (lanes q l)) laneOrder))"

definition applyAging :: "exec_queue \<Rightarrow> int \<Rightarrow> exec_queue" where
  "applyAging q now =
     (let old = (\<lambda>i. shouldPromoteForAging (agingThresholdMs q) i now) in
      q\<lparr>lanes := (lanes q)
          (INTERACTIVE := lanes q INTERACTIVE @ map (\<lambda>i. i\<lparr>priorityLane := INTERACTIVE\<rparr>) (filter old (lanes q NORMAL)),
           NORMAL := filter (\<lambda>i. \<not> old i) (lanes q NORMAL))\<rparr>)"

datatype queue_op =
    Enqueue scheduled_item
  | Dequeue int
  | Remove string "string option"
  | PruneExpired int
  | ApplyAging int

fun queue_step :: "exec_queue \<Rightarrow> queue_op \<Rightarrow> exec_queue" where
  "queue_step q (Enqueue item) = fst (enqueue q item)"
| "queue_step q (Dequeue now) = fst (dequeue q now)"
| "queue_step q (Remove tid tenant) = fst (queue_remove q tid tenant)"
| "queue_step q (PruneExpired now) = fst (pruneExpired q now)"
| "queue_step q (ApplyAging now) = applyAging q now"

section \<open>The queue as a bag\<close>

definition queue_items :: "exec_queue \<Rightarrow> scheduled_item list" where
  "queue_items q = concat (map (lanes q) laneOrder)"

definition queue_bag :: "exec_queue \<Rightarrow> scheduled_item multiset" where
  "queue_bag q = mset (queue_items q)"

lemma laneOrder_all: "l \<in> set laneOrder" "distinct laneOrder"
  by (cases l) (simp_all add: laneOrder_def)

lemma getSize_items: "getSize q = length (queue_items q)"
  by (simp add: getSize_def queue_items_def laneOrder_def)

lemma getSize_bag: "getSize q = size (queue_bag q)"
  by (simp add: getSize_items queue_bag_def)

lemma getTenantCount_items: "getTenantCount q t = length (filter (\<lambda>i. item_tenant i = t) (queue_items q))"
  by (simp add: getTenantCount_def queue_items_def laneOrder_def)

lemma getTenantCount_bag: "getTenantCount q t = size (filter_mset (\<lambda>i. item_tenant i = t) (queue_bag q))"
  by (simp add: getTenantCount_items queue_bag_def flip: mset_filter)

lemma queue_bag_lanes: "queue_bag q = (\<Sum>l \<leftarrow> laneOrder. mset (lanes q l))"
  by (simp add: queue_bag_def queue_items_def laneOrder_def)

lemma bag_lane_update:
  "queue_bag (q\<lparr>lanes := (lanes q)(l := xs)\<rparr>) + mset (lanes q l) = queue_bag q + mset xs"
  by (cases l) (simp_all add: queue_bag_lanes laneOrder_def ac_simps)

lemma bag_take:
  assumes "i < length (lanes q l)"
  shows "queue_bag q = add_mset (lanes q l ! i) (queue_bag (drop_from q l i))"
proof -
  have "mset (lanes q l) = add_mset (lanes q l ! i) (mset (remove_nth i (lanes q l)))"
    using arg_cong [OF remove_nth_split [OF assms], of mset] by (simp add: remove_nth_def)
  with bag_lane_update [of q l "remove_nth i (lanes q l)"] show ?thesis by (simp add: drop_from_def)
qed

lemma bag_ignores_last: "queue_bag (q\<lparr>lastServedTenant := f\<rparr>) = queue_bag q"
  by (simp add: queue_bag_def queue_items_def)

section \<open>Selection within a lane\<close>

lemma uniqueTenants_set [simp]: "set (uniqueTenants items) = item_tenant ` set items"
  by (simp add: uniqueTenants_def)

lemma uniqueTenants_Nil [simp]: "uniqueTenants items = [] \<longleftrightarrow> items = []"
  by (metis image_is_empty set_empty uniqueTenants_set)

lemma target_tenant_mem: "tenants \<noteq> [] \<Longrightarrow> target_tenant t tenants \<in> set tenants"
  by (auto simp: target_tenant_def split: option.split)

lemma findRoundRobinIndex_None: "findRoundRobinIndex t items = None \<longleftrightarrow> items = []"
proof -
  have "find_index (\<lambda>i. item_tenant i = target_tenant t (uniqueTenants items)) items \<noteq> None" if "items \<noteq> []"
    using that target_tenant_mem [of "uniqueTenants items" t] unfolding find_index_None by auto
  then show ?thesis by (simp add: findRoundRobinIndex_def Let_def)
qed

lemma findRoundRobinIndex_less: "findRoundRobinIndex t items = Some i \<Longrightarrow> i < length items"
  by (auto simp: findRoundRobinIndex_def Let_def dest: find_index_less split: if_splits)

text \<open>The chosen item is the oldest of its tenant.\<close>

lemma findRoundRobinIndex_oldest:
  assumes "findRoundRobinIndex t items = Some i" "j < i"
  shows "item_tenant (items ! j) \<noteq> item_tenant (items ! i)"
  using assms by (auto simp: findRoundRobinIndex_def Let_def find_index_Some split: if_splits)

definition eligible :: "exec_queue \<Rightarrow> int \<Rightarrow> lane \<Rightarrow> bool" where
  "eligible q now l \<longleftrightarrow> (if l = RETRY then \<exists>x \<in> set (lanes q l). retry_due now x else lanes q l \<noteq> [])"

lemma lane_index_None: "lane_index q now l = None \<longleftrightarrow> \<not> eligible q now l"
  by (auto simp: lane_index_def eligible_def find_index_None findRoundRobinIndex_None)

lemma lane_index_less: "lane_index q now l = Some i \<Longrightarrow> i < length (lanes q l)"
  by (auto simp: lane_index_def dest: find_index_less findRoundRobinIndex_less split: if_splits)

lemma dequeue_lanes_spec:
  "(dequeue_lanes q now ls = (q, None) \<and> (\<forall>l \<in> set ls. \<not> eligible q now l))
   \<or> (\<exists>l i. dequeue_lanes q now ls = (fst (take_from q l i), Some (snd (take_from q l i)))
        \<and> lane_index q now l = Some i \<and> l \<in> set ls \<and> (\<forall>l' \<in> set (takeWhile (\<lambda>x. x \<noteq> l) ls). \<not> eligible q now l'))"
proof (induction ls)
  case (Cons l ls)
  show ?case
  proof (cases "lane_index q now l")
    case None
    then have "dequeue_lanes q now (l # ls) = dequeue_lanes q now ls" "\<not> eligible q now l"
      by (simp, simp flip: lane_index_None)
    with Cons.IH show ?thesis
    proof (elim disjE exE conjE)
      fix l' i
      assume "dequeue_lanes q now ls = (fst (take_from q l' i), Some (snd (take_from q l' i)))" "lane_index q now l' = Some i"
        "l' \<in> set ls" "\<forall>x \<in> set (takeWhile (\<lambda>x. x \<noteq> l') ls). \<not> eligible q now x"
      then show ?thesis
        using \<open>dequeue_lanes q now (l # ls) = _\<close> \<open>\<not> eligible q now l\<close>
        by (intro disjI2 exI [of _ l'] exI [of _ i]) (simp only:, auto)
    qed auto
  next
    case (Some i)
    then show ?thesis by (intro disjI2 exI [of _ l] exI [of _ i]) (simp add: case_prod_unfold Let_def)
  qed
qed simp

lemma dequeue_cases:
  obtains (none) "dequeue q now = (q, None)" "\<And>l. \<not> eligible q now l"
  | (some) l i where "dequeue q now = (fst (take_from q l i), Some (snd (take_from q l i)))" "lane_index q now l = Some i"
      "\<forall>l' \<in> set (takeWhile (\<lambda>x. x \<noteq> l) laneOrder). \<not> eligible q now l'"
  using dequeue_lanes_spec [of q now laneOrder] laneOrder_all(1) unfolding dequeue_def by metis

lemma peek_dequeue: "peek q now = snd (dequeue q now)"
proof -
  have "peek_lanes q now ls = snd (dequeue_lanes q now ls)" for ls
    by (induction ls) (auto simp: take_from_def Let_def split: option.split)
  then show ?thesis by (simp add: peek_def dequeue_def)
qed

lemma dequeue_bag:
  "dequeue q now = (q', Some x) \<Longrightarrow> queue_bag q = add_mset x (queue_bag q')"
  "dequeue q now = (q', None) \<Longrightarrow> q' = q"
proof -
  show "queue_bag q = add_mset x (queue_bag q')" if "dequeue q now = (q', Some x)"
    using that by (cases rule: dequeue_cases [of q now])
      (auto simp: take_from_def Let_def bag_ignores_last bag_take dest!: lane_index_less)
  show "q' = q" if "dequeue q now = (q', None)"
    using that by (cases rule: dequeue_cases [of q now]) auto
qed

lemma remove_lanes_spec:
  "remove_lanes q tid tenant ls = (q, None)
   \<or> (\<exists>l i. remove_lanes q tid tenant ls = (drop_from q l i, Some (lanes q l ! i))
        \<and> i < length (lanes q l) \<and> rq_task_id (request (lanes q l ! i)) = tid
        \<and> (truthy tenant \<longrightarrow> tenant = Some (item_tenant (lanes q l ! i))))"
proof (induction ls)
  case (Cons l ls)
  show ?case
  proof (cases "find_index (\<lambda>i. rq_task_id (request i) = tid) (lanes q l)")
    case None
    then have "remove_lanes q tid tenant (l # ls) = remove_lanes q tid tenant ls" by simp
    with Cons.IH show ?thesis by presburger
  next
    case (Some i)
    then have "i < length (lanes q l)" "rq_task_id (request (lanes q l ! i)) = tid" by (auto simp: find_index_Some)
    with Some show ?thesis
      by (cases "truthy tenant \<and> Some (item_tenant (lanes q l ! i)) \<noteq> tenant")
        (simp_all add: Let_def, intro exI [of _ l] exI [of _ i], auto)
  qed
qed simp

lemma remove_cases:
  obtains (kept) "queue_remove q tid tenant = (q, None)"
  | (removed) l i where "queue_remove q tid tenant = (drop_from q l i, Some (lanes q l ! i))"
      "i < length (lanes q l)" "rq_task_id (request (lanes q l ! i)) = tid" "truthy tenant \<longrightarrow> tenant = Some (item_tenant (lanes q l ! i))"
  using remove_lanes_spec [of q tid tenant laneOrder] unfolding queue_remove_def by metis

lemma remove_bag:
  "queue_remove q tid tenant = (q', Some x) \<Longrightarrow> queue_bag q = add_mset x (queue_bag q')"
  "queue_remove q tid tenant = (q', None) \<Longrightarrow> q' = q"
proof -
  show "queue_bag q = add_mset x (queue_bag q')" if "queue_remove q tid tenant = (q', Some x)"
    using that by (cases rule: remove_cases [of q tid tenant]) (auto simp: bag_take)
  show "q' = q" if "queue_remove q tid tenant = (q', None)"
    using that by (cases rule: remove_cases [of q tid tenant]) auto
qed

lemma enqueue_bag:
  "enqueue q x = (q', True) \<Longrightarrow> queue_bag q' = add_mset x (queue_bag q)"
  "enqueue q x = (q', False) \<Longrightarrow> q' = q"
  using bag_lane_update [of q "priorityLane x" "lanes q (priorityLane x) @ [x]"]
  by (auto simp: enqueue_def split: if_splits)

lemma prune_bag: "queue_bag q = queue_bag (fst (pruneExpired q now)) + mset (snd (pruneExpired q now))"
proof -
  have "mset xs = mset (filter (\<lambda>i. \<not> item_expired now i) xs) + mset (filter (item_expired now) xs)" for xs
    by (simp add: add.commute flip: multiset_partition)
  then show ?thesis
    unfolding queue_bag_lanes pruneExpired_def laneOrder_def by (simp add: ac_simps)
qed

text \<open>An item without its lane, which ageing changes.\<close>

definition core :: "scheduled_item \<Rightarrow> scheduled_item" where
  "core i = i\<lparr>priorityLane := NORMAL\<rparr>"

lemma aging_bag: "image_mset core (queue_bag (applyAging q now)) = image_mset core (queue_bag q)"
proof -
  let ?old = "\<lambda>i. shouldPromoteForAging (agingThresholdMs q) i now"
  have "mset (lanes q NORMAL) = mset (filter ?old (lanes q NORMAL)) + mset (filter (\<lambda>i. \<not> ?old i) (lanes q NORMAL))"
    by (simp flip: multiset_partition)
  then have "image_mset core (mset (lanes q NORMAL)) = image_mset core (mset (filter ?old (lanes q NORMAL)))
      + image_mset core (mset (filter (\<lambda>i. \<not> ?old i) (lanes q NORMAL)))" by (metis image_mset_union)
  moreover have "core (i\<lparr>priorityLane := INTERACTIVE\<rparr>) = core i" for i by (simp add: core_def)
  ultimately show ?thesis
    unfolding queue_bag_lanes applyAging_def laneOrder_def Let_def by (simp add: multiset.map_comp comp_def ac_simps)
qed

section \<open>Round-robin is fair\<close>

text \<open>How many tenants come before \<open>t\<close> in the order of entry, or would if \<open>t\<close> had just entered.\<close>

definition tenant_pos :: "string \<Rightarrow> scheduled_item list \<Rightarrow> nat" where
  "tenant_pos t items = length (takeWhile (\<lambda>x. x \<noteq> t) (uniqueTenants items))"

lemma uniqueTenants_append: "\<exists>zs. uniqueTenants (xs @ ys) = uniqueTenants xs @ zs"
proof -
  have "\<exists>zs. foldl (\<lambda>acc x. js_add x acc) acc ts = acc @ zs" for acc ts :: "string list"
  proof (induction ts arbitrary: acc)
    case (Cons t ts)
    show ?case using Cons.IH [of "js_add t acc"] by (auto simp: js_add_def)
  qed simp
  then show ?thesis by (simp add: uniqueTenants_def js_unique_def)
qed

lemma uniqueTenants_snoc:
  "uniqueTenants (xs @ [x]) = (if item_tenant x \<in> item_tenant ` set xs then uniqueTenants xs else uniqueTenants xs @ [item_tenant x])"
  using uniqueTenants_set [of xs] by (simp add: uniqueTenants_def js_unique_def js_add_def)

lemma uniqueTenants_distinct: "distinct (uniqueTenants items)"
  by (simp add: uniqueTenants_def)

lemma length_uniqueTenants: "length (uniqueTenants items) = card (item_tenant ` set items)"
  by (metis distinct_card uniqueTenants_distinct uniqueTenants_set)

lemma takeWhile_prefix_le: "length (takeWhile p xs) \<le> length (takeWhile p (xs @ zs))"
  by (induction xs) auto

lemma tenant_pos_arrive: "tenant_pos t items \<le> tenant_pos t (items @ [z])"
  unfolding tenant_pos_def using uniqueTenants_append [of items "[z]"] takeWhile_prefix_le by metis

lemma find_index_takeWhile: "t \<in> set xs \<Longrightarrow> find_index (\<lambda>x. Some x = Some t) xs = Some (length (takeWhile (\<lambda>x. x \<noteq> t) xs))"
  by (induction xs) auto

lemma target_tenant_pos:
  assumes "t \<noteq> []" "items \<noteq> []"
  shows "target_tenant (Some t) (uniqueTenants items) =
    (if Suc (tenant_pos t items) < length (uniqueTenants items) then uniqueTenants items ! Suc (tenant_pos t items)
     else uniqueTenants items ! 0)"
proof (cases "t \<in> set (uniqueTenants items)")
  case True
  have "length (takeWhile (\<lambda>x. x \<noteq> t) (uniqueTenants items)) < length (uniqueTenants items)"
    by (rule find_index_less [OF find_index_takeWhile [OF True]])
  then have "Suc (tenant_pos t items) mod length (uniqueTenants items)
      = (if Suc (tenant_pos t items) < length (uniqueTenants items) then Suc (tenant_pos t items) else 0)"
    unfolding tenant_pos_def by (auto simp: mod_Suc)
  then show ?thesis
    using assms(1) find_index_takeWhile [OF True] unfolding target_tenant_def tenant_pos_def by simp
next
  case False
  then have "find_index (\<lambda>x. Some x = Some t) (uniqueTenants items) = None" by (auto simp: find_index_None)
  moreover have "takeWhile (\<lambda>x. x \<noteq> t) (uniqueTenants items) = uniqueTenants items"
    using False by (metis (mono_tags, lifting) takeWhile_eq_all_conv)
  then have "tenant_pos t items = length (uniqueTenants items)" unfolding tenant_pos_def by (rule arg_cong)
  ultimately show ?thesis by (simp add: target_tenant_def)
qed

lemma not_in_take:
  assumes "\<And>j. j < i \<Longrightarrow> f (xs ! j) \<noteq> v" "i < length xs"
  shows "v \<notin> f ` set (take i xs)"
proof
  assume "v \<in> f ` set (take i xs)"
  then obtain j where "j < i" "v = f (xs ! j)" using assms(2) by (auto simp: in_set_conv_nth)
  then show False using assms(1) by blast
qed

text \<open>The oldest item of the \<open>k\<close>-th tenant comes after exactly \<open>k\<close> tenants.\<close>

lemma uniqueTenants_take:
  assumes "find_index (\<lambda>i. item_tenant i = uniqueTenants items ! k) items = Some i" "k < length (uniqueTenants items)"
  shows "length (uniqueTenants (take i items)) = k"
proof -
  have i: "i < length items" "item_tenant (items ! i) = uniqueTenants items ! k"
    and first: "\<And>j. j < i \<Longrightarrow> item_tenant (items ! j) \<noteq> uniqueTenants items ! k"
    using assms(1) by (auto simp: find_index_Some)
  have "uniqueTenants items ! k \<notin> item_tenant ` set (take i items)" 
    using first i(1) by (rule not_in_take)
  then have "uniqueTenants (take (Suc i) items) = uniqueTenants (take i items) @ [uniqueTenants items ! k]"
    using i by (simp add: take_Suc_conv_app_nth uniqueTenants_snoc)
  then obtain zs where "uniqueTenants items = uniqueTenants (take i items) @ uniqueTenants items ! k # zs"
    using uniqueTenants_append [of "take (Suc i) items" "drop (Suc i) items"] by auto
  then have "uniqueTenants items ! length (uniqueTenants (take i items)) = uniqueTenants items ! k"
    and "length (uniqueTenants (take i items)) < length (uniqueTenants items)"
    by (metis nth_append_length, metis add_Suc_right length_Cons length_append less_add_Suc1)
  then show ?thesis using assms(2) uniqueTenants_distinct nth_eq_iff_index_eq by blast
qed

text \<open>A turn either takes the oldest item of the lane, or moves on by at least one tenant.\<close>

lemma round_robin_turn:
  assumes "findRoundRobinIndex (Some t) items = Some i" "t \<noteq> []" "i \<noteq> 0"
  shows "Suc (tenant_pos t items) \<le> tenant_pos (item_tenant (items ! i)) (remove_nth i items)"
    and "Suc (tenant_pos t items) < length (uniqueTenants items)"
proof -
  have ne: "items \<noteq> []" and fi: "find_index (\<lambda>i. item_tenant i = target_tenant (Some t) (uniqueTenants items)) items = Some i"
    using assms by (auto simp: findRoundRobinIndex_def Let_def split: if_splits)
  have hd: "item_tenant (items ! 0) = uniqueTenants items ! 0"
  proof -
    obtain x xs where "items = [x] @ xs" using ne by (cases items) auto
    then show ?thesis using uniqueTenants_append [of "[x]" xs] by (auto simp: uniqueTenants_def js_unique_def js_add_def)
  qed
  show less: "Suc (tenant_pos t items) < length (uniqueTenants items)"
  proof (rule ccontr)
    assume "\<not> Suc (tenant_pos t items) < length (uniqueTenants items)"
    then have "find_index (\<lambda>i. item_tenant i = item_tenant (items ! 0)) items = Some i"
      using fi target_tenant_pos [OF assms(2) ne] hd by simp
    then show False using assms(3) by (auto simp: find_index_Some)
  qed
  then have fi': "find_index (\<lambda>i. item_tenant i = uniqueTenants items ! Suc (tenant_pos t items)) items = Some i"
    using fi target_tenant_pos [OF assms(2) ne] by simp
  then have i: "item_tenant (items ! i) = uniqueTenants items ! Suc (tenant_pos t items)"
    "\<And>j. j < i \<Longrightarrow> item_tenant (items ! j) \<noteq> item_tenant (items ! i)" "i < length items"
    by (auto simp: find_index_Some)
  then have "item_tenant (items ! i) \<notin> set (uniqueTenants (take i items))"
    unfolding uniqueTenants_set by (intro not_in_take) simp_all
  then have "takeWhile (\<lambda>x. x \<noteq> item_tenant (items ! i)) (uniqueTenants (take i items)) = uniqueTenants (take i items)"
    by (metis (mono_tags, lifting) takeWhile_eq_all_conv)
  then have "length (uniqueTenants (take i items)) \<le> tenant_pos (item_tenant (items ! i)) (remove_nth i items)"
    unfolding tenant_pos_def remove_nth_def
    using uniqueTenants_append [of "take i items" "drop (Suc i) items"] takeWhile_prefix_le by metis
  then show "Suc (tenant_pos t items) \<le> tenant_pos (item_tenant (items ! i)) (remove_nth i items)"
    using uniqueTenants_take [OF fi' less] by simp
qed

text \<open>A lane on its own: turns of \<open>dequeue\<close> and items that arrive at its end.\<close>

datatype lane_event = Serve | Arrive scheduled_item

fun lane_run :: "scheduled_item list \<Rightarrow> string option \<Rightarrow> lane_event list \<Rightarrow> scheduled_item list" where
  "lane_run items t [] = []"
| "lane_run items t (Serve # es) =
     (case findRoundRobinIndex t items of
        None \<Rightarrow> lane_run items t es
      | Some i \<Rightarrow> items ! i # lane_run (remove_nth i items) (Some (item_tenant (items ! i))) es)"
| "lane_run items t (Arrive z # es) = lane_run (items @ [z]) t es"

fun turns :: "lane_event list \<Rightarrow> nat" where
  "turns [] = 0"
| "turns (Serve # es) = Suc (turns es)"
| "turns (Arrive _ # es) = turns es"

fun arrivals :: "lane_event list \<Rightarrow> scheduled_item list" where
  "arrivals [] = []"
| "arrivals (Serve # es) = arrivals es"
| "arrivals (Arrive z # es) = z # arrivals es"

lemma findRoundRobinIndex_falsy: "\<not> truthy t \<Longrightarrow> findRoundRobinIndex t (x # xs) = Some 0"
proof -
  assume "\<not> truthy t"
  moreover have "uniqueTenants (x # xs) ! 0 = item_tenant x"
    using uniqueTenants_append [of "[x]" xs] by (auto simp: uniqueTenants_def js_unique_def js_add_def)
  ultimately show ?thesis by (simp add: findRoundRobinIndex_def Let_def target_tenant_def)
qed

lemma lane_run_serves_oldest:
  assumes "\<And>s. t = Some s \<Longrightarrow> s \<noteq> [] \<Longrightarrow> b \<le> tenant_pos s (x # xs)"
    and "N \<le> b + turns es" "0 < turns es" "card (item_tenant ` set (x # xs @ arrivals es)) \<le> N"
  shows "x \<in> set (lane_run (x # xs) t es)"
  using assms
proof (induction es arbitrary: xs t b)
  case (Cons e es)
  show ?case
  proof (cases e)
    case (Arrive z)
    have "b \<le> tenant_pos s (x # xs @ [z])" if "t = Some s" "s \<noteq> []" for s
      using Cons.prems(1) [OF that] tenant_pos_arrive [of s "x # xs" z] by simp
    then show ?thesis using Cons.IH [of t b "xs @ [z]"] Cons.prems(2-4) Arrive by simp
  next
    case Serve
    obtain i where i: "findRoundRobinIndex t (x # xs) = Some i"
      by (metis findRoundRobinIndex_None list.distinct(1) not_None_eq)
    show ?thesis
    proof (cases "i = 0")
      case True
      then show ?thesis using i Serve by simp
    next
      case False
      then have "truthy t" using i findRoundRobinIndex_falsy [of t x xs] by auto
      then obtain s where t: "t = Some s" "s \<noteq> []" by (auto simp: truthy_iff)
      let ?y = "(x # xs) ! i"
      have rest: "remove_nth i (x # xs) = x # remove_nth (i - 1) xs" using False by (cases i) (simp_all add: remove_nth_def)
      note turn = round_robin_turn [OF i [unfolded t(1)] t(2) False]
      have "Suc b \<le> tenant_pos (item_tenant ?y) (x # remove_nth (i - 1) xs)"
        using Cons.prems(1) [OF t] turn(1) unfolding rest by simp
      moreover have "length (uniqueTenants (x # xs)) \<le> N"
        unfolding length_uniqueTenants
        by (rule le_trans [OF card_mono Cons.prems(4)]) (auto simp: Serve)
      then have "0 < turns es" using turn(2) Cons.prems(1) [OF t] Cons.prems(2) Serve by simp
      moreover have "card (item_tenant ` set (x # remove_nth (i - 1) xs @ arrivals es)) \<le> N"
        using set_remove_nth [of "i - 1" xs] by (intro le_trans [OF card_mono Cons.prems(4)]) (auto simp: Serve)
      ultimately have "x \<in> set (lane_run (x # remove_nth (i - 1) xs) (Some (item_tenant ?y)) es)"
        using Cons.IH [of "Some (item_tenant ?y)" "Suc b" "remove_nth (i - 1) xs"] Cons.prems(2) Serve by simp
      then show ?thesis using i Serve rest by simp
    qed
  qed
qed simp

text \<open>No tenant is served twice in a row while another waits in the lane.\<close>

lemma round_robin_alternates:
  assumes "findRoundRobinIndex (Some t) items = Some i" "t \<noteq> []" "\<exists>x \<in> set items. item_tenant x \<noteq> t"
  shows "item_tenant (items ! i) \<noteq> t"
proof (cases "t \<in> set (uniqueTenants items)")
  case False
  then show ?thesis using findRoundRobinIndex_less [OF assms(1)] by auto
next
  case True
  have ne: "items \<noteq> []" using assms(3) by auto
  let ?u = "uniqueTenants items" and ?p = "tenant_pos t items"
  have p: "?p < length ?u" "?u ! ?p = t"
    using find_index_takeWhile [OF True] unfolding tenant_pos_def by (auto simp: find_index_Some)
  have two: "length ?u \<noteq> 1"
  proof
    assume "length ?u = 1"
    then have "set ?u = {?u ! 0}" by (cases ?u) auto
    then show False using assms(3) True by auto
  qed
  then have "item_tenant (items ! i) = target_tenant (Some t) ?u"
    using assms(1) ne by (auto simp: findRoundRobinIndex_def Let_def find_index_Some split: if_splits)
  also have "\<dots> \<noteq> t"
  proof (cases "Suc ?p < length ?u")
    case True
    then have "?u ! Suc ?p \<noteq> ?u ! ?p" using uniqueTenants_distinct nth_eq_iff_index_eq p(1) by (metis n_not_Suc_n)
    then show ?thesis using True p target_tenant_pos [OF assms(2) ne] by simp
  next
    case False
    then have "?p \<noteq> 0" using two p(1) by linarith
    then have "?u ! 0 \<noteq> ?u ! ?p" using uniqueTenants_distinct nth_eq_iff_index_eq p(1) by (metis gr0I not_less0)
    then show ?thesis using False p target_tenant_pos [OF assms(2) ne] by simp
  qed
  finally show ?thesis .
qed

section \<open>Capacity\<close>

definition lower_items :: "exec_queue \<Rightarrow> scheduled_item list" where
  "lower_items q = lanes q INTERACTIVE @ lanes q NORMAL @ lanes q RETRY @ lanes q BACKGROUND"

definition queue_inv :: "exec_queue \<Rightarrow> bool" where
  "queue_inv q \<longleftrightarrow>
     getSize q \<le> maxCapacity q + 10 \<and> length (lower_items q) \<le> maxCapacity q
     \<and> (\<forall>t. length (filter (\<lambda>i. item_tenant i = t) (lower_items q)) \<le> maxPerTenantQuota q)
     \<and> (\<forall>l. \<forall>i \<in> set (lanes q l). priorityLane i = l)"

definition queue_limits :: "exec_queue \<Rightarrow> nat \<times> nat \<times> int" where
  "queue_limits q = (maxCapacity q, maxPerTenantQuota q, agingThresholdMs q)"

lemma queue_inv_less:
  assumes "queue_inv q" "queue_limits q' = queue_limits q"
    and "\<And>l. length (lanes q' l) \<le> length (lanes q l)"
    and "\<And>l t. length (filter (\<lambda>i. item_tenant i = t) (lanes q' l)) \<le> length (filter (\<lambda>i. item_tenant i = t) (lanes q l))"
    and "\<And>l. set (lanes q' l) \<subseteq> set (lanes q l)"
  shows "queue_inv q'"
proof -
  have "getSize q' \<le> getSize q" unfolding getSize_def by (intro add_mono assms(3))
  moreover have "length (lower_items q') \<le> length (lower_items q)"
    unfolding lower_items_def length_append by (intro add_mono assms(3))
  moreover have "length (filter (\<lambda>i. item_tenant i = t) (lower_items q')) \<le> length (filter (\<lambda>i. item_tenant i = t) (lower_items q))" for t
    unfolding lower_items_def filter_append length_append by (intro add_mono assms(4))
  ultimately show ?thesis
    using assms(1,2,5) unfolding queue_inv_def queue_limits_def by (simp, meson le_trans subsetD)
qed

lemma queue_inv_drop:
  assumes "queue_inv q" "i < length (lanes q l)"
  shows "queue_inv (drop_from q l i)"
proof (rule queue_inv_less [OF assms(1)])
  show "length (filter (\<lambda>i. item_tenant i = t) (lanes (drop_from q l i) l')) \<le> length (filter (\<lambda>i. item_tenant i = t) (lanes q l'))" for l' t
    using remove_nth_filter_length [OF assms(2), of "\<lambda>i. item_tenant i = t"] by (auto simp: drop_from_def)
  show "set (lanes (drop_from q l i) l') \<subseteq> set (lanes q l')" for l'
    using set_remove_nth [of i "lanes q l"] by (auto simp: drop_from_def)
qed (use assms(2) in \<open>simp_all add: drop_from_def queue_limits_def\<close>)

lemma queue_inv_enqueue: "queue_inv q \<Longrightarrow> queue_inv (fst (enqueue q x))"
proof (cases "snd (enqueue q x)")
  case False
  assume "queue_inv q"
  with False show ?thesis using enqueue_bag(2) by (metis prod.collapse)
next
  case True
  assume inv: "queue_inv q"
  let ?q = "fst (enqueue q x)"
  have q: "?q = q\<lparr>lanes := (lanes q)(priorityLane x := lanes q (priorityLane x) @ [x])\<rparr>"
    and crit: "priorityLane x = CRITICAL \<Longrightarrow> getSize q < maxCapacity q + 10"
    and low: "priorityLane x \<noteq> CRITICAL \<Longrightarrow> getSize q < maxCapacity q \<and> getTenantCount q (item_tenant x) < maxPerTenantQuota q"
    using True by (auto simp: enqueue_def split: if_splits)
  have size: "getSize ?q = Suc (getSize q)" unfolding q by (cases "priorityLane x") (simp_all add: getSize_def)
  have le: "length (lower_items q) \<le> getSize q" by (simp add: lower_items_def getSize_def)
  have tl: "length (filter (\<lambda>i. item_tenant i = t) (lower_items q)) \<le> getTenantCount q t" for t
    by (simp add: lower_items_def getTenantCount_def laneOrder_def)
  have ll: "length (lower_items ?q) = length (lower_items q) + (if priorityLane x = CRITICAL then 0 else 1)"
    unfolding q by (cases "priorityLane x") (simp_all add: lower_items_def)
  have lt: "length (filter (\<lambda>i. item_tenant i = t) (lower_items ?q)) = length (filter (\<lambda>i. item_tenant i = t) (lower_items q))
      + (if priorityLane x \<noteq> CRITICAL \<and> item_tenant x = t then 1 else 0)" for t
    unfolding q by (cases "priorityLane x") (simp_all add: lower_items_def)
  have "getSize ?q \<le> maxCapacity q + 10" using size crit low by (cases "priorityLane x = CRITICAL") auto
  moreover have "length (lower_items ?q) \<le> maxCapacity q" using ll le low inv by (auto simp: queue_inv_def)
  moreover have "length (filter (\<lambda>i. item_tenant i = t) (lower_items ?q)) \<le> maxPerTenantQuota q" for t
    using lt [of t] tl [of t] low inv by (auto simp: queue_inv_def)
  moreover have "\<forall>l. \<forall>i \<in> set (lanes ?q l). priorityLane i = l" using inv unfolding q by (auto simp: queue_inv_def)
  moreover have "maxCapacity ?q = maxCapacity q" "maxPerTenantQuota ?q = maxPerTenantQuota q" unfolding q by simp_all
  ultimately show ?thesis by (simp add: queue_inv_def)
qed

lemma queue_inv_aging: "queue_inv q \<Longrightarrow> queue_inv (applyAging q now)"
proof -
  assume inv: "queue_inv q"
  let ?old = "\<lambda>i. shouldPromoteForAging (agingThresholdMs q) i now" and ?q = "applyAging q now"
  have split: "length (filter p xs) = length (filter p (filter ?old xs)) + length (filter p (filter (\<lambda>i. \<not> ?old i) xs))" for p xs
    by (induction xs) auto
  have split1: "length xs = length (filter ?old xs) + length (filter (\<lambda>i. \<not> ?old i) xs)" for xs
    by (induction xs) auto
  have mv: "filter (\<lambda>i. item_tenant i = t) (map (\<lambda>i. i\<lparr>priorityLane := INTERACTIVE\<rparr>) xs)
      = map (\<lambda>i. i\<lparr>priorityLane := INTERACTIVE\<rparr>) (filter (\<lambda>i. item_tenant i = t) xs)" for t xs
    by (induction xs) auto
  have "getSize ?q = getSize q" using split1 [of "lanes q NORMAL"] by (simp add: getSize_def applyAging_def Let_def)
  moreover have "length (lower_items ?q) = length (lower_items q)"
    using split1 [of "lanes q NORMAL"] by (simp add: lower_items_def applyAging_def Let_def)
  moreover have "length (filter (\<lambda>i. item_tenant i = t) (lower_items ?q)) = length (filter (\<lambda>i. item_tenant i = t) (lower_items q))" for t
    using split [of "\<lambda>i. item_tenant i = t" "lanes q NORMAL"] by (simp add: lower_items_def applyAging_def Let_def mv del: filter_filter)
  moreover have "\<forall>l. \<forall>i \<in> set (lanes ?q l). priorityLane i = l"
    using inv by (auto simp: queue_inv_def applyAging_def Let_def)
  moreover have "maxCapacity ?q = maxCapacity q" "maxPerTenantQuota ?q = maxPerTenantQuota q"
    by (simp_all add: applyAging_def Let_def)
  ultimately show ?thesis using inv by (simp add: queue_inv_def)
qed

lemma queue_inv_last: "queue_inv (q\<lparr>lastServedTenant := f\<rparr>) = queue_inv q"
  by (simp add: queue_inv_def getSize_def lower_items_def)

lemma queue_inv_step: "queue_inv q \<Longrightarrow> queue_inv (queue_step q op)"
proof (cases op)
  case (Dequeue now)
  assume "queue_inv q"
  then show ?thesis unfolding Dequeue queue_step.simps
    by (cases rule: dequeue_cases [of q now])
      (simp_all add: take_from_def Let_def queue_inv_last queue_inv_drop lane_index_less)
next
  case (Remove tid tenant)
  assume "queue_inv q"
  then show ?thesis unfolding Remove queue_step.simps
    by (cases rule: remove_cases [of q tid tenant]) (simp_all add: queue_inv_drop)
next
  case (PruneExpired now)
  assume inv: "queue_inv q"
  show ?thesis unfolding PruneExpired queue_step.simps
    by (rule queue_inv_less [OF inv]) (auto simp: pruneExpired_def queue_limits_def intro!: length_filter_le filter_length_mono)
qed (simp_all add: queue_inv_enqueue queue_inv_aging)

interpretation queue_ops: op_invariant queue_step queue_inv
  by unfold_locales (rule queue_inv_step)

lemma queue_limits_step: "queue_limits (queue_step q op) = queue_limits q"
proof (cases op)
  case (Dequeue now)
  show ?thesis unfolding Dequeue queue_step.simps
    by (cases rule: dequeue_cases [of q now]) (simp_all add: take_from_def drop_from_def queue_limits_def Let_def)
next
  case (Remove tid tenant)
  show ?thesis unfolding Remove queue_step.simps
    by (cases rule: remove_cases [of q tid tenant]) (simp_all add: drop_from_def queue_limits_def)
qed (simp_all add: enqueue_def pruneExpired_def applyAging_def queue_limits_def Let_def)

interpretation queue_config: op_invariant queue_step "\<lambda>q. queue_limits q = c" for c
  by unfold_locales (simp add: queue_limits_step)

section \<open>Nothing is lost or duplicated\<close>

text \<open>A store whose operations tell what they take in and what they give out, run on a list of operations.\<close>

fun account_run :: "('s \<Rightarrow> 'op \<Rightarrow> 's \<times> 'a list \<times> 'a list) \<Rightarrow> 's \<Rightarrow> 'op list \<Rightarrow> 's \<times> 'a list \<times> 'a list" where
  "account_run step s [] = (s, [], [])"
| "account_run step s (op # ops) =
     (case step s op of (s1, ins1, outs1) \<Rightarrow>
        case account_run step s1 ops of (s2, ins2, outs2) \<Rightarrow> (s2, ins1 @ ins2, outs1 @ outs2))"

locale conserving_store =
  fixes step :: "'s \<Rightarrow> 'op \<Rightarrow> 's \<times> 'a list \<times> 'a list"
    and content :: "'s \<Rightarrow> 'b multiset"
    and view :: "'a \<Rightarrow> 'b"
  assumes step_conserves:
    "step s op = (s', ins, outs) \<Longrightarrow> content s' + image_mset view (mset outs) = content s + image_mset view (mset ins)"
begin

lemma run_conserves:
  "account_run step s ops = (s', ins, outs) \<Longrightarrow>
   content s' + image_mset view (mset outs) = content s + image_mset view (mset ins)"
proof (induction ops arbitrary: s ins outs)
  case (Cons op ops)
  obtain s1 i1 o1 where s1: "step s op = (s1, i1, o1)" by (metis surj_pair)
  obtain i2 o2 where s2: "account_run step s1 ops = (s', i2, o2)" and io: "ins = i1 @ i2" "outs = o1 @ o2"
    using Cons.prems s1 by (auto split: prod.splits)
  have "content s' + image_mset view (mset o2) = content s1 + image_mset view (mset i2)" using Cons.IH [OF s2] .
  with step_conserves [OF s1] io show ?case by (simp add: ac_simps) (metis union_assoc union_commute)
qed simp

end

fun queue_account :: "exec_queue \<Rightarrow> queue_op \<Rightarrow> exec_queue \<times> scheduled_item list \<times> scheduled_item list" where
  "queue_account q (Enqueue x) = (let (q', ok) = enqueue q x in (q', if ok then [x] else [], []))"
| "queue_account q (Dequeue now) = (let (q', r) = dequeue q now in (q', [], case r of None \<Rightarrow> [] | Some x \<Rightarrow> [x]))"
| "queue_account q (Remove tid tenant) =
     (let (q', r) = queue_remove q tid tenant in (q', [], case r of None \<Rightarrow> [] | Some x \<Rightarrow> [x]))"
| "queue_account q (PruneExpired now) = (let (q', xs) = pruneExpired q now in (q', [], xs))"
| "queue_account q (ApplyAging now) = (applyAging q now, [], [])"

lemma queue_account_step: "fst (queue_account q op) = queue_step q op"
  by (cases op) (simp_all add: case_prod_unfold Let_def)

interpretation queue_store: conserving_store queue_account "\<lambda>q. image_mset core (queue_bag q)" core
proof
  fix q q' op ins outs
  assume a: "queue_account q op = (q', ins, outs)"
  show "image_mset core (queue_bag q') + image_mset core (mset outs) = image_mset core (queue_bag q) + image_mset core (mset ins)"
  proof (cases op)
    case (Enqueue x)
    obtain b where e: "enqueue q x = (q', b)" using a Enqueue by (auto simp: Let_def split: prod.splits)
    then show ?thesis using a Enqueue enqueue_bag [of q x q'] by (cases b) (auto simp: Let_def)
  next
    case (Dequeue now)
    obtain r where e: "dequeue q now = (q', r)" using a Dequeue by (auto simp: Let_def split: prod.splits)
    then show ?thesis using a Dequeue dequeue_bag [of q now q'] by (cases r) (auto simp: Let_def)
  next
    case (Remove tid tenant)
    obtain r where e: "queue_remove q tid tenant = (q', r)" using a Remove by (auto simp: Let_def split: prod.splits)
    then show ?thesis using a Remove remove_bag [of q tid tenant q'] by (cases r) (auto simp: Let_def)
  next
    case (PruneExpired now)
    then have "ins = []" "q' = fst (pruneExpired q now)" "outs = snd (pruneExpired q now)"
      using a by (auto simp: case_prod_unfold Let_def)
    then show ?thesis using prune_bag [of q now] by (metis add.right_neutral image_mset_empty image_mset_union mset.simps(1))
  next
    case (ApplyAging now)
    then show ?thesis using a aging_bag [of q now] by auto
  qed
qed

section \<open>Properties\<close>

definition test_item :: "string \<Rightarrow> string \<Rightarrow> lane \<Rightarrow> scheduled_item" where
  "test_item tid tenant l =
     \<lparr>request = \<lparr>rq_task_id = tid, rq_step_id = ''s'', rq_correlation_id = ''c'', rq_leaseHeader = test_lease,
        rq_capabilityId = ''fs.read'', rq_runtimeCategory = ''fs'', rq_payload = [], rq_timeoutMs = None,
        rq_idempotency_key = None, rq_message_id = None, rq_riskTier = None, rq_requiresApproval = False,
        rq_actionIdentifier = None\<rparr>,
      priorityLane = l, item_tenant = tenant, queuedAt = 0, item_expiresAt = Some 1000, retryCount = 0, nextRetryAt = None\<rparr>"

definition test_queue_ops :: "queue_op list" where
  "test_queue_ops =
     [Enqueue (test_item ''1'' ''a'' NORMAL), Enqueue (test_item ''2'' ''a'' NORMAL), Enqueue (test_item ''3'' ''b'' NORMAL),
      Enqueue (test_item ''4'' ''b'' BACKGROUND), Dequeue 5]"

definition test_queue :: exec_queue where
  "test_queue = foldl queue_step (ExecutionQueue 100 20 30000) test_queue_ops"

text \<open>C14. Whatever is done to a queue, the items it accepted are exactly those it has given out (served,
  removed or expired) together with those it still holds: none is lost, duplicated or invented. The
  lane of an item, which ageing may raise, is left out of the comparison.\<close>
theorem queue_conserves:
  assumes "account_run queue_account (ExecutionQueue cap quota aging) ops = (q, accepted, given)"
  shows "image_mset core (queue_bag q) + image_mset core (mset given) = image_mset core (mset accepted)"
  using queue_store.run_conserves [OF assms]
  by (simp add: ExecutionQueue_def queue_bag_def queue_items_def laneOrder_def)

theorem queue_conserves_witness:
  "case account_run queue_account (ExecutionQueue 100 20 30000) test_queue_ops of
     (q, accepted, given) \<Rightarrow> length accepted = 4 \<and> map (\<lambda>i. rq_task_id (request i)) given = [''1'']
       \<and> image_mset core (queue_bag q) + image_mset core (mset given) = image_mset core (mset accepted)"
proof -
  let ?r = "account_run queue_account (ExecutionQueue 100 20 30000) test_queue_ops"
  have "length (fst (snd ?r)) = 4" "map (\<lambda>i. rq_task_id (request i)) (snd (snd ?r)) = [''1'']" by code_simp+
  moreover have "?r = (fst ?r, fst (snd ?r), snd (snd ?r))" by simp
  ultimately show ?thesis using queue_conserves [of 100 20 30000 test_queue_ops] by (simp add: case_prod_unfold)
qed



text \<open>\<open>dequeue\<close> returns nothing, and changes nothing, exactly when no lane has an item that may be served
  (a retry only once it is due); otherwise it returns an item of the first such lane in priority order.
  In the retry lane that is the oldest due one; in another lane it is the oldest of its tenant, and of a
  tenant other than the one served last from that lane if one is waiting.\<close>
theorem dequeue_priority:
  "case dequeue q now of
     (q', None) \<Rightarrow> q' = q \<and> (\<forall>l. \<not> eligible q now l)
   | (q', Some x) \<Rightarrow> (\<exists>l i. eligible q now l \<and> (\<forall>l' \<in> set (takeWhile (\<lambda>y. y \<noteq> l) laneOrder). \<not> eligible q now l')
       \<and> i < length (lanes q l) \<and> x = lanes q l ! i
       \<and> (if l = RETRY then retry_due now x \<and> (\<forall>j < i. \<not> retry_due now (lanes q l ! j))
          else (\<forall>j < i. item_tenant (lanes q l ! j) \<noteq> item_tenant x)
            \<and> (truthy (lastServedTenant q l) \<and> (\<exists>y \<in> set (lanes q l). Some (item_tenant y) \<noteq> lastServedTenant q l)
                \<longrightarrow> Some (item_tenant x) \<noteq> lastServedTenant q l)))"
proof (cases rule: dequeue_cases [of q now])
  case none
  then show ?thesis by simp
next
  case (some l i)
  have el: "eligible q now l" using some(2) lane_index_None [of q now l] by simp
  have "if l = RETRY then retry_due now (lanes q l ! i) \<and> (\<forall>j < i. \<not> retry_due now (lanes q l ! j))
      else (\<forall>j < i. item_tenant (lanes q l ! j) \<noteq> item_tenant (lanes q l ! i))
        \<and> (truthy (lastServedTenant q l) \<and> (\<exists>y \<in> set (lanes q l). Some (item_tenant y) \<noteq> lastServedTenant q l)
            \<longrightarrow> Some (item_tenant (lanes q l ! i)) \<noteq> lastServedTenant q l)"
  proof (cases "l = RETRY")
    case True
    then show ?thesis using some(2) by (simp add: lane_index_def find_index_Some split: if_splits)
  next
    case False
    then have rr: "findRoundRobinIndex (lastServedTenant q l) (lanes q l) = Some i"
      using some(2) by (simp add: lane_index_def split: if_splits)
    have "Some (item_tenant (lanes q l ! i)) \<noteq> lastServedTenant q l"
      if tr: "truthy (lastServedTenant q l)" and other: "\<exists>y \<in> set (lanes q l). Some (item_tenant y) \<noteq> lastServedTenant q l"
    proof -
      obtain t where t: "lastServedTenant q l = Some t" "t \<noteq> []" using tr by (auto simp: truthy_iff)
      then have "item_tenant (lanes q l ! i) \<noteq> t" using rr other by (intro round_robin_alternates [of t]) auto
      then show ?thesis using t by simp
    qed
    then show ?thesis using False findRoundRobinIndex_oldest [OF rr] by simp
  qed
  moreover have d: "dequeue q now = (fst (take_from q l i), Some (lanes q l ! i))"
    using some(1) by (simp add: take_from_def Let_def)
  ultimately show ?thesis
    unfolding d prod.case option.case using some(3) el lane_index_less [OF some(2)]
    by (intro exI [of _ l] exI [of _ i] conjI) (assumption | rule refl)+
qed

theorem dequeue_priority_witness:
  "map_option (\<lambda>x. rq_task_id (request x)) (snd (dequeue test_queue 6)) = Some ''3'' \<and> (\<exists>l. eligible test_queue 6 l)"
proof -
  have "map_option (\<lambda>x. rq_task_id (request x)) (snd (dequeue test_queue 6)) = Some ''3''" by code_simp
  with dequeue_priority [of test_queue 6] show ?thesis by (auto split: prod.splits option.splits)
qed



end
