(* ===== verification/Orchestrator.thy ===== *)
theory Orchestrator
  imports Execution_Queue Policy Task_Lifecycle
begin

text \<open>
  The desktop agent's orchestrator (\<open>apps/desktop-agent/src/orchestrator/agent-orchestrator.ts\<close>) with
  the runtime router (\<open>runtime-router.ts\<close>), the capability registry
  (\<open>registry/capability-registry.ts\<close>) and the detector of high-risk capabilities
  (\<open>packages/contracts/src/approval/index.ts\<close>).

  \<open>executeTask\<close> is asynchronous: several executions are under way at once. It is cut at its
  suspension points into steps that run without interruption: \<open>enterTask\<close> (gates 1 to 3),
  \<open>reserveSlot\<close> (the lease and gates 4 to 8, the reservation, and the demand for approval),
  \<open>decide_approval\<close> (the answer to the approval prompt) and \<open>finishTask\<close> (the end of the runtime's work).
  An execution under way is a \<open>flight\<close>; the steps of different flights, cancellations and timeouts
  may come in any order, and \<open>orch_step\<close> is one of them. What the runtimes and the approval host
  answer is an argument of the step. The awaits between the reservation and the prompt or the runtime
  (checkpoints) are within one step. Error texts, redaction of outputs, checkpoints, telemetry and
  notifications are not kept; \<open>runs\<close> is a record of the runtime invocations for the proofs.

  Proved, for every interleaving: at most five executions hold a slot and the counter is exact; every
  runtime invocation had a valid lease for this device and tenant and a capability of the runtime,
  and the human's consent where the capability asks for it and a host is there to ask; a cancelled
  task never ends as completed; and a message that was accepted once is refused for fifteen minutes.
\<close>

section \<open>Which capabilities\<close>

definition isHighRiskCapability :: "string option \<Rightarrow> risk_tier option \<Rightarrow> string option \<Rightarrow> bool" where
  "isHighRiskCapability capability tier actionId =
     (let cap = trim (to_lower (or_else capability [])); act = trim (to_lower (or_else actionId [])) in
      if tier = Some RISK_HIGH \<or> tier = Some RISK_CRITICAL then True
      else if str_includes cap ''terminal.execute'' \<or> str_includes cap ''terminal.run''
        \<or> str_includes cap ''terminal:execute'' \<or> str_includes cap ''terminal:run''
        \<or> starts_with cap ''terminal.'' \<or> cap = ''localterminal.executecommand''
        \<or> str_includes act ''terminal.execute'' \<or> str_includes act ''exec'' then True
      else if str_includes cap ''fs.delete'' \<or> str_includes cap ''filesystem.delete'' \<or> cap = ''fs:delete''
        \<or> str_includes act ''delete'' \<or> str_includes act ''format'' \<or> str_includes act ''destroy'' then True
      else if str_includes cap ''vault.delete'' \<or> str_includes cap ''vault.purge'' \<or> str_includes cap ''security.modify''
        \<or> str_includes act ''privilege'' \<or> str_includes act ''sudo'' then True
      else False)"

definition VALID_CATEGORIES :: "string list" where
  "VALID_CATEGORIES =
     [''filesystem'', ''fs'', ''terminal'', ''browser'', ''plugin'', ''device'', ''memory'', ''localai'', ''local-ai'']"

text \<open>\<open>id.split('.')[0] || id.split(':')[0]\<close>\<close>

definition capability_prefix :: "string \<Rightarrow> string" where
  "capability_prefix c =
     (let p = takeWhile (\<lambda>x. x \<noteq> CHR ''.'') c in if p \<noteq> [] then p else takeWhile (\<lambda>x. x \<noteq> CHR '':'') c)"

text \<open>The registry is the list of the registered identifiers.\<close>

definition registerCapability :: "string list \<Rightarrow> string \<Rightarrow> string list option" where
  "registerCapability reg c = (if c \<in> set reg then None else Some (reg @ [c]))"

definition hasCapability :: "string list \<Rightarrow> string \<Rightarrow> bool" where
  "hasCapability reg c =
     (if c = [] then False
      else if c \<in> set reg then True
      else to_lower (capability_prefix c) \<in> set VALID_CATEGORIES)"

definition resolveRuntimeCategory :: "string list \<Rightarrow> string \<Rightarrow> string option" where
  "resolveRuntimeCategory reg c =
     (if \<not> hasCapability reg c then None
      else let category = to_lower (capability_prefix c) in
        if category = ''fs'' then Some ''filesystem''
        else if category = ''localai'' then Some ''local-ai''
        else if category \<in> set VALID_CATEGORIES then Some category
        else None)"

definition normalized_runtime :: "string \<Rightarrow> string" where
  "normalized_runtime r =
     (let actual = to_lower r; n = (if actual = ''fs'' then ''filesystem'' else actual)
      in if n = ''localai'' then ''local-ai'' else n)"

definition validateCapabilityRuntimeMatch :: "string list \<Rightarrow> string \<Rightarrow> string \<Rightarrow> bool" where
  "validateCapabilityRuntimeMatch reg c r =
     (if c = [] \<or> r = [] then False
      else case resolveRuntimeCategory reg c of
        None \<Rightarrow> False
      | Some expected \<Rightarrow> expected = normalized_runtime r)"

section \<open>State\<close>

datatype run_status = RUN_QUEUED | RUN_RUNNING | RUN_PAUSED | RUN_AWAITING_APPROVAL | RUN_COMPLETED | RUN_FAILED | RUN_CANCELED

record task_result =
  res_success :: bool
  res_taskId :: string
  res_stepId :: string
  res_errorCode :: "string option"
  res_receiptSignature :: "string option"
  res_approvalReceiptHash :: "string option"

datatype stage = Entered | AwaitingDecision string | Executing "string option"

record flight =
  fl_request :: task_request
  fl_stage :: stage
  fl_aborted :: bool
  fl_timedOut :: bool

text \<open>Readings of the clock and of \<open>randomUUID\<close> in one step.\<close>

record tick =
  clock :: "nat \<Rightarrow> int"
  uuids :: "nat \<Rightarrow> string"

record agent_env =
  ae_platform :: platform
  ae_boundary :: lease_boundary
  ae_deviceId :: string
  ae_tenantId :: string
  ae_registry :: "string list"
  ae_approvalHost :: bool

record orchestrator =
  activeCount :: nat
  processedMessageIds :: "(string, int) jsmap"
  taskStateMap :: "(string, run_status \<times> string) jsmap"
  activeCancellations :: "(string, nat) jsmap"
  taskPendingPrompts :: "(string, string) jsmap"
  flights :: "(nat, flight) jsmap"
  nextFlight :: nat
  runs :: "(task_request \<times> tick \<times> bool) list"

definition maxConcurrency :: nat where "maxConcurrency = 5"

definition maxReplayCacheSize :: nat where "maxReplayCacheSize = 10000"

definition REPLAY_TTL :: int where "REPLAY_TTL = 900000"

definition AgentOrchestrator :: orchestrator where
  "AgentOrchestrator =
     \<lparr>activeCount = 0, processedMessageIds = [], taskStateMap = [], activeCancellations = [], taskPendingPrompts = [],
      flights = [], nextFlight = 0, runs = []\<rparr>"

section \<open>Steps of an execution\<close>

definition failed :: "task_request \<Rightarrow> string \<Rightarrow> task_result" where
  "failed r ec =
     \<lparr>res_success = False, res_taskId = rq_task_id r, res_stepId = rq_step_id r, res_errorCode = Some ec,
      res_receiptSignature = None, res_approvalReceiptHash = None\<rparr>"

definition unsafe_lifecycle :: "agent_state option \<Rightarrow> bool" where
  "unsafe_lifecycle life \<longleftrightarrow> (case life of None \<Rightarrow> False | Some s \<Rightarrow> s = STOPPING \<or> s = STOPPED \<or> s = AGENT_FAILED)"

definition pruneOldProcessedMessages :: "int \<Rightarrow> (string, int) jsmap \<Rightarrow> (string, int) jsmap" where
  "pruneOldProcessedMessages now m =
     (let live = filter (\<lambda>(k, e). \<not> now > e) m
      in if length live \<ge> maxReplayCacheSize then drop 2000 live else live)"

definition message_key :: "task_request \<Rightarrow> string" where
  "message_key r =
     or_else (rq_message_id r) (or_else (rq_idempotency_key r) (rq_task_id r @ '':'' @ rq_step_id r))"

definition getTaskStatus :: "orchestrator \<Rightarrow> string \<Rightarrow> string option \<Rightarrow> run_status option" where
  "getTaskStatus o1 tid tenant =
     (case js_get (taskStateMap o1) tid of
        None \<Rightarrow> None
      | Some (st, t) \<Rightarrow> if truthy tenant \<and> tenant \<noteq> Some t then None else Some st)"

definition enterTask :: "orchestrator \<Rightarrow> task_request \<Rightarrow> agent_state option \<Rightarrow> int \<Rightarrow> orchestrator \<times> (task_result + nat)" where
  "enterTask o1 r life now =
     (if unsafe_lifecycle life then (o1, Inl (failed r ''LIFECYCLE_DENIED''))
      else if (case js_get (taskStateMap o1) (rq_task_id r) of
                 None \<Rightarrow> False | Some (st, _) \<Rightarrow> st = RUN_RUNNING \<or> st = RUN_QUEUED)
      then (o1, Inl (failed r ''DUPLICATE_TASK_ID''))
      else
        let o2 = o1\<lparr>processedMessageIds := pruneOldProcessedMessages now (processedMessageIds o1)\<rparr>
        in if (case js_get (processedMessageIds o2) (message_key r) of None \<Rightarrow> False | Some e \<Rightarrow> now \<le> e)
           then (o2, Inl (failed r ''REPLAY_REJECTED''))
           else (o2\<lparr>processedMessageIds := js_set (message_key r) (now + REPLAY_TTL) (processedMessageIds o2),
                    flights := js_set (nextFlight o1) \<lparr>fl_request = r, fl_stage = Entered, fl_aborted = False, fl_timedOut = False\<rparr>
                      (flights o1),
                    nextFlight := nextFlight o1 + 1\<rparr>, Inr (nextFlight o1)))"

text \<open>Gates 4 to 7.\<close>

definition lease_decision :: "agent_env \<Rightarrow> execution_lease_header \<Rightarrow> tick \<Rightarrow> lease_rejection + execution_lease_header" where
  "lease_decision env hdr t =
     validateLease (ae_platform env) (ae_boundary env) hdr None None (clock t 0) (clock t 1) (clock t 2) (clock t 3)
       (uuids t 0) (uuids t 1) (uuids t 2)"

definition gate_error :: "agent_env \<Rightarrow> task_request \<Rightarrow> agent_state option \<Rightarrow> tick \<Rightarrow> string option" where
  "gate_error env r life t =
     (case lease_decision env (rq_leaseHeader r) t of
        Inl _ \<Rightarrow> Some ''LEASE_DENIED''
      | Inr _ \<Rightarrow>
         if agent_id (rq_leaseHeader r) \<noteq> ae_deviceId env \<or> tenant_id (rq_leaseHeader r) \<noteq> ae_tenantId env
         then Some ''TENANT_DEVICE_MISMATCH''
         else if \<not> hasCapability (ae_registry env) (rq_capabilityId r) then Some ''CAPABILITY_NOT_FOUND''
         else if \<not> validateCapabilityRuntimeMatch (ae_registry env) (rq_capabilityId r) (rq_runtimeCategory r)
         then Some ''RUNTIME_MISMATCH''
         else if nullish (rq_timeoutMs r) 30000 \<le> 0 \<or> nullish (rq_timeoutMs r) 30000 > 300000 then Some ''INVALID_TIMEOUT''
         else if unsafe_lifecycle life then Some ''LIFECYCLE_DENIED''
         else None)"

definition requiresApproval :: "task_request \<Rightarrow> bool" where
  "requiresApproval r \<longleftrightarrow>
     rq_requiresApproval r \<or> payload_flag r ''requiresApproval''
     \<or> isHighRiskCapability (Some (rq_capabilityId r)) (rq_riskTier r) (rq_actionIdentifier r)"

definition set_status :: "task_request \<Rightarrow> run_status \<Rightarrow> orchestrator \<Rightarrow> orchestrator" where
  "set_status r st o1 = o1\<lparr>taskStateMap := js_set (rq_task_id r) (st, tenant_id (rq_leaseHeader r)) (taskStateMap o1)\<rparr>"

definition set_stage :: "nat \<Rightarrow> flight \<Rightarrow> stage \<Rightarrow> orchestrator \<Rightarrow> orchestrator" where
  "set_stage f fl st o1 = o1\<lparr>flights := js_set f (fl\<lparr>fl_stage := st\<rparr>) (flights o1)\<rparr>"

text \<open>Leaving \<open>executeTask\<close> before and after the reservation of a slot.\<close>

definition leave :: "nat \<Rightarrow> orchestrator \<Rightarrow> orchestrator" where
  "leave f o1 = o1\<lparr>flights := js_delete f (flights o1)\<rparr>"

definition release :: "nat \<Rightarrow> orchestrator \<Rightarrow> orchestrator" where
  "release f o1 = (leave f o1)\<lparr>activeCount := activeCount o1 - 1\<rparr>"

definition invoke_runtime :: "nat \<Rightarrow> flight \<Rightarrow> string option \<Rightarrow> tick \<Rightarrow> bool \<Rightarrow> orchestrator \<Rightarrow> orchestrator" where
  "invoke_runtime f fl hash t approved o1 =
     (set_stage f fl (Executing hash) o1)\<lparr>runs := runs o1 @ [(fl_request fl, t, approved)]\<rparr>"

text \<open>The result is \<open>None\<close> as long as the execution goes on, and when \<open>executeTask\<close> throws. \<open>prompt\<close> is the
  identifier the approval host gives to the prompt it presents, or \<open>None\<close> when \<open>presentPrompt\<close> throws.\<close>

definition claim_slot :: "nat \<Rightarrow> task_request \<Rightarrow> orchestrator \<Rightarrow> orchestrator" where
  "claim_slot f r o1 =
     set_status r RUN_RUNNING (o1\<lparr>activeCount := activeCount o1 + 1,
       activeCancellations := js_set (rq_task_id r) f (activeCancellations o1)\<rparr>)"

definition start_flight ::
  "agent_env \<Rightarrow> nat \<Rightarrow> flight \<Rightarrow> tick \<Rightarrow> string option \<Rightarrow> orchestrator \<Rightarrow> orchestrator \<times> task_result option" where
  "start_flight env f fl t prompt o2 =
     (let r = fl_request fl in
      if requiresApproval r \<and> \<not> ae_approvalHost env \<and> rq_requiresApproval r
      then (release f o2, Some (failed r ''APPROVAL_REQUIRED''))
      else if requiresApproval r \<and> ae_approvalHost env
      then (case prompt of
              None \<Rightarrow> (release f (set_status r RUN_AWAITING_APPROVAL o2), None)
            | Some p \<Rightarrow> ((set_stage f fl (AwaitingDecision p) (set_status r RUN_AWAITING_APPROVAL o2))
                \<lparr>taskPendingPrompts := js_set (rq_task_id r) p (taskPendingPrompts o2)\<rparr>, None))
      else (invoke_runtime f fl None t False o2, None))"

definition reserveSlot ::
  "agent_env \<Rightarrow> orchestrator \<Rightarrow> nat \<Rightarrow> agent_state option \<Rightarrow> tick \<Rightarrow> string option \<Rightarrow> orchestrator \<times> task_result option" where
  "reserveSlot env o1 f life t prompt =
     (case js_get (flights o1) f of
        None \<Rightarrow> (o1, None)
      | Some fl \<Rightarrow>
         (if fl_stage fl \<noteq> Entered then (o1, None)
          else let r = fl_request fl in
            case gate_error env r life t of
              Some ec \<Rightarrow> (leave f o1, Some (failed r ec))
            | None \<Rightarrow>
               if activeCount o1 \<ge> maxConcurrency then (leave f o1, Some (failed r ''CONCURRENCY_EXCEEDED''))
               else start_flight env f fl t prompt (claim_slot f r o1)))"

datatype approval_outcome = Expired | Denied | Approved string | WaitFailed

definition aborted_code :: "flight \<Rightarrow> string" where
  "aborted_code fl = (if fl_timedOut fl then ''TASK_TIMEOUT'' else ''TASK_CANCELED'')"

text \<open>\<open>waitForDecision\<close> that fails without an abort is thrown on: the slot is released and there is no result.\<close>

definition decide_approval ::
  "orchestrator \<Rightarrow> nat \<Rightarrow> approval_outcome \<Rightarrow> tick \<Rightarrow> orchestrator \<times> task_result option" where
  "decide_approval o1 f d t =
     (case js_get (flights o1) f of
        None \<Rightarrow> (o1, None)
      | Some fl \<Rightarrow>
         (case fl_stage fl of
            AwaitingDecision prompt \<Rightarrow>
              (let r = fl_request fl; o2 = o1\<lparr>taskPendingPrompts := js_delete (rq_task_id r) (taskPendingPrompts o1)\<rparr>
               in case d of
                    Expired \<Rightarrow> (release f (set_status r RUN_FAILED o2), Some (failed r ''APPROVAL_EXPIRED''))
                  | Denied \<Rightarrow> (release f (set_status r RUN_FAILED o2), Some (failed r ''APPROVAL_DENIED''))
                  | Approved hash \<Rightarrow> (invoke_runtime f fl (Some hash) t True (set_status r RUN_RUNNING o2), None)
                  | WaitFailed \<Rightarrow> (release f o2, if fl_aborted fl then Some (failed r (aborted_code fl)) else None))
          | _ \<Rightarrow> (o1, None)))"

text \<open>What the runtime did: its output, or the code of the error it threw.\<close>

datatype runtime_outcome = RuntimeOk | RuntimeError "string option"

definition completed :: "platform \<Rightarrow> task_request \<Rightarrow> string option \<Rightarrow> task_result" where
  "completed P r hash =
     \<lparr>res_success = True, res_taskId = rq_task_id r, res_stepId = rq_step_id r, res_errorCode = None,
      res_receiptSignature = Some (sha256 P (rq_task_id r @ '':'' @ rq_step_id r @ '':COMPLETED'')),
      res_approvalReceiptHash = hash\<rparr>"

definition finishTask ::
  "agent_env \<Rightarrow> orchestrator \<Rightarrow> nat \<Rightarrow> runtime_outcome \<Rightarrow> orchestrator \<times> task_result option" where
  "finishTask env o1 f out =
     (case js_get (flights o1) f of
        None \<Rightarrow> (o1, None)
      | Some fl \<Rightarrow>
         (case fl_stage fl of
            Executing hash \<Rightarrow>
              (let r = fl_request fl;
                   o2 = o1\<lparr>activeCancellations := js_delete (rq_task_id r) (activeCancellations o1)\<rparr>;
                   isCanceled = (map_option fst (js_get (taskStateMap o1) (rq_task_id r)) = Some RUN_CANCELED
                     \<or> (fl_aborted fl \<and> \<not> fl_timedOut fl));
                   (final, result) =
                     (if isCanceled then (RUN_CANCELED, failed r ''TASK_CANCELED'')
                      else if fl_timedOut fl then (RUN_FAILED, failed r ''TASK_TIMEOUT'')
                      else case out of
                        RuntimeError ec \<Rightarrow> (RUN_FAILED, failed r (or_else ec ''EXECUTION_ERROR''))
                      | RuntimeOk \<Rightarrow> (RUN_COMPLETED, completed (ae_platform env) r hash))
               in (release f (set_status r final o2), Some result))
          | _ \<Rightarrow> (o1, None)))"

text \<open>The timer of a flight that holds a slot.\<close>

definition timeoutTask :: "orchestrator \<Rightarrow> nat \<Rightarrow> orchestrator" where
  "timeoutTask o1 f =
     (case js_get (flights o1) f of
        None \<Rightarrow> o1
      | Some fl \<Rightarrow> if fl_stage fl = Entered then o1
                   else o1\<lparr>flights := js_set f (fl\<lparr>fl_aborted := True, fl_timedOut := True\<rparr>) (flights o1)\<rparr>)"

definition abort_flight :: "nat option \<Rightarrow> orchestrator \<Rightarrow> orchestrator" where
  "abort_flight x o1 =
     (case x of
        None \<Rightarrow> o1
      | Some f \<Rightarrow> (case js_get (flights o1) f of
                    None \<Rightarrow> o1
                  | Some fl \<Rightarrow> o1\<lparr>flights := js_set f (fl\<lparr>fl_aborted := True\<rparr>) (flights o1)\<rparr>))"

text \<open>The second argument counts as a tenant when it contains a hyphen.\<close>

definition orch_cancelTask :: "agent_env \<Rightarrow> orchestrator \<Rightarrow> string \<Rightarrow> string option \<Rightarrow> orchestrator \<times> bool" where
  "orch_cancelTask env o1 tid tenantOrReason =
     (let target = (if truthy tenantOrReason \<and> CHR ''-'' \<in> set (the tenantOrReason) then tenantOrReason else None) in
      case js_get (taskStateMap o1) tid of
        None \<Rightarrow> (o1, False)
      | Some (st, tenant) \<Rightarrow>
          if truthy target \<and> target \<noteq> Some tenant then (o1, False)
          else if st = RUN_COMPLETED \<or> st = RUN_FAILED \<or> st = RUN_CANCELED then (o1, False)
          else
            let o2 = abort_flight (js_get (activeCancellations o1) tid)
                  (o1\<lparr>taskStateMap := js_set tid (RUN_CANCELED, tenant) (taskStateMap o1)\<rparr>)
            in (if truthy (js_get (taskPendingPrompts o2) tid) \<and> ae_approvalHost env
                then o2\<lparr>taskPendingPrompts := js_delete tid (taskPendingPrompts o2)\<rparr> else o2, True))"

datatype orch_op =
    EnterTask task_request "agent_state option" int
  | ReserveSlot nat "agent_state option" tick "string option"
  | Decide nat approval_outcome tick
  | FinishTask nat runtime_outcome
  | TimeoutTask nat
  | CancelTask string "string option"

fun orch_step :: "agent_env \<Rightarrow> orchestrator \<Rightarrow> orch_op \<Rightarrow> orchestrator" where
  "orch_step env o1 (EnterTask r life now) = fst (enterTask o1 r life now)"
| "orch_step env o1 (ReserveSlot f life t prompt) = fst (reserveSlot env o1 f life t prompt)"
| "orch_step env o1 (Decide f d t) = fst (decide_approval o1 f d t)"
| "orch_step env o1 (FinishTask f out) = fst (finishTask env o1 f out)"
| "orch_step env o1 (TimeoutTask f) = timeoutTask o1 f"
| "orch_step env o1 (CancelTask tid x) = fst (orch_cancelTask env o1 tid x)"

section \<open>Slots\<close>

definition holds_slot :: "flight \<Rightarrow> bool" where
  "holds_slot fl \<longleftrightarrow> fl_stage fl \<noteq> Entered"

definition slot_count :: "orchestrator \<Rightarrow> nat" where
  "slot_count o1 = length (filter (\<lambda>(_, fl). holds_slot fl) (flights o1))"

definition slots_inv :: "orchestrator \<Rightarrow> bool" where
  "slots_inv o1 \<longleftrightarrow> activeCount o1 = slot_count o1 \<and> activeCount o1 \<le> maxConcurrency
     \<and> js_map_wf (flights o1) \<and> (\<forall>f \<in> set (js_keys (flights o1)). f < nextFlight o1)"

named_theorems orch_simps \<open>fields after the building blocks of a step\<close>

lemma block_fields [orch_simps]:
  "activeCount (set_status r st o1) = activeCount o1" "flights (set_status r st o1) = flights o1"
  "nextFlight (set_status r st o1) = nextFlight o1" "runs (set_status r st o1) = runs o1"
  "processedMessageIds (set_status r st o1) = processedMessageIds o1"
  "activeCount (set_stage f fl s o1) = activeCount o1" "flights (set_stage f fl s o1) = js_set f (fl\<lparr>fl_stage := s\<rparr>) (flights o1)"
  "nextFlight (set_stage f fl s o1) = nextFlight o1" "runs (set_stage f fl s o1) = runs o1"
  "processedMessageIds (set_stage f fl s o1) = processedMessageIds o1"
  "activeCount (leave f o1) = activeCount o1" "flights (leave f o1) = js_delete f (flights o1)" "nextFlight (leave f o1) = nextFlight o1"
  "runs (leave f o1) = runs o1" "processedMessageIds (leave f o1) = processedMessageIds o1"
  "activeCount (release f o1) = activeCount o1 - 1" "flights (release f o1) = js_delete f (flights o1)" "nextFlight (release f o1) = nextFlight o1"
  "runs (release f o1) = runs o1" "processedMessageIds (release f o1) = processedMessageIds o1"
  "activeCount (invoke_runtime f fl h t a o1) = activeCount o1"
  "flights (invoke_runtime f fl h t a o1) = js_set f (fl\<lparr>fl_stage := Executing h\<rparr>) (flights o1)"
  "nextFlight (invoke_runtime f fl h t a o1) = nextFlight o1" "runs (invoke_runtime f fl h t a o1) = runs o1 @ [(fl_request fl, t, a)]"
  "processedMessageIds (invoke_runtime f fl h t a o1) = processedMessageIds o1"
  by (simp_all add: set_status_def set_stage_def leave_def release_def invoke_runtime_def)

text \<open>
  What a step does to the flights, the counter and the record of the runs: nothing, a new flight,
  the end of a flight, or a change of one flight, which may claim a slot (when there is a free one and
  the gates are passed) or invoke its runtime.
\<close>

definition claims :: "agent_env \<Rightarrow> orch_op \<Rightarrow> orchestrator \<Rightarrow> flight \<Rightarrow> bool" where
  "claims env op o1 fl \<longleftrightarrow> activeCount o1 < maxConcurrency
     \<and> (\<exists>f life t prompt. op = ReserveSlot f life t prompt \<and> gate_error env (fl_request fl) life t = None)"

inductive orch_effect :: "agent_env \<Rightarrow> orch_op \<Rightarrow> orchestrator \<Rightarrow> orchestrator \<Rightarrow> bool" for env op o1 where
  same: "\<lbrakk>flights o2 = flights o1; nextFlight o2 = nextFlight o1; activeCount o2 = activeCount o1; runs o2 = runs o1\<rbrakk>
    \<Longrightarrow> orch_effect env op o1 o2"
| added: "\<lbrakk>flights o2 = js_set (nextFlight o1) fl (flights o1); nextFlight o2 = nextFlight o1 + 1;
    activeCount o2 = activeCount o1; runs o2 = runs o1; fl_stage fl = Entered\<rbrakk> \<Longrightarrow> orch_effect env op o1 o2"
| ended: "\<lbrakk>js_get (flights o1) f = Some fl; flights o2 = js_delete f (flights o1); nextFlight o2 = nextFlight o1;
    activeCount o2 = (if holds_slot fl then activeCount o1 - 1 else activeCount o1); runs o2 = runs o1\<rbrakk>
    \<Longrightarrow> orch_effect env op o1 o2"
| changed: "\<lbrakk>js_get (flights o1) f = Some fl; flights o2 = js_set f fl' (flights o1); nextFlight o2 = nextFlight o1;
    fl_request fl' = fl_request fl; fl_aborted fl \<Longrightarrow> fl_aborted fl'; holds_slot fl \<Longrightarrow> holds_slot fl';
    activeCount o2 = (if holds_slot fl' \<and> \<not> holds_slot fl then activeCount o1 + 1 else activeCount o1);
    holds_slot fl' \<Longrightarrow> holds_slot fl \<or> claims env op o1 fl;
    runs o2 = runs o1 @ xs; xs \<noteq> [] \<Longrightarrow> holds_slot fl';
    \<And>r t a. (r, t, a) \<in> set xs \<Longrightarrow> r = fl_request fl \<and> (requiresApproval r \<and> ae_approvalHost env \<longrightarrow> a)\<rbrakk>
    \<Longrightarrow> orch_effect env op o1 o2"

lemma effect_enter: "orch_effect env (EnterTask r life now) o1 (fst (enterTask o1 r life now))"
proof (cases "snd (enterTask o1 r life now)")
  case (Inl e)
  then show ?thesis by (intro same) (auto simp: enterTask_def Let_def split: if_splits)
next
  case (Inr f)
  then show ?thesis
    by (intro added [where fl = "\<lparr>fl_request = r, fl_stage = Entered, fl_aborted = False, fl_timedOut = False\<rparr>"])
      (auto simp: enterTask_def Let_def split: if_splits)
qed

lemma effect_release:
  assumes "js_get (flights o1) f = Some fl" "holds_slot fl" "flights o2 = flights o1" "nextFlight o2 = nextFlight o1"
    "activeCount o2 = activeCount o1" "runs o2 = runs o1"
  shows "orch_effect env op o1 (release f o2)"
  using assms by (intro ended [of o1 f fl]) (simp_all add: orch_simps)

lemma effect_start:
  assumes fl: "js_get (flights o1) f = Some fl" "fl_stage fl = Entered" and "claims env op o1 fl"
  shows "orch_effect env op o1 (fst (start_flight env f fl t prompt (claim_slot f (fl_request fl) o1)))"
proof -
  let ?r = "fl_request fl" and ?o = "claim_slot f (fl_request fl) o1"
  have claimed: "activeCount ?o = activeCount o1 + 1" "flights ?o = flights o1" "nextFlight ?o = nextFlight o1" "runs ?o = runs o1"
    by (simp_all add: claim_slot_def orch_simps)
  have free: "\<not> holds_slot fl" using fl by (simp add: holds_slot_def)
  have gone: "orch_effect env op o1 (release f o2)" if "flights o2 = flights o1" "nextFlight o2 = nextFlight o1"
    "activeCount o2 = activeCount o1 + 1" "runs o2 = runs o1" for o2
    using that free by (intro ended [OF fl(1)]) (simp_all add: orch_simps)
  have kept: "orch_effect env op o1 o2" if "flights o2 = js_set f (fl\<lparr>fl_stage := st\<rparr>) (flights o1)" "st \<noteq> Entered"
    "activeCount o2 = activeCount o1 + 1" "nextFlight o2 = nextFlight o1" "runs o2 = runs o1 @ xs"
    "xs = [] \<or> xs = [(?r, t, False)] \<and> \<not> (requiresApproval ?r \<and> ae_approvalHost env)" for o2 st xs
    using that free assms(3) by (intro changed [OF fl(1) that(1,4)]) (auto simp: holds_slot_def)
  consider (ask) "requiresApproval ?r" "ae_approvalHost env" | (no_host) "requiresApproval ?r" "\<not> ae_approvalHost env" "rq_requiresApproval ?r"
    | (run) "\<not> (requiresApproval ?r \<and> ae_approvalHost env)" "\<not> (requiresApproval ?r \<and> rq_requiresApproval ?r)" by blast
  then show ?thesis
  proof cases
    case ask
    show ?thesis
    proof (cases prompt)
      case None
      then show ?thesis using ask claimed by (auto simp: start_flight_def Let_def orch_simps intro: gone)
    next
      case (Some p)
      then show ?thesis
        using ask claimed by (intro kept [of _ "AwaitingDecision p" "[]"]) (simp_all add: start_flight_def Let_def orch_simps)
    qed
  next
    case no_host
    then show ?thesis using claimed by (auto simp: start_flight_def Let_def intro: gone)
  next
    case run
    then show ?thesis
      using claimed by (intro kept [of _ "Executing None" "[(?r, t, False)]"]) (auto simp: start_flight_def Let_def orch_simps)
  qed
qed

lemma effect_reserve: "orch_effect env (ReserveSlot f life t prompt) o1 (fst (reserveSlot env o1 f life t prompt))"
proof (cases "\<exists>fl. js_get (flights o1) f = Some fl \<and> fl_stage fl = Entered")
  case False
  then show ?thesis by (intro same) (auto simp: reserveSlot_def split: option.split)
next
  case True
  then obtain fl where fl: "js_get (flights o1) f = Some fl" "fl_stage fl = Entered" by blast
  show ?thesis
  proof (cases "claims env (ReserveSlot f life t prompt) o1 fl")
    case False
    then have "fst (reserveSlot env o1 f life t prompt) = leave f o1"
      using fl by (auto simp: claims_def reserveSlot_def Let_def split: option.split)
    then show ?thesis using fl by (intro ended [OF fl(1)]) (simp_all add: orch_simps holds_slot_def)
  next
    case True
    then have "fst (reserveSlot env o1 f life t prompt) = fst (start_flight env f fl t prompt (claim_slot f (fl_request fl) o1))"
      using fl by (auto simp: claims_def reserveSlot_def Let_def)
    then show ?thesis using effect_start [OF fl True] by simp
  qed
qed

lemma effect_decide: "orch_effect env op o1 (fst (decide_approval o1 f d t))"
proof (cases "\<exists>fl prompt. js_get (flights o1) f = Some fl \<and> fl_stage fl = AwaitingDecision prompt")
  case False
  then show ?thesis by (intro same) (auto simp: decide_approval_def split: option.split stage.split)
next
  case True
  then obtain fl prompt where fl: "js_get (flights o1) f = Some fl" "fl_stage fl = AwaitingDecision prompt" by blast
  then have held: "holds_slot fl" by (simp add: holds_slot_def)
  show ?thesis
  proof (cases d)
    case (Approved hash)
    then show ?thesis
      using fl held by (intro changed [OF fl(1), where fl' = "fl\<lparr>fl_stage := Executing (Some hash)\<rparr>" and xs = "[(fl_request fl, t, True)]"])
        (simp_all add: decide_approval_def Let_def orch_simps holds_slot_def)
  qed (simp_all add: decide_approval_def fl Let_def, (rule effect_release [OF fl(1) held], simp_all add: orch_simps)+)
qed

lemma effect_finish: "orch_effect env op o1 (fst (finishTask env o1 f out))"
proof (cases "\<exists>fl hash. js_get (flights o1) f = Some fl \<and> fl_stage fl = Executing hash")
  case False
  then show ?thesis by (intro same) (auto simp: finishTask_def split: option.split stage.split)
next
  case True
  then obtain fl hash where fl: "js_get (flights o1) f = Some fl" "fl_stage fl = Executing hash" by blast
  then have held: "holds_slot fl" by (simp add: holds_slot_def)
  show ?thesis
    unfolding finishTask_def fl option.case stage.case Let_def case_prod_unfold fst_conv
    by (rule effect_release [OF fl(1) held]) (simp_all add: orch_simps)
qed

lemma effect_abort:
  assumes "js_get (flights o1) f = Some fl" "fl_aborted fl'" "fl_request fl' = fl_request fl" "fl_stage fl' = fl_stage fl"
    "flights o2 = js_set f fl' (flights o1)" "nextFlight o2 = nextFlight o1" "activeCount o2 = activeCount o1" "runs o2 = runs o1"
  shows "orch_effect env op o1 o2"
  using assms by (intro changed [OF assms(1,5,6,3), where xs = "[]"]) (simp_all add: holds_slot_def)

lemma effect_timeout: "orch_effect env op o1 (timeoutTask o1 f)"
proof (cases "\<exists>fl. js_get (flights o1) f = Some fl \<and> fl_stage fl \<noteq> Entered")
  case False
  then show ?thesis by (intro same) (auto simp: timeoutTask_def split: option.split)
next
  case True
  then obtain fl where fl: "js_get (flights o1) f = Some fl" "fl_stage fl \<noteq> Entered" by blast
  then show ?thesis
    by (intro effect_abort [OF fl(1), of "fl\<lparr>fl_aborted := True, fl_timedOut := True\<rparr>"]) (simp_all add: timeoutTask_def)
qed

lemma abort_flight_effect:
  "\<lbrakk>flights o2 = flights (abort_flight x o1); nextFlight o2 = nextFlight o1; activeCount o2 = activeCount o1; runs o2 = runs o1\<rbrakk>
   \<Longrightarrow> orch_effect env op o1 o2"
proof (cases "\<exists>f fl. x = Some f \<and> js_get (flights o1) f = Some fl")
  case True
  then obtain f fl where fl: "x = Some f" "js_get (flights o1) f = Some fl" by blast
  assume "flights o2 = flights (abort_flight x o1)" "nextFlight o2 = nextFlight o1" "activeCount o2 = activeCount o1" "runs o2 = runs o1"
  then show ?thesis
    by (intro effect_abort [OF fl(2), of "fl\<lparr>fl_aborted := True\<rparr>"]) (simp_all add: abort_flight_def fl)
next
  case False
  assume "flights o2 = flights (abort_flight x o1)" "nextFlight o2 = nextFlight o1" "activeCount o2 = activeCount o1" "runs o2 = runs o1"
  then show ?thesis using False by (intro same) (auto simp: abort_flight_def split: option.splits)
qed

lemma abort_flight_fields [orch_simps]:
  "nextFlight (abort_flight x o1) = nextFlight o1" "activeCount (abort_flight x o1) = activeCount o1"
  "runs (abort_flight x o1) = runs o1" "flights (abort_flight x (o1\<lparr>taskStateMap := m\<rparr>)) = flights (abort_flight x o1)"
  by (simp_all add: abort_flight_def split: option.split)

lemma cancel_flights:
  "flights (fst (orch_cancelTask env o1 tid x)) =
     flights (abort_flight (if snd (orch_cancelTask env o1 tid x) then js_get (activeCancellations o1) tid else None) o1)"
  "nextFlight (fst (orch_cancelTask env o1 tid x)) = nextFlight o1"
  "activeCount (fst (orch_cancelTask env o1 tid x)) = activeCount o1"
  "runs (fst (orch_cancelTask env o1 tid x)) = runs o1"
  by (simp_all add: orch_cancelTask_def Let_def orch_simps abort_flight_def [of None] split: option.split prod.split)

lemmas effect_cancel = abort_flight_effect [OF cancel_flights]

lemma orch_step_effect: "orch_effect env op o1 (orch_step env o1 op)"
  by (cases op) (simp_all add: effect_enter effect_reserve effect_decide effect_finish effect_timeout effect_cancel)

lemma slots_effect: "\<lbrakk>orch_effect env op o1 o2; slots_inv o1\<rbrakk> \<Longrightarrow> slots_inv o2"
proof (induction rule: orch_effect.induct)
  case (added o2 fl)
  then have new: "js_get (flights o1) (nextFlight o1) = None"
    using js_has_keys [of "flights o1" "nextFlight o1"] by (auto simp: slots_inv_def js_has_def)
  show ?case
    using added js_set_count_new [OF new, of holds_slot fl]
    by (auto simp: slots_inv_def slot_count_def js_keys_set holds_slot_def intro: less_SucI)
next
  case (ended f fl o2)
  then show ?case
    using js_delete_count [of "flights o1" f fl holds_slot] js_keys_delete [of f "flights o1"]
    by (auto simp: slots_inv_def slot_count_def split: if_splits)
next
  case (changed f fl o2 fl' xs)
  then have "f \<in> set (js_keys (flights o1))" using js_has_keys [of "flights o1" f] by (simp add: js_has_def)
  then show ?case
    using changed js_set_count [OF changed(1), of holds_slot fl']
    by (auto simp: slots_inv_def slot_count_def js_keys_set claims_def split: if_splits)
qed (simp add: slots_inv_def slot_count_def)

interpretation orch_slots: op_invariant "orch_step env" slots_inv for env
  by unfold_locales (rule slots_effect [OF orch_step_effect])

lemma slots_initial: "slots_inv AgentOrchestrator"
  by (simp add: AgentOrchestrator_def slots_inv_def slot_count_def js_map_wf_def js_keys_def)

text \<open>Slots. In every interleaving of executions, approvals, timeouts and cancellations, the counter
  of active tasks is exactly the number of executions that hold a slot, and there are never more
  than five of them.\<close>

theorem orchestrator_slots:
  "let o1 = foldl (orch_step env) AgentOrchestrator ops
   in activeCount o1 = slot_count o1 \<and> slot_count o1 \<le> 5"
  using orch_slots.inv_run [OF slots_initial, of env ops] by (simp add: slots_inv_def maxConcurrency_def Let_def)

section \<open>What a runtime is invoked for\<close>

text \<open>\<open>S\<close> holds the steps taken: the gates of a run were passed in one of them.\<close>

definition authorised :: "agent_env \<Rightarrow> orch_op set \<Rightarrow> task_request \<Rightarrow> bool" where
  "authorised env S r \<longleftrightarrow> (\<exists>f life t prompt. ReserveSlot f life t prompt \<in> S \<and> gate_error env r life t = None)"

definition run_ok :: "agent_env \<Rightarrow> orch_op set \<Rightarrow> task_request \<times> tick \<times> bool \<Rightarrow> bool" where
  "run_ok env S x \<longleftrightarrow> authorised env S (fst x) \<and> (requiresApproval (fst x) \<and> ae_approvalHost env \<longrightarrow> snd (snd x))"

definition flight_ok :: "agent_env \<Rightarrow> orch_op set \<Rightarrow> flight \<Rightarrow> bool" where
  "flight_ok env S fl \<longleftrightarrow> fl_stage fl = Entered \<or> authorised env S (fl_request fl)"

definition runs_inv :: "agent_env \<Rightarrow> orch_op set \<Rightarrow> orchestrator \<Rightarrow> bool" where
  "runs_inv env S o1 \<longleftrightarrow> (\<forall>x \<in> set (runs o1). run_ok env S x) \<and> (\<forall>f fl. js_get (flights o1) f = Some fl \<longrightarrow> flight_ok env S fl)"

lemma runs_effect: "\<lbrakk>orch_effect env op o1 o2; runs_inv env S o1; op \<in> S\<rbrakk> \<Longrightarrow> runs_inv env S o2"
proof (induction rule: orch_effect.induct)
  case (changed f fl o2 fl' xs)
  have "flight_ok env S fl" using changed by (auto simp: runs_inv_def)
  moreover have "authorised env S (fl_request fl)" if "claims env op o1 fl"
    using that \<open>op \<in> S\<close> unfolding claims_def authorised_def by blast
  ultimately have auth: "holds_slot fl' \<Longrightarrow> authorised env S (fl_request fl)"
    using changed by (auto simp: flight_ok_def holds_slot_def)
  then have "flight_ok env S fl'" using changed by (auto simp: flight_ok_def holds_slot_def)
  moreover have "run_ok env S x" if "x \<in> set xs" for x
  proof -
    obtain r t a where x: "x = (r, t, a)" by (cases x)
    have "holds_slot fl'" using that by (intro changed(10)) auto
    then show ?thesis using auth changed(11) [of r t a] that by (simp add: x run_ok_def)
  qed
  ultimately show ?case using changed by (auto simp: runs_inv_def js_get_set)
qed (auto simp: runs_inv_def flight_ok_def js_get_set js_get_delete)

lemma runs_run: "\<lbrakk>runs_inv env S o1; set ops \<subseteq> S\<rbrakk> \<Longrightarrow> runs_inv env S (foldl (orch_step env) o1 ops)"
  by (induction ops arbitrary: o1) (simp_all add: runs_effect [OF orch_step_effect])

lemma lease_decision_same: "lease_decision env lh t = Inr l \<Longrightarrow> l = lh"
  by (auto simp: lease_decision_def validateLease_def Let_def split: option.splits if_splits)

lemma gate_error_None:
  "gate_error env r life t = None \<longleftrightarrow>
     (\<exists>l. lease_decision env (rq_leaseHeader r) t = Inr l)
     \<and> agent_id (rq_leaseHeader r) = ae_deviceId env \<and> tenant_id (rq_leaseHeader r) = ae_tenantId env
     \<and> hasCapability (ae_registry env) (rq_capabilityId r)
     \<and> validateCapabilityRuntimeMatch (ae_registry env) (rq_capabilityId r) (rq_runtimeCategory r)
     \<and> 0 < nullish (rq_timeoutMs r) 30000 \<and> nullish (rq_timeoutMs r) 30000 \<le> 300000 \<and> \<not> unsafe_lifecycle life"
  by (auto simp: gate_error_def not_le split: sum.split)


section \<open>Cancellation\<close>

text \<open>The abort signal of an execution is never taken back, and its identity is never reused.\<close>

definition aborted_or_gone :: "nat \<Rightarrow> orchestrator \<Rightarrow> bool" where
  "aborted_or_gone f o1 \<longleftrightarrow> f < nextFlight o1 \<and> (\<forall>fl. js_get (flights o1) f = Some fl \<longrightarrow> fl_aborted fl)"

lemma aborted_effect: "\<lbrakk>orch_effect env op o1 o2; aborted_or_gone f o1\<rbrakk> \<Longrightarrow> aborted_or_gone f o2"
  by (induction rule: orch_effect.induct) (auto simp: aborted_or_gone_def js_get_set js_get_delete)

interpretation orch_aborts: op_invariant "orch_step env" "aborted_or_gone f" for env f
  by unfold_locales (rule aborted_effect [OF orch_step_effect])


section \<open>Replay\<close>

fun entry_time :: "orch_op \<Rightarrow> int option" where
  "entry_time (EnterTask _ _ now) = Some now"
| "entry_time _ = None"

lemma prune_keeps:
  assumes "js_map_wf m" "js_get m k = Some e" "now \<le> e" "length m < maxReplayCacheSize"
  shows "js_get (pruneOldProcessedMessages now m) k = Some e"
proof -
  have "length (filter (\<lambda>(k, e). \<not> now > e) m) < maxReplayCacheSize" using assms(4) length_filter_le order.strict_trans1 by blast
  moreover have "(k, e) \<in> set (filter (\<lambda>(k, e). \<not> now > e) m)" using assms(2,3) by (simp add: js_get_in_set)
  moreover have "js_map_wf (filter (\<lambda>(k, e). \<not> now > e) m)"
    using assms(1) by (simp add: js_map_wf_def distinct_map_filter)
  ultimately show ?thesis by (simp add: pruneOldProcessedMessages_def Let_def js_get_eq_Some)
qed

lemma prune_smaller: "length (pruneOldProcessedMessages now m) \<le> length m"
  by (simp add: pruneOldProcessedMessages_def Let_def le_diff_conv trans_le_add1)

lemma prune_wf: "js_map_wf m \<Longrightarrow> js_map_wf (pruneOldProcessedMessages now m)"
  by (simp add: pruneOldProcessedMessages_def Let_def js_map_wf_def drop_map [symmetric] distinct_map_filter)

text \<open>A message is remembered until \<open>e\<close>, and \<open>n\<close> more may come before the cache has to evict.\<close>

definition remembered :: "string \<Rightarrow> int \<Rightarrow> nat \<Rightarrow> orchestrator \<Rightarrow> bool" where
  "remembered k e n o1 \<longleftrightarrow> js_map_wf (processedMessageIds o1) \<and> (\<exists>e' \<ge> e. js_get (processedMessageIds o1) k = Some e')
     \<and> length (processedMessageIds o1) + n < maxReplayCacheSize"

lemma enterTask_messages:
  obtains (same) "processedMessageIds (fst (enterTask o1 r life now)) = processedMessageIds o1"
  | (pruned) "processedMessageIds (fst (enterTask o1 r life now)) = pruneOldProcessedMessages now (processedMessageIds o1)"
  | (accepted) "processedMessageIds (fst (enterTask o1 r life now))
        = js_set (message_key r) (now + REPLAY_TTL) (pruneOldProcessedMessages now (processedMessageIds o1))"
      "\<And>e. js_get (pruneOldProcessedMessages now (processedMessageIds o1)) (message_key r) = Some e \<Longrightarrow> e < now"
  unfolding enterTask_def Let_def by (force split: option.splits if_splits)

lemma messages_unchanged: "entry_time op = None \<Longrightarrow> processedMessageIds (orch_step env o1 op) = processedMessageIds o1"
  by (cases op)
    (simp_all add: reserveSlot_def start_flight_def claim_slot_def decide_approval_def finishTask_def timeoutTask_def abort_flight_def
      orch_cancelTask_def Let_def orch_simps case_prod_unfold
      split: option.split stage.split approval_outcome.split)

lemma entry_time_Some: "entry_time op = Some t \<longleftrightarrow> (\<exists>r life. op = EnterTask r life t)"
  by (cases op) auto

lemma wf_messages: "js_map_wf (processedMessageIds o1) \<Longrightarrow> js_map_wf (processedMessageIds (orch_step env o1 op))"
proof (cases "entry_time op")
  case (Some t)
  assume "js_map_wf (processedMessageIds o1)"
  moreover obtain r life where "op = EnterTask r life t" using Some by (auto simp: entry_time_Some)
  ultimately show ?thesis by (cases rule: enterTask_messages [of o1 r life t]) (simp_all add: prune_wf)
qed (simp add: messages_unchanged)

interpretation orch_messages: op_invariant "orch_step env" "\<lambda>o1. js_map_wf (processedMessageIds o1)" for env
  by unfold_locales (rule wf_messages)

lemma remembered_step:
  assumes rem: "remembered k e (Suc n) o1" and early: "\<forall>t. entry_time op = Some t \<longrightarrow> t \<le> e"
  shows "remembered k e n (orch_step env o1 op)"
proof (cases "entry_time op")
  case None
  then show ?thesis using rem by (auto simp: remembered_def messages_unchanged)
next
  case (Some t)
  then obtain r life where op: "op = EnterTask r life t" by (auto simp: entry_time_Some)
  let ?m = "processedMessageIds o1"
  obtain e' where e': "e \<le> e'" "js_get ?m k = Some e'" and wf: "js_map_wf ?m" and room: "length ?m + Suc n < maxReplayCacheSize"
    using rem by (auto simp: remembered_def)
  have t: "t \<le> e'" using early Some e' by auto
  then have kept: "js_get (pruneOldProcessedMessages t ?m) k = Some e'" using prune_keeps [OF wf e'(2)] room by simp
  have small: "length (pruneOldProcessedMessages t ?m) + Suc n < maxReplayCacheSize" using prune_smaller [of t ?m] room by simp
  show ?thesis
  proof (cases rule: enterTask_messages [of o1 r life t])
    case accepted
    have "k \<noteq> message_key r" using accepted(2) [of e'] kept t by auto
    then show ?thesis
      using accepted(1) kept small wf e' by (auto simp: op remembered_def prune_wf js_get_set length_js_set)
  qed (use rem kept small wf e' in \<open>auto simp: op remembered_def prune_wf\<close>)
qed

lemma remembered_run:
  "\<lbrakk>remembered k e (length ops) o1; \<forall>op \<in> set ops. \<forall>t. entry_time op = Some t \<longrightarrow> t \<le> e\<rbrakk>
   \<Longrightarrow> remembered k e 0 (foldl (orch_step env) o1 ops)"
  by (induction ops arbitrary: o1) (simp_all add: remembered_step)

lemma remembered_refused:
  assumes "remembered (message_key r) e 0 o1" "now \<le> e"
  shows "\<exists>res. snd (enterTask o1 r life now) = Inl res \<and> res_errorCode res
    \<in> {Some ''LIFECYCLE_DENIED'', Some ''DUPLICATE_TASK_ID'', Some ''REPLAY_REJECTED''}"
proof -
  obtain e' where e': "e \<le> e'" "js_get (processedMessageIds o1) (message_key r) = Some e'"
    using assms(1) by (auto simp: remembered_def)
  have "js_get (pruneOldProcessedMessages now (processedMessageIds o1)) (message_key r) = Some e'"
    using assms e' by (intro prune_keeps) (auto simp: remembered_def)
  then show ?thesis using e' assms(2) by (simp add: enterTask_def Let_def failed_def)
qed

text \<open>Replay protection. A message the orchestrator has accepted is refused for fifteen minutes, whatever
  happens in between, as long as fewer than ten thousand messages are remembered: a request with the same
  message key never passes gate 3 a second time. (The scheduler's retries carry the same key.)\<close>

theorem accepted_message_not_replayed:
  assumes "o1 = foldl (orch_step env) AgentOrchestrator pre"
    and "enterTask o1 r life now = (o2, Inr f)"
    and "length (processedMessageIds o2) + length post < 10000"
    and "\<forall>op \<in> set post. \<forall>t. entry_time op = Some t \<longrightarrow> t \<le> now + 900000"
    and "message_key r' = message_key r" "now' \<le> now + 900000"
  shows "\<exists>res. snd (enterTask (foldl (orch_step env) o2 post) r' life' now') = Inl res
    \<and> res_errorCode res \<in> {Some ''LIFECYCLE_DENIED'', Some ''DUPLICATE_TASK_ID'', Some ''REPLAY_REJECTED''}"
proof -
  have wf: "js_map_wf (processedMessageIds o1)"
    unfolding assms(1) by (rule orch_messages.inv_run) (simp add: AgentOrchestrator_def)
  have "processedMessageIds o2 = js_set (message_key r) (now + 900000) (pruneOldProcessedMessages now (processedMessageIds o1))"
    using assms(2) by (auto simp: enterTask_def Let_def REPLAY_TTL_def split: if_splits)
  then have "remembered (message_key r) (now + 900000) (length post) o2"
    using wf assms(3) by (simp add: remembered_def js_get_set prune_wf maxReplayCacheSize_def)
  then have "remembered (message_key r') (now + 900000) 0 (foldl (orch_step env) o2 post)"
    using remembered_run assms(4,5) by simp
  then show ?thesis using assms(6) by (rule remembered_refused)
qed

section \<open>Concrete runs\<close>

definition test_env :: agent_env where
  "test_env = \<lparr>ae_platform = test_platform, ae_boundary = test_boundary, ae_deviceId = agent_id test_lease,
     ae_tenantId = tenant_id test_lease, ae_registry = [''fs.read''], ae_approvalHost = False\<rparr>"

definition test_task_request :: "string \<Rightarrow> string \<Rightarrow> task_request" where
  "test_task_request tid capability =
     \<lparr>rq_task_id = tid, rq_step_id = ''s'', rq_correlation_id = ''c'', rq_leaseHeader = test_lease, rq_capabilityId = capability,
      rq_runtimeCategory = takeWhile (\<lambda>x. x \<noteq> CHR ''.'') capability, rq_payload = [], rq_timeoutMs = None,
      rq_idempotency_key = None, rq_message_id = None, rq_riskTier = None, rq_requiresApproval = False, rq_actionIdentifier = None\<rparr>"

definition test_tick :: tick where
  "test_tick = \<lparr>clock = (\<lambda>_. 1767225660000), uuids = (\<lambda>_. [])\<rparr>"

lemma test_gates: "gate_error test_env (test_task_request ''t'' ''fs.read'') None test_tick = None"
  "gate_error test_env (test_task_request ''t'' ''terminal.execute'') None test_tick = None"
  by code_simp+

lemma test_task_request_facts:
  "\<not> requiresApproval (test_task_request ''t'' ''fs.read'')" "requiresApproval (test_task_request ''t'' ''terminal.execute'')"
  "message_key (test_task_request ''t'' ''fs.read'') = ''t:s''" "message_key (test_task_request ''t'' ''terminal.execute'') = ''t:s''"
  "rq_task_id (test_task_request tid capability) = tid" "rq_leaseHeader (test_task_request tid capability) = test_lease"
  "\<not> rq_requiresApproval (test_task_request tid capability)" "\<not> ae_approvalHost test_env"
  by (code_simp, code_simp, code_simp, code_simp, simp_all add: test_task_request_def test_env_def)

definition test_orch :: orchestrator where
  "test_orch =
   \<lparr>activeCount = 1, processedMessageIds = [(''t:s'', 900000)], taskStateMap = [(''t'', RUN_RUNNING, tenant_id test_lease)],
    activeCancellations = [(''t'', 0)], taskPendingPrompts = [],
    flights = [(0, \<lparr>fl_request = test_task_request ''t'' ''fs.read'', fl_stage = Executing None, fl_aborted = False, fl_timedOut = False\<rparr>)],
    nextFlight = 1, runs = [(test_task_request ''t'' ''fs.read'', test_tick, False)]\<rparr>"

lemma test_flow:
  "foldl (orch_step test_env) AgentOrchestrator
     [EnterTask (test_task_request ''t'' ''fs.read'') None 0, ReserveSlot 0 None test_tick None] = test_orch"
  by (simp add: enterTask_def reserveSlot_def start_flight_def claim_slot_def invoke_runtime_def set_stage_def set_status_def
      AgentOrchestrator_def unsafe_lifecycle_def pruneOldProcessedMessages_def maxReplayCacheSize_def maxConcurrency_def REPLAY_TTL_def
      js_get_def js_set_def Let_def test_gates test_task_request_facts test_orch_def)



theorem accepted_message_not_replayed_witness:
  "\<exists>res. snd (enterTask test_orch (test_task_request ''t'' ''terminal.execute'') None 30000) = Inl res"
proof -
  let ?r = "test_task_request ''t'' ''fs.read''"
  obtain o2 where o2: "enterTask AgentOrchestrator ?r None 0 = (o2, Inr 0)" "length (processedMessageIds o2) = 1"
    by (simp add: enterTask_def AgentOrchestrator_def unsafe_lifecycle_def pruneOldProcessedMessages_def maxReplayCacheSize_def
        js_get_def js_set_def Let_def)
  have flow: "test_orch = foldl (orch_step test_env) o2 [ReserveSlot 0 None test_tick None]"
    using test_flow o2(1) by simp
  show ?thesis
    using accepted_message_not_replayed [of AgentOrchestrator test_env "[]" ?r None 0 o2 0
        "[ReserveSlot 0 None test_tick None]" "test_task_request ''t'' ''terminal.execute''" 30000 None] o2
    unfolding flow by (auto simp: test_task_request_facts)
qed

text \<open>Without an approval host, a high-risk capability whose request does not ask for approval itself
  is run without one.\<close>

lemma high_risk_unattended:
  assumes "js_get (flights o1) f = Some fl" "fl_stage fl = Entered" "gate_error env (fl_request fl) life t = None"
    and "activeCount o1 < maxConcurrency" "\<not> ae_approvalHost env" "\<not> rq_requiresApproval (fl_request fl)"
  shows "runs (fst (reserveSlot env o1 f life t prompt)) = runs o1 @ [(fl_request fl, t, False)]"
  using assms by (simp add: reserveSlot_def start_flight_def claim_slot_def Let_def orch_simps)

end
