(* ===== verification/Approval_Host.thy ===== *)
theory Approval_Host
  imports Orchestrator Json
begin

text \<open>
  The approval host of the desktop agent (\<open>apps/desktop-agent/src/ui/approval-host.ts\<close>) with the contracts
  of \<open>packages/contracts/src/approval/index.ts\<close>: prompts for a human's consent, the promises of the
  executions that wait for the answer, the timers that expire a prompt, and the submission of an
  answer.

  \<open>submitDecision\<close> suspends while the lease is validated again: \<open>submit_begin\<close> runs up to that point and
  leaves a \<open>submission\<close> under way, \<open>submit_finish\<close> is the rest. Everything else runs without interruption.
  A promise of \<open>waitForDecision\<close> is a number; the host keeps for each prompt the promise it would settle,
  \<open>waiting\<close> holds the promises not settled yet (with their abort listener) and \<open>settled\<close> what the
  others were settled with. The redaction filter is an argument; the tray is not modelled.

  Proved, for every interleaving: an execution learns of consent only from a submission that allowed
  this very prompt, with its nonce, in time and under a lease that was valid at that moment; a resolved prompt keeps
  its state, a cancelled one unless an answer was being validated when it was cancelled.
\<close>

section \<open>Contracts\<close>

definition MAX_PROMPT_DESCRIPTION_BYTES :: nat where "MAX_PROMPT_DESCRIPTION_BYTES = 65536"

definition DEFAULT_PROMPT_TTL_SECONDS :: int where "DEFAULT_PROMPT_TTL_SECONDS = 60"

datatype prompt_state = PROMPT_PENDING | PROMPT_APPROVED | PROMPT_DENIED | PROMPT_EXPIRED | PROMPT_CANCELLED

datatype decision_choice = CHOICE_ALLOW | CHOICE_DENY

fun choice_str :: "decision_choice \<Rightarrow> string" where
  "choice_str CHOICE_ALLOW = ''ALLOW''"
| "choice_str CHOICE_DENY = ''DENY''"

datatype reversibility = REVERSIBLE | IRREVERSIBLE

record prompt_request =
  pr_leaseHeader :: execution_lease_header
  pr_requestId :: string
  pr_taskId :: "string option"
  pr_stepId :: "string option"
  pr_title :: string
  pr_description :: string
  pr_riskTier :: risk_tier
  pr_actionIdentifier :: string
  pr_capabilityId :: "string option"
  pr_targetResource :: "string option"
  pr_reversibility :: "reversibility option"
  pr_tenantId :: "string option"
  pr_deviceId :: "string option"
  pr_ttlSeconds :: "int option"
  pr_isLockScreenPrivate :: "bool option"
  pr_metadata :: "(string \<times> json) list option"

definition optional :: "('a \<Rightarrow> bool) \<Rightarrow> 'a option \<Rightarrow> bool" where
  "optional P x \<longleftrightarrow> (case x of None \<Rightarrow> True | Some a \<Rightarrow> P a)"

definition ApprovalPromptRequestSchema :: "platform \<Rightarrow> prompt_request \<Rightarrow> bool" where
  "ApprovalPromptRequestSchema P r \<longleftrightarrow>
     ExecutionLeaseHeaderSchema P (pr_leaseHeader r) \<and> sized 128 (pr_requestId r)
     \<and> optional (sized 128) (pr_taskId r) \<and> optional (sized 128) (pr_stepId r)
     \<and> sized 256 (pr_title r) \<and> sized MAX_PROMPT_DESCRIPTION_BYTES (pr_description r)
     \<and> sized 256 (pr_actionIdentifier r) \<and> optional (sized 256) (pr_capabilityId r)
     \<and> optional (\<lambda>s. length s \<le> 1024) (pr_targetResource r) \<and> optional (\<lambda>n. 1 \<le> n \<and> n \<le> 600) (pr_ttlSeconds r)"

record prompt_item =
  promptId :: string
  item_requestId :: string
  item_taskId :: "string option"
  item_stepId :: "string option"
  leaseId :: string
  prompt_tenant :: string
  item_deviceId :: "string option"
  item_title :: string
  item_description :: string
  item_riskTier :: risk_tier
  item_actionIdentifier :: string
  item_capabilityId :: "string option"
  item_targetResource :: "string option"
  item_reversibility :: "reversibility option"
  item_nonce :: string
  prompt_state :: prompt_state
  createdAt :: int
  prompt_expiresAt :: int
  isLockScreenPrivate :: bool
  item_metadata :: "(string \<times> json) list option"

record decision_request =
  dr_promptId :: string
  dr_decision :: decision_choice
  dr_nonce :: string
  dr_leaseHeader :: execution_lease_header
  dr_tenantId :: "string option"
  dr_userNotes :: "string option"
  dr_decidedBy :: "string option"

record decision_result =
  res_promptId :: string
  res_requestId :: string
  res_prompt_taskId :: "string option"
  res_decision :: decision_choice
  res_state :: prompt_state
  resolvedAt :: int
  receiptHash :: string
  userNotes :: "string option"
  decidedBy :: "string option"

definition computeApprovalReceiptChecksum ::
  "platform \<Rightarrow> string \<Rightarrow> string \<Rightarrow> string \<Rightarrow> int \<Rightarrow> string \<Rightarrow> string option \<Rightarrow> string option \<Rightarrow> string" where
  "computeApprovalReceiptChecksum P prompt req decision ms nonce1 tenant lease1 =
     sha256 P (join '':'' [prompt, req, decision, int_str ms, nonce1, or_else tenant [], or_else lease1 []])"

section \<open>The host\<close>

datatype ui_error = UNAUTHORIZED | PROMPT_NOT_FOUND | PROMPT_TENANT_MISMATCH | PROMPT_ALREADY_RESOLVED prompt_state
  | NONCE_MISMATCH | PROMPT_EXPIRED_ERROR | INVALID_PROMPT | INTERNAL_ERROR

record wait =
  wait_prompt :: string
  wait_signal :: bool

record approval_host =
  prompts :: "(string, prompt_item) jsmap"
  promptTimers :: "string list"
  decisionWaiters :: "(string, nat) jsmap"
  resolvingPrompts :: "string list"
  waiting :: "(nat, wait) jsmap"
  settled :: "(nat \<times> (ui_error + decision_result)) list"
  nextWait :: nat
  submissions :: "(nat, decision_request) jsmap"
  nextSubmission :: nat

record host_env =
  he_platform :: platform
  he_boundary :: "lease_boundary option"
  he_redact :: "(string \<Rightarrow> string) option"

definition NativeApprovalHost :: approval_host where
  "NativeApprovalHost =
     \<lparr>prompts = [], promptTimers = [], decisionWaiters = [], resolvingPrompts = [], waiting = [], settled = [], nextWait = 0,
      submissions = [], nextSubmission = 0\<rparr>"

text \<open>\<open>leaseBoundary.validateLease\<close>, when a boundary is injected.\<close>

definition lease_ok :: "host_env \<Rightarrow> execution_lease_header \<Rightarrow> tick \<Rightarrow> bool" where
  "lease_ok env hdr t \<longleftrightarrow>
     (case he_boundary env of
        None \<Rightarrow> True
      | Some b \<Rightarrow> (case validateLease (he_platform env) b hdr None None (clock t 0) (clock t 1) (clock t 2) (clock t 3)
                       (uuids t 0) (uuids t 1) (uuids t 2) of Inl _ \<Rightarrow> False | Inr _ \<Rightarrow> True))"

definition redacted :: "host_env \<Rightarrow> string \<Rightarrow> string" where
  "redacted env s = (case he_redact env of None \<Rightarrow> s | Some f \<Rightarrow> f s)"

definition new_prompt :: "host_env \<Rightarrow> prompt_request \<Rightarrow> string \<Rightarrow> string \<Rightarrow> int \<Rightarrow> prompt_item" where
  "new_prompt env r uuid nonce1 now =
     \<lparr>promptId = uuid, item_requestId = pr_requestId r, item_taskId = pr_taskId r, item_stepId = pr_stepId r,
      leaseId = lease_id (pr_leaseHeader r), prompt_tenant = or_else (pr_tenantId r) (tenant_id (pr_leaseHeader r)),
      item_deviceId = pr_deviceId r, item_title = redacted env (pr_title r), item_description = redacted env (pr_description r),
      item_riskTier = pr_riskTier r, item_actionIdentifier = pr_actionIdentifier r, item_capabilityId = pr_capabilityId r,
      item_targetResource = pr_targetResource r, item_reversibility = pr_reversibility r, item_nonce = nonce1,
      prompt_state = PROMPT_PENDING, createdAt = now,
      prompt_expiresAt = now + nullish (pr_ttlSeconds r) DEFAULT_PROMPT_TTL_SECONDS * 1000,
      isLockScreenPrivate = nullish (pr_isLockScreenPrivate r) False, item_metadata = pr_metadata r\<rparr>"

definition presentPrompt ::
  "host_env \<Rightarrow> approval_host \<Rightarrow> prompt_request \<Rightarrow> tick \<Rightarrow> string \<Rightarrow> string \<Rightarrow> int \<Rightarrow> approval_host \<times> (ui_error + prompt_item)" where
  "presentPrompt env h r t uuid nonce1 now =
     (if \<not> ApprovalPromptRequestSchema (he_platform env) r then (h, Inl INVALID_PROMPT)
      else if \<not> lease_ok env (pr_leaseHeader r) t then (h, Inl UNAUTHORIZED)
      else let item = new_prompt env r uuid nonce1 now
           in (h\<lparr>prompts := js_set uuid item (prompts h), promptTimers := promptTimers h @ [uuid]\<rparr>, Inr item))"

definition checksum_of :: "host_env \<Rightarrow> prompt_item \<Rightarrow> decision_choice \<Rightarrow> int \<Rightarrow> string \<Rightarrow> string" where
  "checksum_of env it d ms nonce1 =
     computeApprovalReceiptChecksum (he_platform env) (promptId it) (item_requestId it) (choice_str d) ms nonce1
       (Some (prompt_tenant it)) (Some (leaseId it))"

definition result_of :: "host_env \<Rightarrow> prompt_item \<Rightarrow> decision_choice \<Rightarrow> prompt_state \<Rightarrow> int \<Rightarrow> string option \<Rightarrow> decision_result" where
  "result_of env it d st ms notes =
     \<lparr>res_promptId = promptId it, res_requestId = item_requestId it, res_prompt_taskId = item_taskId it, res_decision = d,
      res_state = st, resolvedAt = ms, receiptHash = checksum_of env it d ms (item_nonce it), userNotes = notes, decidedBy = None\<rparr>"

definition set_prompt_state :: "string \<Rightarrow> prompt_state \<Rightarrow> approval_host \<Rightarrow> approval_host" where
  "set_prompt_state p st h =
     (case js_get (prompts h) p of None \<Rightarrow> h | Some it \<Rightarrow> h\<lparr>prompts := js_set p (it\<lparr>prompt_state := st\<rparr>) (prompts h)\<rparr>)"

definition clear_timer :: "string \<Rightarrow> approval_host \<Rightarrow> approval_host" where
  "clear_timer p h = h\<lparr>promptTimers := filter (\<lambda>q. q \<noteq> p) (promptTimers h)\<rparr>"

text \<open>Settling a promise; a settled promise has no abort listener any more.\<close>

definition settle :: "nat \<Rightarrow> ui_error + decision_result \<Rightarrow> approval_host \<Rightarrow> approval_host" where
  "settle w v h = h\<lparr>waiting := js_delete w (waiting h), settled := settled h @ [(w, v)]\<rparr>"

definition notify_waiter :: "string \<Rightarrow> ui_error + decision_result \<Rightarrow> approval_host \<Rightarrow> approval_host" where
  "notify_waiter p v h =
     (case js_get (decisionWaiters h) p of
        None \<Rightarrow> h
      | Some w \<Rightarrow> settle w v (h\<lparr>decisionWaiters := js_delete p (decisionWaiters h)\<rparr>))"

definition cancelPrompt :: "approval_host \<Rightarrow> string \<Rightarrow> approval_host \<times> bool" where
  "cancelPrompt h p =
     (case js_get (prompts h) p of
        None \<Rightarrow> (h, False)
      | Some it \<Rightarrow>
          if prompt_state it = PROMPT_PENDING
          then (notify_waiter p (Inl INTERNAL_ERROR) (clear_timer p (set_prompt_state p PROMPT_CANCELLED h)), True)
          else (h, False))"

definition performAutoExpire :: "host_env \<Rightarrow> approval_host \<Rightarrow> string \<Rightarrow> int \<Rightarrow> approval_host" where
  "performAutoExpire env h p now =
     clear_timer p
       (case js_get (prompts h) p of
          None \<Rightarrow> h
        | Some it \<Rightarrow>
            if prompt_state it = PROMPT_PENDING
            then notify_waiter p (Inr (result_of env it CHOICE_DENY PROMPT_EXPIRED now (Some ''Auto-expired after timeout'')))
                   (set_prompt_state p PROMPT_EXPIRED h)
            else h)"

text \<open>The timer of a prompt fires.\<close>

definition fire_timer :: "host_env \<Rightarrow> approval_host \<Rightarrow> string \<Rightarrow> int \<Rightarrow> approval_host" where
  "fire_timer env h p now = (if p \<in> set (promptTimers h) then performAutoExpire env h p now else h)"

text \<open>\<open>waitForDecision\<close> answers at once for a prompt that is unknown, resolved or cancelled, or when the
  caller's signal is already aborted (\<open>signal = Some True\<close>); otherwise the promise waits, in the place of an
  earlier one for the same prompt.\<close>

definition waitForDecision :: "host_env \<Rightarrow> approval_host \<Rightarrow> string \<Rightarrow> bool option \<Rightarrow> approval_host \<times> nat" where
  "waitForDecision env h p signal =
     (let w = nextWait h; h1 = h\<lparr>nextWait := w + 1\<rparr> in
      case js_get (prompts h) p of
        None \<Rightarrow> (settle w (Inl PROMPT_NOT_FOUND) h1, w)
      | Some it \<Rightarrow>
         (case prompt_state it of
            PROMPT_APPROVED \<Rightarrow> (settle w (Inr (result_of env it CHOICE_ALLOW PROMPT_APPROVED (prompt_expiresAt it) None)) h1, w)
          | PROMPT_DENIED \<Rightarrow> (settle w (Inr (result_of env it CHOICE_DENY PROMPT_DENIED (prompt_expiresAt it) None)) h1, w)
          | PROMPT_EXPIRED \<Rightarrow>
              (settle w (Inr (result_of env it CHOICE_DENY PROMPT_EXPIRED (prompt_expiresAt it) (Some ''Auto-expired after timeout''))) h1, w)
          | PROMPT_CANCELLED \<Rightarrow> (settle w (Inl INTERNAL_ERROR) h1, w)
          | PROMPT_PENDING \<Rightarrow>
              if signal = Some True then (settle w (Inl INTERNAL_ERROR) (fst (cancelPrompt h1 p)), w)
              else (h1\<lparr>decisionWaiters := js_set p w (decisionWaiters h1),
                       waiting := js_set w \<lparr>wait_prompt = p, wait_signal = (signal \<noteq> None)\<rparr> (waiting h1)\<rparr>, w)))"

text \<open>The signal of a promise that still waits is aborted.\<close>

definition abort_wait :: "approval_host \<Rightarrow> nat \<Rightarrow> approval_host" where
  "abort_wait h w =
     (case js_get (waiting h) w of
        None \<Rightarrow> h
      | Some x \<Rightarrow>
          if \<not> wait_signal x then h
          else settle w (Inl INTERNAL_ERROR)
                 (fst (cancelPrompt (h\<lparr>decisionWaiters := js_delete (wait_prompt x) (decisionWaiters h)\<rparr>) (wait_prompt x))))"

definition getSanitizedPromptForUI :: "approval_host \<Rightarrow> string \<Rightarrow> bool \<Rightarrow> prompt_item option" where
  "getSanitizedPromptForUI h p isLockScreen =
     (case js_get (prompts h) p of
        None \<Rightarrow> None
      | Some it \<Rightarrow>
          Some (if isLockScreen \<or> isLockScreenPrivate it
                then it\<lparr>item_description := ''[REDACTED FOR PRIVACY - SENSITIVE CONTENT]'', item_metadata := None\<rparr> else it))"

definition getPrompt :: "approval_host \<Rightarrow> string \<Rightarrow> string option \<Rightarrow> ui_error + prompt_item option" where
  "getPrompt h p tenant =
     (case js_get (prompts h) p of
        None \<Rightarrow> Inr None
      | Some it \<Rightarrow> if truthy tenant \<and> Some (prompt_tenant it) \<noteq> tenant then Inl PROMPT_TENANT_MISMATCH else Inr (Some it))"

definition listPendingPrompts :: "approval_host \<Rightarrow> string option \<Rightarrow> int \<Rightarrow> prompt_item list" where
  "listPendingPrompts h tenant now =
     filter (\<lambda>it. prompt_state it = PROMPT_PENDING \<and> prompt_expiresAt it > now
       \<and> (\<not> truthy tenant \<or> Some (prompt_tenant it) = tenant)) (js_values (prompts h))"

text \<open>\<open>submitDecision\<close> up to the second validation of the lease; \<open>now1\<close> and \<open>now2\<close> are its readings of the
  clock. The error of an expired prompt is thrown after the waiter has been told.\<close>

definition submit_begin ::
  "host_env \<Rightarrow> approval_host \<Rightarrow> decision_request \<Rightarrow> int \<Rightarrow> int \<Rightarrow> approval_host \<times> (ui_error + nat)" where
  "submit_begin env h r now1 now2 =
     (let p = dr_promptId r in
      case js_get (prompts h) p of
        None \<Rightarrow> (h, Inl PROMPT_NOT_FOUND)
      | Some it \<Rightarrow>
         if truthy (dr_tenantId r) \<and> Some (prompt_tenant it) \<noteq> dr_tenantId r then (h, Inl PROMPT_TENANT_MISMATCH)
         else if prompt_state it \<noteq> PROMPT_PENDING \<or> p \<in> set (resolvingPrompts h)
         then (h, Inl (PROMPT_ALREADY_RESOLVED (prompt_state it)))
         else if item_nonce it \<noteq> dr_nonce r then (h, Inl NONCE_MISMATCH)
         else if now1 > prompt_expiresAt it
         then (notify_waiter p (Inr (result_of env it CHOICE_DENY PROMPT_EXPIRED now2 (Some ''Auto-expired after timeout'')))
                 (set_prompt_state p PROMPT_EXPIRED (clear_timer p h)), Inl PROMPT_EXPIRED_ERROR)
         else ((clear_timer p h)\<lparr>resolvingPrompts := resolvingPrompts h @ [p],
                 submissions := js_set (nextSubmission h) r (submissions h), nextSubmission := nextSubmission h + 1\<rparr>,
               Inr (nextSubmission h)))"

definition final_state :: "decision_choice \<Rightarrow> prompt_state" where
  "final_state d = (if d = CHOICE_ALLOW then PROMPT_APPROVED else PROMPT_DENIED)"

definition submitted_result :: "host_env \<Rightarrow> prompt_item \<Rightarrow> decision_request \<Rightarrow> int \<Rightarrow> decision_result" where
  "submitted_result env it r now =
     \<lparr>res_promptId = promptId it, res_requestId = item_requestId it, res_prompt_taskId = item_taskId it, res_decision = dr_decision r,
      res_state = final_state (dr_decision r), resolvedAt = now, receiptHash = checksum_of env it (dr_decision r) now (dr_nonce r),
      userNotes = dr_userNotes r, decidedBy = dr_decidedBy r\<rparr>"

definition end_submission :: "nat \<Rightarrow> string \<Rightarrow> approval_host \<Rightarrow> approval_host" where
  "end_submission s p h =
     h\<lparr>resolvingPrompts := filter (\<lambda>q. q \<noteq> p) (resolvingPrompts h), submissions := js_delete s (submissions h)\<rparr>"

definition submit_finish ::
  "host_env \<Rightarrow> approval_host \<Rightarrow> nat \<Rightarrow> tick \<Rightarrow> int \<Rightarrow> approval_host \<times> (ui_error + decision_result) option" where
  "submit_finish env h s t now =
     (case js_get (submissions h) s of
        None \<Rightarrow> (h, None)
      | Some r \<Rightarrow>
         (let p = dr_promptId r in
          case js_get (prompts h) p of
            None \<Rightarrow> (h, None)
          | Some it \<Rightarrow>
              if \<not> lease_ok env (dr_leaseHeader r) t
              then (end_submission s p (set_prompt_state p PROMPT_DENIED h), Some (Inl UNAUTHORIZED))
              else let res = submitted_result env it r now
                   in (end_submission s p (notify_waiter p (Inr res) (set_prompt_state p (final_state (dr_decision r)) h)),
                       Some (Inr res))))"

definition host_shutdown :: "approval_host \<Rightarrow> approval_host" where
  "host_shutdown h =
     h\<lparr>promptTimers := [], decisionWaiters := [],
       waiting := filter (\<lambda>(w, _). w \<notin> set (js_values (decisionWaiters h))) (waiting h),
       settled := settled h @ map (\<lambda>w. (w, Inl INTERNAL_ERROR)) (js_values (decisionWaiters h)),
       prompts := map (\<lambda>(p, it). (p, if prompt_state it = PROMPT_PENDING then it\<lparr>prompt_state := PROMPT_CANCELLED\<rparr> else it)) (prompts h)\<rparr>"

datatype host_op =
    PresentPrompt prompt_request tick string string int
  | WaitForDecision string "bool option"
  | AbortWait nat
  | CancelPrompt string
  | FireTimer string int
  | SubmitBegin decision_request int int
  | SubmitFinish nat tick int
  | Shutdown

fun host_step :: "host_env \<Rightarrow> approval_host \<Rightarrow> host_op \<Rightarrow> approval_host" where
  "host_step env h (PresentPrompt r t uuid nonce1 now) = fst (presentPrompt env h r t uuid nonce1 now)"
| "host_step env h (WaitForDecision p signal) = fst (waitForDecision env h p signal)"
| "host_step env h (AbortWait w) = abort_wait h w"
| "host_step env h (CancelPrompt p) = fst (cancelPrompt h p)"
| "host_step env h (FireTimer p now) = fire_timer env h p now"
| "host_step env h (SubmitBegin r now1 now2) = fst (submit_begin env h r now1 now2)"
| "host_step env h (SubmitFinish s t now) = fst (submit_finish env h s t now)"
| "host_step env h Shutdown = host_shutdown h"

text \<open>What the orchestrator makes of the answer of \<open>waitForDecision\<close>.\<close>

definition outcome_of :: "ui_error + decision_result \<Rightarrow> approval_outcome" where
  "outcome_of v =
     (case v of
        Inl _ \<Rightarrow> WaitFailed
      | Inr res \<Rightarrow>
          if res_state res = PROMPT_EXPIRED then Expired
          else if res_decision res = CHOICE_DENY \<or> res_state res = PROMPT_DENIED then Denied
          else Approved (receiptHash res))"

section \<open>What the building blocks change\<close>

named_theorems host_simps \<open>fields after the building blocks of a step\<close>

lemma prompts_set_state [host_simps]:
  "js_get (prompts (set_prompt_state p st h)) q =
     (if q = p then map_option (\<lambda>it. it\<lparr>prompt_state := st\<rparr>) (js_get (prompts h) p) else js_get (prompts h) q)"
  by (simp add: set_prompt_state_def js_get_set split: option.split)

lemma set_state_fields [host_simps]:
  "promptTimers (set_prompt_state p st h) = promptTimers h" "resolvingPrompts (set_prompt_state p st h) = resolvingPrompts h"
  "submissions (set_prompt_state p st h) = submissions h" "decisionWaiters (set_prompt_state p st h) = decisionWaiters h"
  "settled (set_prompt_state p st h) = settled h" "waiting (set_prompt_state p st h) = waiting h"
  by (simp_all add: set_prompt_state_def split: option.split)

lemma clear_timer_fields [host_simps]:
  "prompts (clear_timer p h) = prompts h" "set (promptTimers (clear_timer p h)) = set (promptTimers h) - {p}"
  "resolvingPrompts (clear_timer p h) = resolvingPrompts h" "submissions (clear_timer p h) = submissions h"
  "decisionWaiters (clear_timer p h) = decisionWaiters h" "settled (clear_timer p h) = settled h" "waiting (clear_timer p h) = waiting h"
  by (auto simp: clear_timer_def)

lemma settle_fields [host_simps]:
  "prompts (settle w v h) = prompts h" "promptTimers (settle w v h) = promptTimers h"
  "resolvingPrompts (settle w v h) = resolvingPrompts h" "submissions (settle w v h) = submissions h"
  "settled (settle w v h) = settled h @ [(w, v)]" "decisionWaiters (settle w v h) = decisionWaiters h"
  "waiting (settle w v h) = js_delete w (waiting h)"
  by (simp_all add: settle_def)

lemma notify_fields [host_simps]:
  "prompts (notify_waiter p v h) = prompts h" "promptTimers (notify_waiter p v h) = promptTimers h"
  "resolvingPrompts (notify_waiter p v h) = resolvingPrompts h" "submissions (notify_waiter p v h) = submissions h"
  by (simp_all add: notify_waiter_def settle_def split: option.split)

lemma end_submission_fields [host_simps]:
  "prompts (end_submission s p h) = prompts h" "promptTimers (end_submission s p h) = promptTimers h"
  "set (resolvingPrompts (end_submission s p h)) = set (resolvingPrompts h) - {p}"
  "submissions (end_submission s p h) = js_delete s (submissions h)"
  "settled (end_submission s p h) = settled h" "waiting (end_submission s p h) = waiting h"
  by (auto simp: end_submission_def)

lemma cancelPrompt_fields [host_simps]:
  "js_get (prompts (fst (cancelPrompt h p))) q =
     (case js_get (prompts h) q of
        None \<Rightarrow> None
      | Some it \<Rightarrow> Some (if q = p \<and> prompt_state it = PROMPT_PENDING then it\<lparr>prompt_state := PROMPT_CANCELLED\<rparr> else it))"
  "set (promptTimers (fst (cancelPrompt h p))) \<subseteq> set (promptTimers h)"
  "resolvingPrompts (fst (cancelPrompt h p)) = resolvingPrompts h" "submissions (fst (cancelPrompt h p)) = submissions h"
  by (auto simp: cancelPrompt_def host_simps split: option.split)

lemma shutdown_prompts [host_simps]:
  "js_get (prompts (host_shutdown h)) p =
     map_option (\<lambda>it. if prompt_state it = PROMPT_PENDING then it\<lparr>prompt_state := PROMPT_CANCELLED\<rparr> else it) (js_get (prompts h) p)"
  by (simp add: host_shutdown_def js_get_map_snd)

text \<open>
  The effect of a step on one prompt: it is presented, cancelled, expired or resolved by the end of a
  submission, or stays as it is.
\<close>

inductive prompt_effect :: "host_env \<Rightarrow> host_op \<Rightarrow> approval_host \<Rightarrow> string \<Rightarrow> prompt_item option \<Rightarrow> prompt_item option \<Rightarrow> bool"
  for env op h p where
  kept: "prompt_effect env op h p x x"
| presented: "\<lbrakk>op = PresentPrompt r t p nonce1 now; y = new_prompt env r p nonce1 now\<rbrakk> \<Longrightarrow> prompt_effect env op h p x (Some y)"
| cancelled: "prompt_state it = PROMPT_PENDING \<Longrightarrow> prompt_effect env op h p (Some it) (Some (it\<lparr>prompt_state := PROMPT_CANCELLED\<rparr>))"
| expired: "\<lbrakk>prompt_state it = PROMPT_PENDING; p \<in> set (promptTimers h) \<or> p \<notin> set (resolvingPrompts h)\<rbrakk>
    \<Longrightarrow> prompt_effect env op h p (Some it) (Some (it\<lparr>prompt_state := PROMPT_EXPIRED\<rparr>))"
| refused: "\<lbrakk>op = SubmitFinish s t now; js_get (submissions h) s = Some r; dr_promptId r = p; \<not> lease_ok env (dr_leaseHeader r) t\<rbrakk>
    \<Longrightarrow> prompt_effect env op h p (Some it) (Some (it\<lparr>prompt_state := PROMPT_DENIED\<rparr>))"
| resolved: "\<lbrakk>op = SubmitFinish s t now; js_get (submissions h) s = Some r; dr_promptId r = p; lease_ok env (dr_leaseHeader r) t\<rbrakk>
    \<Longrightarrow> prompt_effect env op h p (Some it) (Some (it\<lparr>prompt_state := final_state (dr_decision r)\<rparr>))"

lemma effect_on_cancel:
  "prompts h1 = prompts h \<Longrightarrow> prompt_effect env op h p (js_get (prompts h) p) (js_get (prompts (fst (cancelPrompt h1 q))) p)"
  by (auto simp: host_simps intro: kept cancelled split: option.split)

lemma effect_on_submit_begin:
  "prompt_effect env (SubmitBegin r now1 now2) h p (js_get (prompts h) p) (js_get (prompts (fst (submit_begin env h r now1 now2))) p)"
proof (cases "\<exists>it. js_get (prompts h) (dr_promptId r) = Some it \<and> prompt_state it = PROMPT_PENDING \<and> p = dr_promptId r
    \<and> p \<notin> set (resolvingPrompts h)")
  case True
  then obtain it where "js_get (prompts h) (dr_promptId r) = Some it" "prompt_state it = PROMPT_PENDING" "p = dr_promptId r"
      "p \<notin> set (resolvingPrompts h)" by blast
  then show ?thesis by (auto simp: submit_begin_def Let_def host_simps intro: kept expired)
next
  case False
  then show ?thesis by (auto simp: submit_begin_def Let_def host_simps intro: kept split: option.split)
qed

lemma effect_on_submit_finish:
  "prompt_effect env (SubmitFinish s t now) h p (js_get (prompts h) p) (js_get (prompts (fst (submit_finish env h s t now))) p)"
  by (auto simp: submit_finish_def Let_def host_simps intro: kept refused resolved split: option.split)

lemma effect_on_wait:
  "prompt_effect env op h p (js_get (prompts h) p) (js_get (prompts (fst (waitForDecision env h q signal))) p)"
proof -
  have "prompt_effect env op h p (js_get (prompts h) p) (js_get (prompts (fst (cancelPrompt (h\<lparr>nextWait := n\<rparr>) q))) p)" for n
    by (rule effect_on_cancel) simp
  then show ?thesis by (auto simp: waitForDecision_def Let_def settle_fields intro: kept split: option.split prompt_state.split)
qed

lemma effect_on_abort:
  "prompt_effect env op h p (js_get (prompts h) p) (js_get (prompts (abort_wait h w)) p)"
proof -
  have "prompt_effect env op h p (js_get (prompts h) p) (js_get (prompts (fst (cancelPrompt (h\<lparr>decisionWaiters := d\<rparr>) q))) p)" for d q
    by (rule effect_on_cancel) simp
  then show ?thesis by (auto simp: abort_wait_def settle_fields intro: kept split: option.split)
qed

lemma effect_on_timer:
  "prompt_effect env op h p (js_get (prompts h) p) (js_get (prompts (fire_timer env h q now)) p)"
  by (auto simp: fire_timer_def performAutoExpire_def host_simps intro: kept expired split: option.split)

lemma host_step_prompt: "prompt_effect env op h p (js_get (prompts h) p) (js_get (prompts (host_step env h op)) p)"
proof (cases op)
  case (PresentPrompt r t uuid nonce1 now)
  then show ?thesis by (auto simp: presentPrompt_def Let_def js_get_set intro: kept presented)
next
  case (CancelPrompt q)
  then show ?thesis using effect_on_cancel by simp
next
  case Shutdown
  then show ?thesis by (auto simp: shutdown_prompts intro: kept cancelled split: option.split) (cases "js_get (prompts h) p"; auto intro: kept cancelled)
qed (simp_all add: effect_on_wait effect_on_abort effect_on_timer effect_on_submit_begin effect_on_submit_finish)

text \<open>The effect of a step on the submissions under way and the timers.\<close>

inductive submission_effect :: "host_op \<Rightarrow> approval_host \<Rightarrow> approval_host \<Rightarrow> bool" for op h h' where
  none: "\<lbrakk>resolvingPrompts h' = resolvingPrompts h; submissions h' = submissions h;
    \<And>q. q \<in> set (promptTimers h') \<Longrightarrow> q \<in> set (promptTimers h) \<or> (\<exists>r t nonce1 now. op = PresentPrompt r t q nonce1 now);
    \<And>s t now r. \<lbrakk>op = SubmitFinish s t now; js_get (submissions h) s = Some r\<rbrakk> \<Longrightarrow> js_get (prompts h) (dr_promptId r) = None\<rbrakk>
    \<Longrightarrow> submission_effect op h h'"
| begun: "\<lbrakk>op = SubmitBegin r now1 now2; js_get (prompts h) (dr_promptId r) = Some it; prompt_state it = PROMPT_PENDING;
    dr_promptId r \<notin> set (resolvingPrompts h); item_nonce it = dr_nonce r; now1 \<le> prompt_expiresAt it; prompts h' = prompts h;
    set (resolvingPrompts h') = insert (dr_promptId r) (set (resolvingPrompts h)); submissions h' = js_set n r (submissions h);
    set (promptTimers h') = set (promptTimers h) - {dr_promptId r}\<rbrakk> \<Longrightarrow> submission_effect op h h'"
| finished: "\<lbrakk>op = SubmitFinish s t now; js_get (submissions h) s = Some r;
    set (resolvingPrompts h') = set (resolvingPrompts h) - {dr_promptId r}; submissions h' = js_delete s (submissions h);
    promptTimers h' = promptTimers h\<rbrakk> \<Longrightarrow> submission_effect op h h'"

lemma none_cancel:
  "\<lbrakk>resolvingPrompts h1 = resolvingPrompts h; submissions h1 = submissions h; promptTimers h1 = promptTimers h;
    resolvingPrompts h' = resolvingPrompts (fst (cancelPrompt h1 q)); submissions h' = submissions (fst (cancelPrompt h1 q));
    promptTimers h' = promptTimers (fst (cancelPrompt h1 q)); \<And>s t now. op \<noteq> SubmitFinish s t now\<rbrakk> \<Longrightarrow> submission_effect op h h'"
  using cancelPrompt_fields(2) [of h1 q] by (intro none) (auto simp: cancelPrompt_fields(3,4))

lemma host_step_submissions: "submission_effect op h (host_step env h op)"
proof (cases op)
  case (PresentPrompt r t uuid nonce1 now)
  then show ?thesis by (intro none) (auto simp: presentPrompt_def Let_def split: if_splits)
next
  case (WaitForDecision p signal)
  have "submission_effect op h (settle w v (fst (cancelPrompt (h\<lparr>nextWait := n\<rparr>) p)))" for w v n
    by (rule none_cancel [where ?h1.0 = "h\<lparr>nextWait := n\<rparr>" and q = p]) (simp_all add: settle_fields WaitForDecision)
  then show ?thesis
    by (auto simp: WaitForDecision waitForDecision_def Let_def settle_fields intro: none split: option.split prompt_state.split)
next
  case (AbortWait w)
  have "submission_effect op h (settle w v (fst (cancelPrompt (h\<lparr>decisionWaiters := d\<rparr>) p)))" for v d p
    by (rule none_cancel [where ?h1.0 = "h\<lparr>decisionWaiters := d\<rparr>" and q = p]) (simp_all add: settle_fields AbortWait)
  then show ?thesis by (auto simp: AbortWait abort_wait_def intro: none split: option.split)
next
  case (CancelPrompt p)
  then show ?thesis by (auto intro: none_cancel)
next
  case (FireTimer p now)
  then show ?thesis by (intro none) (auto simp: fire_timer_def performAutoExpire_def host_simps split: option.splits if_splits)
next
  case (SubmitBegin r now1 now2)
  show ?thesis
  proof (cases "snd (submit_begin env h r now1 now2)")
    case (Inl e)
    then show ?thesis unfolding SubmitBegin
      by (intro none) (auto simp: submit_begin_def Let_def host_simps split: option.splits if_splits)
  next
    case (Inr n)
    then show ?thesis unfolding SubmitBegin
      by (intro begun [where r = r and n = "nextSubmission h" and it = "the (js_get (prompts h) (dr_promptId r))"])
        (auto simp: submit_begin_def Let_def host_simps split: option.splits if_splits)
  qed
next
  case (SubmitFinish s t now)
  show ?thesis
  proof (cases "\<exists>r it. js_get (submissions h) s = Some r \<and> js_get (prompts h) (dr_promptId r) = Some it")
    case True
    then obtain r it where "js_get (submissions h) s = Some r" "js_get (prompts h) (dr_promptId r) = Some it" by blast
    then show ?thesis unfolding SubmitFinish
      by (intro finished [where r = r]) (auto simp: submit_finish_def Let_def host_simps)
  next
    case False
    then have "fst (submit_finish env h s t now) = h" by (auto simp: submit_finish_def Let_def split: option.split)
    then show ?thesis using False by (intro none) (auto simp: SubmitFinish)
  qed
next
  case Shutdown
  then show ?thesis by (intro none) (auto simp: host_shutdown_def)
qed

section \<open>Resolutions are final\<close>

definition presented_ids :: "host_op list \<Rightarrow> string list" where
  "presented_ids ops = concat (map (\<lambda>op. case op of PresentPrompt r t uuid nonce1 now \<Rightarrow> [uuid] | _ \<Rightarrow> []) ops)"

lemma presented_simps [simp]:
  "presented_ids [] = []" "presented_ids (xs @ ys) = presented_ids xs @ presented_ids ys"
  by (simp_all add: presented_ids_def)

text \<open>The identifier of a prompt that is presented is a new one.\<close>

definition fresh_prompt :: "host_op \<Rightarrow> approval_host \<Rightarrow> bool" where
  "fresh_prompt op h \<longleftrightarrow> (case op of PresentPrompt r t uuid nonce1 now \<Rightarrow> js_get (prompts h) uuid = None | _ \<Rightarrow> True)"

text \<open>A prompt whose answer is being validated has one submission, no timer, and is pending or was cancelled meanwhile.\<close>

definition submissions_inv :: "approval_host \<Rightarrow> bool" where
  "submissions_inv h \<longleftrightarrow>
     (\<forall>s r. js_get (submissions h) s = Some r \<longrightarrow> dr_promptId r \<in> set (resolvingPrompts h))
     \<and> (\<forall>s r s' r'. js_get (submissions h) s = Some r \<longrightarrow> js_get (submissions h) s' = Some r' \<longrightarrow> dr_promptId r = dr_promptId r' \<longrightarrow> s = s')
     \<and> (\<forall>p \<in> set (resolvingPrompts h). p \<notin> set (promptTimers h) \<and> (\<exists>it. js_get (prompts h) p = Some it
          \<and> (prompt_state it = PROMPT_PENDING \<or> prompt_state it = PROMPT_CANCELLED)))"

definition undecided :: "prompt_item option \<Rightarrow> bool" where
  "undecided x \<longleftrightarrow> (\<exists>it. x = Some it \<and> (prompt_state it = PROMPT_PENDING \<or> prompt_state it = PROMPT_CANCELLED))"

lemma undecided_effect:
  assumes "prompt_effect env op h p (js_get (prompts h) p) y" "undecided (js_get (prompts h) p)" "fresh_prompt op h"
    and "p \<in> set (resolvingPrompts h)" "p \<notin> set (promptTimers h)"
    and other: "\<And>s t now r. \<lbrakk>op = SubmitFinish s t now; js_get (submissions h) s = Some r\<rbrakk> \<Longrightarrow> dr_promptId r \<noteq> p"
  shows "undecided y"
  using assms(1)
proof (cases rule: prompt_effect.cases)
  case kept
  then show ?thesis using assms(2) by simp
next
  case (presented r t nonce1 now y)
  then show ?thesis using assms(2,3) by (simp add: fresh_prompt_def undecided_def)
qed (use assms(4,5) other in \<open>simp_all add: undecided_def\<close>)

lemma submissions_step:
  assumes inv: "submissions_inv h" and fresh: "fresh_prompt op h"
  shows "submissions_inv (host_step env h op)"
proof -
  have old: "undecided (js_get (prompts h) p)" "p \<notin> set (promptTimers h)" if "p \<in> set (resolvingPrompts h)" for p
    using inv that by (auto simp: submissions_inv_def undecided_def)
  have new: "undecided (js_get (prompts (host_step env h op)) p)" if "p \<in> set (resolvingPrompts h)"
    "\<And>s t now r. \<lbrakk>op = SubmitFinish s t now; js_get (submissions h) s = Some r\<rbrakk> \<Longrightarrow> dr_promptId r \<noteq> p" for p
    using host_step_prompt old(1) [OF that(1)] fresh that(1) old(2) [OF that(1)] that(2) by (rule undecided_effect)
  from host_step_submissions [of op h env] show ?thesis
  proof (cases rule: submission_effect.cases)
    case none
    have "undecided (js_get (prompts (host_step env h op)) p)" if "p \<in> set (resolvingPrompts h)" for p
      using old(1) [OF that] none(4) by (intro new that) (auto simp: undecided_def)
    moreover have "p \<notin> set (promptTimers (host_step env h op))" if "p \<in> set (resolvingPrompts h)" for p
    proof
      assume "p \<in> set (promptTimers (host_step env h op))"
      from none(3) [OF this] old(2) [OF that] obtain r t nonce1 now where "op = PresentPrompt r t p nonce1 now" by blast
      then show False using fresh old(1) [OF that] by (simp add: fresh_prompt_def undecided_def)
    qed
    ultimately show ?thesis using inv none(1,2) by (simp add: submissions_inv_def undecided_def)
  next
    case (begun r now1 now2 it n)
    have "dr_promptId ra \<noteq> dr_promptId r" if "js_get (submissions h) s = Some ra" for s ra
      using inv that begun(4) unfolding submissions_inv_def by metis
    then show ?thesis using inv begun by (auto simp: submissions_inv_def js_get_set split: if_splits)
  next
    case (finished s t now r)
    have "undecided (js_get (prompts (host_step env h op)) p)" if "p \<in> set (resolvingPrompts h)" "p \<noteq> dr_promptId r" for p
      using that finished by (intro new) auto
    then show ?thesis
      using inv finished unfolding submissions_inv_def undecided_def
      by (simp add: js_get_delete) metis
  qed
qed

text \<open>A prompt that is resolved or cancelled, and not being answered, never changes again.\<close>

definition frozen :: "string \<Rightarrow> prompt_item \<Rightarrow> approval_host \<Rightarrow> bool" where
  "frozen p it h \<longleftrightarrow> js_get (prompts h) p = Some it \<and> prompt_state it \<noteq> PROMPT_PENDING
     \<and> (\<forall>s r. js_get (submissions h) s = Some r \<longrightarrow> dr_promptId r \<noteq> p)"

lemma frozen_step:
  assumes fr: "frozen p it h" and fresh: "fresh_prompt op h"
  shows "frozen p it (host_step env h op)"
proof -
  have it: "js_get (prompts h) p = Some it" "prompt_state it \<noteq> PROMPT_PENDING"
    "\<And>s r. js_get (submissions h) s = Some r \<Longrightarrow> dr_promptId r \<noteq> p"
    using fr by (auto simp: frozen_def)
  from host_step_prompt [of env op h p] have "js_get (prompts (host_step env h op)) p = Some it"
  proof (cases rule: prompt_effect.cases)
    case (presented r t nonce1 now y)
    then show ?thesis using fresh it by (simp add: fresh_prompt_def)
  qed (use it in auto)
  moreover have "dr_promptId r \<noteq> p" if "js_get (submissions (host_step env h op)) s = Some r" for s r
    using host_step_submissions [of op h env]
  proof (cases rule: submission_effect.cases)
    case (begun r' now1 now2 it' n)
    then show ?thesis using that it by (auto simp: js_get_set split: if_splits)
  qed (use that it in \<open>auto simp: js_get_delete split: if_splits\<close>)
  ultimately show ?thesis using it by (simp add: frozen_def)
qed

text \<open>Every prompt stems from its presentation.\<close>

lemma prompt_known:
  assumes "js_get (prompts (foldl (host_step env) NativeApprovalHost ops)) p = Some it"
  shows "p \<in> set (presented_ids ops)"
  using assms
proof (induction ops arbitrary: it rule: rev_induct)
  case (snoc op ops)
  let ?h = "foldl (host_step env) NativeApprovalHost ops"
  show ?case
  proof (cases "js_get (prompts ?h) p")
    case None
    from host_step_prompt [of env op ?h p] obtain r t nonce1 now where "op = PresentPrompt r t p nonce1 now"
      by (cases rule: prompt_effect.cases) (use None snoc.prems in auto)
    then show ?thesis by (simp add: presented_ids_def)
  qed (use snoc.IH in simp)
qed (simp add: NativeApprovalHost_def js_get_Nil)

lemma fresh_prompt_history:
  "distinct (presented_ids (pre @ op # post)) \<Longrightarrow> fresh_prompt op (foldl (host_step env) NativeApprovalHost pre)"
  using prompt_known [of env pre] by (cases op) (fastforce simp: fresh_prompt_def presented_ids_def)+

lemma submissions_reachable:
  "distinct (presented_ids ops) \<Longrightarrow> submissions_inv (foldl (host_step env) NativeApprovalHost ops)"
proof (induction ops rule: rev_induct)
  case (snoc op ops)
  then show ?case using fresh_prompt_history [of ops op "[]" env] by (auto intro: submissions_step)
qed (simp add: submissions_inv_def NativeApprovalHost_def js_get_Nil)

lemma frozen_run:
  "\<lbrakk>frozen p it (foldl (host_step env) NativeApprovalHost pre); distinct (presented_ids (pre @ post))\<rbrakk>
   \<Longrightarrow> frozen p it (foldl (host_step env) NativeApprovalHost (pre @ post))"
proof (induction post arbitrary: pre)
  case (Cons op post)
  have "frozen p it (foldl (host_step env) NativeApprovalHost (pre @ [op]))"
    using frozen_step [OF Cons.prems(1) fresh_prompt_history [OF Cons.prems(2)]] by simp
  then show ?case using Cons.IH [of "pre @ [op]"] Cons.prems(2) by simp
qed simp

text \<open>C5. Resolutions are final. Once a prompt is approved, denied or expired, or is cancelled while no answer to it is
  being validated, nothing that happens later changes it: not another answer, not its timer, not a
  cancellation, not a shutdown. (Prompt identifiers are the platform's UUIDs and not reused.)\<close>

theorem prompt_resolution_final:
  assumes "distinct (presented_ids (pre @ post))"
    and "js_get (prompts (foldl (host_step env) NativeApprovalHost pre)) p = Some it" "prompt_state it \<noteq> PROMPT_PENDING"
    and "prompt_state it = PROMPT_CANCELLED \<longrightarrow> p \<notin> set (resolvingPrompts (foldl (host_step env) NativeApprovalHost pre))"
  shows "js_get (prompts (foldl (host_step env) NativeApprovalHost (pre @ post))) p = Some it"
proof -
  let ?h = "foldl (host_step env) NativeApprovalHost pre"
  have inv: "submissions_inv ?h" using assms(1) by (intro submissions_reachable) simp
  have "dr_promptId r \<noteq> p" if "js_get (submissions ?h) s = Some r" for s r
    using inv that assms(2-4) unfolding submissions_inv_def by fastforce
  then have "frozen p it ?h" using assms(2,3) by (simp add: frozen_def)
  from frozen_run [OF this assms(1)] show ?thesis by (simp add: frozen_def)
qed

section \<open>Consent\<close>

text \<open>An answer is good when it is not consent, or tells of a prompt that is approved, or comes from the end of a submission
  that allows it.\<close>

definition good_answer :: "host_env \<Rightarrow> host_op \<Rightarrow> approval_host \<Rightarrow> ui_error + decision_result \<Rightarrow> bool" where
  "good_answer env op h v \<longleftrightarrow>
     (\<forall>res. v = Inr res \<and> res_decision res = CHOICE_ALLOW \<longrightarrow>
       (\<exists>p it. js_get (prompts h) p = Some it \<and> res_promptId res = promptId it
         \<and> (prompt_state it = PROMPT_APPROVED
             \<or> (\<exists>s t now r. op = SubmitFinish s t now \<and> js_get (submissions h) s = Some r \<and> dr_promptId r = p
                  \<and> lease_ok env (dr_leaseHeader r) t \<and> dr_decision r = CHOICE_ALLOW))))"

lemma good_answers:
  "good_answer env op h (Inl e)" "res_decision res = CHOICE_DENY \<Longrightarrow> good_answer env op h (Inr res)"
  by (simp_all add: good_answer_def)

lemma good_submission:
  "\<lbrakk>js_get (submissions h) s = Some r; js_get (prompts h) (dr_promptId r) = Some it; lease_ok env (dr_leaseHeader r) t\<rbrakk>
   \<Longrightarrow> good_answer env (SubmitFinish s t now) h (Inr (submitted_result env it r now))"
  unfolding good_answer_def by (intro allI impI exI [of _ "dr_promptId r"] exI [of _ it]) (auto simp: submitted_result_def)

lemma denied_result: "res_decision (result_of env it CHOICE_DENY st ms notes) = CHOICE_DENY"
  by (simp add: result_of_def)

lemma settled_notify: "set (settled (notify_waiter p v h)) \<subseteq> set (settled h) \<union> UNIV \<times> {v}"
  by (auto simp: notify_waiter_def settle_def split: option.split)

lemma settled_cancel: "set (settled (fst (cancelPrompt h p))) \<subseteq> set (settled h) \<union> UNIV \<times> {Inl INTERNAL_ERROR}"
  using settled_notify [of p "Inl INTERNAL_ERROR" "clear_timer p (set_prompt_state p PROMPT_CANCELLED h)"]
  by (auto simp: cancelPrompt_def host_simps split: option.split)

lemma settled_step:
  assumes "(w, v) \<in> set (settled (host_step env h op))"
  shows "(w, v) \<in> set (settled h) \<or> good_answer env op h v"
proof (cases op)
  case (PresentPrompt r t uuid nonce1 now)
  then show ?thesis using assms by (auto simp: presentPrompt_def Let_def split: if_splits)
next
  case (WaitForDecision p signal)
  have "good_answer env op h (Inr (result_of env it CHOICE_ALLOW PROMPT_APPROVED ms None))"
    if "js_get (prompts h) p = Some it" "prompt_state it = PROMPT_APPROVED" for it ms
    using that by (auto simp: good_answer_def result_of_def)
  then show ?thesis
    using assms settled_cancel [of "h\<lparr>nextWait := nextWait h + 1\<rparr>" p]
    by (auto simp: WaitForDecision waitForDecision_def Let_def settle_fields good_answers denied_result
        split: option.splits prompt_state.splits if_splits)
next
  case (AbortWait w')
  have "(w, v) \<in> set (settled h) \<or> v = Inl INTERNAL_ERROR"
    if "(w, v) \<in> set (settled (fst (cancelPrompt (h\<lparr>decisionWaiters := d\<rparr>) p)))" for d p
    using that settled_cancel [of "h\<lparr>decisionWaiters := d\<rparr>" p] by auto
  then have "(w, v) \<in> set (settled h) \<or> v = Inl INTERNAL_ERROR" using assms
    by (simp add: AbortWait abort_wait_def settle_fields split: option.splits if_splits) blast
  then show ?thesis by (auto simp: good_answers)
next
  case (CancelPrompt p)
  then show ?thesis using assms settled_cancel [of h p] by (auto simp: good_answers)
next
  case (FireTimer p now)
  have "(w, v) \<in> set (settled h) \<or> (\<exists>it ms notes. v = Inr (result_of env it CHOICE_DENY PROMPT_EXPIRED ms notes))"
    using assms unfolding FireTimer host_step.simps fire_timer_def performAutoExpire_def
    by (auto simp: host_simps dest!: settled_notify [THEN subsetD] split: option.splits if_splits)
  then show ?thesis by (auto simp: good_answers denied_result)
next
  case (SubmitBegin r now1 now2)
  have "(w, v) \<in> set (settled h) \<or> (\<exists>it ms notes. v = Inr (result_of env it CHOICE_DENY PROMPT_EXPIRED ms notes))"
    using assms unfolding SubmitBegin host_step.simps submit_begin_def Let_def
    by (auto simp: host_simps dest!: settled_notify [THEN subsetD] split: option.splits if_splits)
  then show ?thesis by (auto simp: good_answers denied_result)
next
  case (SubmitFinish s t now)
  have "(w, v) \<in> set (settled h) \<or> (\<exists>r it. js_get (submissions h) s = Some r \<and> js_get (prompts h) (dr_promptId r) = Some it
      \<and> lease_ok env (dr_leaseHeader r) t \<and> v = Inr (submitted_result env it r now))"
    using assms unfolding SubmitFinish host_step.simps submit_finish_def Let_def
    by (auto simp: host_simps dest!: settled_notify [THEN subsetD] split: option.splits if_splits)
  then show ?thesis unfolding SubmitFinish by (blast intro: good_submission)
next
  case Shutdown
  then show ?thesis using assms by (auto simp: host_shutdown_def good_answers)
qed

text \<open>A prompt was allowed: an answer with its nonce allowed it, in time, and under a lease that was valid when the answer
  was completed.\<close>

definition consented :: "host_env \<Rightarrow> host_op set \<Rightarrow> prompt_item \<Rightarrow> bool" where
  "consented env S it \<longleftrightarrow>
     (\<exists>r now1 now2 s t now. SubmitBegin r now1 now2 \<in> S \<and> SubmitFinish s t now \<in> S \<and> dr_promptId r = promptId it
       \<and> dr_decision r = CHOICE_ALLOW \<and> dr_nonce r = item_nonce it \<and> now1 \<le> prompt_expiresAt it \<and> lease_ok env (dr_leaseHeader r) t)"

definition same_prompt :: "prompt_item \<Rightarrow> prompt_item \<Rightarrow> bool" where
  "same_prompt a b \<longleftrightarrow> promptId a = promptId b \<and> item_nonce a = item_nonce b \<and> prompt_expiresAt a = prompt_expiresAt b"

definition consent_inv :: "host_env \<Rightarrow> host_op set \<Rightarrow> approval_host \<Rightarrow> bool" where
  "consent_inv env S h \<longleftrightarrow>
     (\<forall>p it. js_get (prompts h) p = Some it \<longrightarrow> promptId it = p \<and> (prompt_state it = PROMPT_APPROVED \<longrightarrow> consented env S it))
     \<and> (\<forall>s r. js_get (submissions h) s = Some r \<longrightarrow> (\<exists>now1 now2 it. SubmitBegin r now1 now2 \<in> S
          \<and> js_get (prompts h) (dr_promptId r) = Some it \<and> item_nonce it = dr_nonce r \<and> now1 \<le> prompt_expiresAt it))
     \<and> (\<forall>w res. (w, Inr res) \<in> set (settled h) \<longrightarrow> res_decision res = CHOICE_ALLOW \<longrightarrow>
          (\<exists>it. js_get (prompts h) (res_promptId res) = Some it \<and> consented env S it))"

lemma consent_prompt:
  "\<lbrakk>consent_inv env S h; js_get (prompts h) p = Some it\<rbrakk> \<Longrightarrow> promptId it = p \<and> (prompt_state it = PROMPT_APPROVED \<longrightarrow> consented env S it)"
  by (simp add: consent_inv_def)

lemma consent_submission:
  "\<lbrakk>consent_inv env S h; js_get (submissions h) s = Some r\<rbrakk> \<Longrightarrow> \<exists>now1 now2 it. SubmitBegin r now1 now2 \<in> S
     \<and> js_get (prompts h) (dr_promptId r) = Some it \<and> item_nonce it = dr_nonce r \<and> now1 \<le> prompt_expiresAt it"
  by (simp add: consent_inv_def)

lemma consent_answer:
  "\<lbrakk>consent_inv env S h; (w, Inr res) \<in> set (settled h); res_decision res = CHOICE_ALLOW\<rbrakk>
   \<Longrightarrow> \<exists>it. js_get (prompts h) (res_promptId res) = Some it \<and> consented env S it"
  unfolding consent_inv_def by blast

lemma consented_same: "\<lbrakk>consented env S it; same_prompt it it'\<rbrakk> \<Longrightarrow> consented env S it'"
  unfolding consented_def same_prompt_def by metis

lemma prompt_persists:
  assumes "js_get (prompts h) p = Some it" "fresh_prompt op h"
  obtains it' where "js_get (prompts (host_step env h op)) p = Some it'" "same_prompt it it'"
  using host_step_prompt [of env op h p]
proof (cases rule: prompt_effect.cases)
  case (presented r t nonce1 now y)
  then show ?thesis using assms by (simp add: fresh_prompt_def)
qed (use assms that in \<open>auto simp: same_prompt_def\<close>)

lemma finish_consents:
  assumes "consent_inv env S h" "SubmitFinish s t now \<in> S" "js_get (submissions h) s = Some r" "lease_ok env (dr_leaseHeader r) t"
    "dr_decision r = CHOICE_ALLOW" "js_get (prompts h) (dr_promptId r) = Some it"
  shows "consented env S it"
proof -
  obtain now1 now2 where "SubmitBegin r now1 now2 \<in> S" "item_nonce it = dr_nonce r" "now1 \<le> prompt_expiresAt it"
    using consent_submission [OF assms(1,3)] assms(6) by auto
  moreover have "promptId it = dr_promptId r" using consent_prompt [OF assms(1,6)] by simp
  ultimately show ?thesis using assms(2,4,5) unfolding consented_def by metis
qed

lemma consent_prompts:
  assumes "consent_inv env S h" "op \<in> S" "js_get (prompts (host_step env h op)) p = Some it"
  shows "promptId it = p \<and> (prompt_state it = PROMPT_APPROVED \<longrightarrow> consented env S it)"
proof -
  have old: "promptId x = p \<and> (prompt_state x = PROMPT_APPROVED \<longrightarrow> consented env S x)" if "js_get (prompts h) p = Some x" for x
    using consent_prompt [OF assms(1) that] .
  from host_step_prompt [of env op h p] show ?thesis
  proof (cases rule: prompt_effect.cases)
    case (resolved s t now r x)
    then have "consented env S x" if "dr_decision r = CHOICE_ALLOW" using finish_consents [OF assms(1)] that assms(2) by simp
    then have "consented env S (x\<lparr>prompt_state := final_state (dr_decision r)\<rparr>)" if "dr_decision r = CHOICE_ALLOW"
      using that consented_same [of env S x "x\<lparr>prompt_state := final_state (dr_decision r)\<rparr>"] by (simp add: same_prompt_def)
    then show ?thesis using resolved assms(3) old [of x] by (auto simp: final_state_def split: if_splits)
  qed (use assms(3) old in \<open>auto simp: new_prompt_def\<close>)
qed

lemma consent_step:
  assumes inv: "consent_inv env S h" and op: "op \<in> S" "fresh_prompt op h"
  shows "consent_inv env S (host_step env h op)"
proof -
  have "\<exists>now1 now2 it. SubmitBegin r now1 now2 \<in> S \<and> js_get (prompts (host_step env h op)) (dr_promptId r) = Some it
      \<and> item_nonce it = dr_nonce r \<and> now1 \<le> prompt_expiresAt it"
    if sub: "js_get (submissions (host_step env h op)) s = Some r" for s r
  proof -
    have "\<exists>now1 now2 it. SubmitBegin r now1 now2 \<in> S \<and> js_get (prompts h) (dr_promptId r) = Some it
        \<and> item_nonce it = dr_nonce r \<and> now1 \<le> prompt_expiresAt it"
      using host_step_submissions [of op h env]
    proof (cases rule: submission_effect.cases)
      case none
      then show ?thesis using inv sub by (simp add: consent_inv_def)
    next
      case (begun r' now1 now2 it n)
      then show ?thesis using inv sub op(1) by (cases "s = n") (auto simp: consent_inv_def js_get_set)
    next
      case (finished s' t now r')
      then show ?thesis using inv sub by (auto simp: consent_inv_def js_get_delete split: if_splits)
    qed
    then obtain now1 now2 it where it: "SubmitBegin r now1 now2 \<in> S" "js_get (prompts h) (dr_promptId r) = Some it"
      "item_nonce it = dr_nonce r" "now1 \<le> prompt_expiresAt it" by blast
    obtain it' where "js_get (prompts (host_step env h op)) (dr_promptId r) = Some it'" "same_prompt it it'"
      using prompt_persists [OF it(2) op(2)] by blast
    then show ?thesis using it by (auto simp: same_prompt_def)
  qed
  moreover have "\<exists>it. js_get (prompts (host_step env h op)) (res_promptId res) = Some it \<and> consented env S it"
    if res: "(w, Inr res) \<in> set (settled (host_step env h op))" "res_decision res = CHOICE_ALLOW" for w res
  proof -
    have "\<exists>it. js_get (prompts h) (res_promptId res) = Some it \<and> consented env S it"
      using settled_step [OF res(1)]
    proof
      assume "(w, Inr res) \<in> set (settled h)"
      then show ?thesis using inv res(2) by (simp add: consent_inv_def)
    next
      assume "good_answer env op h (Inr res)"
      then obtain p it where it: "js_get (prompts h) p = Some it" "res_promptId res = promptId it"
        and "prompt_state it = PROMPT_APPROVED \<or> (\<exists>s t now r. op = SubmitFinish s t now \<and> js_get (submissions h) s = Some r
          \<and> dr_promptId r = p \<and> lease_ok env (dr_leaseHeader r) t \<and> dr_decision r = CHOICE_ALLOW)"
        using res(2) by (auto simp: good_answer_def)
      moreover have "promptId it = p" "prompt_state it = PROMPT_APPROVED \<longrightarrow> consented env S it"
        using consent_prompt [OF inv it(1)] by auto
      ultimately show ?thesis using finish_consents [OF inv, of _ _ _ _ it] op(1) by auto
    qed
    then obtain it where it: "js_get (prompts h) (res_promptId res) = Some it" "consented env S it" by blast
    obtain it' where "js_get (prompts (host_step env h op)) (res_promptId res) = Some it'" "same_prompt it it'"
      using prompt_persists [OF it(1) op(2)] by blast
    then show ?thesis using consented_same [OF it(2)] by blast
  qed
  ultimately show ?thesis using consent_prompts [OF inv op(1)] unfolding consent_inv_def by simp
qed

lemma consent_reachable:
  "\<lbrakk>distinct (presented_ids ops); set ops \<subseteq> S\<rbrakk> \<Longrightarrow> consent_inv env S (foldl (host_step env) NativeApprovalHost ops)"
proof (induction ops rule: rev_induct)
  case (snoc op ops)
  then show ?case using fresh_prompt_history [of ops op "[]" env] by (auto intro: consent_step)
qed (simp add: consent_inv_def NativeApprovalHost_def js_get_Nil)

text \<open>C4. Consent. In every interleaving, the orchestrator takes the answer to its prompt for consent only if an answer was
  submitted that allows this prompt, with the prompt's nonce, before the prompt expired, under a lease that
  the boundary admitted when the answer was completed.\<close>

theorem approval_needs_consent:
  assumes "distinct (presented_ids ops)"
    and "(w, Inr res) \<in> set (settled (foldl (host_step env) NativeApprovalHost ops))" "outcome_of (Inr res) = Approved hash"
  shows "\<exists>it r now1 now2 s t now.
    js_get (prompts (foldl (host_step env) NativeApprovalHost ops)) (res_promptId res) = Some it
    \<and> SubmitBegin r now1 now2 \<in> set ops \<and> SubmitFinish s t now \<in> set ops \<and> dr_promptId r = res_promptId res
    \<and> dr_decision r = CHOICE_ALLOW \<and> dr_nonce r = item_nonce it \<and> now1 \<le> prompt_expiresAt it \<and> lease_ok env (dr_leaseHeader r) t"
proof -
  have inv: "consent_inv env (set ops) (foldl (host_step env) NativeApprovalHost ops)"
    using assms(1) by (intro consent_reachable) simp_all
  have "res_decision res = CHOICE_ALLOW" using assms(3) by (cases "res_decision res") (auto simp: outcome_of_def split: if_splits)
  then obtain it where it: "js_get (prompts (foldl (host_step env) NativeApprovalHost ops)) (res_promptId res) = Some it"
      "consented env (set ops) it"
    using consent_answer [OF inv assms(2)] by blast
  then show ?thesis using consent_prompt [OF inv it(1)] unfolding consented_def by metis
qed

section \<open>Concrete runs\<close>

definition test_host_env :: host_env where
  "test_host_env = \<lparr>he_platform = test_platform, he_boundary = Some test_boundary, he_redact = None\<rparr>"

definition test_prompt :: prompt_request where
  "test_prompt =
     \<lparr>pr_leaseHeader = test_lease, pr_requestId = ''t'', pr_taskId = Some ''t'', pr_stepId = Some ''s'', pr_title = ''Authorize'',
      pr_description = ''d'', pr_riskTier = RISK_HIGH, pr_actionIdentifier = ''a'', pr_capabilityId = None, pr_targetResource = None,
      pr_reversibility = None, pr_tenantId = None, pr_deviceId = None, pr_ttlSeconds = Some 60, pr_isLockScreenPrivate = None,
      pr_metadata = None\<rparr>"

definition test_answer :: "decision_choice \<Rightarrow> decision_request" where
  "test_answer d =
     \<lparr>dr_promptId = ''P'', dr_decision = d, dr_nonce = ''N'', dr_leaseHeader = test_lease, dr_tenantId = None, dr_userNotes = None,
      dr_decidedBy = None\<rparr>"

definition test_present :: host_op where
  "test_present = PresentPrompt test_prompt test_tick ''P'' ''N'' 0"

definition test_approval :: "host_op list" where
  "test_approval = [test_present, WaitForDecision ''P'' (Some False), SubmitBegin (test_answer CHOICE_ALLOW) 1000 1000, SubmitFinish 0 test_tick 2000]"

lemma test_host_leases: "lease_ok test_host_env test_lease test_tick" "ApprovalPromptRequestSchema test_platform test_prompt"
proof -
  show "lease_ok test_host_env test_lease test_tick" by code_simp
  have "ExecutionLeaseHeaderSchema test_platform test_lease" by code_simp
  then show "ApprovalPromptRequestSchema test_platform test_prompt"
    by (simp add: ApprovalPromptRequestSchema_def test_prompt_def sized_def optional_def MAX_PROMPT_DESCRIPTION_BYTES_def)
qed

definition test_prompt_item :: prompt_item where
  "test_prompt_item = new_prompt test_host_env test_prompt ''P'' ''N'' 0"

lemma test_item_facts:
  "prompt_state test_prompt_item = PROMPT_PENDING" "item_nonce test_prompt_item = ''N''" "promptId test_prompt_item = ''P''"
  "prompt_expiresAt test_prompt_item = 60000" "he_platform test_host_env = test_platform" "pr_leaseHeader test_prompt = test_lease"
  "dr_promptId (test_answer d) = ''P''" "dr_nonce (test_answer d) = ''N''" "dr_leaseHeader (test_answer d) = test_lease"
  "dr_decision (test_answer d) = d" "dr_tenantId (test_answer d) = None"
  by (simp_all add: test_prompt_item_def new_prompt_def test_prompt_def nullish_def test_host_env_def test_answer_def)

lemma test_presented:
  "host_step test_host_env NativeApprovalHost test_present =
     NativeApprovalHost\<lparr>prompts := [(''P'', test_prompt_item)], promptTimers := [''P'']\<rparr>"
  by (simp add: test_present_def presentPrompt_def test_item_facts test_host_leases NativeApprovalHost_def js_set_def Let_def
      flip: test_prompt_item_def)

lemmas host_eval = waitForDecision_def submit_begin_def submit_finish_def cancelPrompt_def notify_waiter_def settle_def
  set_prompt_state_def clear_timer_def end_submission_def NativeApprovalHost_def js_get_def js_set_def js_delete_def Let_def
  final_state_def test_item_facts test_host_leases

lemma test_approval_run:
  "\<exists>res. (0, Inr res) \<in> set (settled (foldl (host_step test_host_env) NativeApprovalHost test_approval))
     \<and> outcome_of (Inr res) = Approved (receiptHash res)"
  unfolding test_approval_def foldl.simps test_presented
  by (simp add: host_eval submitted_result_def outcome_of_def)

theorem approval_needs_consent_witness:
  "\<exists>s t now. SubmitFinish s t now \<in> set test_approval \<and> lease_ok test_host_env test_lease t"
proof -
  have "distinct (presented_ids test_approval)" by (simp add: test_approval_def presented_ids_def test_present_def)
  then show ?thesis
    using test_approval_run approval_needs_consent [of test_approval 0 _ test_host_env]
    by (fastforce simp: test_approval_def test_present_def test_item_facts)
qed

theorem prompt_resolution_final_witness:
  "map_option prompt_state (js_get (prompts (foldl (host_step test_host_env) NativeApprovalHost
     ([test_present, CancelPrompt ''P''] @ [SubmitBegin (test_answer CHOICE_ALLOW) 1000 1000, FireTimer ''P'' 60000]))) ''P'')
   = Some PROMPT_CANCELLED"
proof -
  let ?pre = "[test_present, CancelPrompt ''P'']" and ?it = "test_prompt_item\<lparr>prompt_state := PROMPT_CANCELLED\<rparr>"
  have "foldl (host_step test_host_env) NativeApprovalHost ?pre = NativeApprovalHost\<lparr>prompts := [(''P'', ?it)]\<rparr>"
    unfolding foldl.simps test_presented by (simp add: host_eval)
  then have "js_get (prompts (foldl (host_step test_host_env) NativeApprovalHost
      (?pre @ [SubmitBegin (test_answer CHOICE_ALLOW) 1000 1000, FireTimer ''P'' 60000]))) ''P'' = Some ?it"
    by (intro prompt_resolution_final) (simp_all add: presented_ids_def test_present_def js_get_def NativeApprovalHost_def)
  then show ?thesis by simp
qed

text \<open>A prompt that is cancelled while an answer to it is being validated is approved all the same.\<close>

lemma cancelled_prompt_approved:
  "let h = foldl (host_step test_host_env) NativeApprovalHost [test_present, SubmitBegin (test_answer CHOICE_ALLOW) 1000 1000]
   in snd (cancelPrompt h ''P'')
     \<and> map_option prompt_state (js_get (prompts (foldl (host_step test_host_env) h [CancelPrompt ''P'', SubmitFinish 0 test_tick 2000])) ''P'')
         = Some PROMPT_APPROVED"
  unfolding Let_def foldl.simps test_presented by (simp add: host_eval)

text \<open>When the lease of an answer is refused, the prompt is denied but the execution that waits for it is not told.\<close>

lemma refused_answer_not_delivered:
  assumes "js_get (submissions h) s = Some r" "js_get (prompts h) (dr_promptId r) = Some it" "\<not> lease_ok env (dr_leaseHeader r) t"
  shows "settled (fst (submit_finish env h s t now)) = settled h \<and> waiting (fst (submit_finish env h s t now)) = waiting h
    \<and> js_get (prompts (fst (submit_finish env h s t now))) (dr_promptId r) = Some (it\<lparr>prompt_state := PROMPT_DENIED\<rparr>)"
  using assms by (simp add: submit_finish_def Let_def host_simps)

end
