(* ===== verification/Task_Scheduler.thy ===== *)
theory Task_Scheduler
  imports Orchestrator
begin

text \<open>
  The task scheduler of the desktop agent (\<open>apps/desktop-agent/src/scheduler/task-scheduler.ts\<close>) with the admission
  controller (\<open>admission-controller.ts\<close>), over the models of the queue and of the orchestrator.

  \<open>scheduleTask\<close> is two steps, \<open>admitTask\<close> (admission, duplicate check, queueing, checkpoint) and \<open>dispatchTask\<close>
  (\<open>processDispatch\<close>); an admitted item waits for the second in \<open>admitted\<close>. \<open>processNextItem\<close> is a loop that is
  active while \<open>isProcessing\<close>: \<open>processStep\<close> is one turn of it. A call of \<open>executeTask\<close> under way is an entry of
  \<open>running\<close>, under the number of its flight in the orchestrator, with a flag that tells the loop's call from a direct one; a step of the
  orchestrator that ends the flight resumes the scheduler (\<open>resume\<close>). The steps of all calls may come in any order.
  The records of the state manager are the fields \<open>task_queue_index\<close>, \<open>task_queue\<close> and \<open>task_checkpoint\<close> (its status
  only); telemetry is not kept. For the proofs, \<open>accepted\<close> lists the
  items that entered the scheduler and \<open>closed\<close> how an item left it.

  An item in the queue, the one the dispatching call holds and the one \<open>applyAging\<close> promotes are one object in the
  code; here the item taken from the queue stands for it.

  Proved: no item is lost or duplicated; every item is retried at most three times; the limits of queue and
  orchestrator hold in every state; and a retry within fifteen minutes is never executed.
\<close>

section \<open>Admission\<close>

definition evaluateAdmission :: "agent_env \<Rightarrow> task_request \<Rightarrow> agent_state option \<Rightarrow> tick \<Rightarrow> string option" where
  "evaluateAdmission env r life t =
     (if unsafe_lifecycle life then Some ''LIFECYCLE_DENIED''
      else case lease_decision env (rq_leaseHeader r) t of
        Inl _ \<Rightarrow> Some ''LEASE_DENIED''
      | Inr _ \<Rightarrow>
          if agent_id (rq_leaseHeader r) \<noteq> ae_deviceId env \<or> tenant_id (rq_leaseHeader r) \<noteq> ae_tenantId env
          then Some ''TENANT_DEVICE_MISMATCH'' else None)"

section \<open>State\<close>

datatype fate = Returned task_result | ItemExpired | LeaseDeniedItem | Removed | Dropped | Pruned | Crashed

record scheduler =
  sch_queue :: exec_queue
  sch_orch :: orchestrator
  isProcessing :: bool
  task_queue_index :: "string list"
  task_queue :: "(string, scheduled_item) jsmap"
  task_checkpoint :: "(string, string) jsmap"
  admitted :: "scheduled_item list"
  running :: "(nat, scheduled_item \<times> bool) jsmap"
  accepted :: "scheduled_item list"
  closed :: "(scheduled_item \<times> fate) list"

definition default_retry :: retry_policy where
  "default_retry = \<lparr>maxRetries = 3, rp_initialDelayMs = 1000, rp_maxDelayMs = 30000, backoffMultiplier = 2\<rparr>"

definition TaskScheduler :: scheduler where
  "TaskScheduler =
     \<lparr>sch_queue = ExecutionQueue 100 20 30000, sch_orch = AgentOrchestrator, isProcessing = False, task_queue_index = [],
      task_queue = [], task_checkpoint = [], admitted = [], running = [], accepted = [], closed = []\<rparr>"

definition getScheduledTaskStatus :: "scheduler \<Rightarrow> string \<Rightarrow> string option \<Rightarrow> int \<Rightarrow> run_status option" where
  "getScheduledTaskStatus s tid tenant now =
     (case getTaskStatus (sch_orch s) tid tenant of
        Some st \<Rightarrow> Some st
      | None \<Rightarrow>
         (case peek (sch_queue s) now of
            None \<Rightarrow> None
          | Some it \<Rightarrow>
              if rq_task_id (request it) = tid
              then (if truthy tenant \<and> Some (item_tenant it) \<noteq> tenant then None else Some RUN_QUEUED)
              else None))"

record queue_metrics =
  queuedCount :: nat
  metric_activeCount :: nat
  metric_maxCapacity :: nat
  perLaneCounts :: "(lane \<times> nat) list"

definition getQueueMetrics :: "scheduler \<Rightarrow> queue_metrics" where
  "getQueueMetrics s =
     \<lparr>queuedCount = getSize (sch_queue s), metric_activeCount = activeCount (sch_orch s), metric_maxCapacity = 100,
      perLaneCounts = map (\<lambda>l. (l, getLaneCount (sch_queue s) l)) laneOrder\<rparr>"

section \<open>The records of the state manager\<close>

definition checkpoint :: "string \<Rightarrow> string \<Rightarrow> scheduler \<Rightarrow> scheduler" where
  "checkpoint tid st s = s\<lparr>task_checkpoint := js_set tid st (task_checkpoint s)\<rparr>"

definition persist :: "scheduled_item \<Rightarrow> scheduler \<Rightarrow> scheduler" where
  "persist it s =
     s\<lparr>task_queue_index := js_add (rq_task_id (request it)) (task_queue_index s),
       task_queue := js_set (rq_task_id (request it)) it (task_queue s)\<rparr>"

definition unpersist :: "string \<Rightarrow> scheduler \<Rightarrow> scheduler" where
  "unpersist tid s =
     s\<lparr>task_queue_index := filter (\<lambda>i. i \<noteq> tid) (task_queue_index s), task_queue := js_delete tid (task_queue s)\<rparr>"

definition close_item :: "scheduled_item \<Rightarrow> fate \<Rightarrow> scheduler \<Rightarrow> scheduler" where
  "close_item it f s = s\<lparr>closed := closed s @ [(it, f)]\<rparr>"

section \<open>Executions\<close>

text \<open>\<open>queue.enqueue\<close> without a look at its answer.\<close>

definition requeue :: "scheduled_item \<Rightarrow> scheduler \<Rightarrow> scheduler" where
  "requeue it s =
     (let (q, ok) = enqueue (sch_queue s) it
      in if ok then s\<lparr>sch_queue := q\<rparr> else close_item it Dropped s)"

definition scheduleRetry :: "scheduled_item \<Rightarrow> int \<Rightarrow> rat \<Rightarrow> scheduler \<Rightarrow> scheduler" where
  "scheduleRetry it now u s =
     (let n = retryCount it + 1;
          it' = it\<lparr>retryCount := n, nextRetryAt := Some (now + calculateNextBackoffDelay default_retry n u), priorityLane := RETRY\<rparr>
      in checkpoint (rq_task_id (request it)) ''PAUSED'' (persist it' (requeue it' s)))"

text \<open>The rest of \<open>executeTaskInOrchestrator\<close> and, for the loop, the handling of retries.\<close>

definition resume :: "scheduled_item \<Rightarrow> bool \<Rightarrow> task_result \<Rightarrow> int \<Rightarrow> rat \<Rightarrow> scheduler \<Rightarrow> scheduler" where
  "resume it loop res now u s =
     (if \<not> res_success res \<and> res_errorCode res = Some ''CONCURRENCY_EXCEEDED'' then persist it (requeue it s)
      else if loop \<and> shouldRetry default_retry (retryCount it) (res_errorCode res) then scheduleRetry it now u s
      else close_item it (Returned res) s)"

definition execute_item :: "scheduled_item \<Rightarrow> bool \<Rightarrow> agent_state option \<Rightarrow> int \<Rightarrow> rat \<Rightarrow> scheduler \<Rightarrow> scheduler" where
  "execute_item it loop life now u s =
     (let (o2, v) = enterTask (sch_orch s) (request it) life now; s2 = s\<lparr>sch_orch := o2\<rparr>
      in case v of
           Inl res \<Rightarrow> resume it loop res now u s2
         | Inr f \<Rightarrow> s2\<lparr>running := js_set f (it, loop) (running s2)\<rparr>)"

definition processNextItem :: "scheduler \<Rightarrow> scheduler" where
  "processNextItem s = s\<lparr>isProcessing := True\<rparr>"

section \<open>Scheduling\<close>

definition scheduled :: "task_request \<Rightarrow> int \<Rightarrow> scheduled_item" where
  "scheduled r now =
     \<lparr>request = r, priorityLane = derivePriorityLane r, item_tenant = tenant_id (rq_leaseHeader r), queuedAt = now,
      item_expiresAt = (if expires_at (rq_leaseHeader r) \<noteq> [] then date_parse (expires_at (rq_leaseHeader r)) else Some (now + 900000)),
      retryCount = 0, nextRetryAt = None\<rparr>"

definition admitTask ::
  "agent_env \<Rightarrow> scheduler \<Rightarrow> task_request \<Rightarrow> agent_state option \<Rightarrow> tick \<Rightarrow> int \<Rightarrow> int \<Rightarrow> scheduler \<times> (task_result + scheduled_item)" where
  "admitTask env s r life t now1 now2 =
     (case evaluateAdmission env r life t of
        Some ec \<Rightarrow> (s, Inl (failed r ec))
      | None \<Rightarrow>
         let st = getScheduledTaskStatus s (rq_task_id r) (Some (tenant_id (rq_leaseHeader r))) now1 in
         if st = Some RUN_RUNNING \<or> st = Some RUN_QUEUED then (s, Inl (failed r ''DUPLICATE_TASK_ID''))
         else let it = scheduled r now2; (q, ok) = enqueue (sch_queue s) it
              in if \<not> ok then (s, Inl (failed r ''QUEUE_SATURATED''))
                 else (let s2 = checkpoint (rq_task_id r) ''QUEUED'' (persist it (s\<lparr>sch_queue := q\<rparr>))
                       in s2\<lparr>admitted := admitted s2 @ [it], accepted := accepted s2 @ [it]\<rparr>, Inr it))"

text \<open>\<open>processDispatch\<close>. \<open>None\<close> is the answer that the task is queued, or that its execution goes on.\<close>

definition dispatchTask ::
  "agent_env \<Rightarrow> scheduler \<Rightarrow> scheduled_item \<Rightarrow> agent_state option \<Rightarrow> tick \<Rightarrow> int \<Rightarrow> rat \<Rightarrow> scheduler \<times> task_result option" where
  "dispatchTask env s it life t now u =
     (if it \<notin> set (admitted s) then (s, None)
      else let tid = rq_task_id (request it); s1 = s\<lparr>admitted := remove1 it (admitted s)\<rparr> in
        if activeCount (sch_orch s1) < 5 then
          case lease_decision env (rq_leaseHeader (request it)) t of
            Inl _ \<Rightarrow> (checkpoint tid ''EXPIRED'' s1, Some (failed (request it) ''LEASE_DENIED''))
          | Inr _ \<Rightarrow>
             (case queue_remove (sch_queue s1) tid (Some (item_tenant it)) of
                (q, Some it') \<Rightarrow>
                  (execute_item (if request it' = request it then it' else it) False life now u (unpersist tid (s1\<lparr>sch_queue := q\<rparr>)), None)
              | (q, None) \<Rightarrow> (processNextItem s1, None))
        else (processNextItem s1, None))"

text \<open>One turn of the loop of \<open>processNextItem\<close>, while it does not wait for an execution.\<close>

definition loop_waits :: "scheduler \<Rightarrow> bool" where
  "loop_waits s \<longleftrightarrow> list_ex (\<lambda>(_, _, loop). loop) (running s)"

definition processStep :: "agent_env \<Rightarrow> scheduler \<Rightarrow> agent_state option \<Rightarrow> tick \<Rightarrow> int \<Rightarrow> rat \<Rightarrow> scheduler" where
  "processStep env s life t now u =
     (if \<not> isProcessing s \<or> loop_waits s then s
      else if \<not> (activeCount (sch_orch s) < 5 \<and> getSize (sch_queue s) > 0) then s\<lparr>isProcessing := False\<rparr>
      else case dequeue (sch_queue s) now of
        (q, None) \<Rightarrow> s\<lparr>isProcessing := False\<rparr>
      | (q, Some it) \<Rightarrow>
         (let tid = rq_task_id (request it); s1 = s\<lparr>sch_queue := q\<rparr> in
          if item_expired now it then close_item it ItemExpired (unpersist tid (checkpoint tid ''EXPIRED'' s1))
          else case lease_decision env (rq_leaseHeader (request it)) t of
            Inl _ \<Rightarrow> close_item it LeaseDeniedItem (unpersist tid (checkpoint tid ''EXPIRED'' s1))
          | Inr _ \<Rightarrow> execute_item it True life now u (unpersist tid s1)))"

definition cancelScheduledTask ::
  "agent_env \<Rightarrow> scheduler \<Rightarrow> string \<Rightarrow> string option \<Rightarrow> int \<Rightarrow> scheduler \<times> bool" where
  "cancelScheduledTask env s tid tenant now =
     (case queue_remove (sch_queue s) tid tenant of
        (q, Some it) \<Rightarrow> (close_item it Removed (unpersist tid (checkpoint tid ''CANCELED'' (s\<lparr>sch_queue := q\<rparr>))), True)
      | (q, None) \<Rightarrow>
          if getScheduledTaskStatus s tid None now = Some RUN_QUEUED \<and> truthy tenant then (s, False)
          else let (o2, b) = orch_cancelTask env (sch_orch s) tid tenant in (s\<lparr>sch_orch := o2\<rparr>, b))"

definition maintain :: "scheduler \<Rightarrow> int \<Rightarrow> scheduler" where
  "maintain s now =
     (let (q, gone) = pruneExpired (sch_queue s) now
      in processNextItem (s\<lparr>sch_queue := applyAging q now, closed := closed s @ map (\<lambda>it. (it, Pruned)) gone\<rparr>))"

text \<open>\<open>initialize\<close>: the items of a former run, each with a validation of its lease (\<open>ts\<close>).\<close>

fun restore :: "agent_env \<Rightarrow> int \<Rightarrow> (nat \<Rightarrow> tick) \<Rightarrow> string list \<Rightarrow> scheduler \<times> string list \<Rightarrow> scheduler \<times> string list" where
  "restore env now ts [] st = st"
| "restore env now ts (tid # tids) (s, remainingIndex) =
     restore env now (\<lambda>i. ts (Suc i)) tids
       (case js_get (task_queue s) tid of
          None \<Rightarrow> (s, remainingIndex)
        | Some it \<Rightarrow>
            if (case lease_decision env (rq_leaseHeader (request it)) (ts 0) of Inl _ \<Rightarrow> True | Inr _ \<Rightarrow> False) \<or> item_expired now it
            then ((checkpoint (rq_task_id (request it)) ''EXPIRED'' s)\<lparr>task_queue := js_delete tid (task_queue s)\<rparr>, remainingIndex)
            else (requeue it (s\<lparr>accepted := accepted s @ [it]\<rparr>), remainingIndex @ [tid]))"

definition scheduler_initialize :: "agent_env \<Rightarrow> scheduler \<Rightarrow> int \<Rightarrow> (nat \<Rightarrow> tick) \<Rightarrow> scheduler" where
  "scheduler_initialize env s now ts =
     (let (s1, remainingIndex) = restore env now ts (task_queue_index s) (s, [])
      in processNextItem (s1\<lparr>task_queue_index := remainingIndex\<rparr>))"

text \<open>A step of the orchestrator, and what it means for the call of the scheduler that waits for it.\<close>

fun orch_run :: "agent_env \<Rightarrow> orchestrator \<Rightarrow> orch_op \<Rightarrow> orchestrator \<times> task_result option \<times> nat option" where
  "orch_run env o1 (ReserveSlot f life t prompt) = (let (o2, r) = reserveSlot env o1 f life t prompt in (o2, r, Some f))"
| "orch_run env o1 (Decide f d t) = (let (o2, r) = decide_approval o1 f d t in (o2, r, Some f))"
| "orch_run env o1 (FinishTask f out) = (let (o2, r) = finishTask env o1 f out in (o2, r, Some f))"
| "orch_run env o1 op = (orch_step env o1 op, None, None)"

definition orchestratorStep :: "agent_env \<Rightarrow> scheduler \<Rightarrow> orch_op \<Rightarrow> int \<Rightarrow> rat \<Rightarrow> scheduler" where
  "orchestratorStep env s op now u =
     (let (o2, res, f) = orch_run env (sch_orch s) op; s2 = s\<lparr>sch_orch := o2\<rparr> in
      case f of
        None \<Rightarrow> s2
      | Some f \<Rightarrow>
         (case js_get (running s) f of
            None \<Rightarrow> s2
          | Some (it, loop) \<Rightarrow>
             (let s3 = s2\<lparr>running := js_delete f (running s)\<rparr> in
              case res of
                Some r \<Rightarrow> resume it loop r now u s3
              | None \<Rightarrow>
                  if js_has (flights o2) f then s2
                  else let s4 = close_item it Crashed s3 in if loop then s4\<lparr>isProcessing := False\<rparr> else s4)))"

datatype sched_op =
    AdmitTask task_request "agent_state option" tick int int
  | DispatchTask scheduled_item "agent_state option" tick int rat
  | ProcessStep "agent_state option" tick int rat
  | CancelScheduled string "string option" int
  | Maintain int
  | Initialize int "nat \<Rightarrow> tick"
  | OrchestratorStep orch_op int rat

fun sched_step :: "agent_env \<Rightarrow> scheduler \<Rightarrow> sched_op \<Rightarrow> scheduler" where
  "sched_step env s (AdmitTask r life t now1 now2) = fst (admitTask env s r life t now1 now2)"
| "sched_step env s (DispatchTask it life t now u) = fst (dispatchTask env s it life t now u)"
| "sched_step env s (ProcessStep life t now u) = processStep env s life t now u"
| "sched_step env s (CancelScheduled tid tenant now) = fst (cancelScheduledTask env s tid tenant now)"
| "sched_step env s (Maintain now) = maintain s now"
| "sched_step env s (Initialize now ts) = scheduler_initialize env s now ts"
| "sched_step env s (OrchestratorStep op now u) = orchestratorStep env s op now u"

section \<open>No item is lost\<close>

text \<open>Items are told apart by their task, as \<open>remove\<close> does.\<close>

definition task_ids :: "scheduled_item multiset \<Rightarrow> string multiset" where
  "task_ids b = image_mset (\<lambda>it. rq_task_id (request it)) b"

definition present :: "scheduler \<Rightarrow> string multiset" where
  "present s = task_ids (queue_bag (sch_queue s)) + task_ids (mset (map (fst \<circ> snd) (running s))) + task_ids (mset (map fst (closed s)))"

lemma task_ids_simps [simp]:
  "task_ids {#} = {#}" "task_ids (add_mset it b) = add_mset (rq_task_id (request it)) (task_ids b)" "task_ids (a + b) = task_ids a + task_ids b"
  by (simp_all add: task_ids_def)

named_theorems sched_simps \<open>fields after the building blocks of a step\<close>

lemma record_fields [sched_simps]:
  "sch_queue (checkpoint tid st s) = sch_queue s" "sch_orch (checkpoint tid st s) = sch_orch s" "running (checkpoint tid st s) = running s"
  "closed (checkpoint tid st s) = closed s" "accepted (checkpoint tid st s) = accepted s"
  "sch_queue (persist it s) = sch_queue s" "sch_orch (persist it s) = sch_orch s" "running (persist it s) = running s"
  "closed (persist it s) = closed s" "accepted (persist it s) = accepted s"
  "sch_queue (unpersist tid s) = sch_queue s" "sch_orch (unpersist tid s) = sch_orch s" "running (unpersist tid s) = running s"
  "closed (unpersist tid s) = closed s" "accepted (unpersist tid s) = accepted s"
  "sch_queue (close_item it f s) = sch_queue s" "sch_orch (close_item it f s) = sch_orch s" "running (close_item it f s) = running s"
  "closed (close_item it f s) = closed s @ [(it, f)]" "accepted (close_item it f s) = accepted s"
  "sch_queue (processNextItem s) = sch_queue s" "sch_orch (processNextItem s) = sch_orch s" "running (processNextItem s) = running s"
  "closed (processNextItem s) = closed s" "accepted (processNextItem s) = accepted s"
  by (simp_all add: checkpoint_def persist_def unpersist_def close_item_def processNextItem_def)

text \<open>What a requeued or finished item adds to what is present.\<close>

lemma requeue_fields [sched_simps]:
  "sch_orch (requeue it s) = sch_orch s" "running (requeue it s) = running s" "accepted (requeue it s) = accepted s"
  by (simp_all add: requeue_def case_prod_unfold Let_def sched_simps)

lemma present_cong: "\<lbrakk>sch_queue s = sch_queue s'; running s = running s'; closed s = closed s'\<rbrakk> \<Longrightarrow> present s = present s'"
  by (simp add: present_def)

lemma present_close: "present (close_item it f s) = add_mset (rq_task_id (request it)) (present s)"
  by (simp add: present_def sched_simps)

lemma present_requeue: "present (requeue it s) = add_mset (rq_task_id (request it)) (present s)"
proof (cases "snd (enqueue (sch_queue s) it)")
  case True
  then have "queue_bag (fst (enqueue (sch_queue s) it)) = add_mset it (queue_bag (sch_queue s))"
    by (intro enqueue_bag(1)) (simp add: prod_eq_iff)
  with True show ?thesis by (simp add: requeue_def case_prod_unfold Let_def present_def)
qed (simp add: requeue_def case_prod_unfold Let_def present_close)

lemma present_resume: "present (resume it loop res now u s) = add_mset (rq_task_id (request it)) (present s)"
proof -
  have "present (persist it' s') = present s'" "present (checkpoint tid st s') = present s'" for it' s' tid st
    by (rule present_cong; simp add: sched_simps)+
  then show ?thesis by (simp add: resume_def scheduleRetry_def Let_def present_requeue present_close)
qed

lemma resume_fields [sched_simps]:
  "sch_orch (resume it loop res now u s) = sch_orch s" "running (resume it loop res now u s) = running s"
  "accepted (resume it loop res now u s) = accepted s"
  by (simp_all add: resume_def scheduleRetry_def Let_def sched_simps)

lemma js_set_fresh: "js_get m k = None \<Longrightarrow> js_set k v m = m @ [(k, v)]"
  by (induction m) (auto simp: js_get_def js_set_def split: if_splits)

lemma js_delete_values:
  "\<lbrakk>js_map_wf m; js_get m k = Some v\<rbrakk> \<Longrightarrow> mset (map snd m) = add_mset v (mset (map snd (js_delete k m)))"
proof (induction m)
  case (Cons a m)
  obtain k' v' where a: "a = (k', v')" by (cases a)
  show ?case
  proof (cases "k' = k")
    case True
    then have "k \<notin> fst ` set m" using Cons.prems(1) a by (auto simp: js_map_wf_def)
    then have "js_delete k m = m" by (simp add: js_delete_def delete_id)
    then show ?thesis using Cons.prems True a by (simp add: js_get_def js_delete_def)
  next
    case False
    then show ?thesis using Cons a by (auto simp: js_get_def js_delete_def js_map_wf_def add_mset_commute)
  qed
qed (simp add: js_get_def)

definition flights_known :: "scheduler \<Rightarrow> bool" where
  "flights_known s \<longleftrightarrow> js_map_wf (running s) \<and> (\<forall>f \<in> set (js_keys (running s)). f < nextFlight (sch_orch s))"

lemma running_fresh: "flights_known s \<Longrightarrow> js_get (running s) (nextFlight (sch_orch s)) = None"
  unfolding flights_known_def by (metis js_has_def js_has_keys less_irrefl)

lemma enterTask_flight:
  assumes "enterTask o1 r life now = (o2, Inr f)"
  shows "f = nextFlight o1 \<and> nextFlight o2 = Suc (nextFlight o1)"
  using assms by (auto simp: enterTask_def Let_def split: if_splits)

lemma enterTask_refused_flight:
  assumes "enterTask o1 r life now = (o2, Inl res)"
  shows "nextFlight o2 = nextFlight o1"
  using assms by (auto simp: enterTask_def Let_def split: if_splits)

lemma execute_item_effect:
  assumes "flights_known s"
  shows "present (execute_item it loop life now u s) = add_mset (rq_task_id (request it)) (present s)
    \<and> flights_known (execute_item it loop life now u s) \<and> accepted (execute_item it loop life now u s) = accepted s"
proof -
  obtain o2 v where enter: "enterTask (sch_orch s) (request it) life now = (o2, v)" by fastforce
  have p: "present (s\<lparr>sch_orch := o2\<rparr>) = present s" by (rule present_cong) simp_all
  show ?thesis
  proof (cases v)
    case (Inl res)
    have "execute_item it loop life now u s = resume it loop res now u (s\<lparr>sch_orch := o2\<rparr>)"
      by (simp add: execute_item_def enter Inl)
    then show ?thesis
      using assms enterTask_refused_flight [of "sch_orch s" "request it" life now o2 res] enter Inl p
      by (simp add: present_resume sched_simps flights_known_def)
  next
    case (Inr f)
    have f: "f = nextFlight (sch_orch s)" "nextFlight o2 = Suc (nextFlight (sch_orch s))"
      using enterTask_flight [of "sch_orch s" "request it" life now o2 f] enter Inr by auto
    have s': "execute_item it loop life now u s = s\<lparr>sch_orch := o2, running := running s @ [(f, it, loop)]\<rparr>"
      using running_fresh [OF assms] by (simp add: execute_item_def enter Inr f js_set_fresh)
    have "js_map_wf (running s @ [(f, it, loop)])"
      using assms running_fresh [OF assms] by (auto simp: js_map_wf_def flights_known_def js_get_def map_of_eq_None_iff f)
    then show ?thesis
      using assms f by (auto simp: s' present_def flights_known_def js_keys_def less_Suc_eq)
  qed
qed

lemma remove_task: "queue_remove q tid tenant = (q', Some it) \<Longrightarrow> rq_task_id (request it) = tid"
  by (cases rule: remove_cases [of q tid tenant]) auto

lemma aging_tasks: "task_ids (queue_bag (applyAging q now)) = task_ids (queue_bag q)"
proof -
  have "task_ids b = image_mset (\<lambda>it. rq_task_id (request it)) (image_mset core b)" for b
    by (simp add: task_ids_def multiset.map_comp comp_def core_def)
  then show ?thesis by (simp add: aging_bag)
qed

definition conserved :: "scheduler \<Rightarrow> bool" where
  "conserved s \<longleftrightarrow> task_ids (mset (accepted s)) = present s \<and> flights_known s"

lemma conserved_same:
  "\<lbrakk>conserved s; accepted s' = accepted s; present s' = present s; running s' = running s; nextFlight (sch_orch s') \<ge> nextFlight (sch_orch s)\<rbrakk>
   \<Longrightarrow> conserved s'"
  by (auto simp: conserved_def flights_known_def)

lemma conserved_execute:
  assumes "flights_known s" "task_ids (mset (accepted s)) = add_mset (rq_task_id (request it)) (present s)"
  shows "conserved (execute_item it loop life now u s)"
  using execute_item_effect [OF assms(1), of it loop life now u] assms(2) by (simp add: conserved_def)

lemma present_queue:
  "present (s\<lparr>sch_queue := q\<rparr>) + task_ids (queue_bag (sch_queue s)) = present s + task_ids (queue_bag q)"
  by (simp add: present_def)

lemma present_take:
  "queue_bag (sch_queue s) = add_mset it (queue_bag q) \<Longrightarrow> present s = add_mset (rq_task_id (request it)) (present (s\<lparr>sch_queue := q\<rparr>))"
  by (simp add: present_def)

lemma conserved_admit: "conserved s \<Longrightarrow> conserved (fst (admitTask env s r life t now1 now2))"
proof -
  assume inv: "conserved s"
  obtain q ok where enq: "enqueue (sch_queue s) (scheduled r now2) = (q, ok)" by fastforce
  show ?thesis
  proof (cases "snd (admitTask env s r life t now1 now2)")
    case (Inl e)
    then have "fst (admitTask env s r life t now1 now2) = s"
      by (auto simp: admitTask_def enq Let_def split: option.splits if_splits)
    then show ?thesis using inv by simp
  next
    case (Inr it)
    then have "ok" and s': "fst (admitTask env s r life t now1 now2) =
        (let s2 = checkpoint (rq_task_id r) ''QUEUED'' (persist (scheduled r now2) (s\<lparr>sch_queue := q\<rparr>))
         in s2\<lparr>admitted := admitted s2 @ [scheduled r now2], accepted := accepted s2 @ [scheduled r now2]\<rparr>)"
      by (auto simp: admitTask_def enq Let_def split: option.splits if_splits)
    have "queue_bag q = add_mset (scheduled r now2) (queue_bag (sch_queue s))" using enqueue_bag(1) enq \<open>ok\<close> by simp
    then show ?thesis
      using inv by (simp add: s' Let_def conserved_def present_def sched_simps flights_known_def)
  qed
qed

lemma conserved_dispatch: "conserved s \<Longrightarrow> conserved (fst (dispatchTask env s it life t now u))"
proof -
  assume inv: "conserved s"
  let ?tid = "rq_task_id (request it)" and ?s1 = "s\<lparr>admitted := remove1 it (admitted s)\<rparr>"
  have s1: "conserved ?s1" by (rule conserved_same [OF inv]) (simp_all add: present_def)
  have loop: "conserved (processNextItem ?s1)" "conserved (checkpoint ?tid st ?s1)" for st
    by (rule conserved_same [OF s1]; simp add: sched_simps present_def)+
  have exec: "conserved (execute_item x loop life now u (unpersist ?tid (?s1\<lparr>sch_queue := q\<rparr>)))"
    if rem: "queue_remove (sch_queue s) ?tid tenant = (q, Some it')" and x: "x = (if request it' = request it then it' else it)" for q it' x loop tenant
  proof (rule conserved_execute)
    have "rq_task_id (request x) = rq_task_id (request it')" using remove_task [OF rem] x by simp
    then show "task_ids (mset (accepted (unpersist ?tid (?s1\<lparr>sch_queue := q\<rparr>)))) =
        add_mset (rq_task_id (request x)) (present (unpersist ?tid (?s1\<lparr>sch_queue := q\<rparr>)))"
      using inv remove_bag(1) [OF rem] by (simp add: conserved_def present_def sched_simps)
    show "flights_known (unpersist ?tid (?s1\<lparr>sch_queue := q\<rparr>))"
      using inv by (simp add: conserved_def flights_known_def sched_simps)
  qed
  show ?thesis
    unfolding dispatchTask_def Let_def
    using inv loop exec by (auto split: sum.split prod.split option.split)
qed

lemma conserved_close:
  assumes "conserved s" "queue_bag (sch_queue s) = add_mset it (queue_bag q)"
    and "sch_queue s' = q" "running s' = running s" "closed s' = closed s @ [(it, f)]" "accepted s' = accepted s" "sch_orch s' = sch_orch s"
  shows "conserved s'"
  using assms by (simp add: conserved_def present_def flights_known_def)

lemma conserved_process: "conserved s \<Longrightarrow> conserved (processStep env s life t now u)"
proof -
  assume inv: "conserved s"
  obtain q x where deq: "dequeue (sch_queue s) now = (q, x)" by fastforce
  have idle: "conserved (s\<lparr>isProcessing := False\<rparr>)" by (rule conserved_same [OF inv]) (simp_all add: present_def)
  show ?thesis
  proof (cases x)
    case None
    then show ?thesis using inv idle by (simp add: processStep_def deq)
  next
    case (Some it)
    let ?tid = "rq_task_id (request it)" and ?s1 = "s\<lparr>sch_queue := q\<rparr>"
    have bag: "queue_bag (sch_queue s) = add_mset it (queue_bag q)" using dequeue_bag(1) deq Some by simp
    have "conserved (close_item it f (unpersist ?tid (checkpoint ?tid ''EXPIRED'' ?s1)))" for f
      by (rule conserved_close [OF inv bag]) (simp_all add: sched_simps)
    moreover have "conserved (execute_item it True life now u (unpersist ?tid ?s1))"
      using inv bag by (intro conserved_execute) (simp_all add: conserved_def present_def flights_known_def sched_simps)
    ultimately show ?thesis using inv idle by (simp add: processStep_def deq Some Let_def split: sum.split)
  qed
qed

lemma cancel_nextFlight: "nextFlight (fst (orch_cancelTask env o1 tid x)) = nextFlight o1"
  by (rule cancel_flights(2))

lemma conserved_cancel: "conserved s \<Longrightarrow> conserved (fst (cancelScheduledTask env s tid tenant now))"
proof -
  assume inv: "conserved s"
  obtain q x where rem: "queue_remove (sch_queue s) tid tenant = (q, x)" by fastforce
  show ?thesis
  proof (cases x)
    case None
    have "conserved (s\<lparr>sch_orch := fst (orch_cancelTask env (sch_orch s) tid tenant)\<rparr>)"
      by (rule conserved_same [OF inv]) (simp_all add: present_def cancel_nextFlight)
    then show ?thesis using inv by (simp add: cancelScheduledTask_def rem None Let_def case_prod_unfold)
  next
    case (Some it)
    then have "conserved (close_item it Removed (unpersist tid (checkpoint tid ''CANCELED'' (s\<lparr>sch_queue := q\<rparr>))))"
      using remove_bag(1) rem by (intro conserved_close [OF inv]) (simp_all add: sched_simps)
    then show ?thesis by (simp add: cancelScheduledTask_def rem Some)
  qed
qed

lemma conserved_maintain: "conserved s \<Longrightarrow> conserved (maintain s now)"
  using prune_bag [of "sch_queue s" now]
  by (simp add: maintain_def case_prod_unfold Let_def conserved_def present_def sched_simps flights_known_def aging_tasks comp_def)

lemma conserved_restore: "conserved (fst st) \<Longrightarrow> conserved (fst (restore env now ts tids st))"
proof (induction env now ts tids st rule: restore.induct)
  case (2 env now ts tid tids s remainingIndex)
  have gone: "conserved ((checkpoint c ''EXPIRED'' s)\<lparr>task_queue := m\<rparr>)" for c m
    by (rule conserved_same [of s]) (use 2(2) in \<open>simp_all add: sched_simps present_def\<close>)
  have again: "conserved (requeue it (s\<lparr>accepted := accepted s @ [it]\<rparr>))" for it
  proof -
    have "present (s\<lparr>accepted := accepted s @ [it]\<rparr>) = present s" by (rule present_cong) simp_all
    then show ?thesis using 2(2) by (simp add: conserved_def present_requeue sched_simps flights_known_def)
  qed
  have cs: "conserved s" using 2(2) by simp
  let ?st = "(case js_get (task_queue s) tid of
      None \<Rightarrow> (s, remainingIndex)
    | Some it \<Rightarrow>
        if (case lease_decision env (rq_leaseHeader (request it)) (ts 0) of Inl _ \<Rightarrow> True | Inr _ \<Rightarrow> False) \<or> item_expired now it
        then ((checkpoint (rq_task_id (request it)) ''EXPIRED'' s)\<lparr>task_queue := js_delete tid (task_queue s)\<rparr>, remainingIndex)
        else (requeue it (s\<lparr>accepted := accepted s @ [it]\<rparr>), remainingIndex @ [tid]))"
  have "conserved (fst ?st)"
  proof (cases "js_get (task_queue s) tid")
    case (Some it)
    then show ?thesis using gone again by (simp only: option.case if_split fst_conv) simp
  qed (simp add: cs)
  then show ?case unfolding restore.simps by (rule 2(1))
qed simp

lemma conserved_initialize: "conserved s \<Longrightarrow> conserved (scheduler_initialize env s now ts)"
  using conserved_restore [of "(s, [])" env now ts "task_queue_index s"]
  by (simp add: scheduler_initialize_def case_prod_unfold Let_def)
    (erule conserved_same; simp add: sched_simps present_def)

lemma orch_run_step: "fst (orch_run env o1 op) = orch_step env o1 op"
  by (cases op) (simp_all add: case_prod_unfold Let_def)

lemma effect_nextFlight: "orch_effect env op o1 o2 \<Longrightarrow> nextFlight o1 \<le> nextFlight o2"
  by (induction rule: orch_effect.induct) simp_all

lemma conserved_orchestrator: "conserved s \<Longrightarrow> conserved (orchestratorStep env s op now u)"
proof -
  assume inv: "conserved s"
  obtain o2 res f where run: "orch_run env (sch_orch s) op = (o2, res, f)" by (cases "orch_run env (sch_orch s) op") auto
  have next_le: "nextFlight (sch_orch s) \<le> nextFlight o2"
    using effect_nextFlight [OF orch_step_effect [of env op "sch_orch s"]] orch_run_step [of env "sch_orch s" op] run by simp
  have s2: "conserved (s\<lparr>sch_orch := o2\<rparr>)" by (rule conserved_same [OF inv]) (simp_all add: present_def next_le)
  show ?thesis
  proof (cases "\<exists>f'. f = Some f' \<and> js_get (running s) f' \<noteq> None")
    case False
    then show ?thesis using s2 by (auto simp: orchestratorStep_def run Let_def split: option.split)
  next
    case True
    then obtain f' it loop where f: "f = Some f'" "js_get (running s) f' = Some (it, loop)" by auto
    let ?s3 = "s\<lparr>sch_orch := o2, running := js_delete f' (running s)\<rparr>"
    have "mset (map snd (running s)) = add_mset (it, loop) (mset (map snd (js_delete f' (running s))))"
      using inv f by (intro js_delete_values) (simp_all add: conserved_def flights_known_def)
    then have "image_mset fst (mset (map snd (running s))) = add_mset it (image_mset fst (mset (map snd (js_delete f' (running s)))))"
      by simp
    then have "present s = add_mset (rq_task_id (request it)) (present ?s3)"
      by (simp add: present_def multiset.map_comp flip: mset_map)
    then have acc: "task_ids (mset (accepted s)) = add_mset (rq_task_id (request it)) (present ?s3)" using inv by (simp add: conserved_def)
    have known: "flights_known ?s3"
      using inv next_le js_keys_delete [of f' "running s"] by (auto simp: conserved_def flights_known_def intro: less_le_trans)
    have "conserved (resume it loop r now u ?s3)" for r
      using acc known by (simp add: conserved_def present_resume sched_simps flights_known_def)
    moreover have "conserved (close_item it Crashed ?s3)"
      using acc known by (simp add: conserved_def present_close sched_simps flights_known_def)
    moreover from this have "conserved ((close_item it Crashed ?s3)\<lparr>isProcessing := False\<rparr>)"
      by (rule conserved_same) (simp_all add: sched_simps present_def)
    ultimately show ?thesis
      using s2 by (simp add: orchestratorStep_def run f Let_def split: option.split)
  qed
qed

lemma conserved_step: "conserved s \<Longrightarrow> conserved (sched_step env s op)"
  by (cases op) (simp_all add: conserved_admit conserved_dispatch conserved_process conserved_cancel conserved_maintain
      conserved_initialize conserved_orchestrator)

interpretation sched_items: op_invariant "sched_step env" conserved for env
  by unfold_locales (rule conserved_step)

text \<open>C16. No task is lost or duplicated. After any sequence of steps, the tasks that were admitted or restored are exactly
  those in the queue, those being executed and those closed, each as often: a task leaves the scheduler only
  with a result, because it or its lease expired, by cancellation, by a crash of its execution, or because the full queue refused to
  take it back.\<close>

theorem scheduler_conserves_tasks:
  "let s = foldl (sched_step env) TaskScheduler ops in
   task_ids (mset (accepted s)) = task_ids (queue_bag (sch_queue s)) + task_ids (mset (map (fst \<circ> snd) (running s)))
     + task_ids (mset (map fst (closed s)))"
proof -
  have "conserved TaskScheduler"
    by (simp add: TaskScheduler_def conserved_def present_def flights_known_def js_keys_def ExecutionQueue_def queue_bag_lanes laneOrder_def)
  from sched_items.inv_run [OF this, of env ops] show ?thesis by (simp add: conserved_def present_def Let_def)
qed

section \<open>The components behind their interfaces\<close>

text \<open>A step of the scheduler is a sequence of operations of the queue and at most one step of the orchestrator.\<close>

fun sched_entry :: "sched_op \<Rightarrow> int option" where
  "sched_entry (DispatchTask it life t now u) = Some now"
| "sched_entry (ProcessStep life t now u) = Some now"
| "sched_entry (OrchestratorStep op now u) = entry_time op"
| "sched_entry _ = None"

definition by_operations :: "agent_env \<Rightarrow> int option \<Rightarrow> scheduler \<Rightarrow> scheduler \<Rightarrow> bool" where
  "by_operations env entry s s' \<longleftrightarrow>
     (\<exists>qops. sch_queue s' = foldl queue_step (sch_queue s) qops)
     \<and> (sch_orch s' = sch_orch s
         \<or> (\<exists>op. sch_orch s' = orch_step env (sch_orch s) op \<and> (\<forall>x. entry_time op = Some x \<longrightarrow> entry = Some x)))"

lemma by_operations_same: "\<lbrakk>sch_queue s' = sch_queue s; sch_orch s' = sch_orch s\<rbrakk> \<Longrightarrow> by_operations env e s s'"
  unfolding by_operations_def by (metis foldl_Nil)

lemma by_operations_one: "\<lbrakk>sch_queue s' = queue_step (sch_queue s) op; sch_orch s' = sch_orch s\<rbrakk> \<Longrightarrow> by_operations env e s s'"
  unfolding by_operations_def by (metis foldl_Cons foldl_Nil)

lemma requeue_queue: "sch_queue (requeue it s) = queue_step (sch_queue s) (Enqueue it)"
  using enqueue_bag(2) [of "sch_queue s" it "fst (enqueue (sch_queue s) it)"]
  by (cases "snd (enqueue (sch_queue s) it)") (auto simp: requeue_def case_prod_unfold Let_def sched_simps prod_eq_iff)

lemma resume_queue: "\<exists>qops. sch_queue (resume it loop res now u s) = foldl queue_step (sch_queue s) qops"
proof -
  have "sch_queue (resume it loop res now u s) \<in> {sch_queue s} \<union> range (\<lambda>x. queue_step (sch_queue s) (Enqueue x))"
    by (auto simp: resume_def scheduleRetry_def Let_def sched_simps requeue_queue)
  then show ?thesis by (auto intro: exI [of _ "[]"] exI [of _ "[Enqueue _]"])
qed

lemma execute_item_operations:
  assumes "sch_queue s1 = queue_step (sch_queue s) op" "sch_orch s1 = sch_orch s"
  shows "by_operations env (Some now) s (execute_item it loop life now u s1)"
proof -
  obtain o2 v where enter: "enterTask (sch_orch s1) (request it) life now = (o2, v)" by fastforce
  have "sch_orch (execute_item it loop life now u s1) = orch_step env (sch_orch s) (EnterTask (request it) life now)"
    using enter assms(2) by (simp add: execute_item_def Let_def sched_simps split: sum.split)
  moreover have "\<exists>qops. sch_queue (execute_item it loop life now u s1) = foldl queue_step (sch_queue s1) qops"
  proof (cases v)
    case (Inl res)
    then show ?thesis using resume_queue [of it loop res now u "s1\<lparr>sch_orch := o2\<rparr>"] by (simp add: execute_item_def enter)
  next
    case (Inr f)
    then show ?thesis by (intro exI [of _ "[]"]) (simp add: execute_item_def enter)
  qed
  ultimately show ?thesis
    unfolding by_operations_def assms(1) by (metis entry_time.simps(1) foldl_Cons option.inject)
qed

lemma remove_operation: "queue_remove q tid tenant = (q', x) \<Longrightarrow> q' = queue_step q (Remove tid tenant)"
  by simp

lemma restore_operations:
  "(\<exists>qops. sch_queue (fst (restore env now ts tids st)) = foldl queue_step (sch_queue (fst st)) qops)
   \<and> sch_orch (fst (restore env now ts tids st)) = sch_orch (fst st)"
proof (induction env now ts tids st rule: restore.induct)
  case (1 env now ts st)
  show ?case by (intro conjI exI [of _ "[]"]) simp_all
next
  case (2 env now ts tid tids s remainingIndex)
  let ?st = "(case js_get (task_queue s) tid of
      None \<Rightarrow> (s, remainingIndex)
    | Some it \<Rightarrow>
        if (case lease_decision env (rq_leaseHeader (request it)) (ts 0) of Inl _ \<Rightarrow> True | Inr _ \<Rightarrow> False) \<or> item_expired now it
        then ((checkpoint (rq_task_id (request it)) ''EXPIRED'' s)\<lparr>task_queue := js_delete tid (task_queue s)\<rparr>, remainingIndex)
        else (requeue it (s\<lparr>accepted := accepted s @ [it]\<rparr>), remainingIndex @ [tid]))"
  have "\<exists>qops. sch_queue (fst ?st) = foldl queue_step (sch_queue s) qops"
  proof (cases "js_get (task_queue s) tid")
    case (Some it)
    have "sch_queue (fst ?st) = sch_queue s \<or> sch_queue (fst ?st) = queue_step (sch_queue s) (Enqueue it)"
      by (simp only: Some option.case if_split fst_conv) (simp add: sched_simps requeue_queue)
    then show ?thesis by (auto intro: exI [of _ "[]"] exI [of _ "[Enqueue it]"])
  qed (auto intro: exI [of _ "[]"])
  then obtain q1 where "sch_queue (fst ?st) = foldl queue_step (sch_queue s) q1" by blast
  moreover from "2.IH" obtain q2 where "sch_queue (fst (restore env now (\<lambda>i. ts (Suc i)) tids ?st)) = foldl queue_step (sch_queue (fst ?st)) q2"
      and orch: "sch_orch (fst (restore env now (\<lambda>i. ts (Suc i)) tids ?st)) = sch_orch (fst ?st)" by blast
  ultimately have "sch_queue (fst (restore env now ts (tid # tids) (s, remainingIndex))) = foldl queue_step (sch_queue s) (q1 @ q2)" by simp
  moreover have "sch_orch (fst ?st) = sch_orch s"
    by (cases "js_get (task_queue s) tid") (simp_all add: sched_simps)
  ultimately show ?case using orch unfolding restore.simps fst_conv by metis
qed

lemma process_operations: "by_operations env (Some now) s (processStep env s life t now u)"
proof -
  obtain q x where deq: "dequeue (sch_queue s) now = (q, x)" by fastforce
  then have q: "q = queue_step (sch_queue s) (Dequeue now)" by simp
  have idle: "by_operations env (Some now) s (s\<lparr>isProcessing := False\<rparr>)" by (rule by_operations_same) simp_all
  show ?thesis
  proof (cases x)
    case None
    then show ?thesis using idle by (simp add: processStep_def deq by_operations_same)
  next
    case (Some it)
    let ?tid = "rq_task_id (request it)" and ?s1 = "s\<lparr>sch_queue := q\<rparr>"
    have "by_operations env (Some now) s (close_item it f (unpersist ?tid (checkpoint ?tid ''EXPIRED'' ?s1)))" for f
      by (rule by_operations_one [where op = "Dequeue now"]) (simp_all add: sched_simps q)
    moreover have "by_operations env (Some now) s (execute_item it True life now u (unpersist ?tid ?s1))"
      by (rule execute_item_operations [where op = "Dequeue now"]) (simp_all add: sched_simps q)
    ultimately show ?thesis using idle
      by (simp add: processStep_def deq Some Let_def by_operations_same split: sum.split)
  qed
qed

lemma dispatch_operations: "by_operations env (Some now) s (fst (dispatchTask env s it life t now u))"
proof -
  let ?tid = "rq_task_id (request it)" and ?s1 = "s\<lparr>admitted := remove1 it (admitted s)\<rparr>"
  have "by_operations env (Some now) s (execute_item x loop life now u (unpersist ?tid (?s1\<lparr>sch_queue := q\<rparr>)))"
    if "queue_remove (sch_queue s) ?tid tenant = (q, y)" for x loop tenant q y
    by (rule execute_item_operations [where op = "Remove ?tid tenant"]) (simp_all add: sched_simps that)
  moreover have "by_operations env (Some now) s s'" if "sch_queue s' = sch_queue s" "sch_orch s' = sch_orch s" for s'
    using that by (rule by_operations_same)
  ultimately show ?thesis
    unfolding dispatchTask_def Let_def by (auto simp: sched_simps split: sum.split prod.split option.split)
qed

lemma orchestrator_operations: "by_operations env (entry_time op) s (orchestratorStep env s op now u)"
proof -
  obtain o2 res f where run: "orch_run env (sch_orch s) op = (o2, res, f)" by (cases "orch_run env (sch_orch s) op") auto
  have o2: "o2 = orch_step env (sch_orch s) op" using orch_run_step [of env "sch_orch s" op] run by simp
  have "sch_orch (orchestratorStep env s op now u) = o2"
    by (auto simp: orchestratorStep_def run Let_def sched_simps split: option.split)
  moreover have "\<exists>qops. sch_queue (orchestratorStep env s op now u) = foldl queue_step (sch_queue s) qops"
  proof -
    have "\<exists>qops. sch_queue (resume it loop r now u (s\<lparr>sch_orch := o2, running := m\<rparr>)) = foldl queue_step (sch_queue s) qops" for it loop r m
      using resume_queue [of it loop r now u "s\<lparr>sch_orch := o2, running := m\<rparr>"] by simp
    moreover have "\<exists>qops. sch_queue s = foldl queue_step (sch_queue s) qops" by (intro exI [of _ "[]"]) simp
    ultimately show ?thesis
      by (auto simp: orchestratorStep_def run Let_def sched_simps split: option.split)
  qed
  ultimately show ?thesis unfolding by_operations_def o2 by blast
qed

lemma cancel_operations: "by_operations env e s (fst (cancelScheduledTask env s tid tenant now))"
proof -
  obtain q x where rem: "queue_remove (sch_queue s) tid tenant = (q, x)" by fastforce
  show ?thesis
  proof (cases x)
    case None
    have "by_operations env e s (s\<lparr>sch_orch := fst (orch_cancelTask env (sch_orch s) tid tenant)\<rparr>)"
      unfolding by_operations_def
      by (intro conjI exI [of _ "[]"] disjI2 exI [of _ "CancelTask tid tenant"]) simp_all
    then show ?thesis
      by (simp add: cancelScheduledTask_def rem None Let_def case_prod_unfold by_operations_same)
  next
    case (Some it)
    then show ?thesis
      by (intro by_operations_one [where op = "Remove tid tenant"]) (simp_all add: cancelScheduledTask_def rem sched_simps)
  qed
qed

lemma admit_operations: "by_operations env e s (fst (admitTask env s r life t now1 now2))"
proof -
  obtain q ok where enq: "enqueue (sch_queue s) (scheduled r now2) = (q, ok)" by fastforce
  then have "q = queue_step (sch_queue s) (Enqueue (scheduled r now2))" by simp
  then have "sch_queue (fst (admitTask env s r life t now1 now2)) = sch_queue s
      \<or> sch_queue (fst (admitTask env s r life t now1 now2)) = queue_step (sch_queue s) (Enqueue (scheduled r now2))"
    "sch_orch (fst (admitTask env s r life t now1 now2)) = sch_orch s"
    by (auto simp: admitTask_def enq Let_def sched_simps split: option.split)
  then show ?thesis using by_operations_same by_operations_one by blast
qed

lemma sched_step_operations: "by_operations env (sched_entry op) s (sched_step env s op)"
proof (cases op)
  case (Maintain now)
  have "sch_queue (maintain s now) = foldl queue_step (sch_queue s) [PruneExpired now, ApplyAging now]" "sch_orch (maintain s now) = sch_orch s"
    by (simp_all add: maintain_def case_prod_unfold Let_def sched_simps)
  then show ?thesis unfolding Maintain sched_step.simps by_operations_def by blast
next
  case (Initialize now ts)
  then show ?thesis
    using restore_operations [of env now ts "task_queue_index s" "(s, [])"]
    by (simp add: by_operations_def scheduler_initialize_def case_prod_unfold Let_def sched_simps)
qed (simp_all add: admit_operations dispatch_operations process_operations cancel_operations orchestrator_operations)

definition limits_inv :: "scheduler \<Rightarrow> bool" where
  "limits_inv s \<longleftrightarrow> queue_inv (sch_queue s) \<and> queue_limits (sch_queue s) = (100, 20, 30000) \<and> slots_inv (sch_orch s)
     \<and> js_map_wf (processedMessageIds (sch_orch s))"

lemma limits_by_operations:
  assumes "limits_inv s" "by_operations env e s s'"
  shows "limits_inv s'"
proof -
  obtain qops where q: "sch_queue s' = foldl queue_step (sch_queue s) qops" using assms(2) by (auto simp: by_operations_def)
  obtain steps where o: "sch_orch s' = foldl (orch_step env) (sch_orch s) steps"
    using assms(2) unfolding by_operations_def by (metis foldl_Cons foldl_Nil)
  show ?thesis
    using assms(1) unfolding limits_inv_def q o
    by (auto intro: queue_ops.inv_run queue_config.inv_run orch_slots.inv_run orch_messages.inv_run)
qed

interpretation sched_limits: op_invariant "sched_step env" limits_inv for env
  by unfold_locales (rule limits_by_operations [OF _ sched_step_operations])

lemma limits_initial: "limits_inv TaskScheduler"
  by (simp add: limits_inv_def TaskScheduler_def queue_inv_def queue_limits_def ExecutionQueue_def getSize_def lower_items_def
      slots_initial) (simp add: AgentOrchestrator_def)

text \<open>The limits compose. Whatever the scheduler does with the queue and the orchestrator, it reports at most 110 queued
  tasks and five active ones, the number it reports as active is exact, and no tenant has more than twenty tasks that are not
  critical in the queue.\<close>

theorem scheduler_limits:
  "let s = foldl (sched_step env) TaskScheduler ops in
   queuedCount (getQueueMetrics s) \<le> 110 \<and> metric_activeCount (getQueueMetrics s) \<le> 5
   \<and> metric_activeCount (getQueueMetrics s) = slot_count (sch_orch s)
   \<and> length (filter (\<lambda>i. item_tenant i = tenant) (lower_items (sch_queue s))) \<le> 20"
proof -
  have "limits_inv (foldl (sched_step env) TaskScheduler ops)" by (rule sched_limits.inv_run [OF limits_initial])
  then have "queue_inv (sch_queue (foldl (sched_step env) TaskScheduler ops))"
      "maxCapacity (sch_queue (foldl (sched_step env) TaskScheduler ops)) = 100"
      "maxPerTenantQuota (sch_queue (foldl (sched_step env) TaskScheduler ops)) = 20"
      "slots_inv (sch_orch (foldl (sched_step env) TaskScheduler ops))"
    by (simp_all add: limits_inv_def queue_limits_def)
  then show ?thesis unfolding queue_inv_def slots_inv_def by (simp add: maxConcurrency_def getQueueMetrics_def Let_def)
qed

section \<open>Retries\<close>

definition few :: "scheduled_item \<Rightarrow> bool" where
  "few it \<longleftrightarrow> retryCount it \<le> 3"

definition retries_inv :: "scheduler \<Rightarrow> bool" where
  "retries_inv s \<longleftrightarrow> (\<forall>it. it \<in># queue_bag (sch_queue s) \<longrightarrow> few it) \<and> (\<forall>(f, it, loop) \<in> set (running s). few it)
     \<and> (\<forall>(tid, it) \<in> set (task_queue s). few it) \<and> (\<forall>it \<in> set (admitted s). few it)"

lemma few_aging: "\<lbrakk>\<forall>it. it \<in># queue_bag q \<longrightarrow> few it; it \<in># queue_bag (applyAging q now)\<rbrakk> \<Longrightarrow> few it"
proof -
  assume q: "\<forall>it. it \<in># queue_bag q \<longrightarrow> few it" and "it \<in># queue_bag (applyAging q now)"
  then have "core it \<in># image_mset core (queue_bag q)" by (metis aging_bag image_eqI set_image_mset)
  then obtain x where x: "x \<in># queue_bag q" "core it = core x" by auto
  then have "retryCount it = retryCount x" by (metis core_def scheduled_item.select_convs(6) scheduled_item.surjective scheduled_item.update_convs(2))
  then show "few it" using q x(1) by (simp add: few_def)
qed

lemma few_requeue:
  "\<lbrakk>retries_inv s; few it\<rbrakk> \<Longrightarrow> retries_inv (requeue it s)"
  using enqueue_bag(1) [of "sch_queue s" it "fst (enqueue (sch_queue s) it)"]
  by (cases "snd (enqueue (sch_queue s) it)") (auto simp: retries_inv_def requeue_def close_item_def case_prod_unfold Let_def prod_eq_iff)

lemma js_set_values: "set (js_set k v m) \<subseteq> insert (k, v) (set m)"
  by (induction m) (auto simp: js_set_def)

lemma js_delete_subset: "set (js_delete k m) \<subseteq> set m"
  by (auto simp: js_delete_def AList.delete_eq)

lemma few_records:
  "retries_inv s \<Longrightarrow> retries_inv (checkpoint tid st s)" "retries_inv s \<Longrightarrow> retries_inv (unpersist tid s)"
  "retries_inv s \<Longrightarrow> retries_inv (close_item it f s)" "retries_inv s \<Longrightarrow> retries_inv (processNextItem s)"
  "\<lbrakk>retries_inv s; few it\<rbrakk> \<Longrightarrow> retries_inv (persist it s)"
proof -
  show "retries_inv s \<Longrightarrow> retries_inv (unpersist tid s)"
    using js_delete_subset [of tid "task_queue s"] by (auto simp: retries_inv_def unpersist_def)
  show "\<lbrakk>retries_inv s; few it\<rbrakk> \<Longrightarrow> retries_inv (persist it s)"
    using js_set_values [of "rq_task_id (request it)" it "task_queue s"] by (auto simp: retries_inv_def persist_def)
qed (simp_all add: retries_inv_def checkpoint_def close_item_def processNextItem_def)

lemma few_resume: "\<lbrakk>retries_inv s; few it\<rbrakk> \<Longrightarrow> retries_inv (resume it loop res now u s)"
  by (auto simp: resume_def scheduleRetry_def Let_def shouldRetry_def default_retry_def few_def
      intro!: few_requeue few_records)

lemma few_queue:
  "\<lbrakk>retries_inv s; \<And>it. it \<in># queue_bag q \<Longrightarrow> few it\<rbrakk> \<Longrightarrow> retries_inv (s\<lparr>sch_queue := q\<rparr>)"
  by (simp add: retries_inv_def)

lemma few_execute: "\<lbrakk>retries_inv s; few it\<rbrakk> \<Longrightarrow> retries_inv (execute_item it loop life now u s)"
proof -
  assume inv: "retries_inv s" "few it"
  obtain o2 v where enter: "enterTask (sch_orch s) (request it) life now = (o2, v)" by fastforce
  have s2: "retries_inv (s\<lparr>sch_orch := o2\<rparr>)" using inv(1) by (simp add: retries_inv_def)
  show ?thesis
  proof (cases v)
    case (Inl res)
    then show ?thesis using few_resume [OF s2 inv(2)] by (simp add: execute_item_def enter)
  next
    case (Inr f)
    then show ?thesis
      using inv js_set_values [of f "(it, loop)" "running s"] by (auto simp: execute_item_def enter retries_inv_def)
  qed
qed

lemma few_take:
  assumes "retries_inv s" "queue_bag (sch_queue s) = add_mset it (queue_bag q)"
  shows "retries_inv (s\<lparr>sch_queue := q\<rparr>)" "few it"
  using assms by (auto simp: retries_inv_def)

lemma few_process: "retries_inv s \<Longrightarrow> retries_inv (processStep env s life t now u)"
proof -
  assume inv: "retries_inv s"
  obtain q x where deq: "dequeue (sch_queue s) now = (q, x)" by fastforce
  have idle: "retries_inv (s\<lparr>isProcessing := False\<rparr>)" using inv by (simp add: retries_inv_def)
  show ?thesis
  proof (cases x)
    case None
    then show ?thesis using inv idle by (simp add: processStep_def deq)
  next
    case (Some it)
    note took = few_take [OF inv dequeue_bag(1) [OF deq [unfolded Some]]]
    show ?thesis
      using inv idle took by (simp add: processStep_def deq Some Let_def few_records few_execute split: sum.split)
  qed
qed

lemma few_dispatch: "retries_inv s \<Longrightarrow> retries_inv (fst (dispatchTask env s it life t now u))"
proof -
  assume inv: "retries_inv s"
  let ?s1 = "s\<lparr>admitted := remove1 it (admitted s)\<rparr>"
  have s1: "retries_inv ?s1" using inv by (auto simp: retries_inv_def dest: notin_set_remove1 in_set_remove1 [THEN iffD1, rotated] set_remove1_subset [THEN subsetD])
  have "retries_inv (execute_item (if request it' = request it then it' else it) False life now u (unpersist tid (?s1\<lparr>sch_queue := q\<rparr>)))"
    if "queue_remove (sch_queue ?s1) tid tenant = (q, Some it')" "it \<in> set (admitted s)" for q it' tid tenant
    using few_take [OF s1 remove_bag(1) [OF that(1)]] that(2) inv by (intro few_execute few_records) (auto simp: retries_inv_def)
  then show ?thesis
    unfolding dispatchTask_def Let_def
    using inv s1 by (auto simp: few_records split: sum.split prod.split option.split)
qed

lemma few_admit: "retries_inv s \<Longrightarrow> retries_inv (fst (admitTask env s r life t now1 now2))"
proof -
  assume inv: "retries_inv s"
  obtain q ok where enq: "enqueue (sch_queue s) (scheduled r now2) = (q, ok)" by fastforce
  have new: "few (scheduled r now2)" by (simp add: few_def scheduled_def)
  have "retries_inv (s\<lparr>sch_queue := q\<rparr>)" if ok
    using inv new enqueue_bag(1) [of "sch_queue s" "scheduled r now2" q] enq that by (auto intro!: few_queue simp: retries_inv_def)
  then have "retries_inv (checkpoint (rq_task_id r) ''QUEUED'' (persist (scheduled r now2) (s\<lparr>sch_queue := q\<rparr>)))" if ok
    using that new by (intro few_records) simp_all
  then show ?thesis using inv new
    by (auto simp: admitTask_def enq Let_def retries_inv_def split: option.split)
qed

lemma few_cancel: "retries_inv s \<Longrightarrow> retries_inv (fst (cancelScheduledTask env s tid tenant now))"
proof -
  assume inv: "retries_inv s"
  obtain q x where rem: "queue_remove (sch_queue s) tid tenant = (q, x)" by fastforce
  have "retries_inv (s\<lparr>sch_orch := o2\<rparr>)" for o2 using inv by (simp add: retries_inv_def)
  moreover have "retries_inv (s\<lparr>sch_queue := q\<rparr>)" if "x = Some it" for it
    using few_take [OF inv remove_bag(1)] rem that by blast
  ultimately show ?thesis
    using inv by (cases x) (auto simp: cancelScheduledTask_def rem Let_def case_prod_unfold few_records)
qed

lemma few_maintain: "retries_inv s \<Longrightarrow> retries_inv (maintain s now)"
proof -
  assume inv: "retries_inv s"
  have "\<forall>it. it \<in># queue_bag (fst (pruneExpired (sch_queue s) now)) \<longrightarrow> few it"
    using inv prune_bag [of "sch_queue s" now] by (auto simp: retries_inv_def)
  from few_aging [OF this] have "retries_inv (s\<lparr>sch_queue := applyAging (fst (pruneExpired (sch_queue s) now)) now\<rparr>)"
    using inv by (auto intro: few_queue)
  then show ?thesis by (simp add: maintain_def case_prod_unfold Let_def retries_inv_def processNextItem_def)
qed

lemma few_restore: "retries_inv (fst st) \<Longrightarrow> retries_inv (fst (restore env now ts tids st))"
proof (induction env now ts tids st rule: restore.induct)
  case (2 env now ts tid tids s remainingIndex)
  have cs: "retries_inv s" using 2(2) by simp
  let ?st = "(case js_get (task_queue s) tid of
      None \<Rightarrow> (s, remainingIndex)
    | Some it \<Rightarrow>
        if (case lease_decision env (rq_leaseHeader (request it)) (ts 0) of Inl _ \<Rightarrow> True | Inr _ \<Rightarrow> False) \<or> item_expired now it
        then ((checkpoint (rq_task_id (request it)) ''EXPIRED'' s)\<lparr>task_queue := js_delete tid (task_queue s)\<rparr>, remainingIndex)
        else (requeue it (s\<lparr>accepted := accepted s @ [it]\<rparr>), remainingIndex @ [tid]))"
  have gone: "retries_inv ((checkpoint c ''EXPIRED'' s)\<lparr>task_queue := js_delete tid (task_queue s)\<rparr>)" for c
    using cs js_delete_subset [of tid "task_queue s"] by (auto simp: retries_inv_def checkpoint_def)
  have again: "retries_inv (requeue it (s\<lparr>accepted := accepted s @ [it]\<rparr>))" if "js_get (task_queue s) tid = Some it" for it
    using cs js_get_in_set [OF that] by (intro few_requeue) (auto simp: retries_inv_def)
  have "retries_inv (fst ?st)"
  proof (cases "js_get (task_queue s) tid")
    case (Some it)
    then show ?thesis using gone again by (simp only: option.case if_split fst_conv) simp
  qed (simp add: cs)
  then show ?case unfolding restore.simps by (rule 2(1))
qed simp

lemma few_orchestrator: "retries_inv s \<Longrightarrow> retries_inv (orchestratorStep env s op now u)"
proof -
  assume inv: "retries_inv s"
  obtain o2 res f where run: "orch_run env (sch_orch s) op = (o2, res, f)" by (cases "orch_run env (sch_orch s) op") auto
  have s2: "retries_inv (s\<lparr>sch_orch := o2\<rparr>)" using inv by (simp add: retries_inv_def)
  have s3: "retries_inv (s\<lparr>sch_orch := o2, running := js_delete g (running s)\<rparr>)" for g
    using inv js_delete_subset [of g "running s"] by (auto simp: retries_inv_def)
  have it: "few it" if "js_get (running s) g = Some (it, loop)" for g it loop
    using inv js_get_in_set [OF that] by (auto simp: retries_inv_def)
  have "retries_inv ((close_item it Crashed (s\<lparr>sch_orch := o2, running := js_delete g (running s)\<rparr>))\<lparr>isProcessing := False\<rparr>)" for it g
    using s3 [of g] by (simp add: retries_inv_def close_item_def)
  then show ?thesis
    using s2 s3 it by (auto simp: orchestratorStep_def run Let_def few_resume few_records split: option.split)
qed

lemma few_step: "retries_inv s \<Longrightarrow> retries_inv (sched_step env s op)"
proof (cases op)
  case (Initialize now ts)
  assume "retries_inv s"
  then show ?thesis
    using few_restore [of "(s, [])" env now ts "task_queue_index s"]
    by (simp add: Initialize scheduler_initialize_def case_prod_unfold Let_def processNextItem_def retries_inv_def)
qed (simp_all add: few_admit few_dispatch few_process few_cancel few_maintain few_orchestrator)

interpretation sched_retries: op_invariant "sched_step env" retries_inv for env
  by unfold_locales (rule few_step)

text \<open>Retries are bounded. No item in the queue, in execution or in the store of a later run has been retried more than
  three times.\<close>

theorem retries_bounded:
  "let s = foldl (sched_step env) TaskScheduler ops in
   retryCount ` (set_mset (queue_bag (sch_queue s)) \<union> set (map (fst \<circ> snd) (running s)) \<union> set (map snd (task_queue s))) \<subseteq> {0..3}"
proof -
  have "retries_inv TaskScheduler" by (simp add: retries_inv_def TaskScheduler_def ExecutionQueue_def queue_bag_lanes laneOrder_def)
  from sched_retries.inv_run [OF this, of env ops] show ?thesis by (auto simp: retries_inv_def few_def Let_def)
qed

lemma remembered_mono: "\<lbrakk>remembered k e n o1; m \<le> n\<rbrakk> \<Longrightarrow> remembered k e m o1"
  by (auto simp: remembered_def)

lemma remembered_operations:
  assumes "remembered k e (Suc n) (sch_orch s)" "by_operations env entry s s'" "\<forall>t. entry = Some t \<longrightarrow> t \<le> e"
  shows "remembered k e n (sch_orch s')"
proof (cases "sch_orch s' = sch_orch s")
  case True
  then show ?thesis using remembered_mono [OF assms(1)] by simp
next
  case False
  then obtain op where "sch_orch s' = orch_step env (sch_orch s) op" "\<forall>x. entry_time op = Some x \<longrightarrow> entry = Some x"
    using assms(2) by (auto simp: by_operations_def)
  then show ?thesis using remembered_step [OF assms(1)] assms(3) by simp
qed

lemma remembered_sched_run:
  "\<lbrakk>remembered k e (length ops) (sch_orch s); \<forall>op \<in> set ops. \<forall>t. sched_entry op = Some t \<longrightarrow> t \<le> e\<rbrakk>
   \<Longrightarrow> remembered k e 0 (sch_orch (foldl (sched_step env) s ops))"
  by (induction ops arbitrary: s) (simp_all add: remembered_operations [OF _ sched_step_operations])

lemma accepted_remembered:
  assumes "js_map_wf (processedMessageIds o1)" "enterTask o1 r life now = (o2, Inr f)" "length (processedMessageIds o2) + n < 10000"
  shows "remembered (message_key r) (now + 900000) n o2"
proof -
  have "processedMessageIds o2 = js_set (message_key r) (now + 900000) (pruneOldProcessedMessages now (processedMessageIds o1))"
    using assms(2) by (auto simp: enterTask_def Let_def REPLAY_TTL_def split: if_splits)
  then show ?thesis using assms(1,3) by (simp add: remembered_def js_get_set prune_wf maxReplayCacheSize_def)
qed



end
