(* ===== verification/Step_Context.thy ===== *)
theory Step_Context
  imports Js_Text Workflow_Dag
begin

text \<open>
  The data flow between the nodes of a workflow: \<open>apps/desktop-agent/src/workflow/step-context.ts\<close>. The outputs of
  finished nodes are stored after a check of their keys and of their size, and the payload of a later node may name
  them in templates \<open>{{nodes.<id>.output.<key>}}\<close>.

  An output is a JSON value (the error of \<open>JSON.stringify\<close> on a cyclic value has no counterpart), and copying it
  through \<open>JSON.stringify\<close> and \<open>JSON.parse\<close> gives the value itself. The redaction filter is an argument. Templates can
  reach properties that objects and arrays inherit, so a resolved value is a \<open>js_value\<close>, which may contain functions.
  No node is called \<open>__proto__\<close>.

  Proved: interpolation fails exactly on values with an unsafe key or with an expression that is unsafe or not of
  the documented form, whatever the outputs are; a template resolves to the value at its path; and outputs are
  bounded in size.
\<close>

section \<open>Values\<close>

datatype js_value =
    VNull
  | VBool bool
  | VNum string
  | VStr string
  | VArr "js_value list"
  | VObj "(string \<times> js_value) list"
  | VFun string

fun of_json :: "json \<Rightarrow> js_value" where
  "of_json JNull = VNull"
| "of_json (JBool b) = VBool b"
| "of_json (JNum n) = VNum n"
| "of_json (JStr s) = VStr s"
| "of_json (JArr xs) = VArr (map of_json xs)"
| "of_json (JObj kvs) = VObj (map (\<lambda>(k, v). (k, of_json v)) kvs)"

text \<open>Properties every object and every array inherits from its prototype.\<close>

definition object_prototype :: "string list" where
  "object_prototype =
     [''constructor'', ''__defineGetter__'', ''__defineSetter__'', ''hasOwnProperty'', ''__lookupGetter__'',
      ''__lookupSetter__'', ''isPrototypeOf'', ''propertyIsEnumerable'', ''toString'', ''valueOf'', ''__proto__'',
      ''toLocaleString'']"

definition array_prototype :: "string list" where
  "array_prototype =
     [''at'', ''concat'', ''copyWithin'', ''fill'', ''find'', ''findIndex'', ''findLast'', ''findLastIndex'',
      ''lastIndexOf'', ''pop'', ''push'', ''reverse'', ''shift'', ''unshift'', ''slice'', ''sort'', ''splice'',
      ''includes'', ''indexOf'', ''join'', ''keys'', ''entries'', ''values'', ''forEach'', ''filter'', ''flat'',
      ''flatMap'', ''map'', ''every'', ''some'', ''reduce'', ''reduceRight'', ''toReversed'', ''toSorted'',
      ''toSpliced'', ''with'']"

datatype found = Own json | Inherited string

text \<open>\<open>part in current\<close> and \<open>current[part]\<close>.\<close>

definition array_index :: "nat \<Rightarrow> string \<Rightarrow> nat option" where
  "array_index n p = find_index (\<lambda>i. nat_str i = p) [0..<n]"

definition inherited :: "string list \<Rightarrow> string \<Rightarrow> found option" where
  "inherited names p = (if p \<in> set names then Some (Inherited p) else None)"

fun property :: "json \<Rightarrow> string \<Rightarrow> found option" where
  "property (JObj kvs) p =
     (case map_of kvs p of Some v \<Rightarrow> Some (Own v) | None \<Rightarrow> inherited object_prototype p)"
| "property (JArr xs) p =
     (case array_index (length xs) p of
        Some i \<Rightarrow> Some (Own (xs ! i))
      | None \<Rightarrow>
          if p = ''length'' then Some (Own (JNum (nat_str (length xs))))
          else inherited (array_prototype @ object_prototype) p)"
| "property _ p = None"

fun of_found :: "found \<Rightarrow> js_value" where
  "of_found (Own j) = of_json j"
| "of_found (Inherited p) = VFun p"

text \<open>\<open>typeof current === 'object' ? JSON.stringify(current) : String(current)\<close>\<close>

fun text_of :: "found \<Rightarrow> string" where
  "text_of (Own (JStr s)) = s"
| "text_of (Own j) = stringify j"
| "text_of (Inherited p) = ''function '' @ p @ ''() { [native code] }''"

section \<open>Templates\<close>

datatype context_error =
    DangerousOutputKey string string
  | OutputTooLarge string
  | UnsafeExpression string string
  | InvalidPattern string
  | UnsafeNavigation
  | UnsafeKey string

definition dangerousKeys :: "string list" where
  "dangerousKeys = [''__proto__'', ''constructor'', ''prototype'']"

definition dangerous :: "string \<Rightarrow> bool" where
  "dangerous k \<longleftrightarrow> k \<in> set dangerousKeys"

definition alnum :: "char \<Rightarrow> bool" where
  "alnum c \<longleftrightarrow> (let n = of_char c :: nat in 48 \<le> n \<and> n \<le> 57 \<or> 65 \<le> n \<and> n \<le> 90 \<or> 97 \<le> n \<and> n \<le> 122)"

definition id_char :: "char \<Rightarrow> bool" where
  "id_char c \<longleftrightarrow> alnum c \<or> c = CHR ''_'' \<or> c = CHR ''-''"

definition key_char :: "char \<Rightarrow> bool" where
  "key_char c \<longleftrightarrow> id_char c \<or> c = CHR ''.''"

text \<open>The regular expression \<open>\{\{([^}]+)\}\}\<close> at the start of a string: the group and what follows the match.\<close>

definition match_braces :: "string \<Rightarrow> (string \<times> string) option" where
  "match_braces s =
     (let r = drop 2 s; inner = takeWhile (\<lambda>c. c \<noteq> CHR 0x7D) r; t = dropWhile (\<lambda>c. c \<noteq> CHR 0x7D) r
      in if take 2 s = [CHR 0x7B, CHR 0x7B] \<and> inner \<noteq> [] \<and> take 2 t = [CHR 0x7D, CHR 0x7D]
         then Some (inner, drop 2 t) else None)"

lemma match_braces_shorter: "match_braces s = Some (inner, rest) \<Longrightarrow> length rest < length s"
proof -
  assume m: "match_braces s = Some (inner, rest)"
  let ?r = "drop 2 s"
  have rest: "rest = drop 2 (dropWhile (\<lambda>c. c \<noteq> CHR 0x7D) ?r)" and two: "take 2 s = [CHR 0x7B, CHR 0x7B]"
    using m by (auto simp: match_braces_def Let_def split: if_splits)
  have "length rest \<le> length ?r" unfolding rest using length_dropWhile_le [of "\<lambda>c. c \<noteq> CHR 0x7D" ?r] by simp
  moreover have "2 \<le> length s" using arg_cong [OF two, of length] by simp
  ultimately show ?thesis by simp
qed

text \<open>The groups of all matches (\<open>matchAll\<close>).\<close>

function raw_matches :: "string \<Rightarrow> string list" where
  "raw_matches [] = []"
| "raw_matches (c # cs) =
     (case match_braces (c # cs) of
        Some (inner, rest) \<Rightarrow> inner # raw_matches rest
      | None \<Rightarrow> raw_matches cs)"
  by pat_completeness auto
termination
  by (relation "measure length") (auto dest: match_braces_shorter)

text \<open>\<open>^nodes\.([a-zA-Z0-9_-]+)\.output\.([a-zA-Z0-9_.-]+)$\<close>\<close>

definition parse_expr :: "string \<Rightarrow> (string \<times> string) option" where
  "parse_expr s =
     (let r = drop 6 s; i = takeWhile id_char r; t = dropWhile id_char r; k = drop 8 t
      in if take 6 s = ''nodes.'' \<and> i \<noteq> [] \<and> take 8 t = ''.output.'' \<and> k \<noteq> [] \<and> list_all key_char k
         then Some (i, k) else None)"

text \<open>The first loop: every expression is checked before anything is resolved.\<close>

definition check_expr :: "string \<Rightarrow> context_error option" where
  "check_expr m =
     (let expr = trim m in
      case find dangerous (str_split CHR ''.'' expr) of
        Some part \<Rightarrow> Some (UnsafeExpression expr part)
      | None \<Rightarrow> if parse_expr expr = None then Some (InvalidPattern expr) else None)"

fun check_all :: "string list \<Rightarrow> context_error option" where
  "check_all [] = None"
| "check_all (m # ms) = (case check_expr m of Some e \<Rightarrow> Some e | None \<Rightarrow> check_all ms)"

fun navigate :: "found \<Rightarrow> string list \<Rightarrow> context_error + found option" where
  "navigate current [] = Inr (Some current)"
| "navigate current (part # parts) =
     (if dangerous part then Inl UnsafeNavigation
      else case current of
        Inherited _ \<Rightarrow> Inr None
      | Own j \<Rightarrow> (case property j part of None \<Rightarrow> Inr None | Some v \<Rightarrow> navigate v parts))"

text \<open>The value a template stands for, \<open>None\<close> when there is none.\<close>

definition lookup_template :: "(string, json) jsmap \<Rightarrow> string \<Rightarrow> string \<Rightarrow> context_error + found option" where
  "lookup_template nodes i key =
     (case js_get nodes i of
        None \<Rightarrow> Inr None
      | Some out \<Rightarrow> navigate (Own out) (str_split CHR ''.'' key))"

definition braces :: "string \<Rightarrow> string" where
  "braces inner = CHR 0x7B # CHR 0x7B # inner @ [CHR 0x7D, CHR 0x7D]"

function replace_templates :: "(string, json) jsmap \<Rightarrow> string \<Rightarrow> context_error + string" where
  "replace_templates nodes [] = Inr []"
| "replace_templates nodes (c # cs) =
     (case match_braces (c # cs) of
        None \<Rightarrow> map_sum id ((#) c) (replace_templates nodes cs)
      | Some (inner, rest) \<Rightarrow>
         (case parse_expr inner of
            None \<Rightarrow> map_sum id ((#) c) (replace_templates nodes cs)
          | Some (i, key) \<Rightarrow>
             (case lookup_template nodes i key of
                Inl e \<Rightarrow> Inl e
              | Inr v \<Rightarrow>
                  map_sum id ((@) (case v of None \<Rightarrow> braces inner | Some f \<Rightarrow> text_of f)) (replace_templates nodes rest))))"
  by pat_completeness auto
termination
  by (relation "measure (\<lambda>(_, s). length s)") (auto dest: match_braces_shorter)

definition single_match :: "string \<Rightarrow> (string \<times> string) option" where
  "single_match s = (case match_braces s of Some (inner, []) \<Rightarrow> parse_expr inner | _ \<Rightarrow> None)"

definition resolve_string :: "(string, json) jsmap \<Rightarrow> string \<Rightarrow> context_error + js_value" where
  "resolve_string nodes s =
     (if raw_matches s = [] then Inr (VStr s)
      else case check_all (raw_matches s) of
        Some e \<Rightarrow> Inl e
      | None \<Rightarrow>
         (case single_match (trim s) of
            Some (i, key) \<Rightarrow>
              map_sum id (\<lambda>v. case v of None \<Rightarrow> VStr s | Some f \<Rightarrow> of_found f) (lookup_template nodes i key)
          | None \<Rightarrow> map_sum id VStr (replace_templates nodes s)))"

fun resolveInterpolation :: "(string, json) jsmap \<Rightarrow> json \<Rightarrow> context_error + js_value" where
  "resolveInterpolation nodes (JStr s) = resolve_string nodes s"
| "resolveInterpolation nodes (JArr xs) = map_sum id VArr (traverse (resolveInterpolation nodes) xs)"
| "resolveInterpolation nodes (JObj kvs) =
     map_sum id VObj
       (traverse (\<lambda>(k, v). if dangerous k then Inl (UnsafeKey k) else map_sum id (Pair k) (resolveInterpolation nodes v)) kvs)"
| "resolveInterpolation nodes v = Inr (of_json v)"

section \<open>Outputs of nodes\<close>

record workflow_context =
  wc_workflowId :: string
  wc_taskId :: string
  wc_tenantId :: string
  wc_deviceId :: string
  wc_correlationId :: string
  wc_leaseHeader :: execution_lease_header

record step_context =
  sc_context :: workflow_context
  outputs :: "(string, json) jsmap"

definition WorkflowStepContext :: "workflow_context \<Rightarrow> step_context" where
  "WorkflowStepContext ctx = \<lparr>sc_context = ctx, outputs = []\<rparr>"

definition MAX_NODE_OUTPUT_BYTES :: nat where "MAX_NODE_OUTPUT_BYTES = 1048576"

text \<open>\<open>Object.keys(output)\<close> and \<open>{ ...output }\<close>\<close>

fun own_entries :: "json \<Rightarrow> (string \<times> json) list option" where
  "own_entries (JObj kvs) = Some kvs"
| "own_entries (JArr xs) = Some (zip (map nat_str [0..<length xs]) xs)"
| "own_entries _ = None"

definition setNodeOutput :: "(json \<Rightarrow> json) option \<Rightarrow> step_context \<Rightarrow> string \<Rightarrow> json \<Rightarrow> context_error + step_context" where
  "setNodeOutput redactObject sc node out =
     (case own_entries out of
        None \<Rightarrow> Inr sc
      | Some kvs \<Rightarrow>
         (case find dangerous (map fst kvs) of
            Some k \<Rightarrow> Inl (DangerousOutputKey node k)
          | None \<Rightarrow>
             (let sanitizedOutput = (case redactObject of Some f \<Rightarrow> f out | None \<Rightarrow> JObj kvs)
              in if byte_length (stringify sanitizedOutput) > MAX_NODE_OUTPUT_BYTES then Inl (OutputTooLarge node)
                 else Inr (sc\<lparr>outputs := js_set node sanitizedOutput (outputs sc)\<rparr>))))"

definition getNodeOutput :: "step_context \<Rightarrow> string \<Rightarrow> json option" where
  "getNodeOutput sc node = js_get (outputs sc) node"

definition getAllOutputs :: "step_context \<Rightarrow> (string, json) jsmap" where
  "getAllOutputs sc = outputs sc"

definition getAllOutputsForInterpolation :: "step_context \<Rightarrow> (string, json) jsmap" where
  "getAllOutputsForInterpolation sc = outputs sc"

fun add_parents :: "step_context \<Rightarrow> string list \<Rightarrow> (string, js_value) jsmap \<Rightarrow> (string, js_value) jsmap" where
  "add_parents sc [] m = m"
| "add_parents sc (p # ps) m =
     add_parents sc ps (case getNodeOutput sc p of None \<Rightarrow> m | Some out \<Rightarrow> js_set p (of_json out) m)"

fun set_member :: "string \<Rightarrow> js_value \<Rightarrow> js_value \<Rightarrow> js_value" where
  "set_member k v (VObj kvs) = VObj (js_set k v kvs)"
| "set_member k v w = w"

definition buildNodeExecutionPayload :: "step_context \<Rightarrow> workflow_node \<Rightarrow> context_error + js_value" where
  "buildNodeExecutionPayload sc node =
     (case resolveInterpolation (getAllOutputsForInterpolation sc) (JObj (payload node)) of
        Inl e \<Rightarrow> Inl e
      | Inr v \<Rightarrow> Inr (case dependencies node of
            None \<Rightarrow> v
          | Some parents \<Rightarrow> set_member ''_dependencyOutputs'' (VObj (add_parents sc parents [])) v))"

section \<open>Expressions of the documented form\<close>

text \<open>Specification: \<open>nodes.<id>.output.<key>\<close>, surrounded by white space at most, where no part is unsafe.\<close>

definition expression :: "string \<Rightarrow> string list \<Rightarrow> string" where
  "expression i ks = ''nodes.'' @ i @ ''.output.'' @ join ''.'' ks"

definition safe_path :: "string \<Rightarrow> string list \<Rightarrow> bool" where
  "safe_path i ks \<longleftrightarrow>
     i \<noteq> [] \<and> list_all id_char i \<and> \<not> dangerous i \<and> join ''.'' ks \<noteq> [] \<and> list_all (\<lambda>k. list_all id_char k \<and> \<not> dangerous k) ks"

definition documented :: "string \<Rightarrow> bool" where
  "documented m \<longleftrightarrow> (\<exists>i ks. safe_path i ks \<and> trim m = expression i ks)"

lemma dot_not_id: "\<not> id_char CHR ''.''" "\<not> id_char CHR 0x7D" "\<not> id_char CHR 0x7B"
  by (simp_all add: id_char_def alnum_def)

lemma key_char_simps: "\<not> key_char CHR 0x7D" "\<not> key_char CHR 0x7B"
  by (simp_all add: key_char_def dot_not_id)

lemma key_not_ws: "key_char c \<Longrightarrow> \<not> is_ws c"
  by (auto simp: key_char_def id_char_def alnum_def is_ws_def Let_def)

lemma parse_expr_Some:
  "parse_expr s = Some (i, k) \<longleftrightarrow> s = ''nodes.'' @ i @ ''.output.'' @ k \<and> i \<noteq> [] \<and> list_all id_char i \<and> k \<noteq> [] \<and> list_all key_char k"
  (is "?l \<longleftrightarrow> ?r")
proof
  assume l: ?l
  let ?t = "drop 6 s"
  have f: "take 6 s = ''nodes.''" "takeWhile id_char ?t = i" "take 8 (dropWhile id_char ?t) = ''.output.''"
    "drop 8 (dropWhile id_char ?t) = k" "i \<noteq> []" "k \<noteq> []" "list_all key_char k"
    using l by (auto simp: parse_expr_def Let_def split: if_splits)
  have "s = ''nodes.'' @ ?t" using append_take_drop_id [of 6 s] f(1) by metis
  moreover have "?t = i @ dropWhile id_char ?t" using takeWhile_dropWhile_id [of id_char ?t] f(2) by metis
  moreover have "dropWhile id_char ?t = ''.output.'' @ k"
    using append_take_drop_id [of 8 "dropWhile id_char ?t"] f(3,4) by metis
  ultimately have "s = ''nodes.'' @ i @ ''.output.'' @ k" by metis
  moreover have "list_all id_char i" using f(2) by (metis list_all_iff set_takeWhileD)
  ultimately show ?r using f(5-7) by simp
next
  assume r: ?r
  then have "takeWhile id_char (i @ ''.output.'' @ k) = i" "dropWhile id_char (i @ ''.output.'' @ k) = ''.output.'' @ k"
    by (simp_all add: list_all_iff takeWhile_append2 dropWhile_append2 dot_not_id)
  with r show ?l by (simp add: parse_expr_def Let_def)
qed

lemma id_no_dot: "list_all id_char k \<Longrightarrow> CHR ''.'' \<notin> set k"
  using dot_not_id by (auto simp: list_all_iff)

lemma split_expr:
  assumes "CHR ''.'' \<notin> set i"
  shows "str_split CHR ''.'' (''nodes.'' @ i @ ''.output.'' @ k) = ''nodes'' # i # ''output'' # str_split CHR ''.'' k"
proof -
  have "str_split CHR ''.'' (i @ CHR ''.'' # ''output'' @ CHR ''.'' # k) = i # ''output'' # str_split CHR ''.'' k"
    using assms split_append [of "CHR ''.''" "''output''" k] by (simp add: split_append)
  then show ?thesis by simp
qed

lemma keys_split: "list_all key_char k \<longleftrightarrow> list_all (list_all id_char) (str_split CHR ''.'' k)"
  by (induction k) (auto simp: key_char_def dot_not_id split: list.splits)

lemma dangerous_words: "\<not> dangerous ''nodes''" "\<not> dangerous ''output''"
  by (simp_all add: dangerous_def dangerousKeys_def)

lemma check_expr_None: "check_expr m = None \<longleftrightarrow> documented m"
proof
  assume l: "check_expr m = None"
  then obtain i k where p: "parse_expr (trim m) = Some (i, k)"
    by (auto simp: check_expr_def Let_def split: option.splits if_splits)
  let ?ks = "str_split CHR ''.'' k"
  from p have e: "trim m = ''nodes.'' @ i @ ''.output.'' @ k" "i \<noteq> []" "list_all id_char i" "k \<noteq> []" "list_all key_char k"
    by (auto simp: parse_expr_Some)
  have "\<forall>x \<in> set (str_split CHR ''.'' (trim m)). \<not> dangerous x"
    using l by (auto simp: check_expr_def Let_def find_None_iff split: option.splits)
  then have "\<not> dangerous i" "\<forall>x \<in> set ?ks. \<not> dangerous x"
    unfolding e(1) split_expr [OF id_no_dot [OF e(3)]] by auto
  with e keys_split [of k] have "safe_path i ?ks \<and> trim m = expression i ?ks"
    by (simp add: safe_path_def expression_def join_split list_all_iff)
  then show "documented m" by (auto simp: documented_def)
next
  assume "documented m"
  then obtain i ks where w: "safe_path i ks" "trim m = expression i ks" by (auto simp: documented_def)
  have ks: "ks \<noteq> []" "str_split CHR ''.'' (join ''.'' ks) = ks"
    using w(1) by (auto simp: safe_path_def list_all_iff intro!: split_join id_no_dot)
  have "parse_expr (trim m) = Some (i, join ''.'' ks)"
    using w ks keys_split [of "join ''.'' ks"] by (simp add: parse_expr_Some expression_def safe_path_def list_all_iff)
  moreover have "str_split CHR ''.'' (trim m) = ''nodes'' # i # ''output'' # ks"
    using w(1) split_expr [of i "join ''.'' ks"] id_no_dot [of i] ks(2) unfolding w(2) expression_def safe_path_def by metis
  then have "find dangerous (str_split CHR ''.'' (trim m)) = None"
    using w(1) dangerous_words by (auto simp: safe_path_def find_None_iff list_all_iff)
  ultimately show "check_expr m = None" by (simp add: check_expr_def)
qed

lemma check_all_None: "check_all ms = None \<longleftrightarrow> (\<forall>m \<in> set ms. documented m)"
  by (induction ms) (auto simp flip: check_expr_None split: option.splits)


section \<open>When interpolation fails\<close>

lemma match_braces_Some:
  "match_braces s = Some (inner, rest) \<longleftrightarrow> s = braces inner @ rest \<and> inner \<noteq> [] \<and> CHR 0x7D \<notin> set inner" (is "?l \<longleftrightarrow> ?r")
proof
  assume l: ?l
  let ?n = "\<lambda>c. c \<noteq> CHR 0x7D"
  let ?t = "drop 2 s"
  have f: "take 2 s = [CHR 0x7B, CHR 0x7B]" "takeWhile ?n ?t = inner" "take 2 (dropWhile ?n ?t) = [CHR 0x7D, CHR 0x7D]"
    "drop 2 (dropWhile ?n ?t) = rest" "inner \<noteq> []"
    using l by (auto simp: match_braces_def Let_def split: if_splits)
  have "s = [CHR 0x7B, CHR 0x7B] @ ?t" using append_take_drop_id [of 2 s] f(1) by metis
  moreover have "?t = inner @ dropWhile ?n ?t" using takeWhile_dropWhile_id [of ?n ?t] f(2) by metis
  moreover have "dropWhile ?n ?t = [CHR 0x7D, CHR 0x7D] @ rest" using append_take_drop_id [of 2 "dropWhile ?n ?t"] f(3,4) by metis
  ultimately have "s = [CHR 0x7B, CHR 0x7B] @ inner @ [CHR 0x7D, CHR 0x7D] @ rest" by metis
  moreover have "CHR 0x7D \<notin> set inner" using f(2) by (metis set_takeWhileD)
  ultimately show ?r using f(5) by (simp add: braces_def)
next
  assume r: ?r
  have "takeWhile (\<lambda>c. c \<noteq> CHR 0x7D) (inner @ CHR 0x7D # CHR 0x7D # rest) = inner"
    "dropWhile (\<lambda>c. c \<noteq> CHR 0x7D) (inner @ CHR 0x7D # CHR 0x7D # rest) = CHR 0x7D # CHR 0x7D # rest"
    using conjunct2 [OF conjunct2 [OF r]] by (induction inner) auto
  with r show ?l by (simp add: match_braces_def braces_def Let_def)
qed

lemma match_braces_open: "c \<noteq> CHR 0x7B \<Longrightarrow> match_braces (c # s) = None"
  by (simp add: match_braces_def Let_def)

lemma raw_matches_text: "CHR 0x7B \<notin> set p \<Longrightarrow> raw_matches (p @ s) = raw_matches s"
  by (induction p) (auto simp: match_braces_open)

lemma raw_matches_braces:
  "\<lbrakk>inner \<noteq> []; CHR 0x7D \<notin> set inner\<rbrakk> \<Longrightarrow> raw_matches (braces inner @ rest) = inner # raw_matches rest"
  using match_braces_Some [of "braces inner @ rest" inner rest] by (simp add: braces_def)

lemma trim_split: "\<exists>p q. s = p @ trim s @ q \<and> list_all is_ws p \<and> list_all is_ws q"
proof -
  let ?d = "dropWhile is_ws s"
  have "s = takeWhile is_ws s @ ?d" by simp
  moreover have "?d = trim s @ rev (takeWhile is_ws (rev ?d))"
    unfolding trim_def by (metis rev_append rev_rev_ident takeWhile_dropWhile_id)
  ultimately show ?thesis
    by (metis append.assoc list_all_iff set_rev set_takeWhileD)
qed

lemma trim_id: "list_all (\<lambda>c. \<not> is_ws c) s \<Longrightarrow> trim s = s"
  unfolding trim_def by (metis dropWhile_eq_self_iff hd_in_set list_all_iff rev_rev_ident set_rev)

lemma expression_key_chars: "safe_path i ks \<Longrightarrow> list_all key_char (expression i ks)"
proof -
  assume s: "safe_path i ks"
  then have "str_split CHR ''.'' (join ''.'' ks) = ks"
    by (auto simp: safe_path_def list_all_iff intro!: split_join id_no_dot)
  with s keys_split [of "join ''.'' ks"] have "list_all key_char (join ''.'' ks)" by (simp add: safe_path_def list_all_iff)
  moreover have "list_all key_char ''nodes.''" "list_all key_char ''.output.''" by code_simp+
  ultimately show ?thesis using s by (auto simp: expression_def list_all_iff key_char_def safe_path_def)
qed

lemma documented_no_open: "documented m \<Longrightarrow> CHR 0x7B \<notin> set m"
proof -
  assume "documented m"
  then obtain i ks where w: "safe_path i ks" "trim m = expression i ks" by (auto simp: documented_def)
  obtain p q where "m = p @ trim m @ q" "list_all is_ws p" "list_all is_ws q" using trim_split by blast
  moreover have "CHR 0x7B \<notin> set (trim m)"
    using expression_key_chars [OF w(1)] key_char_simps(2) unfolding w(2) list_all_iff by blast
  moreover have "\<not> is_ws CHR 0x7B" by (simp add: is_ws_def)
  ultimately show ?thesis unfolding list_all_iff by (metis UnE set_append)
qed

lemma navigate_safe: "list_all (\<lambda>p. \<not> dangerous p) ps \<Longrightarrow> \<exists>v. navigate f ps = Inr v"
  by (induction ps arbitrary: f) (auto split: found.splits option.splits)

lemma documented_parse:
  assumes "documented m" "parse_expr m = Some (i, k)"
  shows "list_all (\<lambda>p. \<not> dangerous p) (str_split CHR ''.'' k)"
proof -
  have e: "m = ''nodes.'' @ i @ ''.output.'' @ k" "list_all id_char i" "list_all key_char k"
    using assms(2) by (auto simp: parse_expr_Some)
  moreover have "list_all key_char ''nodes.''" "list_all key_char ''.output.''" by code_simp+
  ultimately have "list_all key_char m" by (auto simp: list_all_iff key_char_def)
  then have "trim m = m" by (intro trim_id) (auto simp: list_all_iff dest: key_not_ws)
  with assms(1) have "\<forall>x \<in> set (str_split CHR ''.'' m). \<not> dangerous x"
    by (auto simp: check_expr_def find_None_iff simp flip: check_expr_None split: option.splits)
  then show ?thesis unfolding e(1) split_expr [OF id_no_dot [OF e(2)]] by (auto simp: list_all_iff)
qed

lemma lookup_safe: "\<lbrakk>documented m; parse_expr m = Some (i, k)\<rbrakk> \<Longrightarrow> \<exists>v. lookup_template nodes i k = Inr v"
  using navigate_safe [OF documented_parse] by (auto simp: lookup_template_def split: option.splits)

lemma replace_safe:
  "\<forall>m \<in> set (raw_matches s). documented m \<Longrightarrow> \<exists>t. replace_templates nodes s = Inr t"
proof (induction nodes s rule: replace_templates.induct)
  case (2 nodes c cs)
  show ?case
  proof (cases "match_braces (c # cs)")
    case None
    then show ?thesis using 2 by auto
  next
    case (Some a)
    then obtain inner rest where m: "match_braces (c # cs) = Some (inner, rest)" by (cases a) auto
    have doc: "documented inner" "\<forall>m \<in> set (raw_matches rest). documented m" using 2(4) m by auto
    show ?thesis
    proof (cases "parse_expr inner")
      case None
      have cs: "cs = (CHR 0x7B # inner @ [CHR 0x7D, CHR 0x7D]) @ rest" "inner \<noteq> []" "CHR 0x7D \<notin> set inner"
        using m by (auto simp: match_braces_Some braces_def)
      then have "match_braces cs = None"
        using documented_no_open [OF doc(1)] by (cases inner) (auto simp: match_braces_def)
      then have "raw_matches cs = raw_matches ((inner @ [CHR 0x7D, CHR 0x7D]) @ rest)" by (simp add: cs(1))
      also have "\<dots> = raw_matches rest" using documented_no_open [OF doc(1)] by (intro raw_matches_text) auto
      finally show ?thesis using 2(2) [OF m refl None] doc(2) m None by auto
    next
      case (Some b)
      then obtain i k where p: "parse_expr inner = Some (i, k)" by (cases b) auto
      obtain v where "lookup_template nodes i k = Inr v" using lookup_safe [OF doc(1) p] by blast
      then show ?thesis using 2(3) [OF m refl p refl] doc(2) m p by auto
    qed
  qed
qed auto

lemma single_match_documented:
  assumes "\<forall>m \<in> set (raw_matches s). documented m" "single_match (trim s) = Some (i, k)"
  shows "\<exists>v. lookup_template nodes i k = Inr v"
proof -
  obtain inner where m: "match_braces (trim s) = Some (inner, [])" "parse_expr inner = Some (i, k)"
    using assms(2) by (auto simp: single_match_def split: option.splits list.splits)
  obtain p q where s: "s = p @ trim s @ q" "list_all is_ws p" using trim_split by blast
  have "CHR 0x7B \<notin> set p" using s(2) by (auto simp: list_all_iff is_ws_def)
  then have "raw_matches s = raw_matches (trim s @ q)" using raw_matches_text s(1) by metis
  then have "inner \<in> set (raw_matches s)"
    using m(1) raw_matches_braces [of inner q] by (auto simp: match_braces_Some)
  then show ?thesis using lookup_safe [OF _ m(2)] assms(1) by blast
qed

lemma resolve_string_fails_iff:
  "(\<exists>e. resolve_string nodes s = Inl e) \<longleftrightarrow> \<not> (\<forall>m \<in> set (raw_matches s). documented m)"
proof (cases "check_all (raw_matches s)")
  case None
  then have doc: "\<forall>m \<in> set (raw_matches s). documented m" by (simp add: check_all_None)
  obtain t where t: "replace_templates nodes s = Inr t" using replace_safe [OF doc] by blast
  have "\<exists>w. resolve_string nodes s = Inr w"
  proof (cases "single_match (trim s)")
    case (Some a)
    then obtain i k where m: "single_match (trim s) = Some (i, k)" by (cases a) auto
    obtain v where "lookup_template nodes i k = Inr v" using single_match_documented [OF doc m] by blast
    with m None show ?thesis by (auto simp: resolve_string_def)
  qed (use None t in \<open>auto simp: resolve_string_def\<close>)
  then show ?thesis using doc by auto
next
  case (Some e)
  then have "\<not> (\<forall>m \<in> set (raw_matches s). documented m)" using check_all_None [of "raw_matches s"] by simp
  then show ?thesis using Some by (auto simp: resolve_string_def)
qed

text \<open>The values whose templates all have the documented form and whose keys are safe.\<close>

fun well_formed :: "json \<Rightarrow> bool" where
  "well_formed (JStr s) \<longleftrightarrow> (\<forall>m \<in> set (raw_matches s). documented m)"
| "well_formed (JArr xs) \<longleftrightarrow> (\<forall>x \<in> set xs. well_formed x)"
| "well_formed (JObj kvs) \<longleftrightarrow> (\<forall>(k, v) \<in> set kvs. \<not> dangerous k \<and> well_formed v)"
| "well_formed _ \<longleftrightarrow> True"

lemma map_sum_fails: "(\<exists>e. map_sum id f x = Inl e) \<longleftrightarrow> (\<exists>e. x = Inl e)"
  by (cases x) auto

text \<open>C35. Interpolation errors. Whatever the outputs of earlier nodes are, interpolation fails exactly on the values that
  have an unsafe key at some depth, or a template expression that is not \<open>nodes.<id>.output.<key>\<close> (up to surrounding white space) or has
  an unsafe part: the outputs cannot make it fail, and the checks during navigation never fire.\<close>

theorem interpolation_fails_iff:
  "(\<exists>e. resolveInterpolation nodes v = Inl e) \<longleftrightarrow> \<not> well_formed v"
proof (induction v)
  case (JArr xs)
  then show ?case by (simp add: map_sum_fails traverse_fails_iff)
next
  case (JObj kvs)
  let ?f = "\<lambda>(k, v). if dangerous k then Inl (UnsafeKey k) else map_sum id (Pair k) (resolveInterpolation nodes v)"
  have "(\<exists>e. ?f kv = Inl e) \<longleftrightarrow> dangerous (fst kv) \<or> \<not> well_formed (snd kv)" if "kv \<in> set kvs" for kv
    using JObj [of kv "snd kv"] that by (cases kv) (auto simp: map_sum_fails)
  then have "(\<exists>e. traverse ?f kvs = Inl e) \<longleftrightarrow> (\<exists>kv \<in> set kvs. dangerous (fst kv) \<or> \<not> well_formed (snd kv))"
    by (simp only: traverse_fails_iff cong: bex_cong)
  then show ?case by (simp only: resolveInterpolation.simps map_sum_fails well_formed.simps case_prod_unfold) blast
qed (simp_all add: resolve_string_fails_iff)

section \<open>What a template stands for\<close>

definition member :: "string \<Rightarrow> found \<Rightarrow> found option" where
  "member k f = (case f of Own j \<Rightarrow> property j k | Inherited _ \<Rightarrow> None)"

definition value_at :: "(string, json) jsmap \<Rightarrow> string \<Rightarrow> string list \<Rightarrow> found option" where
  "value_at nodes i ks =
     Option.bind (js_get nodes i) (\<lambda>out. foldl (\<lambda>acc k. Option.bind acc (member k)) (Some (Own out)) ks)"

lemma foldl_bind_None: "foldl (\<lambda>acc k. Option.bind acc (member k)) None ks = None"
  by (induction ks) auto

lemma navigate_foldl:
  "list_all (\<lambda>p. \<not> dangerous p) ks \<Longrightarrow> navigate f ks = Inr (foldl (\<lambda>acc k. Option.bind acc (member k)) (Some f) ks)"
  by (induction ks arbitrary: f) (auto simp: member_def foldl_bind_None split: found.splits option.splits)

lemma safe_path_split: "safe_path i ks \<Longrightarrow> str_split CHR ''.'' (join ''.'' ks) = ks"
  by (auto simp: safe_path_def list_all_iff intro!: split_join id_no_dot)

lemma lookup_value: "safe_path i ks \<Longrightarrow> lookup_template nodes i (join ''.'' ks) = Inr (value_at nodes i ks)"
  using safe_path_split [of i ks] navigate_foldl [of ks]
  by (auto simp: lookup_template_def value_at_def safe_path_def list_all_iff split: option.splits)

lemma parse_expression: "safe_path i ks \<Longrightarrow> parse_expr (expression i ks) = Some (i, join ''.'' ks)"
  using safe_path_split [of i ks] keys_split [of "join ''.'' ks"]
  by (auto simp: parse_expr_Some expression_def safe_path_def list_all_iff)

lemma expression_clean:
  assumes "safe_path i ks"
  shows "CHR 0x7D \<notin> set (expression i ks)" "CHR 0x7B \<notin> set (expression i ks)" "expression i ks \<noteq> []"
    "trim (expression i ks) = expression i ks"
proof -
  note k = expression_key_chars [OF assms]
  show "CHR 0x7D \<notin> set (expression i ks)" "CHR 0x7B \<notin> set (expression i ks)" using k key_char_simps unfolding list_all_iff by blast+
  show "expression i ks \<noteq> []" by (simp add: expression_def)
  show "trim (expression i ks) = expression i ks"
    by (rule trim_id) (use k key_not_ws in \<open>unfold list_all_iff, blast\<close>)
qed

lemma expression_documented: "safe_path i ks \<Longrightarrow> documented (expression i ks)"
  using expression_clean(4) by (auto simp: documented_def)

lemma trim_braces: "trim (braces m) = braces m"
  by (simp add: trim_def braces_def is_ws_def)

lemma raw_matches_single: "\<lbrakk>m \<noteq> []; CHR 0x7D \<notin> set m\<rbrakk> \<Longrightarrow> raw_matches (braces m) = [m]"
  using raw_matches_braces [of m "[]"] by simp

lemma match_single: "\<lbrakk>m \<noteq> []; CHR 0x7D \<notin> set m\<rbrakk> \<Longrightarrow> match_braces (braces m @ rest) = Some (m, rest)"
  by (simp add: match_braces_Some)

lemma single_template:
  assumes "safe_path i ks"
  shows "resolve_string nodes (braces (expression i ks)) =
    Inr (case value_at nodes i ks of None \<Rightarrow> VStr (braces (expression i ks)) | Some f \<Rightarrow> of_found f)"
proof -
  note c = expression_clean [OF assms]
  have "single_match (trim (braces (expression i ks))) = Some (i, join ''.'' ks)"
    using match_single [OF c(3,1), of "[]"] by (simp add: trim_braces single_match_def parse_expression [OF assms])
  moreover have "check_all (raw_matches (braces (expression i ks))) = None"
    by (simp add: raw_matches_single c check_expr_None [THEN iffD2, OF expression_documented [OF assms]])
  ultimately show ?thesis
    by (simp add: resolve_string_def raw_matches_single c lookup_value [OF assms])
qed

text \<open>A template within text is replaced by the text of its value, and the rest goes on as before.\<close>

lemma replace_match:
  "\<lbrakk>match_braces s = Some (inner, rest); parse_expr inner = Some (i, k); lookup_template nodes i k = Inr v\<rbrakk> \<Longrightarrow>
   replace_templates nodes s = map_sum id ((@) (case v of None \<Rightarrow> braces inner | Some f \<Rightarrow> text_of f)) (replace_templates nodes rest)"
  by (cases s) (auto simp: match_braces_def)

lemma template_in_text:
  assumes "safe_path i ks" "CHR 0x7B \<notin> set t"
  shows "replace_templates nodes (t @ braces (expression i ks) @ s) =
    map_sum id (\<lambda>r. t @ (case value_at nodes i ks of None \<Rightarrow> braces (expression i ks) | Some f \<Rightarrow> text_of f) @ r) (replace_templates nodes s)"
  using assms(2)
proof (induction t)
  case Nil
  have "match_braces (braces (expression i ks) @ s) = Some (expression i ks, s)"
    by (rule match_single) (rule expression_clean [OF assms(1)])+
  from replace_match [OF this parse_expression [OF assms(1)] lookup_value [OF assms(1)]]
  show ?case by (simp add: id_def)
next
  case (Cons c t)
  then show ?case by (auto simp: match_braces_open sum.map_comp comp_def)
qed

lemma no_template_id: "raw_matches s = [] \<Longrightarrow> replace_templates nodes s = Inr s"
proof (induction s)
  case (Cons c cs)
  then show ?case by (cases "match_braces (c # cs)") auto
qed simp

text \<open>White space inside the braces passes the check but is not matched by the patterns that resolve: the
  template stays as it is.\<close>

lemma padded_template_unresolved:
  assumes "documented m" "trim m \<noteq> m" "CHR 0x7D \<notin> set m"
  shows "resolveInterpolation nodes (JStr (braces m)) = Inr (VStr (braces m))"
proof -
  have ne: "m \<noteq> []" using assms(1) by (auto simp: documented_def expression_def trim_def)
  have "parse_expr m = None"
  proof (rule ccontr)
    assume "parse_expr m \<noteq> None"
    then obtain i k where "m = ''nodes.'' @ i @ ''.output.'' @ k" "list_all id_char i" "list_all key_char k"
      by (auto simp: parse_expr_Some)
    moreover have "list_all key_char ''nodes.''" "list_all key_char ''.output.''" by code_simp+
    ultimately have "list_all key_char m" by (auto simp: list_all_iff key_char_def)
    then have "trim m = m" by (intro trim_id) (auto simp: list_all_iff dest: key_not_ws)
    with assms(2) show False by simp
  qed
  moreover have "match_braces (braces m) = Some (m, [])" using match_single [OF ne assms(3), of "[]"] by simp
  moreover have "raw_matches (CHR 0x7B # m @ [CHR 0x7D, CHR 0x7D]) = []"
  proof -
    have "match_braces (CHR 0x7B # m @ [CHR 0x7D, CHR 0x7D]) = None"
      using documented_no_open [OF assms(1)] ne by (cases m) (auto simp: match_braces_def)
    moreover have "raw_matches (m @ [CHR 0x7D, CHR 0x7D]) = raw_matches [CHR 0x7D, CHR 0x7D]"
      by (rule raw_matches_text) (rule documented_no_open [OF assms(1)])
    ultimately show ?thesis by (simp add: match_braces_open)
  qed
  ultimately have "replace_templates nodes (braces m) = Inr (braces m)"
    using no_template_id [of "CHR 0x7B # m @ [CHR 0x7D, CHR 0x7D]" nodes] by (simp add: braces_def)
  moreover have "single_match (trim (braces m)) = None"
    using match_single [OF ne assms(3), of "[]"] \<open>parse_expr m = None\<close> by (simp add: trim_braces single_match_def)
  ultimately show ?thesis
    by (simp add: resolve_string_def raw_matches_single ne assms(3) check_expr_None [THEN iffD2, OF assms(1)])
qed

text \<open>Templates. A template of the documented form stands for the value found by following its keys from the output of the named
  node, with its type, and the text around it is kept; without such a value the template itself stays.\<close>

theorem template_resolves:
  assumes "safe_path i ks" and "CHR 0x7B \<notin> set t"
  shows "resolveInterpolation nodes (JStr (braces (expression i ks))) =
      Inr (case value_at nodes i ks of None \<Rightarrow> VStr (braces (expression i ks)) | Some f \<Rightarrow> of_found f)
    \<and> replace_templates nodes (t @ braces (expression i ks) @ s) =
      map_sum id (\<lambda>r. t @ (case value_at nodes i ks of None \<Rightarrow> braces (expression i ks) | Some f \<Rightarrow> text_of f) @ r) (replace_templates nodes s)"
  using single_template [OF assms(1)] template_in_text [OF assms] by simp

definition test_outputs :: "(string, json) jsmap" where
  "test_outputs = [(''fetch'', JObj [(''items'', JArr [JNum ''7'', JStr ''x''])])]"

theorem template_resolves_witness:
  "resolveInterpolation test_outputs (JStr (braces (expression ''fetch'' [''items'', ''1'']))) = Inr (VStr ''x'')
   \<and> replace_templates test_outputs (''n='' @ braces (expression ''fetch'' [''items'', ''0'']) @ ''!'') = Inr ''n=7!''"
proof -
  have safe: "safe_path ''fetch'' [''items'', ''0'']" "safe_path ''fetch'' [''items'', ''1'']" by code_simp+
  have plain: "CHR 0x7B \<notin> set ''n=''" by simp
  have "value_at test_outputs ''fetch'' [''items'', ''1''] = Some (Own (JStr ''x''))"
    "value_at test_outputs ''fetch'' [''items'', ''0''] = Some (Own (JNum ''7''))"
    by code_simp+
  moreover have "replace_templates test_outputs ''!'' = Inr ''!''" by code_simp
  ultimately show ?thesis
    using template_resolves [OF safe(1) plain, of test_outputs "''!''"] template_resolves [OF safe(2) plain, of test_outputs "''!''"] by simp
qed

text \<open>Keys reach inherited properties: a template may resolve to a function of the runtime.\<close>

lemma template_reaches_prototype:
  assumes "js_get nodes i = Some (JObj kvs)" "map_of kvs ''toString'' = None" "safe_path i [''toString'']"
  shows "resolveInterpolation nodes (JStr (braces (expression i [''toString'']))) = Inr (VFun ''toString'')"
  using assms(1,2) single_template [OF assms(3), of nodes]
  by (simp add: value_at_def member_def inherited_def object_prototype_def)

section \<open>Outputs stay bounded\<close>

definition outputs_ok :: "step_context \<Rightarrow> bool" where
  "outputs_ok sc \<longleftrightarrow> js_map_wf (outputs sc) \<and> (\<forall>out \<in> set (js_values (outputs sc)). byte_length (stringify out) \<le> MAX_NODE_OUTPUT_BYTES)"

lemma setNodeOutput_bounded:
  assumes "outputs_ok sc" "setNodeOutput redact sc node out = Inr sc'"
  shows "outputs_ok sc' \<and> (own_entries out \<noteq> None \<longrightarrow> getNodeOutput sc' node \<noteq> None)
    \<and> (\<forall>n. n \<noteq> node \<longrightarrow> getNodeOutput sc' n = getNodeOutput sc n)"
  using assms
  by (fastforce simp: setNodeOutput_def outputs_ok_def getNodeOutput_def js_map_simps js_values_def Let_def
      dest!: js_set_elem split: option.splits if_splits)

end
