(* ===== verification/Workflow_Engine.thy ===== *)
theory Workflow_Engine
  imports Step_Context Orchestrator
begin

text \<open>
  The workflow engine of the desktop agent: \<open>apps/desktop-agent/src/workflow/workflow-engine.ts\<close> and \<open>types.ts\<close>, over the
  graph parser (\<open>Workflow_Dag\<close>), the step context (\<open>Step_Context\<close>) and the lease boundary.

  \<open>executeWorkflow\<close> is asynchronous and cut at its suspension points. \<open>executeWorkflow\<close> below is the part up to the first tier;
  \<open>checkTier\<close> is the head of the loop over the tiers, \<open>dispatchTier\<close> what follows the validation of the lease (all nodes of
  the tier are started), \<open>submitNode\<close> builds the payload of a started node and calls the scheduler, \<open>finishNode\<close> is the
  rest of \<open>executeSingleNode\<close> with the scheduler's answer, \<open>completeTier\<close> follows \<open>Promise.all\<close>, and \<open>compensateNode\<close> is one turn of
  the compensation loop. The steps of all workflows, cancellations and the maintenance timer come in any order. What the
  scheduler answers is an argument. Writes of checkpoints are part of the step before them; telemetry and error texts are
  not kept. A run that throws stays in stage \<open>Crashed\<close>; its other nodes go on.
  \<open>events\<close> records submissions, completions and compensations in their order, for the proofs.

  Proved, for every interleaving: a node is submitted once and only after all its predecessors have completed, under an
  admitted lease that grants its capability; a failed workflow compensates its completed nodes once, in reverse order; the
  status of an ended workflow is final; and the slots of workflows are never given back.
\<close>

section \<open>State\<close>

datatype wf_status =
    Received | Validating | Wf_Queued | Starting | Wf_Running | Reconciling | Wf_Completed | Wf_Failed | Wf_CANCELED | Wf_EXPIRED

record node_state =
  nx_nodeId :: string
  nx_status :: wf_status
  nx_startedAt :: "int option"
  nx_completedAt :: "int option"
  nx_output :: "json option"
  nx_errorCode :: "string option"
  nx_retryCount :: nat

record workflow_state =
  wx_workflowId :: string
  wx_taskId :: string
  wx_tenantId :: string
  wx_deviceId :: string
  wx_correlationId :: string
  wx_status :: wf_status
  nodeStates :: "(string, node_state) jsmap"
  wx_completedNodes :: "string list"
  pendingNodes :: "string list"
  activeNodes :: "string list"
  nodeOutputs :: "(string, json) jsmap"
  wx_createdAt :: int
  wx_updatedAt :: int
  wx_expiresAt :: "int option"
  compensationTriggered :: bool

text \<open>The request to the scheduler and its answer.\<close>

record node_request =
  nq_task_id :: string
  nq_step_id :: string
  nq_correlation_id :: string
  nq_leaseHeader :: execution_lease_header
  nq_capabilityId :: string
  nq_runtimeCategory :: string
  nq_payload :: js_value

record node_result =
  nr_success :: bool
  nr_output :: "json option"
  nr_errorCode :: "string option"

record wf_result =
  wr_success :: bool
  wr_errorCode :: "string option"
  wr_outputs :: "(string, json) jsmap"

datatype node_phase = Started | Submitted | Answered node_result | Threw context_error

datatype wf_stage = CheckTier | ValidateTier | RunTier | Compensate "string list" node_result | Ended wf_result | Crashed_Run

record workflow_run =
  run_dag :: workflow_dag
  run_tiers :: "string list list"
  run_stage :: wf_stage
  run_nodes :: "(string, node_phase) jsmap"

datatype wf_event = Submission string string node_request | Completion string string | Compensation string string node_request

record engine =
  activeWorkflows :: "(string, workflow_state) jsmap"
  abortControllers :: "(string, bool) jsmap"
  stepContexts :: "(string, step_context) jsmap"
  completedWorkflowsCount :: nat
  failedWorkflowsCount :: nat
  maxActiveWorkflows :: nat
  maxNodesPerWorkflow :: nat
  workflow_index :: "string list"
  workflow_checkpoint :: "(string, workflow_state) jsmap"
  executions :: "(string, workflow_run) jsmap"
  cancelRequests :: "string list"
  events :: "wf_event list"

definition WorkflowEngine :: "nat \<Rightarrow> nat \<Rightarrow> string list \<Rightarrow> (string, workflow_state) jsmap \<Rightarrow> engine" where
  "WorkflowEngine maxA maxN index store =
     \<lparr>activeWorkflows = [], abortControllers = [], stepContexts = [], completedWorkflowsCount = 0, failedWorkflowsCount = 0,
      maxActiveWorkflows = maxA, maxNodesPerWorkflow = maxN, workflow_index = index, workflow_checkpoint = store,
      executions = [], cancelRequests = [], events = []\<rparr>"

record workflow_metrics =
  activeWorkflowsCount :: nat
  metric_maxActiveWorkflows :: nat
  totalCompletedCount :: nat
  totalFailedCount :: nat

definition getWorkflowMetrics :: "engine \<Rightarrow> workflow_metrics" where
  "getWorkflowMetrics e =
     \<lparr>activeWorkflowsCount = length (activeWorkflows e), metric_maxActiveWorkflows = maxActiveWorkflows e,
      totalCompletedCount = completedWorkflowsCount e, totalFailedCount = failedWorkflowsCount e\<rparr>"

definition getWorkflowStatus :: "engine \<Rightarrow> string \<Rightarrow> string option \<Rightarrow> run_status option" where
  "getWorkflowStatus e wid tenant =
     (case js_get (activeWorkflows e) wid of
        None \<Rightarrow> None
      | Some w \<Rightarrow>
          if truthy tenant \<and> tenant \<noteq> Some (wx_tenantId w) then None
          else (case wx_status w of
            Wf_Completed \<Rightarrow> Some RUN_COMPLETED
          | Wf_Failed \<Rightarrow> Some RUN_FAILED
          | Wf_CANCELED \<Rightarrow> Some RUN_CANCELED
          | Wf_EXPIRED \<Rightarrow> Some RUN_PAUSED
          | Reconciling \<Rightarrow> Some RUN_PAUSED
          | Wf_Running \<Rightarrow> Some RUN_RUNNING
          | Starting \<Rightarrow> Some RUN_RUNNING
          | Wf_Queued \<Rightarrow> Some RUN_QUEUED
          | _ \<Rightarrow> None))"

section \<open>Checkpoints\<close>

definition persistCheckpoint :: "workflow_state \<Rightarrow> engine \<Rightarrow> engine" where
  "persistCheckpoint w e =
     e\<lparr>workflow_index := js_add (wx_workflowId w) (workflow_index e),
       workflow_checkpoint := js_set (wx_workflowId w) w (workflow_checkpoint e)\<rparr>"

definition put_workflow :: "string \<Rightarrow> workflow_state \<Rightarrow> engine \<Rightarrow> engine" where
  "put_workflow wid w e = e\<lparr>activeWorkflows := js_set wid w (activeWorkflows e)\<rparr>"

text \<open>The type tests of \<open>validateCheckpoint\<close> hold of every typed state; an unreadable expiry is stored as \<open>null\<close>.\<close>

definition validateCheckpoint :: "workflow_state \<Rightarrow> string \<Rightarrow> bool" where
  "validateCheckpoint w wid \<longleftrightarrow>
     wx_workflowId w = wid \<and> (case wx_expiresAt w of None \<Rightarrow> False | Some x \<Rightarrow> x > 0) \<and> wx_createdAt w > 0"

fun restore_workflows :: "int \<Rightarrow> string list \<Rightarrow> engine \<times> string list \<Rightarrow> engine \<times> string list" where
  "restore_workflows now [] er = er"
| "restore_workflows now (wid # wids) (e, remainingIndex) =
     restore_workflows now wids
       (case js_get (workflow_checkpoint e) wid of
          None \<Rightarrow> (e, remainingIndex)
        | Some w \<Rightarrow>
            if \<not> validateCheckpoint w wid \<or> num_gt (Some now) (wx_expiresAt w) \<or> wx_status w \<in> {Wf_Completed, Wf_Failed, Wf_CANCELED}
            then (e\<lparr>workflow_checkpoint := js_delete wid (workflow_checkpoint e)\<rparr>, remainingIndex)
            else ((put_workflow wid w e)\<lparr>abortControllers := js_set wid False (abortControllers e)\<rparr>, remainingIndex @ [wid]))"

definition engine_initialize :: "engine \<Rightarrow> int \<Rightarrow> engine" where
  "engine_initialize e now =
     (let (e1, remainingIndex) = restore_workflows now (workflow_index e) (e, []) in e1\<lparr>workflow_index := remainingIndex\<rparr>)"

section \<open>Admission of a workflow\<close>

definition normalized_scope :: "string \<Rightarrow> string" where
  "normalized_scope s = replace_all CHR '':'' CHR ''.'' (strip_prefix ''capability:'' s)"

definition scope_grants :: "workflow_node \<Rightarrow> string \<Rightarrow> bool" where
  "scope_grants n s \<longleftrightarrow>
     s = ''*'' \<or> s = ''admin''
     \<or> (let normS = normalized_scope s
        in normS = normalized_scope (capabilityId n) \<or> normS = replace_all CHR '':'' CHR ''.'' (runtimeCategory n)
           \<or> s = capabilityId n \<or> s = ''capability:'' @ capabilityId n)"

definition isGranted :: "string list \<Rightarrow> workflow_node \<Rightarrow> bool" where
  "isGranted leaseScopes n \<longleftrightarrow> list_ex (scope_grants n) leaseScopes"

fun dag_code :: "dag_error \<Rightarrow> string" where
  "dag_code EMPTY_WORKFLOW = ''EMPTY_WORKFLOW''"
| "dag_code (DUPLICATE_NODE_ID _) = ''DUPLICATE_NODE_ID''"
| "dag_code (INVALID_DEPENDENCY _ _) = ''INVALID_DEPENDENCY''"
| "dag_code (INVALID_NODE_DEPENDENCY _ _) = ''INVALID_NODE_DEPENDENCY''"
| "dag_code (INVALID_EDGE _ _) = ''INVALID_EDGE''"
| "dag_code (DAG_CYCLE_DETECTED _) = ''DAG_CYCLE_DETECTED''"
| "dag_code INVALID_WORKFLOW_ID = ''INVALID_WORKFLOW_ID''"
| "dag_code (DAG_TOO_LARGE _ _) = ''DAG_TOO_LARGE''"
| "dag_code INVALID_NODE_ID = ''INVALID_NODE_ID''"
| "dag_code (INVALID_CAPABILITY_ID _) = ''INVALID_CAPABILITY_ID''"

definition admit_workflow ::
  "agent_env \<Rightarrow> engine \<Rightarrow> workflow_dag \<Rightarrow> agent_state option \<Rightarrow> tick \<Rightarrow> string + string list list" where
  "admit_workflow env e dag life t =
     (if unsafe_lifecycle life then Inl ''LIFECYCLE_DENIED''
      else case lease_decision env (leaseHeader dag) t of
        Inl _ \<Rightarrow> Inl ''LEASE_DENIED''
      | Inr _ \<Rightarrow>
         if agent_id (leaseHeader dag) \<noteq> ae_deviceId env \<or> tenant_id (leaseHeader dag) \<noteq> ae_tenantId env
         then Inl ''TENANT_DEVICE_MISMATCH''
         else (case js_get (activeWorkflows e) (workflowId dag) of
            Some existing \<Rightarrow>
              Inl (if wx_tenantId existing \<noteq> ae_tenantId env then ''WORKFLOW_NOT_FOUND'' else ''DUPLICATE_WORKFLOW_ID'')
          | None \<Rightarrow>
              if length (activeWorkflows e) \<ge> maxActiveWorkflows e then Inl ''WORKFLOW_CAPACITY_EXCEEDED''
              else (case parseAndValidate (maxNodesPerWorkflow e) dag of
                 Inl err \<Rightarrow> Inl (dag_code err)
               | Inr (order, tiers) \<Rightarrow>
                   if list_all (isGranted (scopes (leaseHeader dag))) (dag_nodes dag) then Inr tiers
                   else Inl ''SCOPE_NOT_GRANTED'')))"

definition new_workflow :: "agent_env \<Rightarrow> workflow_dag \<Rightarrow> int \<Rightarrow> workflow_state" where
  "new_workflow env dag now =
     \<lparr>wx_workflowId = workflowId dag, wx_taskId = dag_taskId dag, wx_tenantId = tenant_id (leaseHeader dag), wx_deviceId = ae_deviceId env,
      wx_correlationId = dag_correlationId dag, wx_status = Wf_Running,
      nodeStates = map (\<lambda>n. (nodeId n, \<lparr>nx_nodeId = nodeId n, nx_status = Wf_Queued, nx_startedAt = None, nx_completedAt = None,
        nx_output = None, nx_errorCode = None, nx_retryCount = 0\<rparr>)) (dag_nodes dag),
      wx_completedNodes = [], pendingNodes = map nodeId (dag_nodes dag), activeNodes = [], nodeOutputs = [],
      wx_createdAt = now, wx_updatedAt = now,
      wx_expiresAt = (if truthy (dag_expiresAt dag) then date_parse (the (dag_expiresAt dag)) else Some (now + 3600000)),
      compensationTriggered = False\<rparr>"

definition new_context :: "agent_env \<Rightarrow> workflow_dag \<Rightarrow> step_context" where
  "new_context env dag =
     WorkflowStepContext \<lparr>wc_workflowId = workflowId dag, wc_taskId = dag_taskId dag, wc_tenantId = tenant_id (leaseHeader dag),
       wc_deviceId = ae_deviceId env, wc_correlationId = dag_correlationId dag, wc_leaseHeader = leaseHeader dag\<rparr>"

definition put_run :: "string \<Rightarrow> workflow_run \<Rightarrow> engine \<Rightarrow> engine" where
  "put_run wid r e = e\<lparr>executions := js_set wid r (executions e)\<rparr>"

definition executeWorkflow ::
  "agent_env \<Rightarrow> engine \<Rightarrow> workflow_dag \<Rightarrow> agent_state option \<Rightarrow> tick \<Rightarrow> int \<Rightarrow> engine \<times> wf_result option" where
  "executeWorkflow env e dag life t now =
     (case admit_workflow env e dag life t of
        Inl ec \<Rightarrow> (e, Some \<lparr>wr_success = False, wr_errorCode = Some ec, wr_outputs = []\<rparr>)
      | Inr tiers \<Rightarrow>
         (let wid = workflowId dag; w = new_workflow env dag now;
              e1 = (put_workflow wid w e)\<lparr>abortControllers := js_set wid False (abortControllers e),
                     stepContexts := js_set wid (new_context env dag) (stepContexts e)\<rparr>
          in (put_run wid \<lparr>run_dag = dag, run_tiers = tiers, run_stage = CheckTier, run_nodes = []\<rparr> (persistCheckpoint w e1), None)))"

section \<open>Running the tiers\<close>

definition failure :: "string \<Rightarrow> wf_result" where
  "failure ec = \<lparr>wr_success = False, wr_errorCode = Some ec, wr_outputs = []\<rparr>"

text \<open>Save the state, write its checkpoint and go to a stage.\<close>

definition move_to :: "string \<Rightarrow> workflow_run \<Rightarrow> wf_stage \<Rightarrow> workflow_state \<Rightarrow> engine \<Rightarrow> engine" where
  "move_to wid r st w e = put_run wid (r\<lparr>run_stage := st\<rparr>) (persistCheckpoint w (put_workflow wid w e))"

definition outputs_of :: "engine \<Rightarrow> string \<Rightarrow> (string, json) jsmap" where
  "outputs_of e wid = (case js_get (stepContexts e) wid of None \<Rightarrow> [] | Some sc \<Rightarrow> getAllOutputs sc)"

text \<open>Steps act on a run, its workflow and its context; without them they do nothing.\<close>

definition with_run :: "engine \<Rightarrow> string \<Rightarrow> (workflow_run \<Rightarrow> workflow_state \<Rightarrow> step_context \<Rightarrow> engine) \<Rightarrow> engine" where
  "with_run e wid f =
     (case js_get (executions e) wid of
        None \<Rightarrow> e
      | Some r \<Rightarrow>
         (case js_get (activeWorkflows e) wid of
            None \<Rightarrow> e
          | Some w \<Rightarrow> (case js_get (stepContexts e) wid of None \<Rightarrow> e | Some sc \<Rightarrow> f r w sc)))"

definition checkTier :: "engine \<Rightarrow> string \<Rightarrow> int \<Rightarrow> int \<Rightarrow> engine" where
  "checkTier e wid now1 now2 =
     with_run e wid (\<lambda>r w sc.
       if run_stage r \<noteq> CheckTier then e
       else case run_tiers r of
         [] \<Rightarrow>
           move_to wid r (Ended \<lparr>wr_success = True, wr_errorCode = None, wr_outputs = getAllOutputs sc\<rparr>)
             (w\<lparr>wx_status := Wf_Completed, wx_updatedAt := now1\<rparr>) (e\<lparr>completedWorkflowsCount := completedWorkflowsCount e + 1\<rparr>)
       | tier # tiers \<Rightarrow>
           if wx_status w = Wf_CANCELED \<or> num_gt (Some now1) (wx_expiresAt w)
           then (if num_gt (Some now2) (wx_expiresAt w)
                 then move_to wid r (Ended (failure ''EXPIRED'')) (w\<lparr>wx_status := Wf_EXPIRED\<rparr>) e
                 else move_to wid r (Ended (failure ''CANCELED'')) (w\<lparr>wx_status := Wf_CANCELED\<rparr>) e)
           else put_run wid (r\<lparr>run_stage := ValidateTier\<rparr>) e)"

definition update_node :: "string \<Rightarrow> (node_state \<Rightarrow> node_state) \<Rightarrow> workflow_state \<Rightarrow> workflow_state" where
  "update_node n f w =
     (case js_get (nodeStates w) n of None \<Rightarrow> w | Some x \<Rightarrow> w\<lparr>nodeStates := js_set n (f x) (nodeStates w)\<rparr>)"

definition start_node :: "int \<Rightarrow> workflow_state \<Rightarrow> string \<Rightarrow> workflow_state" where
  "start_node now w n =
     (update_node n (\<lambda>x. x\<lparr>nx_status := Wf_Running, nx_startedAt := Some now\<rparr>) w)
       \<lparr>activeNodes := activeNodes w @ [n], pendingNodes := filter (\<lambda>i. i \<noteq> n) (pendingNodes w)\<rparr>"

definition dispatchTier :: "agent_env \<Rightarrow> engine \<Rightarrow> string \<Rightarrow> tick \<Rightarrow> int \<Rightarrow> engine" where
  "dispatchTier env e wid t now =
     with_run e wid (\<lambda>r w sc.
       if run_stage r \<noteq> ValidateTier then e
       else case lease_decision env (leaseHeader (run_dag r)) t of
         Inl _ \<Rightarrow> move_to wid r (Ended (failure ''LEASE_DENIED'')) (w\<lparr>wx_status := Wf_EXPIRED\<rparr>) e
       | Inr _ \<Rightarrow>
          (case run_tiers r of
             [] \<Rightarrow> e
           | tier # tiers \<Rightarrow>
               move_to wid (r\<lparr>run_nodes := map (\<lambda>n. (n, Started)) tier\<rparr>) RunTier (foldl (start_node now) w tier) e))"

section \<open>One node\<close>

definition find_node :: "workflow_dag \<Rightarrow> string \<Rightarrow> workflow_node option" where
  "find_node dag n = find (\<lambda>x. nodeId x = n) (dag_nodes dag)"

definition node_task :: "workflow_dag \<Rightarrow> workflow_node \<Rightarrow> string \<Rightarrow> js_value \<Rightarrow> node_request" where
  "node_task dag node pre p =
     \<lparr>nq_task_id = workflowId dag @ ''_'' @ pre @ nodeId node, nq_step_id = pre @ nodeId node, nq_correlation_id = dag_correlationId dag,
      nq_leaseHeader = leaseHeader dag, nq_capabilityId = capabilityId node, nq_runtimeCategory = runtimeCategory node, nq_payload = p\<rparr>"

definition set_phase :: "string \<Rightarrow> node_phase \<Rightarrow> workflow_run \<Rightarrow> workflow_run" where
  "set_phase n ph r = r\<lparr>run_nodes := js_set n ph (run_nodes r)\<rparr>"

text \<open>An error of one node rejects \<open>Promise.all\<close>.\<close>

definition throw_node :: "string \<Rightarrow> context_error \<Rightarrow> workflow_run \<Rightarrow> workflow_run" where
  "throw_node n err r = (set_phase n (Threw err) r)\<lparr>run_stage := (if run_stage r = RunTier then Crashed_Run else run_stage r)\<rparr>"

definition log_event :: "wf_event \<Rightarrow> engine \<Rightarrow> engine" where
  "log_event ev e = e\<lparr>events := events e @ [ev]\<rparr>"

definition submitNode :: "engine \<Rightarrow> string \<Rightarrow> string \<Rightarrow> engine" where
  "submitNode e wid n =
     with_run e wid (\<lambda>r w sc.
       if js_get (run_nodes r) n \<noteq> Some Started then e
       else case find_node (run_dag r) n of
         None \<Rightarrow> e
       | Some node \<Rightarrow>
          (case buildNodeExecutionPayload sc node of
             Inl err \<Rightarrow> put_run wid (throw_node n err r) e
           | Inr p \<Rightarrow> log_event (Submission wid n (node_task (run_dag r) node [] p)) (put_run wid (set_phase n Submitted r) e)))"

definition falsy :: "json option \<Rightarrow> bool" where
  "falsy v \<longleftrightarrow> (case v of None \<Rightarrow> True | Some j \<Rightarrow> j \<in> {JNull, JBool False, JNum ''0'', JStr []})"

definition answer_output :: "node_result \<Rightarrow> json" where
  "answer_output res = (if falsy (nr_output res) then JObj [] else the (nr_output res))"

definition leave_active :: "string \<Rightarrow> int \<Rightarrow> workflow_state \<Rightarrow> workflow_state" where
  "leave_active n now w =
     (update_node n (\<lambda>x. x\<lparr>nx_completedAt := Some now\<rparr>) w)\<lparr>activeNodes := filter (\<lambda>i. i \<noteq> n) (activeNodes w)\<rparr>"

definition finishNode :: "(json \<Rightarrow> json) option \<Rightarrow> engine \<Rightarrow> string \<Rightarrow> string \<Rightarrow> node_result \<Rightarrow> int \<Rightarrow> engine" where
  "finishNode redact e wid n res now =
     with_run e wid (\<lambda>r w sc.
       if js_get (run_nodes r) n \<noteq> Some Submitted then e
       else let w1 = leave_active n now w in
         if nr_success res then
           (let out = answer_output res;
                w2 = update_node n (\<lambda>x. x\<lparr>nx_status := Wf_Completed, nx_output := Some out\<rparr>) w1
            in case setNodeOutput redact sc n out of
                 Inl err \<Rightarrow> put_run wid (throw_node n err r) (put_workflow wid w2 e)
               | Inr sc2 \<Rightarrow>
                  (let w3 = w2\<lparr>nodeOutputs := (case getNodeOutput sc2 n of None \<Rightarrow> nodeOutputs w2 | Some o2 \<Rightarrow> js_set n o2 (nodeOutputs w2)),
                               wx_completedNodes := wx_completedNodes w2 @ [n]\<rparr>
                   in log_event (Completion wid n)
                        (put_run wid (set_phase n (Answered res) r)
                          (persistCheckpoint w3 (put_workflow wid w3 (e\<lparr>stepContexts := js_set wid sc2 (stepContexts e)\<rparr>))))))
         else
           (let w2 = update_node n (\<lambda>x. x\<lparr>nx_status := (if nr_errorCode res = Some ''RECONCILING'' then Reconciling else Wf_Failed),
                        nx_errorCode := nr_errorCode res\<rparr>) w1
            in put_run wid (set_phase n (Answered res) r) (persistCheckpoint w2 (put_workflow wid w2 e))))"

section \<open>The end of a tier and compensation\<close>

fun answer_of :: "node_phase \<Rightarrow> node_result option" where
  "answer_of (Answered res) = Some res"
| "answer_of _ = None"

definition all_answered :: "workflow_run \<Rightarrow> bool" where
  "all_answered r \<longleftrightarrow> list_all (\<lambda>(_, ph). answer_of ph \<noteq> None) (run_nodes r)"

definition first_failure :: "workflow_run \<Rightarrow> node_result option" where
  "first_failure r = find (\<lambda>res. \<not> nr_success res) (map (the \<circ> answer_of \<circ> snd) (run_nodes r))"

definition completeTier :: "engine \<Rightarrow> string \<Rightarrow> engine" where
  "completeTier e wid =
     with_run e wid (\<lambda>r w sc.
       if run_stage r \<noteq> RunTier \<or> \<not> all_answered r then e
       else case first_failure r of
         Some res \<Rightarrow>
           put_run wid (r\<lparr>run_stage := Compensate (if compensationTriggered w then [] else rev (wx_completedNodes w)) res\<rparr>)
             (put_workflow wid (w\<lparr>wx_status := Wf_Failed, compensationTriggered := True\<rparr>)
               (e\<lparr>failedWorkflowsCount := failedWorkflowsCount e + 1\<rparr>))
       | None \<Rightarrow> put_run wid (r\<lparr>run_tiers := tl (run_tiers r), run_stage := CheckTier, run_nodes := []\<rparr>) e)"

text \<open>The request that undoes a node, when it has a compensation payload and its templates resolve.\<close>

definition compensation_request :: "workflow_dag \<Rightarrow> step_context \<Rightarrow> string \<Rightarrow> node_request option" where
  "compensation_request dag sc n =
     (case find_node dag n of
        None \<Rightarrow> None
      | Some node \<Rightarrow>
         (case compensationPayload node of
            None \<Rightarrow> None
          | Some cp \<Rightarrow>
             (case buildNodeExecutionPayload sc (node\<lparr>payload := cp\<rparr>) of
                Inl _ \<Rightarrow> None
              | Inr p \<Rightarrow> Some (node_task dag node ''comp_'' p))))"

definition compensateNode :: "engine \<Rightarrow> string \<Rightarrow> engine" where
  "compensateNode e wid =
     with_run e wid (\<lambda>r w sc.
       case run_stage r of
         Compensate [] res \<Rightarrow> move_to wid r (Ended (failure (or_else (nr_errorCode res) ''WORKFLOW_STEP_FAILED''))) w e
       | Compensate (n # ns) res \<Rightarrow>
           (let e1 = put_run wid (r\<lparr>run_stage := Compensate ns res\<rparr>) e
            in case compensation_request (run_dag r) sc n of
                 None \<Rightarrow> e1
               | Some rq \<Rightarrow> log_event (Compensation wid n rq) e1)
       | _ \<Rightarrow> e)"

section \<open>Cancellation and maintenance\<close>

definition terminalStatuses :: "wf_status list" where
  "terminalStatuses = [Wf_Completed, Wf_Failed, Wf_CANCELED, Wf_EXPIRED]"

definition cancelWorkflow :: "engine \<Rightarrow> string \<Rightarrow> string option \<Rightarrow> int \<Rightarrow> engine \<times> bool" where
  "cancelWorkflow e wid tenant now =
     (case js_get (activeWorkflows e) wid of
        None \<Rightarrow> (e, False)
      | Some w \<Rightarrow>
          if truthy tenant \<and> tenant \<noteq> Some (wx_tenantId w) then (e, False)
          else if wx_status w \<in> set terminalStatuses then (e, wx_status w = Wf_CANCELED)
          else (let w2 = w\<lparr>wx_status := Wf_CANCELED, wx_updatedAt := now\<rparr>;
                    e1 = (if js_has (abortControllers e) wid then e\<lparr>abortControllers := js_set wid True (abortControllers e)\<rparr> else e)
                in ((persistCheckpoint w2 (put_workflow wid w2 e1))
                      \<lparr>cancelRequests := cancelRequests e @ map (\<lambda>n. wid @ ''_'' @ n) (pendingNodes w)\<rparr>, True)))"

definition maintain_workflows :: "engine \<Rightarrow> int \<Rightarrow> engine" where
  "maintain_workflows e now =
     foldl (\<lambda>e1 (wid, w). if num_gt (Some now) (wx_expiresAt w) then fst (cancelWorkflow e1 wid None now) else e1) e (activeWorkflows e)"

definition engine_shutdown :: "engine \<Rightarrow> engine" where
  "engine_shutdown e = e\<lparr>abortControllers := []\<rparr>"

datatype wf_op =
    ExecuteWorkflow workflow_dag "agent_state option" tick int
  | CheckTierOp string int int
  | DispatchTierOp string tick int
  | SubmitNode string string
  | FinishNode string string node_result int
  | CompleteTier string
  | CompensateNode string
  | CancelWorkflow string "string option" int
  | MaintainWorkflows int
  | ShutdownEngine

fun wf_step :: "agent_env \<Rightarrow> (json \<Rightarrow> json) option \<Rightarrow> engine \<Rightarrow> wf_op \<Rightarrow> engine" where
  "wf_step env redact e (ExecuteWorkflow dag life t now) = fst (executeWorkflow env e dag life t now)"
| "wf_step env redact e (CheckTierOp wid now1 now2) = checkTier e wid now1 now2"
| "wf_step env redact e (DispatchTierOp wid t now) = dispatchTier env e wid t now"
| "wf_step env redact e (SubmitNode wid n) = submitNode e wid n"
| "wf_step env redact e (FinishNode wid n res now) = finishNode redact e wid n res now"
| "wf_step env redact e (CompleteTier wid) = completeTier e wid"
| "wf_step env redact e (CompensateNode wid) = compensateNode e wid"
| "wf_step env redact e (CancelWorkflow wid tenant now) = fst (cancelWorkflow e wid tenant now)"
| "wf_step env redact e (MaintainWorkflows now) = maintain_workflows e now"
| "wf_step env redact e ShutdownEngine = engine_shutdown e"

section \<open>The history of a workflow\<close>

definition submitted :: "wf_event list \<Rightarrow> string list" where
  "submitted evs = concat (map (\<lambda>ev. case ev of Submission _ n _ \<Rightarrow> [n] | _ \<Rightarrow> []) evs)"

definition completions :: "wf_event list \<Rightarrow> string list" where
  "completions evs = concat (map (\<lambda>ev. case ev of Completion _ n \<Rightarrow> [n] | _ \<Rightarrow> []) evs)"

definition compensated :: "wf_event list \<Rightarrow> string list" where
  "compensated evs = concat (map (\<lambda>ev. case ev of Compensation _ n _ \<Rightarrow> [n] | _ \<Rightarrow> []) evs)"

text \<open>Every submission comes after the completions of all predecessors.\<close>

definition ordered :: "edge list \<Rightarrow> wf_event list \<Rightarrow> bool" where
  "ordered E evs \<longleftrightarrow>
     (\<forall>before v n rq rest. evs = before @ Submission v n rq # rest \<longrightarrow> (\<forall>u. (u, n) \<in> set E \<longrightarrow> u \<in> set (completions before)))"

lemma history_simps [simp]:
  "submitted [] = []" "completions [] = []" "compensated [] = []"
  "submitted (evs @ [Submission v n rq]) = submitted evs @ [n]"
  "submitted (evs @ [Completion v n]) = submitted evs"
  "submitted (evs @ [Compensation v n rq]) = submitted evs"
  "completions (evs @ [Submission v n rq]) = completions evs"
  "completions (evs @ [Completion v n]) = completions evs @ [n]"
  "completions (evs @ [Compensation v n rq]) = completions evs"
  "compensated (evs @ [Submission v n rq]) = compensated evs"
  "compensated (evs @ [Completion v n]) = compensated evs"
  "compensated (evs @ [Compensation v n rq]) = compensated evs @ [n]"
  by (simp_all add: submitted_def completions_def compensated_def)

lemma ordered_Nil [simp]: "ordered E []"
  by (simp add: ordered_def)

lemma ordered_snoc:
  "ordered E (evs @ [ev]) \<longleftrightarrow>
     ordered E evs \<and> (\<forall>v n rq. ev = Submission v n rq \<longrightarrow> (\<forall>u. (u, n) \<in> set E \<longrightarrow> u \<in> set (completions evs)))"
proof
  assume o: "ordered E (evs @ [ev])"
  have "ordered E evs" unfolding ordered_def
  proof (intro allI impI)
    fix before v n rq rest u
    assume "evs = before @ Submission v n rq # rest" "(u, n) \<in> set E"
    then show "u \<in> set (completions before)"
      using o [unfolded ordered_def, rule_format, of before v n rq "rest @ [ev]" u] by simp
  qed
  moreover have "u \<in> set (completions evs)" if "ev = Submission v n rq" "(u, n) \<in> set E" for v n rq u
    using o [unfolded ordered_def, rule_format, of evs v n rq "[]" u] that by simp
  ultimately show "ordered E evs \<and> (\<forall>v n rq. ev = Submission v n rq \<longrightarrow> (\<forall>u. (u, n) \<in> set E \<longrightarrow> u \<in> set (completions evs)))"
    by blast
next
  assume a: "ordered E evs \<and> (\<forall>v n rq. ev = Submission v n rq \<longrightarrow> (\<forall>u. (u, n) \<in> set E \<longrightarrow> u \<in> set (completions evs)))"
  show "ordered E (evs @ [ev])" unfolding ordered_def
  proof (intro allI impI)
    fix before v n rq rest u
    assume e: "evs @ [ev] = before @ Submission v n rq # rest" "(u, n) \<in> set E"
    show "u \<in> set (completions before)"
    proof (cases rest rule: rev_cases)
      case Nil
      then show ?thesis using a e by simp
    next
      case (snoc ys y)
      then have "evs = before @ Submission v n rq # ys" using e(1) by simp
      then show ?thesis using a e(2) by (auto simp: ordered_def)
    qed
  qed
qed

fun event_workflow :: "wf_event \<Rightarrow> string" where
  "event_workflow (Submission v _ _) = v"
| "event_workflow (Completion v _) = v"
| "event_workflow (Compensation v _ _) = v"

definition history :: "engine \<Rightarrow> string \<Rightarrow> wf_event list" where
  "history e v = filter (\<lambda>ev. event_workflow ev = v) (events e)"

section \<open>The invariant of a run\<close>

text \<open>A workflow admitted by the gates.\<close>

definition wf_admitted :: "agent_env \<Rightarrow> workflow_dag \<Rightarrow> bool" where
  "wf_admitted env dag \<longleftrightarrow>
     agent_id (leaseHeader dag) = ae_deviceId env \<and> tenant_id (leaseHeader dag) = ae_tenantId env
     \<and> (\<exists>t h. lease_decision env (leaseHeader dag) t = Inr h)
     \<and> (\<forall>n \<in> set (dag_nodes dag). \<exists>s \<in> set (scopes (leaseHeader dag)). scope_grants n s)"

definition nodes_inv :: "workflow_run \<Rightarrow> workflow_state \<Rightarrow> string list list \<Rightarrow> wf_event list \<Rightarrow> bool" where
  "nodes_inv r w past evs \<longleftrightarrow>
     set (concat past) \<subseteq> set (completions evs)
     \<and> (run_nodes r = [] \<and> run_stage r \<noteq> RunTier
        \<or> (\<exists>ts. run_tiers r = map fst (run_nodes r) # ts) \<and> run_stage r \<noteq> CheckTier \<and> run_stage r \<noteq> ValidateTier)
     \<and> (\<forall>n res. (n, Answered res) \<in> set (run_nodes r) \<and> nr_success res \<longrightarrow> n \<in> set (completions evs))
     \<and> distinct (submitted evs)
     \<and> set (submitted evs) \<subseteq> set (concat past) \<union> {n. \<exists>ph. (n, ph) \<in> set (run_nodes r) \<and> ph \<noteq> Started}
     \<and> set (pendingNodes w) \<inter> (set (concat past) \<union> fst ` set (run_nodes r)) = {}"

definition stage_inv :: "workflow_run \<Rightarrow> workflow_state \<Rightarrow> step_context \<Rightarrow> wf_event list \<Rightarrow> bool" where
  "stage_inv r w sc evs \<longleftrightarrow>
     (let undo = filter (\<lambda>n. compensation_request (run_dag r) sc n \<noteq> None) in
      case run_stage r of
        Compensate rem res \<Rightarrow>
          wx_status w = Wf_Failed \<and> all_answered r \<and> (\<exists>gone. rev (wx_completedNodes w) = gone @ rem \<and> compensated evs = undo gone)
      | Ended res \<Rightarrow>
          wx_status w \<in> set terminalStatuses \<and> all_answered r
          \<and> compensated evs = (if wx_status w = Wf_Failed then undo (rev (wx_completedNodes w)) else [])
      | _ \<Rightarrow> wx_status w \<noteq> Wf_Failed \<and> \<not> compensationTriggered w \<and> compensated evs = [])"

definition run_inv :: "agent_env \<Rightarrow> nat \<Rightarrow> string \<Rightarrow> workflow_run \<Rightarrow> workflow_state \<Rightarrow> step_context \<Rightarrow> wf_event list \<Rightarrow> bool" where
  "run_inv env N v r w sc evs \<longleftrightarrow>
     workflowId (run_dag r) = v \<and> wf_admitted env (run_dag r) \<and> wx_completedNodes w = completions evs
     \<and> ordered (all_edges (run_dag r)) evs \<and> stage_inv r w sc evs
     \<and> (\<exists>past order. parseAndValidate N (run_dag r) = Inr (order, past @ run_tiers r) \<and> nodes_inv r w past evs)"

definition view_inv ::
  "agent_env \<Rightarrow> nat \<Rightarrow> string \<Rightarrow> workflow_run option \<Rightarrow> workflow_state option \<Rightarrow> step_context option \<Rightarrow> wf_event list \<Rightarrow> bool" where
  "view_inv env N v ro wo sco evs \<longleftrightarrow>
     (case ro of None \<Rightarrow> evs = [] | Some r \<Rightarrow> \<exists>w sc. wo = Some w \<and> sco = Some sc \<and> run_inv env N v r w sc evs)"

definition engine_inv :: "agent_env \<Rightarrow> engine \<Rightarrow> bool" where
  "engine_inv env e \<longleftrightarrow>
     (\<forall>v. view_inv env (maxNodesPerWorkflow e) v (js_get (executions e) v) (js_get (activeWorkflows e) v) (js_get (stepContexts e) v) (history e v))"

text \<open>What a step does not touch.\<close>

named_theorems wf_simps \<open>fields after the building blocks of a step\<close>

lemma wf_fields [wf_simps]:
  "executions (persistCheckpoint w e) = executions e" "activeWorkflows (persistCheckpoint w e) = activeWorkflows e"
  "stepContexts (persistCheckpoint w e) = stepContexts e" "events (persistCheckpoint w e) = events e"
  "maxNodesPerWorkflow (persistCheckpoint w e) = maxNodesPerWorkflow e" "maxActiveWorkflows (persistCheckpoint w e) = maxActiveWorkflows e"
  "executions (put_workflow wid w e) = executions e" "activeWorkflows (put_workflow wid w e) = js_set wid w (activeWorkflows e)"
  "stepContexts (put_workflow wid w e) = stepContexts e" "events (put_workflow wid w e) = events e"
  "maxNodesPerWorkflow (put_workflow wid w e) = maxNodesPerWorkflow e" "maxActiveWorkflows (put_workflow wid w e) = maxActiveWorkflows e"
  "executions (put_run wid r e) = js_set wid r (executions e)" "activeWorkflows (put_run wid r e) = activeWorkflows e"
  "stepContexts (put_run wid r e) = stepContexts e" "events (put_run wid r e) = events e"
  "maxNodesPerWorkflow (put_run wid r e) = maxNodesPerWorkflow e" "maxActiveWorkflows (put_run wid r e) = maxActiveWorkflows e"
  "executions (log_event ev e) = executions e" "activeWorkflows (log_event ev e) = activeWorkflows e"
  "stepContexts (log_event ev e) = stepContexts e" "events (log_event ev e) = events e @ [ev]"
  "maxNodesPerWorkflow (log_event ev e) = maxNodesPerWorkflow e" "maxActiveWorkflows (log_event ev e) = maxActiveWorkflows e"
  by (simp_all add: persistCheckpoint_def put_workflow_def put_run_def log_event_def)

lemma history_fields [wf_simps]:
  "history (persistCheckpoint w e) v = history e v" "history (put_workflow wid w e) v = history e v" "history (put_run wid r e) v = history e v"
  "history (log_event ev e) v = history e v @ (if event_workflow ev = v then [ev] else [])"
  by (simp_all add: history_def wf_simps)

text \<open>A step of workflow \<open>wid\<close>: the invariant of the others is kept, so its own is all that is to be shown.\<close>

definition touches_only :: "string \<Rightarrow> engine \<Rightarrow> engine \<Rightarrow> bool" where
  "touches_only wid e e' \<longleftrightarrow>
     maxNodesPerWorkflow e' = maxNodesPerWorkflow e
     \<and> (\<forall>v. v \<noteq> wid \<longrightarrow> js_get (executions e') v = js_get (executions e) v \<and> js_get (activeWorkflows e') v = js_get (activeWorkflows e) v
           \<and> js_get (stepContexts e') v = js_get (stepContexts e) v \<and> history e' v = history e v)"

lemma engine_inv_step:
  assumes "engine_inv env e" "touches_only wid e e'"
    and "view_inv env (maxNodesPerWorkflow e) wid (js_get (executions e') wid) (js_get (activeWorkflows e') wid)
           (js_get (stepContexts e') wid) (history e' wid)"
  shows "engine_inv env e'"
  unfolding engine_inv_def
proof
  fix v
  show "view_inv env (maxNodesPerWorkflow e') v (js_get (executions e') v) (js_get (activeWorkflows e') v) (js_get (stepContexts e') v) (history e' v)"
    using assms by (cases "v = wid") (auto simp: engine_inv_def touches_only_def)
qed

lemma with_run_inv:
  assumes "engine_inv env e"
    and "\<And>r w sc. \<lbrakk>js_get (executions e) wid = Some r; js_get (activeWorkflows e) wid = Some w; js_get (stepContexts e) wid = Some sc;
           run_inv env (maxNodesPerWorkflow e) wid r w sc (history e wid)\<rbrakk> \<Longrightarrow> engine_inv env (f r w sc)"
  shows "engine_inv env (with_run e wid f)"
proof (cases "js_get (executions e) wid")
  case (Some r)
  then obtain w sc where "js_get (activeWorkflows e) wid = Some w" "js_get (stepContexts e) wid = Some sc"
    "run_inv env (maxNodesPerWorkflow e) wid r w sc (history e wid)"
    using assms(1) [unfolded engine_inv_def, rule_format, of wid] by (auto simp: view_inv_def)
  with Some assms(2) show ?thesis by (simp add: with_run_def)
qed (use assms(1) in \<open>simp add: with_run_def\<close>)

text \<open>A step that saves a run, its workflow and its context, and may add an event.\<close>

lemma saved_inv:
  assumes "engine_inv env e" "maxNodesPerWorkflow e' = maxNodesPerWorkflow e"
    and "\<And>v. js_get (executions e') v = (if v = wid then Some r else js_get (executions e) v)"
    and "\<And>v. js_get (activeWorkflows e') v = (if v = wid then Some w else js_get (activeWorkflows e) v)"
    and "\<And>v. js_get (stepContexts e') v = (if v = wid then Some sc else js_get (stepContexts e) v)"
    and "\<And>v. history e' v = (if v = wid then evs else history e v)"
    and "run_inv env (maxNodesPerWorkflow e) wid r w sc evs"
  shows "engine_inv env e'"
  by (rule engine_inv_step [OF assms(1), of wid]) (use assms(2-) in \<open>auto simp: touches_only_def view_inv_def\<close>)

section \<open>Every step keeps the invariant\<close>

text \<open>The parts of the invariant that depend on few fields.\<close>

lemma nodes_inv_cong:
  "\<lbrakk>nodes_inv r w past evs; run_nodes r' = run_nodes r; run_tiers r' = run_tiers r;
    run_nodes r = [] \<and> run_stage r' \<noteq> RunTier \<or> run_nodes r \<noteq> [] \<and> run_stage r' \<noteq> CheckTier \<and> run_stage r' \<noteq> ValidateTier;
    pendingNodes w' = pendingNodes w\<rbrakk> \<Longrightarrow> nodes_inv r' w' past evs"
  by (auto simp: nodes_inv_def)

lemma run_tier_nodes:
  "\<lbrakk>nodes_inv r w past evs; run_stage r = RunTier; layered E (past @ run_tiers r)\<rbrakk> \<Longrightarrow> run_nodes r \<noteq> []"
  by (auto simp: nodes_inv_def layered_def dest: spec [of _ "length past"])

lemma run_inv_change:
  assumes "run_inv env N v r w sc evs" "run_dag r' = run_dag r" "run_tiers r' = run_tiers r" "run_nodes r' = run_nodes r"
    and "run_nodes r = [] \<and> run_stage r' \<noteq> RunTier \<or> run_nodes r \<noteq> [] \<and> run_stage r' \<noteq> CheckTier \<and> run_stage r' \<noteq> ValidateTier"
    and "pendingNodes w' = pendingNodes w" "wx_completedNodes w' = wx_completedNodes w" "stage_inv r' w' sc evs"
  shows "run_inv env N v r' w' sc evs"
  using assms nodes_inv_cong [OF _ assms(4,3,5,6)] unfolding run_inv_def by metis

lemma early_nodes:
  "\<lbrakk>run_inv env N v r w sc evs; run_stage r = CheckTier \<or> run_stage r = ValidateTier\<rbrakk>
   \<Longrightarrow> run_nodes r = [] \<and> wx_status w \<noteq> Wf_Failed \<and> \<not> compensationTriggered w \<and> compensated evs = []"
  by (auto simp: run_inv_def nodes_inv_def stage_inv_def Let_def split: wf_stage.splits)

lemma move_to_inv:
  assumes "engine_inv env e0" "executions e0 = executions e" "activeWorkflows e0 = activeWorkflows e" "stepContexts e0 = stepContexts e"
    and "js_get (stepContexts e) wid = Some sc"
    and "run_inv env (maxNodesPerWorkflow e0) wid (r\<lparr>run_stage := st\<rparr>) w sc (history e0 wid)"
  shows "engine_inv env (move_to wid r st w e0)"
  by (rule saved_inv [OF assms(1), where wid = wid and r = "r\<lparr>run_stage := st\<rparr>" and w = w and sc = sc and evs = "history e0 wid"])
    (use assms(2-) in \<open>auto simp: move_to_def wf_simps js_map_simps\<close>)

lemma put_run_inv:
  assumes "engine_inv env e" "js_get (activeWorkflows e) wid = Some w" "js_get (stepContexts e) wid = Some sc"
    and "run_inv env (maxNodesPerWorkflow e) wid r w sc (history e wid)"
  shows "engine_inv env (put_run wid r e)"
  by (rule saved_inv [OF assms(1), where wid = wid and r = r and w = w and sc = sc and evs = "history e wid"])
    (use assms(2-) in \<open>auto simp: wf_simps js_map_simps\<close>)

lemma engine_inv_counts [wf_simps]:
  "engine_inv env (e\<lparr>completedWorkflowsCount := n\<rparr>) \<longleftrightarrow> engine_inv env e"
  "engine_inv env (e\<lparr>failedWorkflowsCount := n\<rparr>) \<longleftrightarrow> engine_inv env e"
  "engine_inv env (e\<lparr>abortControllers := a\<rparr>) \<longleftrightarrow> engine_inv env e"
  "engine_inv env (e\<lparr>cancelRequests := c\<rparr>) \<longleftrightarrow> engine_inv env e"
  by (simp_all add: engine_inv_def history_def)

lemma history_counts [wf_simps]:
  "history (e\<lparr>completedWorkflowsCount := n\<rparr>) v = history e v" "history (e\<lparr>failedWorkflowsCount := n\<rparr>) v = history e v"
  "history (e\<lparr>abortControllers := a\<rparr>) v = history e v" "history (e\<lparr>cancelRequests := c\<rparr>) v = history e v"
  "history (e\<lparr>stepContexts := d\<rparr>) v = history e v"
  by (simp_all add: history_def)

lemma ended_inv:
  assumes "run_inv env N v r w sc evs" "run_stage r = CheckTier \<or> run_stage r = ValidateTier"
    and "wx_status w' \<in> set terminalStatuses" "wx_status w' \<noteq> Wf_Failed" "pendingNodes w' = pendingNodes w" "wx_completedNodes w' = wx_completedNodes w"
  shows "run_inv env N v (r\<lparr>run_stage := Ended x\<rparr>) w' sc evs"
  by (rule run_inv_change [OF assms(1)])
    (use early_nodes [OF assms(1,2)] assms(3-) in \<open>auto simp: stage_inv_def all_answered_def\<close>)

lemma checkTier_inv:
  assumes "engine_inv env e"
  shows "engine_inv env (checkTier e wid now1 now2)"
  unfolding checkTier_def
proof (rule with_run_inv [OF assms], goal_cases)
  case (1 r w sc)
  note inv = 1(4)
  have "engine_inv env (move_to wid r (Ended x) w' e1)"
    if "run_stage r = CheckTier" "engine_inv env e1" "executions e1 = executions e" "activeWorkflows e1 = activeWorkflows e"
      "stepContexts e1 = stepContexts e" "maxNodesPerWorkflow e1 = maxNodesPerWorkflow e" "history e1 wid = history e wid"
      "wx_status w' \<in> set terminalStatuses" "wx_status w' \<noteq> Wf_Failed" "pendingNodes w' = pendingNodes w" "wx_completedNodes w' = wx_completedNodes w"
    for x w' e1
    by (rule move_to_inv [where e = e and sc = sc]) (use that 1(3) ended_inv [OF inv, of w' x] in auto)
  moreover have "engine_inv env (put_run wid (r\<lparr>run_stage := ValidateTier\<rparr>) e)" if "run_stage r = CheckTier"
    by (rule put_run_inv [OF assms 1(2,3)], rule run_inv_change [OF inv])
      (use early_nodes [OF inv] that in \<open>auto simp: stage_inv_def\<close>)
  ultimately show ?case
    using assms by (simp add: terminalStatuses_def wf_simps split: list.split)
qed

lemma start_nodes_fields:
  "wx_completedNodes (foldl (start_node now) w tier) = wx_completedNodes w" "wx_status (foldl (start_node now) w tier) = wx_status w"
  "compensationTriggered (foldl (start_node now) w tier) = compensationTriggered w"
  "pendingNodes (foldl (start_node now) w tier) = filter (\<lambda>i. i \<notin> set tier) (pendingNodes w)"
proof (induction tier arbitrary: w)
  case (Cons n tier)
  have f: "wx_completedNodes (start_node now w n) = wx_completedNodes w" "wx_status (start_node now w n) = wx_status w"
    "compensationTriggered (start_node now w n) = compensationTriggered w"
    "pendingNodes (start_node now w n) = filter (\<lambda>i. i \<noteq> n) (pendingNodes w)" for w
    by (auto simp: start_node_def update_node_def split: option.splits)
  { case 1 show ?case by (simp add: Cons f) next
    case 2 show ?case by (simp add: Cons f) next
    case 3 show ?case by (simp add: Cons f) next
    case 4 show ?case by (simp add: Cons f conj_commute) }
qed simp_all

lemma dispatchTier_inv:
  assumes "engine_inv env e"
  shows "engine_inv env (dispatchTier env e wid t now)"
  unfolding dispatchTier_def
proof (rule with_run_inv [OF assms], goal_cases)
  case (1 r w sc)
  note inv = 1(4)
  have "engine_inv env (move_to wid r (Ended x) (w\<lparr>wx_status := Wf_EXPIRED\<rparr>) e)" if "run_stage r = ValidateTier" for x
    by (rule move_to_inv [OF assms refl refl refl 1(3)], rule ended_inv [OF inv]) (use that in \<open>auto simp: terminalStatuses_def\<close>)
  moreover have "engine_inv env (move_to wid (r\<lparr>run_nodes := map (\<lambda>n. (n, Started)) tier\<rparr>) RunTier (foldl (start_node now) w tier) e)"
    if "run_stage r = ValidateTier" "run_tiers r = tier # tiers" for tier tiers
  proof (rule move_to_inv [OF assms refl refl refl 1(3)])
    have early: "run_nodes r = [] \<and> wx_status w \<noteq> Wf_Failed \<and> \<not> compensationTriggered w \<and> compensated (history e wid) = []"
      using early_nodes [OF inv] that(1) by simp
    obtain past order where p: "parseAndValidate (maxNodesPerWorkflow e) (run_dag r) = Inr (order, past @ run_tiers r)"
      and n: "nodes_inv r w past (history e wid)" using inv by (auto simp: run_inv_def)
    have "nodes_inv (r\<lparr>run_nodes := map (\<lambda>n. (n, Started)) tier, run_stage := RunTier\<rparr>) (foldl (start_node now) w tier) past (history e wid)"
      using n early that(2) by (auto simp: nodes_inv_def start_nodes_fields comp_def)
    then show "run_inv env (maxNodesPerWorkflow e) wid (r\<lparr>run_nodes := map (\<lambda>n. (n, Started)) tier, run_stage := RunTier\<rparr>)
      (foldl (start_node now) w tier) sc (history e wid)"
      using inv p early by (auto simp: run_inv_def start_nodes_fields stage_inv_def Let_def)
  qed
  ultimately show ?case using assms by (auto split: list.split sum.split)
qed

text \<open>What the invariant says of a node whose phase is not final.\<close>

lemma open_node:
  assumes "run_inv env N v r w sc evs" "js_get (run_nodes r) n = Some ph" "answer_of ph = None"
  obtains past ts order where "parseAndValidate N (run_dag r) = Inr (order, past @ map fst (run_nodes r) # ts)"
    and "run_tiers r = map fst (run_nodes r) # ts" "nodes_inv r w past evs" "n \<in> set (map fst (run_nodes r))"
    and "distinct (map fst (run_nodes r))" "n \<notin> set (concat past)"
    and "\<And>u. (u, n) \<in> set (all_edges (run_dag r)) \<Longrightarrow> u \<in> set (completions evs)"
    and "run_stage r = RunTier \<or> run_stage r = Crashed_Run"
proof -
  obtain past order where p: "parseAndValidate N (run_dag r) = Inr (order, past @ run_tiers r)" and ni: "nodes_inv r w past evs"
    and st: "stage_inv r w sc evs" using assms(1) by (auto simp: run_inv_def)
  have mem: "(n, ph) \<in> set (run_nodes r)" using assms(2) by (rule js_get_in_set)
  then obtain ts where ts: "run_tiers r = map fst (run_nodes r) # ts" and stages: "run_stage r \<noteq> CheckTier" "run_stage r \<noteq> ValidateTier"
    using ni by (auto simp: nodes_inv_def)
  have n: "n \<in> set (map fst (run_nodes r))" using mem by force
  have c: "concat (past @ run_tiers r) = order" "distinct order" "layered (all_edges (run_dag r)) (past @ run_tiers r)"
    using parse_Inr [OF p] by auto
  have "distinct (concat past @ map fst (run_nodes r) @ concat ts)" using c(1,2) unfolding ts by simp
  then have d: "distinct (map fst (run_nodes r))" "n \<notin> set (concat past)" using n by (simp_all only: distinct_append set_append) blast+
  have "u \<in> set (concat past)" if "(u, n) \<in> set (all_edges (run_dag r))" for u
    using c(3) [unfolded layered_def, rule_format, of "length past"] n that unfolding ts by (auto simp: nth_append)
  then have preds: "u \<in> set (completions evs)" if "(u, n) \<in> set (all_edges (run_dag r))" for u
    using ni that unfolding nodes_inv_def by blast
  have "\<not> all_answered r" using mem assms(3) by (force simp: all_answered_def list_all_iff)
  then have "run_stage r = RunTier \<or> run_stage r = Crashed_Run"
    using st stages by (auto simp: stage_inv_def Let_def split: wf_stage.splits)
  then show thesis using that p ni ts n d preds by metis
qed

lemma js_set_known:
  "\<lbrakk>js_map_wf m; js_get m k = Some x\<rbrakk> \<Longrightarrow> set (js_set k v m) = insert (k, v) {kv \<in> set m. fst kv \<noteq> k} \<and> map fst (js_set k v m) = map fst m"
proof (induction m)
  case (Cons a m)
  then show ?case by (cases a) (auto simp: js_get_def js_set_def js_map_wf_def split: if_splits)
qed (simp add: js_get_def)

lemma nodes_inv_phase:
  assumes "nodes_inv r w past evs" "distinct (map fst (run_nodes r))" "js_get (run_nodes r) n = Some ph0" "ph \<noteq> Started"
    and "run_nodes r' = js_set n ph (run_nodes r)" "run_tiers r' = run_tiers r" "run_stage r' \<noteq> CheckTier" "run_stage r' \<noteq> ValidateTier"
    and "set (completions evs) \<subseteq> set (completions evs')" "\<And>res. ph = Answered res \<Longrightarrow> nr_success res \<Longrightarrow> n \<in> set (completions evs')"
    and "distinct (submitted evs')" "set (submitted evs') \<subseteq> insert n (set (submitted evs))" "pendingNodes w' = pendingNodes w"
  shows "nodes_inv r' w' past evs'"
proof -
  have k: "set (run_nodes r') = insert (n, ph) {kv \<in> set (run_nodes r). fst kv \<noteq> n}" "map fst (run_nodes r') = map fst (run_nodes r)"
    using js_set_known [of "run_nodes r" n ph0 ph] assms(2,3,5) by (auto simp: js_map_wf_def)
  have ne: "run_nodes r \<noteq> []" using assms(3) by (auto simp: js_get_def)
  have keys: "fst ` set (run_nodes r') = fst ` set (run_nodes r)" using arg_cong [OF k(2), of set] by simp
  show ?thesis unfolding nodes_inv_def keys k(2) assms(6,13)
  proof (intro conjI allI impI)
    show "set (concat past) \<subseteq> set (completions evs')" using assms(1,9) by (auto simp: nodes_inv_def)
    show "run_nodes r' = [] \<and> run_stage r' \<noteq> RunTier
      \<or> (\<exists>ts. run_tiers r = map fst (run_nodes r) # ts) \<and> run_stage r' \<noteq> CheckTier \<and> run_stage r' \<noteq> ValidateTier"
      using assms(1,7,8) ne by (auto simp: nodes_inv_def)
    show "m \<in> set (completions evs')" if "(m, Answered res) \<in> set (run_nodes r') \<and> nr_success res" for m res
    proof (cases "m = n")
      case True
      then show ?thesis using that assms(10) [of res] unfolding k(1) by simp
    next
      case False
      then have "m \<in> set (completions evs)" using that assms(1) unfolding k(1) nodes_inv_def by blast
      then show ?thesis using assms(9) by blast
    qed
    show "set (submitted evs') \<subseteq> set (concat past) \<union> {n. \<exists>ph. (n, ph) \<in> set (run_nodes r') \<and> ph \<noteq> Started}"
    proof
      fix m
      assume "m \<in> set (submitted evs')"
      then consider "m = n" | "m \<noteq> n" "m \<in> set (submitted evs)" using assms(12) by blast
      then show "m \<in> set (concat past) \<union> {n. \<exists>ph. (n, ph) \<in> set (run_nodes r') \<and> ph \<noteq> Started}"
        using assms(1,4) unfolding k(1) nodes_inv_def by cases auto
    qed
    show "set (pendingNodes w) \<inter> (set (concat past) \<union> fst ` set (run_nodes r)) = {}" using assms(1) by (simp add: nodes_inv_def)
  qed (use assms(11) in simp)
qed

lemma running_stage_inv:
  "\<lbrakk>stage_inv r w sc evs; run_stage r = RunTier \<or> run_stage r = Crashed_Run; run_stage r' = RunTier \<or> run_stage r' = Crashed_Run;
    wx_status w' = wx_status w; compensationTriggered w' = compensationTriggered w; compensated evs' = compensated evs\<rbrakk>
   \<Longrightarrow> stage_inv r' w' sc' evs'"
  by (auto simp: stage_inv_def)

lemma run_inv_phase:
  assumes "run_inv env N v r w sc evs" "js_get (run_nodes r) n = Some ph0" "answer_of ph0 = None" "ph \<noteq> Started"
    and "run_dag r' = run_dag r" "run_nodes r' = js_set n ph (run_nodes r)" "run_tiers r' = run_tiers r"
    and "run_stage r' = RunTier \<or> run_stage r' = Crashed_Run"
    and "\<And>res. ph = Answered res \<Longrightarrow> nr_success res \<Longrightarrow> n \<in> set (completions evs')"
    and "wx_completedNodes w' = completions evs'" "set (completions evs) \<subseteq> set (completions evs')"
    and "ordered (all_edges (run_dag r)) evs'" "compensated evs' = compensated evs"
    and "distinct (submitted evs')" "set (submitted evs') \<subseteq> insert n (set (submitted evs))"
    and "pendingNodes w' = pendingNodes w" "wx_status w' = wx_status w" "compensationTriggered w' = compensationTriggered w"
  shows "run_inv env N v r' w' sc' evs'"
proof -
  from assms(1,2,3) obtain past ts order where
    o: "parseAndValidate N (run_dag r) = Inr (order, past @ map fst (run_nodes r) # ts)"
    "run_tiers r = map fst (run_nodes r) # ts" "nodes_inv r w past evs" "distinct (map fst (run_nodes r))"
    and st: "run_stage r = RunTier \<or> run_stage r = Crashed_Run" by (rule open_node)
  have "nodes_inv r' w' past evs'"
    by (rule nodes_inv_phase [OF o(3,4) assms(2,4,6,7)]) (use assms in auto)
  moreover have "stage_inv r' w' sc' evs'"
    by (rule running_stage_inv [where sc = sc, OF _ st assms(8,17,18,13)]) (use assms(1) in \<open>simp add: run_inv_def\<close>)
  ultimately show ?thesis using assms o(1,2) by (auto simp: run_inv_def)
qed

lemma submitNode_inv:
  assumes "engine_inv env e"
  shows "engine_inv env (submitNode e wid n)"
  unfolding submitNode_def
proof (rule with_run_inv [OF assms], goal_cases)
  case (1 r w sc)
  note inv = 1(4)
  have thrown: "engine_inv env (put_run wid (throw_node n err r) e)" if g: "js_get (run_nodes r) n = Some Started" for err
    by (rule put_run_inv [OF assms 1(2,3)], rule run_inv_phase [OF inv g, where ph = "Threw err"])
      (use inv open_node [OF inv g] in \<open>auto simp: throw_node_def set_phase_def run_inv_def nodes_inv_def\<close>)
  have sent: "engine_inv env (log_event (Submission wid n rq) (put_run wid (set_phase n Submitted r) e))"
    if g: "js_get (run_nodes r) n = Some Started" for rq
  proof (rule saved_inv [OF assms, where wid = wid and r = "set_phase n Submitted r" and w = w and sc = sc
        and evs = "history e wid @ [Submission wid n rq]"])
    obtain past ts order where o: "run_stage r = RunTier \<or> run_stage r = Crashed_Run" "nodes_inv r w past (history e wid)"
      "n \<notin> set (concat past)" "distinct (map fst (run_nodes r))"
      "\<And>u. (u, n) \<in> set (all_edges (run_dag r)) \<Longrightarrow> u \<in> set (completions (history e wid))"
      by (rule open_node [OF inv g]) auto
    have "ph = Started" if "(n, ph) \<in> set (run_nodes r)" for ph
      using g that o(4) by (simp add: js_get_def)
    then have fresh: "n \<notin> set (submitted (history e wid))" using o(2,3) unfolding nodes_inv_def by blast
    show "run_inv env (maxNodesPerWorkflow e) wid (set_phase n Submitted r) w sc (history e wid @ [Submission wid n rq])"
      by (rule run_inv_phase [OF inv g, where ph = Submitted])
        (use inv o fresh in \<open>auto simp: set_phase_def run_inv_def ordered_snoc nodes_inv_def\<close>)
  qed (use 1(2,3) in \<open>auto simp: wf_simps js_map_simps\<close>)
  show ?case using assms thrown sent by (auto split: option.split sum.split)
qed

lemma update_node_fields [wf_simps]:
  "wx_completedNodes (update_node n f w) = wx_completedNodes w" "wx_status (update_node n f w) = wx_status w"
  "compensationTriggered (update_node n f w) = compensationTriggered w" "pendingNodes (update_node n f w) = pendingNodes w"
  "wx_completedNodes (leave_active n now w) = wx_completedNodes w" "wx_status (leave_active n now w) = wx_status w"
  "compensationTriggered (leave_active n now w) = compensationTriggered w" "pendingNodes (leave_active n now w) = pendingNodes w"
  by (auto simp: leave_active_def update_node_def split: option.splits)

lemma finishNode_inv:
  assumes "engine_inv env e"
  shows "engine_inv env (finishNode redact e wid n res now)"
  unfolding finishNode_def
proof (rule with_run_inv [OF assms], goal_cases)
  case (1 r w sc)
  note inv = 1(4)
  have own: "wx_completedNodes w = completions (history e wid)" "ordered (all_edges (run_dag r)) (history e wid)"
    "distinct (submitted (history e wid))" using inv by (auto simp: run_inv_def nodes_inv_def)
  have thrown: "engine_inv env (put_run wid (throw_node n err r) (put_workflow wid w' e))"
    if g: "js_get (run_nodes r) n = Some Submitted"
      and f: "wx_completedNodes w' = wx_completedNodes w" "wx_status w' = wx_status w" "compensationTriggered w' = compensationTriggered w"
        "pendingNodes w' = pendingNodes w" for err w'
  proof (rule saved_inv [OF assms, where wid = wid and r = "throw_node n err r" and w = w' and sc = sc and evs = "history e wid"])
    have "run_stage r = RunTier \<or> run_stage r = Crashed_Run" by (rule open_node [OF inv g]) auto
    then show "run_inv env (maxNodesPerWorkflow e) wid (throw_node n err r) w' sc (history e wid)"
      by (intro run_inv_phase [OF inv g, where ph = "Threw err"]) (use own f in \<open>auto simp: throw_node_def set_phase_def\<close>)
  qed (use 1(2,3) in \<open>auto simp: wf_simps js_map_simps\<close>)
  have answered: "engine_inv env (put_run wid (set_phase n (Answered res) r) (persistCheckpoint w' (put_workflow wid w' e)))"
    if g: "js_get (run_nodes r) n = Some Submitted" "\<not> nr_success res"
      and f: "wx_completedNodes w' = wx_completedNodes w" "wx_status w' = wx_status w" "compensationTriggered w' = compensationTriggered w"
        "pendingNodes w' = pendingNodes w" for w'
  proof (rule saved_inv [OF assms, where wid = wid and r = "set_phase n (Answered res) r" and w = w' and sc = sc and evs = "history e wid"])
    have "run_stage r = RunTier \<or> run_stage r = Crashed_Run" by (rule open_node [OF inv g(1)]) auto
    then show "run_inv env (maxNodesPerWorkflow e) wid (set_phase n (Answered res) r) w' sc (history e wid)"
      by (intro run_inv_phase [OF inv g(1), where ph = "Answered res"]) (use own f g(2) in \<open>auto simp: set_phase_def\<close>)
  qed (use 1(2,3) in \<open>auto simp: wf_simps js_map_simps\<close>)
  have finished: "engine_inv env (log_event (Completion wid n) (put_run wid (set_phase n (Answered res) r)
      (persistCheckpoint w' (put_workflow wid w' (e\<lparr>stepContexts := js_set wid sc' (stepContexts e)\<rparr>)))))"
    if g: "js_get (run_nodes r) n = Some Submitted"
      and f: "wx_completedNodes w' = wx_completedNodes w @ [n]" "wx_status w' = wx_status w" "compensationTriggered w' = compensationTriggered w"
        "pendingNodes w' = pendingNodes w" for w' sc'
  proof (rule saved_inv [OF assms, where wid = wid and r = "set_phase n (Answered res) r" and w = w' and sc = sc'
        and evs = "history e wid @ [Completion wid n]"])
    have "run_stage r = RunTier \<or> run_stage r = Crashed_Run" by (rule open_node [OF inv g]) auto
    then show "run_inv env (maxNodesPerWorkflow e) wid (set_phase n (Answered res) r) w' sc' (history e wid @ [Completion wid n])"
      by (intro run_inv_phase [OF inv g, where ph = "Answered res"]) (use own f in \<open>auto simp: set_phase_def ordered_snoc\<close>)
  qed (use 1(2,3) in \<open>auto simp: wf_simps js_map_simps\<close>)
  show ?case using assms thrown answered finished by (auto simp: Let_def wf_simps split: sum.split)
qed

lemma tier_succeeded:
  assumes "nodes_inv r w past evs" "all_answered r" "first_failure r = None"
  shows "set (map fst (run_nodes r)) \<subseteq> set (completions evs)"
proof
  fix n
  assume "n \<in> set (map fst (run_nodes r))"
  then obtain ph where m: "(n, ph) \<in> set (run_nodes r)" by auto
  then obtain res where "ph = Answered res" using assms(2) by (cases ph) (auto simp: all_answered_def list_all_iff)
  moreover have "nr_success (the (answer_of ph))"
    using assms(3) m unfolding first_failure_def find_None_iff by (force simp: comp_def)
  ultimately show "n \<in> set (completions evs)" using assms(1) m unfolding nodes_inv_def by auto
qed

lemma completeTier_inv:
  assumes "engine_inv env e"
  shows "engine_inv env (completeTier e wid)"
  unfolding completeTier_def
proof (rule with_run_inv [OF assms], goal_cases)
  case (1 r w sc)
  note inv = 1(4)
  have st: "wx_status w \<noteq> Wf_Failed" "\<not> compensationTriggered w" "compensated (history e wid) = []" if "run_stage r = RunTier"
    using inv that by (auto simp: run_inv_def stage_inv_def)
  obtain past order where p: "parseAndValidate (maxNodesPerWorkflow e) (run_dag r) = Inr (order, past @ run_tiers r)"
    and ni: "nodes_inv r w past (history e wid)" using inv by (auto simp: run_inv_def)
  have failing: "engine_inv env (put_run wid (r\<lparr>run_stage := Compensate (rev (wx_completedNodes w)) res\<rparr>)
      (put_workflow wid (w\<lparr>wx_status := Wf_Failed, compensationTriggered := True\<rparr>) (e\<lparr>failedWorkflowsCount := k\<rparr>)))"
    if run: "run_stage r = RunTier" "all_answered r" for res k
  proof (rule saved_inv [OF assms, where wid = wid and r = "r\<lparr>run_stage := Compensate (rev (wx_completedNodes w)) res\<rparr>"
        and w = "w\<lparr>wx_status := Wf_Failed, compensationTriggered := True\<rparr>" and sc = sc and evs = "history e wid"])
    have "run_nodes r \<noteq> []" using run_tier_nodes [OF ni run(1)] parse_Inr(7) [OF p] by blast
    then show "run_inv env (maxNodesPerWorkflow e) wid (r\<lparr>run_stage := Compensate (rev (wx_completedNodes w)) res\<rparr>)
      (w\<lparr>wx_status := Wf_Failed, compensationTriggered := True\<rparr>) sc (history e wid)"
      by (intro run_inv_change [OF inv]) (use st [OF run(1)] run(2) in \<open>auto simp: stage_inv_def all_answered_def\<close>)
  qed (use 1(2,3) in \<open>auto simp: wf_simps js_map_simps\<close>)
  have goes_on: "engine_inv env (put_run wid (r\<lparr>run_tiers := tl (run_tiers r), run_stage := CheckTier, run_nodes := []\<rparr>) e)"
    if run: "run_stage r = RunTier" "all_answered r" "first_failure r = None"
  proof (rule put_run_inv [OF assms 1(2,3)])
    obtain ts where ts: "run_tiers r = map fst (run_nodes r) # ts" using ni run(1) by (auto simp: nodes_inv_def)
    note ok = tier_succeeded [OF ni run(2,3)]
    have "set (submitted (history e wid)) \<subseteq> set (concat (past @ [map fst (run_nodes r)]))"
      using ni unfolding nodes_inv_def by (fastforce simp: image_iff)
    then have "nodes_inv (r\<lparr>run_tiers := ts, run_stage := CheckTier, run_nodes := []\<rparr>) w (past @ [map fst (run_nodes r)]) (history e wid)"
      using ni ok unfolding nodes_inv_def by auto
    moreover have "parseAndValidate (maxNodesPerWorkflow e) (run_dag r) = Inr (order, (past @ [map fst (run_nodes r)]) @ ts)"
      using p unfolding ts by simp
    moreover have "stage_inv (r\<lparr>run_tiers := ts, run_stage := CheckTier, run_nodes := []\<rparr>) w sc (history e wid)"
      using st [OF run(1)] by (simp add: stage_inv_def)
    ultimately show "run_inv env (maxNodesPerWorkflow e) wid (r\<lparr>run_tiers := tl (run_tiers r), run_stage := CheckTier, run_nodes := []\<rparr>) w sc (history e wid)"
      using inv unfolding run_inv_def ts list.sel by fastforce
  qed
  show ?case using assms failing goes_on st by (auto split: option.split)
qed

lemma compensate_stage:
  "\<lbrakk>wx_status w = Wf_Failed; all_answered r; rev (wx_completedNodes w) = gone @ ns;
    compensated evs = filter (\<lambda>n. compensation_request (run_dag r) sc n \<noteq> None) gone\<rbrakk>
   \<Longrightarrow> stage_inv (r\<lparr>run_stage := Compensate ns res\<rparr>) w sc evs"
  by (auto simp: stage_inv_def all_answered_def)

lemma compensateNode_inv:
  assumes "engine_inv env e"
  shows "engine_inv env (compensateNode e wid)"
  unfolding compensateNode_def
proof (rule with_run_inv [OF assms], goal_cases)
  case (1 r w sc)
  note inv = 1(4)
  let ?undo = "filter (\<lambda>n. compensation_request (run_dag r) sc n \<noteq> None)"
  have stage: "wx_status w = Wf_Failed \<and> all_answered r
      \<and> (\<exists>gone. rev (wx_completedNodes w) = gone @ rem \<and> compensated (history e wid) = ?undo gone)"
    if "run_stage r = Compensate rem res" for rem res
  proof -
    have "stage_inv r w sc (history e wid)" using inv by (simp add: run_inv_def)
    then show ?thesis using that by (simp add: stage_inv_def)
  qed
  have ended: "engine_inv env (move_to wid r (Ended x) w e)" if "run_stage r = Compensate [] res" for res x
    by (rule move_to_inv [OF assms refl refl refl 1(3)], rule run_inv_change [OF inv])
      (use stage [OF that] in \<open>auto simp: stage_inv_def all_answered_def terminalStatuses_def\<close>)
  have skip: "engine_inv env (put_run wid (r\<lparr>run_stage := Compensate ns res\<rparr>) e)"
    if c: "run_stage r = Compensate (n # ns) res" "compensation_request (run_dag r) sc n = None" for n ns res
  proof (rule put_run_inv [OF assms 1(2,3)], rule run_inv_change [OF inv])
    obtain gone where g: "rev (wx_completedNodes w) = gone @ n # ns" "compensated (history e wid) = ?undo gone"
      using stage [OF c(1)] by blast
    then show "stage_inv (r\<lparr>run_stage := Compensate ns res\<rparr>) w sc (history e wid)"
      using stage [OF c(1)] c(2) by (intro compensate_stage [where gone = "gone @ [n]"]) auto
  qed auto
  have undone: "engine_inv env (log_event (Compensation wid n rq) (put_run wid (r\<lparr>run_stage := Compensate ns res\<rparr>) e))"
    if c: "run_stage r = Compensate (n # ns) res" "compensation_request (run_dag r) sc n = Some rq" for n ns res rq
  proof (rule saved_inv [OF assms, where wid = wid and r = "r\<lparr>run_stage := Compensate ns res\<rparr>" and w = w and sc = sc
        and evs = "history e wid @ [Compensation wid n rq]"])
    obtain gone where g: "rev (wx_completedNodes w) = gone @ n # ns" "compensated (history e wid) = ?undo gone"
      using stage [OF c(1)] by blast
    have "stage_inv (r\<lparr>run_stage := Compensate ns res\<rparr>) w sc (history e wid @ [Compensation wid n rq])"
      using stage [OF c(1)] g c(2) by (intro compensate_stage [where gone = "gone @ [n]"]) auto
    then show "run_inv env (maxNodesPerWorkflow e) wid (r\<lparr>run_stage := Compensate ns res\<rparr>) w sc (history e wid @ [Compensation wid n rq])"
      using inv c(1) by (auto simp: run_inv_def ordered_snoc nodes_inv_def)
  qed (use 1(2,3) in \<open>auto simp: wf_simps js_map_simps\<close>)
  show ?case using assms ended skip undone by (auto simp: Let_def split: wf_stage.split list.split option.split)
qed

lemma executeWorkflow_inv:
  assumes "engine_inv env e"
  shows "engine_inv env (fst (executeWorkflow env e dag life t now))"
proof (cases "admit_workflow env e dag life t")
  case (Inl ec)
  then show ?thesis using assms by (simp add: executeWorkflow_def)
next
  case (Inr tiers)
  let ?wid = "workflowId dag"
  have new: "js_get (activeWorkflows e) ?wid = None" and p: "\<exists>order. parseAndValidate (maxNodesPerWorkflow e) dag = Inr (order, tiers)"
    and adm: "wf_admitted env dag"
    using Inr by (auto simp: admit_workflow_def wf_admitted_def isGranted_def list_all_iff list_ex_iff split: if_splits sum.splits option.splits)
  have "history e ?wid = []"
    using assms [unfolded engine_inv_def, rule_format, of ?wid] new by (auto simp: view_inv_def split: option.splits)
  moreover have "run_inv env (maxNodesPerWorkflow e) ?wid \<lparr>run_dag = dag, run_tiers = tiers, run_stage = CheckTier, run_nodes = []\<rparr>
      (new_workflow env dag now) (new_context env dag) []"
    using p adm by (auto simp: run_inv_def nodes_inv_def stage_inv_def new_workflow_def intro!: exI [of _ "[] :: string list list"])
  ultimately show ?thesis
    by (intro saved_inv [OF assms, where wid = ?wid and r = "\<lparr>run_dag = dag, run_tiers = tiers, run_stage = CheckTier, run_nodes = []\<rparr>"
          and w = "new_workflow env dag now" and sc = "new_context env dag" and evs = "[]"])
      (auto simp: executeWorkflow_def Inr Let_def wf_simps js_map_simps)
qed

lemma cancelWorkflow_inv:
  assumes "engine_inv env e"
  shows "engine_inv env (fst (cancelWorkflow e wid tenant now))"
proof -
  have cancelled: "engine_inv env ((persistCheckpoint w' (put_workflow wid w' (e\<lparr>abortControllers := a\<rparr>)))\<lparr>cancelRequests := c\<rparr>)"
    if w: "js_get (activeWorkflows e) wid = Some w" "wx_status w \<notin> set terminalStatuses" "w' = w\<lparr>wx_status := Wf_CANCELED, wx_updatedAt := now\<rparr>"
    for w w' a c
  proof (rule engine_inv_step [OF assms, of wid])
    let ?e = "(persistCheckpoint w' (put_workflow wid w' (e\<lparr>abortControllers := a\<rparr>)))\<lparr>cancelRequests := c\<rparr>"
    have v: "view_inv env (maxNodesPerWorkflow e) wid (js_get (executions e) wid) (Some w) (js_get (stepContexts e) wid) (history e wid)"
      using assms w(1) by (metis engine_inv_def)
    have "run_inv env N wid r w' sc evs" if "run_inv env N wid r w sc evs" for N r sc evs
    proof -
      have "stage_inv r w' sc evs"
        using that w(2,3) by (auto simp: run_inv_def stage_inv_def terminalStatuses_def Let_def split: wf_stage.splits)
      then show ?thesis using that w(3) by (auto simp: run_inv_def nodes_inv_def)
    qed
    with v show "view_inv env (maxNodesPerWorkflow e) wid (js_get (executions ?e) wid) (js_get (activeWorkflows ?e) wid)
      (js_get (stepContexts ?e) wid) (history ?e wid)"
      by (auto simp: wf_simps js_map_simps view_inv_def split: option.splits)
  qed (auto simp: touches_only_def wf_simps js_map_simps)
  have same: "e\<lparr>abortControllers := abortControllers e\<rparr> = e" by simp
  show ?thesis
    using assms cancelled cancelled [where a = "abortControllers e", unfolded same]
    by (auto simp: cancelWorkflow_def Let_def split: option.split)
qed

lemma foldl_keeps: "\<lbrakk>P e; \<And>e x. P e \<Longrightarrow> P (f e x)\<rbrakk> \<Longrightarrow> P (foldl f e xs)"
  by (induction xs arbitrary: e) auto

lemma maintain_inv: "engine_inv env e \<Longrightarrow> engine_inv env (maintain_workflows e now)"
  unfolding maintain_workflows_def by (rule foldl_keeps) (auto intro: cancelWorkflow_inv)

lemma wf_step_inv: "engine_inv env e \<Longrightarrow> engine_inv env (wf_step env redact e op)"
  by (cases op)
    (simp_all add: executeWorkflow_inv checkTier_inv dispatchTier_inv submitNode_inv finishNode_inv completeTier_inv compensateNode_inv
      cancelWorkflow_inv maintain_inv engine_shutdown_def wf_simps)

interpretation wf_runs: op_invariant "wf_step env redact" "engine_inv env" for env redact
  by unfold_locales (rule wf_step_inv)

text \<open>An engine that has read the checkpoints of a former run has no execution under way.\<close>

lemma restored_runs:
  "executions (fst (restore_workflows now wids (e, rest))) = executions e \<and> events (fst (restore_workflows now wids (e, rest))) = events e
   \<and> maxActiveWorkflows (fst (restore_workflows now wids (e, rest))) = maxActiveWorkflows e"
proof (induction wids arbitrary: e rest)
  case (Cons wid wids)
  then show ?case by (auto simp: put_workflow_def split: option.split)
qed simp

definition engine_start :: "nat \<Rightarrow> nat \<Rightarrow> string list \<Rightarrow> (string, workflow_state) jsmap \<Rightarrow> int \<Rightarrow> engine" where
  "engine_start maxA maxN index store now = engine_initialize (WorkflowEngine maxA maxN index store) now"

lemma start_inv: "engine_inv env (engine_start maxA maxN index store now)"
  using restored_runs [of now index "WorkflowEngine maxA maxN index store" "[]"]
  by (auto simp: engine_start_def engine_initialize_def engine_inv_def view_inv_def history_def WorkflowEngine_def js_map_simps
      split: prod.split)

section \<open>Properties\<close>

lemma history_split:
  "events e = before @ ev # rest \<Longrightarrow>
   history e (event_workflow ev) = filter (\<lambda>x. event_workflow x = event_workflow ev) before @ ev # filter (\<lambda>x. event_workflow x = event_workflow ev) rest"
  by (simp add: history_def)

lemma completions_mem: "n \<in> set (completions evs) \<longleftrightarrow> (\<exists>v. Completion v n \<in> set evs)"
  by (force simp: completions_def split: wf_event.splits)

lemma submitted_mem: "n \<in> set (submitted evs) \<longleftrightarrow> (\<exists>v rq. Submission v n rq \<in> set evs)"
  by (force simp: submitted_def split: wf_event.splits)

lemma submitted_append: "submitted (xs @ ys) = submitted xs @ submitted ys" "submitted (Submission v n rq # ys) = n # submitted ys"
  by (simp_all add: submitted_def)

lemma run_submitted_nodes:
  assumes "run_inv env N v r w sc evs" "n \<in> set (submitted evs)"
  shows "n \<in> nodeId ` set (dag_nodes (run_dag r))"
proof -
  obtain past order where p: "parseAndValidate N (run_dag r) = Inr (order, past @ run_tiers r)" and ni: "nodes_inv r w past evs"
    using assms(1) by (auto simp: run_inv_def)
  have c: "set order = nodeId ` set (dag_nodes (run_dag r))" "concat (past @ run_tiers r) = order" using parse_Inr [OF p] by auto
  have "n \<in> set (concat past) \<or> (\<exists>ph. (n, ph) \<in> set (run_nodes r))" using ni assms(2) unfolding nodes_inv_def by blast
  then show ?thesis
  proof
    assume "\<exists>ph. (n, ph) \<in> set (run_nodes r)"
    then obtain ph where m: "(n, ph) \<in> set (run_nodes r)" by blast
    then obtain ts where "run_tiers r = map fst (run_nodes r) # ts" using ni by (auto simp: nodes_inv_def)
    with m have "n \<in> set (concat (past @ run_tiers r))" by force
    then show ?thesis using c by blast
  qed (use c in auto)
qed

text \<open>The states of an engine that has read the checkpoints of a former run.\<close>

definition wf_reachable :: "agent_env \<Rightarrow> (json \<Rightarrow> json) option \<Rightarrow> engine \<Rightarrow> bool" where
  "wf_reachable env redact e \<longleftrightarrow>
     (\<exists>maxA maxN index store now ops. e = foldl (wf_step env redact) (engine_start maxA maxN index store now) ops)"

lemma wf_reachable_inv: "wf_reachable env redact e \<Longrightarrow> engine_inv env e"
  by (auto simp: wf_reachable_def intro!: wf_runs.inv_run start_inv)

lemma engine_inv_run:
  assumes "engine_inv env e" "js_get (executions e) wid = Some r"
  shows "\<exists>w sc. js_get (activeWorkflows e) wid = Some w \<and> js_get (stepContexts e) wid = Some sc
    \<and> run_inv env (maxNodesPerWorkflow e) wid r w sc (history e wid)"
  using assms(1) [unfolded engine_inv_def, rule_format, of wid] assms(2) by (auto simp: view_inv_def)

text \<open>C18. Execution order of workflows. In every interleaving, a node is handed to the scheduler at most once, as a node of a
  graph that was admitted (valid lease for this device and tenant, every capability granted by a scope), and only
  after every node it depends on, through dependencies or edges, has completed.\<close>

theorem workflow_nodes_ordered:
  assumes "wf_reachable env redact e" "events e = before @ Submission wid n rq # rest"
  shows "\<exists>r. js_get (executions e) wid = Some r
    \<and> workflowId (run_dag r) = wid \<and> wf_admitted env (run_dag r) \<and> n \<in> nodeId ` set (dag_nodes (run_dag r))
    \<and> (\<forall>u. (u, n) \<in> set (all_edges (run_dag r)) \<longrightarrow> Completion wid u \<in> set before)
    \<and> (\<forall>rq'. Submission wid n rq' \<notin> set before \<union> set rest)"
proof -
  let ?own = "filter (\<lambda>x. event_workflow x = wid)"
  have h: "history e wid = ?own before @ Submission wid n rq # ?own rest" using history_split [OF assms(2)] by simp
  have "js_get (executions e) wid \<noteq> None"
    using wf_reachable_inv [OF assms(1), unfolded engine_inv_def, rule_format, of wid] h by (auto simp: view_inv_def split: option.splits)
  then obtain r w sc where r: "js_get (executions e) wid = Some r" and inv: "run_inv env (maxNodesPerWorkflow e) wid r w sc (history e wid)"
    using engine_inv_run [OF wf_reachable_inv [OF assms(1)]] by blast
  have "\<forall>u. (u, n) \<in> set (all_edges (run_dag r)) \<longrightarrow> u \<in> set (completions (?own before))"
    using inv h unfolding run_inv_def ordered_def by blast
  then have "\<forall>u. (u, n) \<in> set (all_edges (run_dag r)) \<longrightarrow> Completion wid u \<in> set before" by (auto simp: completions_mem)
  moreover have "distinct (submitted (?own before) @ n # submitted (?own rest))"
    using inv h by (auto simp: run_inv_def nodes_inv_def submitted_append)
  then have "n \<notin> set (submitted (?own before))" "n \<notin> set (submitted (?own rest))" by auto
  then have "\<forall>rq'. Submission wid n rq' \<notin> set before \<union> set rest" by (auto simp: submitted_mem)
  moreover have "n \<in> nodeId ` set (dag_nodes (run_dag r))"
    using run_submitted_nodes [OF inv, of n] h by (simp add: submitted_append)
  ultimately show ?thesis using r inv by (auto simp: run_inv_def)
qed

text \<open>C19. Compensation. When a workflow has ended as failed, the completed nodes that have a compensation payload (whose
  templates resolve) have been compensated, each once, in the reverse order of their completion; a workflow that ended otherwise
  has compensated nothing.\<close>

theorem compensation_exact:
  assumes "wf_reachable env redact e" "js_get (executions e) wid = Some r" "run_stage r = Ended res"
    and "js_get (activeWorkflows e) wid = Some w" "js_get (stepContexts e) wid = Some sc"
  shows "compensated (history e wid) =
    (if wx_status w = Wf_Failed
     then filter (\<lambda>n. compensation_request (run_dag r) sc n \<noteq> None) (rev (completions (history e wid)))
     else [])"
  using engine_inv_run [OF wf_reachable_inv [OF assms(1)] assms(2)] assms(3-) by (auto simp: run_inv_def stage_inv_def)

subsection \<open>Ended workflows\<close>

definition ended_as :: "agent_env \<Rightarrow> string \<Rightarrow> workflow_run \<Rightarrow> workflow_state \<Rightarrow> engine \<Rightarrow> bool" where
  "ended_as env wid r w e \<longleftrightarrow>
     engine_inv env e \<and> js_get (executions e) wid = Some r \<and> js_get (activeWorkflows e) wid = Some w \<and> (\<exists>res. run_stage r = Ended res)"

lemma ended_facts:
  assumes "ended_as env wid r w e"
  shows "wx_status w \<in> set terminalStatuses" "js_get (run_nodes r) n \<noteq> Some Started" "js_get (run_nodes r) n \<noteq> Some Submitted"
proof -
  obtain res sc where r: "run_stage r = Ended res" "run_inv env (maxNodesPerWorkflow e) wid r w sc (history e wid)"
    using assms engine_inv_run [of env e wid r] by (auto simp: ended_as_def)
  then have st: "wx_status w \<in> set terminalStatuses" "all_answered r" by (auto simp: run_inv_def stage_inv_def)
  have "answer_of ph \<noteq> None" if "js_get (run_nodes r) n = Some ph" for ph
    using st(2) js_get_in_set [OF that] by (auto simp: all_answered_def list_all_iff)
  from this [of Started] this [of Submitted] st(1)
  show "wx_status w \<in> set terminalStatuses" "js_get (run_nodes r) n \<noteq> Some Started" "js_get (run_nodes r) n \<noteq> Some Submitted" by auto
qed

text \<open>A step of a run leaves the other runs alone.\<close>

lemma with_run_other:
  assumes "\<And>r w sc. \<lbrakk>js_get (executions e) v = Some r; js_get (activeWorkflows e) v = Some w\<rbrakk> \<Longrightarrow>
    js_get (executions (f r w sc)) wid = js_get (executions e) wid \<and> js_get (activeWorkflows (f r w sc)) wid = js_get (activeWorkflows e) wid"
  shows "js_get (executions (with_run e v f)) wid = js_get (executions e) wid
    \<and> js_get (activeWorkflows (with_run e v f)) wid = js_get (activeWorkflows e) wid"
  using assms by (auto simp: with_run_def split: option.split)

lemmas run_step_defs = checkTier_def dispatchTier_def submitNode_def finishNode_def completeTier_def compensateNode_def

lemma run_steps_other:
  assumes "v \<noteq> wid" "e' \<in> {checkTier e v now1 now2, dispatchTier env e v t now1, submitNode e v n, finishNode redact e v n res now1,
    completeTier e v, compensateNode e v}"
  shows "js_get (executions e') wid = js_get (executions e) wid \<and> js_get (activeWorkflows e') wid = js_get (activeWorkflows e) wid"
  using assms(2)
proof (elim insertE emptyE, goal_cases)
qed (unfold run_step_defs, (hypsubst, rule with_run_other, use assms(1) in \<open>simp add: move_to_def Let_def wf_simps js_map_simps split: list.split sum.split option.split wf_stage.split\<close>)+)

lemma cancel_keeps_ended:
  assumes "js_get (activeWorkflows e) wid = Some w" "wx_status w \<in> set terminalStatuses"
  shows "js_get (executions (fst (cancelWorkflow e v tenant now))) wid = js_get (executions e) wid
    \<and> js_get (activeWorkflows (fst (cancelWorkflow e v tenant now))) wid = Some w"
  using assms by (auto simp: cancelWorkflow_def Let_def wf_simps js_map_simps split: option.split)

lemma maintain_keeps_ended:
  assumes "js_get (activeWorkflows e) wid = Some w" "wx_status w \<in> set terminalStatuses"
  shows "js_get (executions (maintain_workflows e now)) wid = js_get (executions e) wid
    \<and> js_get (activeWorkflows (maintain_workflows e now)) wid = Some w"
  unfolding maintain_workflows_def
  by (rule foldl_keeps [where P = "\<lambda>e1. js_get (executions e1) wid = js_get (executions e) wid \<and> js_get (activeWorkflows e1) wid = Some w"])
    (use assms cancel_keeps_ended in \<open>auto split: prod.split\<close>)

lemma execute_keeps_ended:
  assumes "js_get (activeWorkflows e) wid = Some w"
  shows "js_get (executions (fst (executeWorkflow env e dag life t now))) wid = js_get (executions e) wid
    \<and> js_get (activeWorkflows (fst (executeWorkflow env e dag life t now))) wid = Some w"
proof (cases "admit_workflow env e dag life t")
  case (Inr tiers)
  then have "js_get (activeWorkflows e) (workflowId dag) = None"
    by (auto simp: admit_workflow_def split: if_splits sum.splits option.splits)
  then have "workflowId dag \<noteq> wid" using assms by auto
  then show ?thesis using assms by (simp add: executeWorkflow_def Inr Let_def wf_simps js_map_simps)
qed (use assms in \<open>simp add: executeWorkflow_def\<close>)

lemma ended_run_idle:
  assumes "ended_as env wid r w e"
  shows "checkTier e wid now1 now2 = e" "dispatchTier env e wid t now1 = e" "submitNode e wid n = e"
    "finishNode redact e wid n res now1 = e" "completeTier e wid = e" "compensateNode e wid = e"
  using assms ended_facts [OF assms]
  by (auto simp: ended_as_def run_step_defs with_run_def split: option.split)

lemma ended_step:
  assumes "ended_as env wid r w e"
  shows "ended_as env wid r w (wf_step env redact e op)"
proof -
  let ?e = "wf_step env redact e op"
  have a: "js_get (activeWorkflows e) wid = Some w" "js_get (executions e) wid = Some r" using assms by (auto simp: ended_as_def)
  have same: "js_get (executions e') wid = Some r \<and> js_get (activeWorkflows e') wid = Some w"
    if "e' \<in> {checkTier e v now1 now2, dispatchTier env e v t now1, submitNode e v n, finishNode redact e v n res now1,
      completeTier e v, compensateNode e v}" for e' v now1 now2 t n res
  proof (cases "v = wid")
    case True
    then show ?thesis using that a ended_run_idle [OF assms] by auto
  next
    case False
    then show ?thesis using run_steps_other [OF False that] a by simp
  qed
  let ?P = "\<lambda>e'. js_get (executions e') wid = Some r \<and> js_get (activeWorkflows e') wid = Some w"
  have runs: "?P (checkTier e v now1 now2)" "?P (dispatchTier env e v t now1)" "?P (submitNode e v n)" "?P (finishNode redact e v n res now1)"
    "?P (completeTier e v)" "?P (compensateNode e v)" for v now1 now2 t n res
    by (rule same, blast)+
  have "?P ?e"
    using runs execute_keeps_ended [OF a(1), of env] cancel_keeps_ended [OF a(1) ended_facts(1) [OF assms]]
      maintain_keeps_ended [OF a(1) ended_facts(1) [OF assms]] a
    by (cases op) (auto simp: engine_shutdown_def)
  then show ?thesis using assms wf_step_inv [of env e redact op] by (auto simp: ended_as_def)
qed

interpretation wf_ended: op_invariant "wf_step env redact" "ended_as env wid r w" for env redact wid r w
  by unfold_locales (rule ended_step)

text \<open>Finality of workflows. Once \<open>executeWorkflow\<close> has returned, no later operation changes the state of the workflow: its status,
  nodes and outputs stay as they are.\<close>

theorem ended_workflow_final:
  assumes "wf_reachable env redact e" "js_get (executions e) wid = Some r" "run_stage r = Ended res"
  shows "js_get (activeWorkflows (foldl (wf_step env redact) e ops)) wid = js_get (activeWorkflows e) wid
    \<and> getWorkflowStatus (foldl (wf_step env redact) e ops) wid tenant = getWorkflowStatus e wid tenant"
proof -
  obtain w where "ended_as env wid r w e"
    using engine_inv_run [OF wf_reachable_inv [OF assms(1)] assms(2)] assms wf_reachable_inv [OF assms(1)] by (auto simp: ended_as_def)
  moreover from this have "ended_as env wid r w (foldl (wf_step env redact) e ops)" by (rule wf_ended.inv_run)
  ultimately show ?thesis by (simp add: ended_as_def getWorkflowStatus_def)
qed

subsection \<open>Capacity\<close>

text \<open>No step takes a workflow out of \<open>activeWorkflows\<close>.\<close>

definition slots_taken :: "nat \<Rightarrow> engine \<Rightarrow> bool" where
  "slots_taken k e \<longleftrightarrow> k \<le> length (activeWorkflows e) \<and> maxActiveWorkflows e \<le> k"

lemma put_keeps_slots: "length (activeWorkflows e) \<le> length (js_set wid w (activeWorkflows e))"
  by (simp add: length_js_set)

lemma with_run_slots:
  "\<lbrakk>slots_taken k e; \<And>r w sc. slots_taken k (f r w sc)\<rbrakk> \<Longrightarrow> slots_taken k (with_run e wid f)"
  by (auto simp: with_run_def split: option.split)

lemma slots_blocks [wf_simps]:
  "slots_taken k e \<Longrightarrow> slots_taken k (persistCheckpoint w e)" "slots_taken k e \<Longrightarrow> slots_taken k (put_workflow wid w e)"
  "slots_taken k e \<Longrightarrow> slots_taken k (put_run wid r e)" "slots_taken k e \<Longrightarrow> slots_taken k (log_event ev e)"
  "slots_taken k (e\<lparr>completedWorkflowsCount := n\<rparr>) \<longleftrightarrow> slots_taken k e" "slots_taken k (e\<lparr>failedWorkflowsCount := n\<rparr>) \<longleftrightarrow> slots_taken k e"
  "slots_taken k (e\<lparr>abortControllers := a\<rparr>) \<longleftrightarrow> slots_taken k e" "slots_taken k (e\<lparr>cancelRequests := c\<rparr>) \<longleftrightarrow> slots_taken k e"
  "slots_taken k (e\<lparr>stepContexts := d\<rparr>) \<longleftrightarrow> slots_taken k e"
  using put_keeps_slots [of e wid w] by (auto simp: slots_taken_def wf_simps)

lemma cancel_slots: "slots_taken k e \<Longrightarrow> slots_taken k (fst (cancelWorkflow e wid tenant now))"
  by (auto simp: cancelWorkflow_def Let_def wf_simps split: option.split)

lemma full_refuses: "slots_taken k e \<Longrightarrow> \<exists>ec. executeWorkflow env e dag life t now = (e, Some (failure ec))"
  by (auto simp: slots_taken_def executeWorkflow_def admit_workflow_def failure_def split: option.splits sum.splits)

lemma run_steps_slots:
  assumes "slots_taken k e"
  shows "slots_taken k (checkTier e wid now1 now2)" "slots_taken k (dispatchTier env e wid t now1)" "slots_taken k (submitNode e wid n)"
    "slots_taken k (finishNode redact e wid n res now1)" "slots_taken k (completeTier e wid)" "slots_taken k (compensateNode e wid)"
  unfolding run_step_defs
  by (rule with_run_slots [OF assms], use assms in \<open>simp add: move_to_def Let_def wf_simps split: list.split sum.split option.split wf_stage.split\<close>)+

lemma slots_step: "slots_taken k e \<Longrightarrow> slots_taken k (wf_step env redact e op)"
proof (cases op)
  case (ExecuteWorkflow dag life t now)
  assume "slots_taken k e"
  moreover from this obtain ec where "executeWorkflow env e dag life t now = (e, Some (failure ec))" using full_refuses by blast
  ultimately show ?thesis by (simp add: ExecuteWorkflow)
next
  case (MaintainWorkflows now)
  assume "slots_taken k e"
  then show ?thesis unfolding MaintainWorkflows wf_step.simps maintain_workflows_def
    by (rule foldl_keeps) (auto intro: cancel_slots split: prod.split)
qed (simp_all add: run_steps_slots cancel_slots engine_shutdown_def wf_simps)

interpretation wf_slots: op_invariant "wf_step env redact" "slots_taken k" for env redact k
  by unfold_locales (rule slots_step)

text \<open>Capacity of the engine. Workflows that have ended, failed or been cancelled keep their slot: once the maximum number is
  reached, every later workflow is refused, whatever happens in between.\<close>

theorem workflow_slots_never_freed:
  assumes "maxActiveWorkflows e \<le> length (activeWorkflows e)"
  shows "\<exists>ec. executeWorkflow env (foldl (wf_step env redact) e ops) dag life t now =
    (foldl (wf_step env redact) e ops, Some (failure ec))"
  by (rule full_refuses, rule wf_slots.inv_run [where k = "maxActiveWorkflows e"]) (use assms in \<open>simp add: slots_taken_def\<close>)

subsection \<open>Cancellation\<close>

text \<open>The nodes whose scheduled tasks a cancellation asks to remove have never been submitted; those that run are not
  asked for.\<close>

lemma cancel_misses_submitted:
  assumes "wf_reachable env redact e" "js_get (executions e) wid = Some r" "js_get (activeWorkflows e) wid = Some w"
  shows "set (pendingNodes w) \<inter> set (submitted (history e wid)) = {}"
proof -
  obtain sc where "run_inv env (maxNodesPerWorkflow e) wid r w sc (history e wid)"
    using engine_inv_run [OF wf_reachable_inv [OF assms(1)] assms(2)] assms(3) by auto
  then obtain past where "nodes_inv r w past (history e wid)" by (auto simp: run_inv_def)
  then have "set (pendingNodes w) \<inter> (set (concat past) \<union> fst ` set (run_nodes r)) = {}"
    "set (submitted (history e wid)) \<subseteq> set (concat past) \<union> fst ` set (run_nodes r)"
    unfolding nodes_inv_def by (blast, fastforce simp: image_iff)
  then show ?thesis by blast
qed

text \<open>A workflow cancelled while its last tier runs ends as completed.\<close>

lemma cancel_overwritten:
  assumes "js_get (executions e) wid = Some r" "js_get (activeWorkflows e) wid = Some w" "js_get (stepContexts e) wid = Some sc"
    and "run_stage r = RunTier" "run_tiers r = [tier]" "all_answered r" "first_failure r = None" "wx_status w = Wf_Running"
    and "cancelWorkflow e wid None now1 = (e1, b)"
  shows "b \<and> map_option wx_status (js_get (activeWorkflows (checkTier (completeTier e1 wid) wid now2 now3)) wid) = Some Wf_Completed"
proof -
  have "b" and g: "js_get (executions e1) wid = Some r" "js_get (stepContexts e1) wid = Some sc"
    "js_get (activeWorkflows e1) wid = Some (w\<lparr>wx_status := Wf_CANCELED, wx_updatedAt := now1\<rparr>)"
    using assms by (auto simp: cancelWorkflow_def Let_def terminalStatuses_def wf_simps js_map_simps)
  then show ?thesis
    using assms(4-7) by (simp add: completeTier_def checkTier_def with_run_def move_to_def wf_simps js_map_simps)
qed

text \<open>The scheduler answers a task it has only queued with success; the engine takes it for completed.\<close>

definition queued_answer :: node_result where
  "queued_answer = \<lparr>nr_success = True, nr_output = Some (JObj [(''status'', JStr ''QUEUED''), (''message'', JStr ''Task queued for execution.'')]),
     nr_errorCode = None\<rparr>"

lemma queued_node_completed:
  assumes "js_get (executions e) wid = Some r" "js_get (activeWorkflows e) wid = Some w" "js_get (stepContexts e) wid = Some sc"
    and "js_get (run_nodes r) n = Some Submitted"
  shows "map_option wx_completedNodes (js_get (activeWorkflows (finishNode None e wid n queued_answer now)) wid) = Some (wx_completedNodes w @ [n])"
proof -
  have out: "answer_output queued_answer = JObj [(''status'', JStr ''QUEUED''), (''message'', JStr ''Task queued for execution.'')]" by code_simp
  have "find dangerous [''status'', ''message''] = None"
    "byte_length (stringify (JObj [(''status'', JStr ''QUEUED''), (''message'', JStr ''Task queued for execution.'')])) \<le> MAX_NODE_OUTPUT_BYTES"
    by code_simp+
  then obtain sc2 where "setNodeOutput None sc n (answer_output queued_answer) = Inr sc2"
    by (auto simp: setNodeOutput_def out Let_def simp del: stringify.simps)
  then show ?thesis
    using assms by (simp add: finishNode_def with_run_def Let_def queued_answer_def wf_simps js_map_simps)
qed

subsection \<open>A concrete run\<close>

definition test_workflow :: workflow_dag where
  "test_workflow = test_dag\<lparr>dag_nodes := map (\<lambda>n. n\<lparr>compensationPayload := Some []\<rparr>) (dag_nodes test_dag)\<rparr>"

definition answer :: "bool \<Rightarrow> node_result" where
  "answer ok = \<lparr>nr_success = ok, nr_output = None, nr_errorCode = (if ok then None else Some ''E'')\<rparr>"

text \<open>Node \<open>a\<close> completes, node \<open>b\<close> fails, and \<open>a\<close> is compensated.\<close>

definition test_start :: engine where
  "test_start = engine_start 10 50 [] [] 0"

definition test_wf_ops :: "wf_op list" where
  "test_wf_ops =
     [ExecuteWorkflow test_workflow None test_tick 0, CheckTierOp ''W'' 1 1, DispatchTierOp ''W'' test_tick 1, SubmitNode ''W'' ''a'',
      FinishNode ''W'' ''a'' (answer True) 2, CompleteTier ''W'', CheckTierOp ''W'' 3 3, DispatchTierOp ''W'' test_tick 3,
      SubmitNode ''W'' ''b'', FinishNode ''W'' ''b'' (answer False) 4, CompleteTier ''W'', CompensateNode ''W'', CompensateNode ''W'']"

definition test_engine :: engine where
  "test_engine = foldl (wf_step test_env None) test_start test_wf_ops"

lemma test_engine_reachable: "wf_reachable test_env None test_engine"
  unfolding wf_reachable_def test_engine_def test_start_def by blast

fun event_summary :: "wf_event \<Rightarrow> string \<times> string \<times> string" where
  "event_summary (Submission v n _) = (v, ''submit'', n)"
| "event_summary (Completion v n) = (v, ''complete'', n)"
| "event_summary (Compensation v n _) = (v, ''undo'', n)"

lemma event_summary_inv:
  "event_summary ev = (v, ''submit'', n) \<longleftrightarrow> (\<exists>rq. ev = Submission v n rq)"
  "event_summary ev = (v, ''complete'', n) \<longleftrightarrow> ev = Completion v n"
  "event_summary ev = (v, ''undo'', n) \<longleftrightarrow> (\<exists>rq. ev = Compensation v n rq)"
  by (cases ev; auto)+

fun ended_code :: "wf_stage \<Rightarrow> string option option" where
  "ended_code (Ended res) = Some (wr_errorCode res)"
| "ended_code _ = None"

lemma ended_code_inv: "ended_code st = Some c \<longleftrightarrow> (\<exists>res. st = Ended res \<and> wr_errorCode res = c)"
  by (cases st) auto

definition run_summary :: "engine \<Rightarrow> (string \<times> string \<times> string) list \<times> string option option \<times> wf_status option \<times> bool" where
  "run_summary e =
     (map event_summary (events e),
      Option.bind (js_get (executions e) ''W'') (\<lambda>r. ended_code (run_stage r)),
      map_option wx_status (js_get (activeWorkflows e) ''W''), js_has (stepContexts e) ''W'')"

lemma test_engine_summary:
  "run_summary test_engine =
   ([(''W'', ''submit'', ''a''), (''W'', ''complete'', ''a''), (''W'', ''submit'', ''b''), (''W'', ''undo'', ''a'')],
    Some (Some ''E''), Some Wf_Failed, True)"
  by code_simp

lemma test_engine_events:
  obtains rq1 rq2 rq3 where "events test_engine =
    [Submission ''W'' ''a'' rq1, Completion ''W'' ''a''] @ Submission ''W'' ''b'' rq2 # [Compensation ''W'' ''a'' rq3]"
  using test_engine_summary
  by (auto simp: run_summary_def map_eq_Cons_conv event_summary_inv)

lemma test_engine_ended:
  obtains r w sc res where "js_get (executions test_engine) ''W'' = Some r" "run_stage r = Ended res"
    "js_get (activeWorkflows test_engine) ''W'' = Some w" "wx_status w = Wf_Failed" "js_get (stepContexts test_engine) ''W'' = Some sc"
  using test_engine_summary
  by (auto simp: run_summary_def js_has_def bind_eq_Some_conv ended_code_inv)

theorem workflow_nodes_ordered_witness:
  "\<exists>r. js_get (executions test_engine) ''W'' = Some r \<and> wf_admitted test_env (run_dag r) \<and> ''b'' \<in> nodeId ` set (dag_nodes (run_dag r))"
proof -
  obtain rq1 rq2 rq3 where "events test_engine =
    [Submission ''W'' ''a'' rq1, Completion ''W'' ''a''] @ Submission ''W'' ''b'' rq2 # [Compensation ''W'' ''a'' rq3]" by (rule test_engine_events)
  from workflow_nodes_ordered [OF test_engine_reachable this] show ?thesis by blast
qed

theorem compensation_exact_witness: "compensated (history test_engine ''W'') = [''a''] \<and> completions (history test_engine ''W'') = [''a'']"
proof -
  obtain rq1 rq2 rq3 where ev: "events test_engine =
    [Submission ''W'' ''a'' rq1, Completion ''W'' ''a''] @ Submission ''W'' ''b'' rq2 # [Compensation ''W'' ''a'' rq3]" by (rule test_engine_events)
  obtain r w sc res where e: "js_get (executions test_engine) ''W'' = Some r" "run_stage r = Ended res"
    "js_get (activeWorkflows test_engine) ''W'' = Some w" "wx_status w = Wf_Failed" "js_get (stepContexts test_engine) ''W'' = Some sc"
    by (rule test_engine_ended)
  have h: "completions (history test_engine ''W'') = [''a'']" "compensated (history test_engine ''W'') \<noteq> []"
    by (simp_all add: history_def ev completions_def compensated_def)
  have "compensated (history test_engine ''W'') = filter (\<lambda>n. compensation_request (run_dag r) sc n \<noteq> None) (rev [''a''])"
    using compensation_exact [OF test_engine_reachable e(1,2,3,5)] e(4) h(1) by simp
  then show ?thesis using h by (auto split: if_splits)
qed

theorem ended_workflow_final_witness:
  "getWorkflowStatus (foldl (wf_step test_env None) test_engine [CancelWorkflow ''W'' None 9]) ''W'' None = Some RUN_FAILED"
proof -
  obtain r w sc res where e: "js_get (executions test_engine) ''W'' = Some r" "run_stage r = Ended res"
    "js_get (activeWorkflows test_engine) ''W'' = Some w" "wx_status w = Wf_Failed" by (rule test_engine_ended)
  have "getWorkflowStatus test_engine ''W'' None = Some RUN_FAILED" using e(3,4) by (simp add: getWorkflowStatus_def)
  then show ?thesis
    using ended_workflow_final [OF test_engine_reachable e(1,2), of "[CancelWorkflow ''W'' None 9]" None] by metis
qed

definition test_full :: engine where
  "test_full = engine_start 1 50 [''W''] [(''W'', new_workflow test_env test_workflow 5)] 10"

theorem workflow_slots_never_freed_witness:
  "\<exists>ec. executeWorkflow test_env (foldl (wf_step test_env None) test_full [CancelWorkflow ''W'' None 11]) (test_workflow\<lparr>workflowId := ''V''\<rparr>) None test_tick 12 =
    (foldl (wf_step test_env None) test_full [CancelWorkflow ''W'' None 11], Some (failure ec))"
proof -
  have "maxActiveWorkflows test_full \<le> length (activeWorkflows test_full)" by code_simp
  then show ?thesis by (rule workflow_slots_never_freed)
qed

end
