(* ===== verification/Js_Regex.thy ===== *)
theory Js_Regex
  imports Js_Text "HOL-Library.Sublist"
begin

text \<open>
  The regular expressions of JavaScript, as far as the sources use them: character classes, sequence, alternative, greedy and lazy
  iteration and the assertions \<open>\b\<close>, \<open>(?!r)\<close> and \<open>$\<close>. A position is the character before it, if any, and the text that follows. The
  matcher returns the positions at which a match may end in the order in which backtracking tries them, so
  that the first one is the match the language defines.

  Proved: the matcher finds exactly the words of the language of the expression; a global replacement leaves no word of the language
  behind, and does not create words of another language, if what it inserts is fenced by characters that these words do not
  have.
\<close>

section \<open>Expressions and the matcher\<close>

datatype regex =
    Cls "char \<Rightarrow> bool"
  | Eps
  | Seq regex regex
  | Alt regex regex
  | Star regex
  | LazyStar regex
  | WordBoundary
  | NotAhead regex
  | AtEnd

type_synonym position = "char option \<times> string"

text \<open>Iterations that consume nothing are not continued, as the language demands.\<close>

function iterate :: "(position \<Rightarrow> position list) \<Rightarrow> position \<Rightarrow> position list" where
  "iterate f p =
     concat (map (\<lambda>q. if length (snd q) < length (snd p) then iterate f q else []) (f p)) @ [p]"
  by pat_completeness auto
termination by (relation "measure (\<lambda>(f, p). length (snd p))") auto

function iterate_lazy :: "(position \<Rightarrow> position list) \<Rightarrow> position \<Rightarrow> position list" where
  "iterate_lazy f p =
     p # concat (map (\<lambda>q. if length (snd q) < length (snd p) then iterate_lazy f q else []) (f p))"
  by pat_completeness auto
termination by (relation "measure (\<lambda>(f, p). length (snd p))") auto

declare iterate.simps [simp del] iterate_lazy.simps [simp del]

definition word_char :: "char \<Rightarrow> bool" where
  "word_char c \<longleftrightarrow> (let n = of_char c :: nat in 48 \<le> n \<and> n \<le> 57 \<or> 65 \<le> n \<and> n \<le> 90 \<or> 97 \<le> n \<and> n \<le> 122 \<or> n = 95)"

definition at_boundary :: "position \<Rightarrow> bool" where
  "at_boundary p \<longleftrightarrow>
     (case fst p of None \<Rightarrow> False | Some c \<Rightarrow> word_char c) \<noteq> (case snd p of [] \<Rightarrow> False | c # _ \<Rightarrow> word_char c)"

primrec matches :: "regex \<Rightarrow> position \<Rightarrow> position list" where
  "matches (Cls P) = (\<lambda>p. case snd p of c # cs \<Rightarrow> if P c then [(Some c, cs)] else [] | [] \<Rightarrow> [])"
| "matches Eps = (\<lambda>p. [p])"
| "matches (Seq r1 r2) = (\<lambda>p. concat (map (matches r2) (matches r1 p)))"
| "matches (Alt r1 r2) = (\<lambda>p. matches r1 p @ matches r2 p)"
| "matches (Star r) = iterate (matches r)"
| "matches (LazyStar r) = iterate_lazy (matches r)"
| "matches WordBoundary = (\<lambda>p. if at_boundary p then [p] else [])"
| "matches (NotAhead r) = (\<lambda>p. if matches r p = [] then [p] else [])"
| "matches AtEnd = (\<lambda>p. if snd p = [] then [p] else [])"

text \<open>Literals, counted repetitions and the flag \<open>i\<close>.\<close>

primrec lit :: "string \<Rightarrow> regex" where
  "lit [] = Eps"
| "lit (c # cs) = Seq (Cls (\<lambda>x. x = c)) (lit cs)"

primrec exactly :: "nat \<Rightarrow> regex \<Rightarrow> regex" where
  "exactly 0 r = Eps"
| "exactly (Suc n) r = Seq r (exactly n r)"

definition at_least :: "nat \<Rightarrow> regex \<Rightarrow> regex" where
  "at_least n r = Seq (exactly n r) (Star r)"

definition opt :: "regex \<Rightarrow> regex" where
  "opt r = Alt r Eps"

primrec one_of :: "regex list \<Rightarrow> regex" where
  "one_of [] = Cls (\<lambda>_. False)"
| "one_of (r # rs) = (if rs = [] then r else Alt r (one_of rs))"

primrec in_order :: "regex list \<Rightarrow> regex" where
  "in_order [] = Eps"
| "in_order (r # rs) = (if rs = [] then r else Seq r (in_order rs))"

definition to_upper_char :: "char \<Rightarrow> char" where
  "to_upper_char c = (let n = of_char c :: nat in if 97 \<le> n \<and> n \<le> 122 then char_of (n - 32) else c)"

primrec ignore_case :: "regex \<Rightarrow> regex" where
  "ignore_case (Cls P) = Cls (\<lambda>c. P c \<or> P (to_lower_char c) \<or> P (to_upper_char c))"
| "ignore_case Eps = Eps"
| "ignore_case (Seq r1 r2) = Seq (ignore_case r1) (ignore_case r2)"
| "ignore_case (Alt r1 r2) = Alt (ignore_case r1) (ignore_case r2)"
| "ignore_case (Star r) = Star (ignore_case r)"
| "ignore_case (LazyStar r) = LazyStar (ignore_case r)"
| "ignore_case WordBoundary = WordBoundary"
| "ignore_case (NotAhead r) = NotAhead (ignore_case r)"
| "ignore_case AtEnd = AtEnd"

section \<open>Test, match and replace\<close>

text \<open>\<open>regex.test(s)\<close>\<close>

fun occurs :: "regex \<Rightarrow> char option \<Rightarrow> string \<Rightarrow> bool" where
  "occurs r b [] \<longleftrightarrow> matches r (b, []) \<noteq> []"
| "occurs r b (c # cs) \<longleftrightarrow> matches r (b, c # cs) \<noteq> [] \<or> occurs r (Some c) cs"

definition re_test :: "regex \<Rightarrow> string \<Rightarrow> bool" where
  "re_test r s \<longleftrightarrow> occurs r None s"

text \<open>\<open>s.match(regex)[0]\<close>: the first match.\<close>

definition matched :: "string \<Rightarrow> position \<Rightarrow> string" where
  "matched s q = take (length s - length (snd q)) s"

fun first_match :: "regex \<Rightarrow> char option \<Rightarrow> string \<Rightarrow> string option" where
  "first_match r b [] = (case matches r (b, []) of [] \<Rightarrow> None | q # _ \<Rightarrow> Some [])"
| "first_match r b (c # cs) =
     (case matches r (b, c # cs) of q # _ \<Rightarrow> Some (matched (c # cs) q) | [] \<Rightarrow> first_match r (Some c) cs)"

definition re_match :: "regex \<Rightarrow> string \<Rightarrow> string option" where
  "re_match r s = first_match r None s"

text \<open>\<open>s.replace(regex, f)\<close> with the flag \<open>g\<close>; \<open>f\<close> gives the replacement for the matched text.\<close>

function replace_from :: "regex \<Rightarrow> (string \<Rightarrow> string) \<Rightarrow> char option \<Rightarrow> string \<Rightarrow> string" where
  "replace_from r f b s =
     (case matches r (b, s) of
        (b', s') # _ \<Rightarrow>
          if length s' < length s then f (matched s (b', s')) @ replace_from r f b' s'
          else f [] @ (case s of [] \<Rightarrow> [] | c # cs \<Rightarrow> c # replace_from r f (Some c) cs)
      | [] \<Rightarrow> (case s of [] \<Rightarrow> [] | c # cs \<Rightarrow> c # replace_from r f (Some c) cs))"
  by pat_completeness auto
termination by (relation "measure (\<lambda>(r, f, b, s). length s)") auto

declare replace_from.simps [simp del]

text \<open>
  The text of group 1 of \<open>(r1)r2\<close> for the matched text \<open>w\<close>. The expressions with groups in the sources have no assertions before the end of
  the match, so that the first way to match \<open>w\<close> is the way in which it was found.
\<close>

definition group1 :: "regex \<Rightarrow> regex \<Rightarrow> string \<Rightarrow> string" where
  "group1 r1 r2 w = (case filter (\<lambda>p. matches r2 p \<noteq> []) (matches r1 (None, w)) of p # _ \<Rightarrow> matched w p | [] \<Rightarrow> [])"

definition re_replace :: "regex \<Rightarrow> (string \<Rightarrow> string) \<Rightarrow> string \<Rightarrow> string" where
  "re_replace r f s = replace_from r f None s"

text \<open>\<open>s.replace(regex, f)\<close> without the flag \<open>g\<close>: only the first match.\<close>

fun replace_once :: "regex \<Rightarrow> (string \<Rightarrow> string) \<Rightarrow> char option \<Rightarrow> string \<Rightarrow> string" where
  "replace_once r f b [] = (case matches r (b, []) of [] \<Rightarrow> [] | q # _ \<Rightarrow> f [])"
| "replace_once r f b (c # cs) =
     (case matches r (b, c # cs) of
        q # _ \<Rightarrow> f (matched (c # cs) q) @ snd q
      | [] \<Rightarrow> c # replace_once r f (Some c) cs)"

definition re_replace_first :: "regex \<Rightarrow> (string \<Rightarrow> string) \<Rightarrow> string \<Rightarrow> string" where
  "re_replace_first r f s = replace_once r f None s"

section \<open>The language of an expression\<close>

text \<open>Expressions without assertions.\<close>

primrec plain :: "regex \<Rightarrow> bool" where
  "plain (Cls P) \<longleftrightarrow> True"
| "plain Eps \<longleftrightarrow> True"
| "plain (Seq r1 r2) \<longleftrightarrow> plain r1 \<and> plain r2"
| "plain (Alt r1 r2) \<longleftrightarrow> plain r1 \<and> plain r2"
| "plain (Star r) \<longleftrightarrow> plain r"
| "plain (LazyStar r) \<longleftrightarrow> plain r"
| "plain WordBoundary \<longleftrightarrow> False"
| "plain (NotAhead r) \<longleftrightarrow> False"
| "plain AtEnd \<longleftrightarrow> False"

inductive word_of :: "regex \<Rightarrow> string \<Rightarrow> bool" where
  cls: "P c \<Longrightarrow> word_of (Cls P) [c]"
| eps: "word_of Eps []"
| seq: "word_of r1 u \<Longrightarrow> word_of r2 v \<Longrightarrow> word_of (Seq r1 r2) (u @ v)"
| alt1: "word_of r1 u \<Longrightarrow> word_of (Alt r1 r2) u"
| alt2: "word_of r2 u \<Longrightarrow> word_of (Alt r1 r2) u"
| star0: "word_of (Star r) []"
| star: "word_of r u \<Longrightarrow> word_of (Star r) v \<Longrightarrow> word_of (Star r) (u @ v)"
| lazy0: "word_of (LazyStar r) []"
| lazy: "word_of r u \<Longrightarrow> word_of (LazyStar r) v \<Longrightarrow> word_of (LazyStar r) (u @ v)"

inductive_simps word_of_simps [simp]:
  "word_of (Cls P) w" "word_of Eps w" "word_of (Seq r1 r2) w" "word_of (Alt r1 r2) w" "word_of WordBoundary w"

text \<open>The position after consuming \<open>w\<close>.\<close>

definition advance :: "char option \<Rightarrow> string \<Rightarrow> char option" where
  "advance b w = (if w = [] then b else Some (last w))"

lemma advance_simps [simp]: "advance b [] = b" "advance b [c] = Some c" "advance (advance b u) v = advance b (u @ v)"
  by (auto simp: advance_def)

definition exact :: "(position \<Rightarrow> position list) \<Rightarrow> (string \<Rightarrow> bool) \<Rightarrow> bool" where
  "exact f L \<longleftrightarrow> (\<forall>b s q. q \<in> set (f (b, s)) \<longleftrightarrow> (\<exists>w t. s = w @ t \<and> L w \<and> q = (advance b w, t)))"

lemma exactD: "exact f L \<Longrightarrow> q \<in> set (f (b, s)) \<longleftrightarrow> (\<exists>w t. s = w @ t \<and> L w \<and> q = (advance b w, t))"
  unfolding exact_def by blast

lemma iterate_sound:
  assumes "exact f (word_of r)"
  shows "q \<in> set (iterate f (b, s)) \<Longrightarrow> \<exists>w t. s = w @ t \<and> word_of (Star r) w \<and> q = (advance b w, t)"
proof (induction "(b, s)" arbitrary: b s rule: measure_induct_rule [of "\<lambda>p. length (snd p)"])
  case (less b s)
  then consider "q = (b, s)" | p where "p \<in> set (f (b, s))" "length (snd p) < length s" "q \<in> set (iterate f p)"
    by (subst (asm) iterate.simps) (auto split: if_splits)
  then show ?case
  proof cases
    case 1
    then show ?thesis by (auto intro: word_of.star0 exI [of _ "[]"])
  next
    case 2
    then obtain u t where p: "s = u @ t" "word_of r u" "p = (advance b u, t)" using exactD [OF assms] by blast
    then obtain v t' where "t = v @ t'" "word_of (Star r) v" "q = (advance (advance b u) v, t')"
      using less.hyps [of "advance b u" t] 2 by auto
    then show ?thesis using p by (intro exI [of _ "u @ v"] exI [of _ t']) (simp add: word_of.star)
  qed
qed

lemma iterate_complete:
  assumes "exact f (word_of r)" "word_of x w" "x = Star r"
  shows "(advance b w, t) \<in> set (iterate f (b, w @ t))"
  using assms(2,3)
proof (induction arbitrary: b)
  case (star0 r')
  then show ?case by (subst iterate.simps) simp
next
  case (star r' u v)
  show ?case
  proof (cases "u = []")
    case True
    then show ?thesis using star by simp
  next
    case False
    have "(advance b u, v @ t) \<in> set (f (b, (u @ v) @ t))" using star.hyps(1) star.prems by (auto simp: exactD [OF assms(1)])
    then show ?thesis
      using star.IH(2) [OF star.prems, of "advance b u"] False by (subst iterate.simps) force
  qed
qed auto

lemma set_iterate_lazy: "set (iterate_lazy f p) = set (iterate f p)"
proof (induction p rule: measure_induct_rule [of "\<lambda>p. length (snd p)"])
  case (less p)
  then show ?case by (subst iterate.simps, subst iterate_lazy.simps) auto
qed

lemma word_of_lazy: "word_of (LazyStar r) w \<longleftrightarrow> word_of (Star r) w"
proof
  show "word_of (LazyStar r) w \<Longrightarrow> word_of (Star r) w"
    by (induction "LazyStar r" w rule: word_of.induct) (auto intro: word_of.intros)
  show "word_of (Star r) w \<Longrightarrow> word_of (LazyStar r) w"
    by (induction "Star r" w rule: word_of.induct) (auto intro: word_of.intros)
qed

lemma exact_iterate: "exact f (word_of r) \<Longrightarrow> exact (iterate f) (word_of (Star r))"
  unfolding exact_def [of "iterate f"] using iterate_sound iterate_complete by blast

lemma exact_matches: "plain r \<Longrightarrow> exact (matches r) (word_of r)"
proof (induction r)
  case (Cls P)
  have "q \<in> set (matches (Cls P) (b, s)) \<longleftrightarrow> (\<exists>w t. s = w @ t \<and> word_of (Cls P) w \<and> q = (advance b w, t))" for b s q
    by (cases s) (auto simp: Cons_eq_append_conv)
  then show ?case unfolding exact_def by blast
next
  case (Seq r1 r2)
  then have r: "exact (matches r1) (word_of r1)" "exact (matches r2) (word_of r2)" by auto
  show ?case unfolding exact_def
  proof (intro allI iffI)
    fix b s q
    assume "q \<in> set (matches (Seq r1 r2) (b, s))"
    then obtain p where p: "p \<in> set (matches r1 (b, s))" "q \<in> set (matches r2 p)" by auto
    then obtain u t where "s = u @ t" "word_of r1 u" "p = (advance b u, t)" unfolding exactD [OF r(1)] by blast
    moreover from this p obtain v t' where "t = v @ t'" "word_of r2 v" "q = (advance (advance b u) v, t')"
      using exactD [OF r(2)] by blast
    ultimately show "\<exists>w t. s = w @ t \<and> word_of (Seq r1 r2) w \<and> q = (advance b w, t)"
      by (intro exI [of _ "u @ v"] exI [of _ t']) auto
  next
    fix b s q
    assume "\<exists>w t. s = w @ t \<and> word_of (Seq r1 r2) w \<and> q = (advance b w, t)"
    then obtain u v t where w: "s = u @ v @ t" "word_of r1 u" "word_of r2 v" "q = (advance b (u @ v), t)" by auto
    have "(advance b u, v @ t) \<in> set (matches r1 (b, s))" using w exactD [OF r(1)] by blast
    moreover have "q \<in> set (matches r2 (advance b u, v @ t))" unfolding exactD [OF r(2)] using w by auto
    ultimately show "q \<in> set (matches (Seq r1 r2) (b, s))" by auto
  qed
next
  case (LazyStar r)
  then show ?case using exact_iterate [of "matches r" r] by (simp add: exact_def set_iterate_lazy word_of_lazy)
next
  case (Alt r1 r2)
  then show ?case by (auto simp: exact_def)
next
  case (Star r)
  then show ?case using exact_iterate [of "matches r" r] by simp
qed (auto simp: exact_def)

text \<open>Characters that may occur in a word, and the least length of a word.\<close>

primrec admits :: "regex \<Rightarrow> char \<Rightarrow> bool" where
  "admits (Cls P) c \<longleftrightarrow> P c"
| "admits Eps c \<longleftrightarrow> False"
| "admits (Seq r1 r2) c \<longleftrightarrow> admits r1 c \<or> admits r2 c"
| "admits (Alt r1 r2) c \<longleftrightarrow> admits r1 c \<or> admits r2 c"
| "admits (Star r) c \<longleftrightarrow> admits r c"
| "admits (LazyStar r) c \<longleftrightarrow> admits r c"
| "admits WordBoundary c \<longleftrightarrow> False"
| "admits (NotAhead r) c \<longleftrightarrow> False"
| "admits AtEnd c \<longleftrightarrow> False"

primrec min_length :: "regex \<Rightarrow> nat" where
  "min_length (Cls P) = 1"
| "min_length Eps = 0"
| "min_length (Seq r1 r2) = min_length r1 + min_length r2"
| "min_length (Alt r1 r2) = min (min_length r1) (min_length r2)"
| "min_length (Star r) = 0"
| "min_length (LazyStar r) = 0"
| "min_length WordBoundary = 0"
| "min_length (NotAhead r) = 0"
| "min_length AtEnd = 0"

lemma word_of_admits: "word_of r w \<Longrightarrow> c \<in> set w \<Longrightarrow> admits r c"
  by (induction rule: word_of.induct) auto

lemma word_of_length: "word_of r w \<Longrightarrow> min_length r \<le> length w"
  by (induction rule: word_of.induct) auto

lemma word_of_ignore_case: "word_of r w \<Longrightarrow> word_of (ignore_case r) w"
  by (induction rule: word_of.induct) (auto intro: word_of.intros)

text \<open>The derived expressions.\<close>

lemma lit_simps [simp]:
  "plain (lit v)" "admits (lit v) c \<longleftrightarrow> c \<in> set v" "min_length (lit v) = length v" "word_of (lit v) w \<longleftrightarrow> w = v"
  by (induction v arbitrary: w) auto

lemma repeat_simps [simp]:
  "plain (exactly n r) \<longleftrightarrow> n = 0 \<or> plain r" "admits (exactly n r) c \<longleftrightarrow> 0 < n \<and> admits r c"
  "min_length (exactly n r) = n * min_length r"
  "plain (at_least n r) \<longleftrightarrow> plain r" "admits (at_least n r) c \<longleftrightarrow> admits r c" "min_length (at_least n r) = n * min_length r"
proof -
  show e: "plain (exactly n r) \<longleftrightarrow> n = 0 \<or> plain r" "admits (exactly n r) c \<longleftrightarrow> 0 < n \<and> admits r c"
    "min_length (exactly n r) = n * min_length r" by (induction n) auto
  then show "plain (at_least n r) \<longleftrightarrow> plain r" "admits (at_least n r) c \<longleftrightarrow> admits r c" "min_length (at_least n r) = n * min_length r"
    by (auto simp: at_least_def)
qed

lemma opt_simps [simp]:
  "plain (opt r) \<longleftrightarrow> plain r" "admits (opt r) c \<longleftrightarrow> admits r c" "min_length (opt r) = 0"
  by (auto simp: opt_def)

lemma in_order_simps [simp]:
  "plain (in_order rs) \<longleftrightarrow> list_all plain rs" "admits (in_order rs) c \<longleftrightarrow> list_ex (\<lambda>r. admits r c) rs"
  "min_length (in_order rs) = sum_list (map min_length rs)"
  by (induction rs) auto

lemma one_of_simps [simp]:
  "plain (one_of rs) \<longleftrightarrow> list_all plain rs" "admits (one_of rs) c \<longleftrightarrow> list_ex (\<lambda>r. admits r c) rs"
  by (induction rs) auto

lemma admits_ignore_case [simp]:
  "admits (ignore_case r) c \<longleftrightarrow> admits r c \<or> admits r (to_lower_char c) \<or> admits r (to_upper_char c)"
  by (induction r) auto

declare lit.simps [simp del] exactly.simps [simp del] in_order.simps [simp del] one_of.simps [simp del]

section \<open>Occurrences\<close>

definition has_word :: "regex \<Rightarrow> string \<Rightarrow> bool" where
  "has_word r s \<longleftrightarrow> (\<exists>x w y. s = x @ w @ y \<and> word_of r w)"

lemma matches_none: "plain r \<Longrightarrow> matches r (b, s) = [] \<longleftrightarrow> (\<nexists>w t. s = w @ t \<and> word_of r w)"
  using exactD [OF exact_matches, of r _ b s] by (metis empty_set equals0D set_empty subsetI subset_empty)

lemma has_word_Cons: "has_word r (c # s) \<longleftrightarrow> (\<exists>w t. c # s = w @ t \<and> word_of r w) \<or> has_word r s"
proof
  assume "has_word r (c # s)"
  then obtain x w y where "c # s = x @ w @ y" "word_of r w" by (auto simp: has_word_def)
  then show "(\<exists>w t. c # s = w @ t \<and> word_of r w) \<or> has_word r s"
    by (cases x) (auto simp: has_word_def)
next
  assume "(\<exists>w t. c # s = w @ t \<and> word_of r w) \<or> has_word r s"
  then show "has_word r (c # s)" unfolding has_word_def by (metis append_Cons append_Nil)
qed

lemma occurs_has_word: "plain r \<Longrightarrow> occurs r b s \<longleftrightarrow> has_word r s"
  by (induction s arbitrary: b) (simp_all add: matches_none has_word_Cons, simp add: has_word_def)

lemma re_test_iff: "plain r \<Longrightarrow> re_test r s \<longleftrightarrow> has_word r s"
  by (simp add: re_test_def occurs_has_word)

lemma has_word_ignore_case: "has_word r s \<Longrightarrow> has_word (ignore_case r) s"
  unfolding has_word_def using word_of_ignore_case by blast

lemma has_word_part: "has_word r s \<Longrightarrow> has_word r (u @ s @ v)"
  unfolding has_word_def by (metis append.assoc)

lemma plain_ignore_case [simp]: "plain (ignore_case r) \<longleftrightarrow> plain r"
  by (induction r) auto

lemma min_length_ignore_case [simp]: "min_length (ignore_case r) = min_length r"
  by (induction r) auto

section \<open>What a replacement leaves\<close>

lemma replace_from_Nil: "matches r (b, []) = [] \<Longrightarrow> replace_from r f b [] = []"
  by (subst replace_from.simps) simp

lemma replace_none: "\<not> occurs r b s \<Longrightarrow> replace_from r f b s = s"
  by (induction s arbitrary: b) (auto simp: replace_from.simps split: list.splits)

lemma replace_at_match:
  "matches r (b, s) = (b', s') # qs \<Longrightarrow> length s' < length s \<Longrightarrow>
     replace_from r f b s = f (matched s (b', s')) @ replace_from r f b' s'"
  by (subst replace_from.simps) simp

lemma replace_skip: "matches r (b, c # cs) = [] \<Longrightarrow> replace_from r f b (c # cs) = c # replace_from r f (Some c) cs"
  by (subst replace_from.simps) simp

lemma match_shorter:
  assumes "plain r" "0 < min_length r" "matches r (b, s) = (b', s') # qs"
  shows "length s' < length s" "word_of r (matched s (b', s'))" "s = matched s (b', s') @ s'"
proof -
  have "(b', s') \<in> set (matches r (b, s))" by (simp add: assms(3))
  then obtain w where w: "s = w @ s'" "word_of r w" unfolding exactD [OF exact_matches [OF assms(1)]] by auto
  then show "length s' < length s" "word_of r (matched s (b', s'))" "s = matched s (b', s') @ s'"
    using word_of_length [OF w(2)] assms(2) by (auto simp: matched_def)
qed

text \<open>
  A replacement is fenced against \<open>q\<close> when what it inserts begins and ends with characters that no word of \<open>q\<close> has,
  and contains no word of \<open>q\<close> itself.
\<close>

definition fenced :: "regex \<Rightarrow> regex \<Rightarrow> (string \<Rightarrow> string) \<Rightarrow> bool" where
  "fenced r q f \<longleftrightarrow>
     (\<forall>w. word_of r w \<longrightarrow> f w \<noteq> [] \<and> \<not> admits q (hd (f w)) \<and> \<not> admits q (last (f w)) \<and> \<not> has_word q (f w))"

lemma replaced_prefix:
  assumes "plain r" "0 < min_length r" "fenced r q f" "\<forall>c \<in> set w. admits q c"
  shows "replace_from r f b s = w @ y \<Longrightarrow> w \<noteq> [] \<Longrightarrow> matches r (b, s) = [] \<and> (\<exists>t. s = w @ t)"
  using assms(4)
proof (induction w arbitrary: b s y)
  case (Cons c w)
  show ?case
  proof (cases "matches r (b, s)")
    case Nil
    then obtain cs where s: "s = c # cs" "replace_from r f (Some c) cs = w @ y"
      using Cons.prems(1) by (cases s) (auto simp: replace_skip replace_from_Nil)
    then show ?thesis using Cons.IH [of "Some c" cs y] Cons.prems(3) Nil by (cases "w = []") auto
  next
    case (Cons p ps)
    obtain b' s' where p: "p = (b', s')" by force
    note m = match_shorter [OF assms(1,2) Cons [unfolded p]]
    have "f (matched s (b', s')) @ replace_from r f b' s' = (c # w) @ y"
      using replace_at_match [OF Cons [unfolded p] m(1)] Cons.prems(1) by simp
    then have "hd (f (matched s (b', s'))) = c"
      using m(2) assms(3) unfolding fenced_def by (metis append_Cons hd_append2 list.sel(1))
    then show ?thesis using m(2) assms(3) Cons.prems(3) unfolding fenced_def by auto
  qed
qed simp

lemma append_fence:
  assumes "u @ v = x @ w @ y" "\<forall>c \<in> set w. c \<noteq> last u" "u \<noteq> []" "w \<noteq> []"
  shows "(\<exists>x'. v = x' @ w @ y) \<or> (\<exists>z. u = x @ w @ z)"
proof -
  obtain us where "u = x @ us \<and> us @ v = w @ y \<or> u @ us = x \<and> v = us @ w @ y"
    using assms(1) append_eq_append_conv2 by metis
  then consider (inside) "u = x @ us" "us @ v = w @ y" | (after) "v = us @ w @ y" by blast
  then show ?thesis
  proof cases
    case inside
    obtain zs where zs: "us = w @ zs \<or> us @ zs = w" using inside(2) append_eq_append_conv2 by metis
    have "us = []" if "us @ zs = w" using that inside(1) assms(2,3) by (cases "us = []") auto
    then show ?thesis using zs inside by (metis append_Nil)
  qed blast
qed

lemma replaced_word:
  assumes "plain r" "0 < min_length r" "fenced r q f" "word_of q w" "w \<noteq> []"
  shows "replace_from r f b s = x @ w @ y \<Longrightarrow> \<exists>b' u v. s = u @ w @ v \<and> matches r (b', w @ v) = []"
proof (induction s arbitrary: b x rule: measure_induct_rule [of length])
  case (less s)
  have w: "\<forall>c \<in> set w. admits q c" using word_of_admits [OF assms(4)] by blast
  show ?case
  proof (cases "matches r (b, s)")
    case Nil
    show ?thesis
    proof (cases x)
      case Nil': Nil
      then show ?thesis using replaced_prefix [OF assms(1-3) w, of b s y] less.prems assms(5) Nil
        by (metis append_Nil)
    next
      case (Cons c x')
      then obtain cs where s: "s = c # cs" "replace_from r f (Some c) cs = x' @ w @ y"
        using less.prems Nil by (cases s) (auto simp: replace_skip replace_from_Nil)
      then show ?thesis using less.IH [of cs "Some c" x'] by (metis append_Cons length_Cons lessI)
    qed
  next
    case (Cons p ps)
    obtain b' s' where p: "p = (b', s')" by force
    note m = match_shorter [OF assms(1,2) Cons [unfolded p]]
    let ?u = "f (matched s (b', s'))"
    have u: "?u \<noteq> []" "\<not> admits q (last ?u)" "\<not> has_word q ?u" using m(2) assms(3) by (auto simp: fenced_def)
    have "?u @ replace_from r f b' s' = x @ w @ y"
      using replace_at_match [OF Cons [unfolded p] m(1)] less.prems by simp
    moreover have "\<forall>c \<in> set w. c \<noteq> last ?u" using w u(2) by auto
    ultimately have "(\<exists>x'. replace_from r f b' s' = x' @ w @ y) \<or> (\<exists>z. ?u = x @ w @ z)"
      using append_fence u(1) assms(5) by blast
    then obtain x' where "replace_from r f b' s' = x' @ w @ y" using u(3) assms(4) by (auto simp: has_word_def)
    then obtain b'' u v where "s' = u @ w @ v" "matches r (b'', w @ v) = []" using less.IH [OF m(1)] by blast
    then show ?thesis using m(3) by (metis append.assoc)
  qed
qed

text \<open>Words of the language of the pattern are gone, and words of other languages are not created.\<close>

lemma replaced_gone:
  assumes "plain r" "0 < min_length r" "fenced r r f"
  shows "\<not> has_word r (re_replace r f s)"
proof
  assume "has_word r (re_replace r f s)"
  then obtain x w y where w: "replace_from r f None s = x @ w @ y" "word_of r w" by (auto simp: has_word_def re_replace_def)
  moreover have "w \<noteq> []" using word_of_length [OF w(2)] assms(2) by auto
  ultimately show False using replaced_word [OF assms] matches_none [OF assms(1)] by blast
qed

lemma replaced_not_created:
  assumes "plain r" "0 < min_length r" "fenced r q f" "0 < min_length q" "\<not> has_word q s"
  shows "\<not> has_word q (re_replace r f s)"
proof
  assume "has_word q (re_replace r f s)"
  then obtain x w y where w: "replace_from r f None s = x @ w @ y" "word_of q w" by (auto simp: has_word_def re_replace_def)
  moreover have "w \<noteq> []" using word_of_length [OF w(2)] assms(4) by auto
  ultimately show False using replaced_word [OF assms(1-3)] assms(5) unfolding has_word_def by metis
qed

lemma replace_unchanged: "plain r \<Longrightarrow> \<not> has_word r s \<Longrightarrow> re_replace r f s = s"
  by (simp add: re_replace_def replace_none occurs_has_word)

text \<open>
  Edits that keep a part of the matched text: what is inserted is fenced against \<open>q\<close>. They do not create words of \<open>q\<close>.
\<close>

definition fence :: "regex \<Rightarrow> string \<Rightarrow> bool" where
  "fence q i \<longleftrightarrow> i \<noteq> [] \<and> \<not> admits q (hd i) \<and> \<not> admits q (last i) \<and> \<not> has_word q i"

inductive edited :: "regex \<Rightarrow> string \<Rightarrow> string \<Rightarrow> bool" for q where
  same: "edited q [] []"
| keep: "edited q s t \<Longrightarrow> edited q (c # s) (c # t)"
| ins: "edited q s t \<Longrightarrow> fence q i \<Longrightarrow> edited q (m @ s) (i @ t)"

text \<open>A text that is too short for a word between its fences.\<close>

lemma fence_short:
  assumes "\<not> admits q (hd i)" "\<not> admits q (last i)" "length i < min_length q + 2" "2 \<le> length i"
  shows "fence q i"
proof -
  have "\<not> has_word q i"
  proof
    assume "has_word q i"
    then obtain x w y where w: "i = x @ w @ y" "word_of q w" by (auto simp: has_word_def)
    have len: "min_length q \<le> length w" using word_of_length [OF w(2)] .
    have "w \<noteq> []" using len assms(3,4) by auto
    then have "x \<noteq> []" "y \<noteq> []" using w assms(1,2) word_of_admits [OF w(2)] by auto
    then have "length w + 2 \<le> length i" using w(1) by (cases x; cases y) auto
    then show False using len assms(3) by linarith
  qed
  then show ?thesis using assms by (auto simp: fence_def)
qed

lemma edited_refl: "edited q s s"
  by (induction s) (auto intro: edited.intros)

lemma edited_append: "edited q s t \<Longrightarrow> edited q s' t' \<Longrightarrow> edited q (s @ s') (t @ t')"
  by (induction rule: edited.induct) (auto intro: edited.keep edited.ins [of q _ _ _ _, simplified])

lemma edited_prefix:
  "edited q s t \<Longrightarrow> t = w @ y \<Longrightarrow> \<forall>c \<in> set w. admits q c \<Longrightarrow> \<exists>v. s = w @ v"
proof (induction arbitrary: w rule: edited.induct)
  case (keep s t c)
  then show ?case by (cases w) auto
next
  case (ins s t i m)
  then show ?case by (cases w; cases i) (auto simp: fence_def)
qed auto

lemma edited_word:
  assumes "word_of q w" "w \<noteq> []"
  shows "edited q s t \<Longrightarrow> t = x @ w @ y \<Longrightarrow> \<exists>u v. s = u @ w @ v"
proof (induction arbitrary: x rule: edited.induct)
  case same
  then show ?case using assms(2) by simp
next
  case (keep s t c)
  have w: "\<forall>c \<in> set w. admits q c" using word_of_admits [OF assms(1)] by blast
  show ?case
  proof (cases x)
    case Nil
    then show ?thesis using edited_prefix [OF edited.keep [OF keep.hyps] _ w] keep.prems by (metis append_Nil)
  next
    case (Cons d x')
    then show ?thesis using keep.IH [of x'] keep.prems by (metis append_Cons list.inject)
  qed
next
  case (ins s t i m)
  have "\<forall>c \<in> set w. c \<noteq> last i" using word_of_admits [OF assms(1)] ins.hyps(2) by (auto simp: fence_def)
  then have "(\<exists>x'. t = x' @ w @ y) \<or> (\<exists>z. i = x @ w @ z)"
    using append_fence [OF ins.prems] ins.hyps(2) assms(2) by (simp add: fence_def)
  moreover have "\<nexists>z. i = x @ w @ z" using ins.hyps(2) assms(1) by (auto simp: fence_def has_word_def)
  ultimately show ?case using ins.IH by (metis append.assoc)
qed

lemma edited_no_word:
  assumes "edited q s t" "0 < min_length q" "\<not> has_word q s"
  shows "\<not> has_word q t"
proof
  assume "has_word q t"
  then obtain x w y where w: "t = x @ w @ y" "word_of q w" by (auto simp: has_word_def)
  have "w \<noteq> []" using word_of_length [OF w(2)] assms(2) by auto
  then show False using edited_word [OF w(2) _ assms(1) w(1)] w(2) assms(3) unfolding has_word_def by blast
qed

lemma iterate_suffix:
  assumes "\<And>p q. q \<in> set (f p) \<Longrightarrow> suffix (snd q) (snd p)"
  shows "q \<in> set (iterate f p) \<Longrightarrow> suffix (snd q) (snd p)"
proof (induction p rule: measure_induct_rule [of "\<lambda>p. length (snd p)"])
  case (less p)
  then consider "q = p" | p' where "p' \<in> set (f p)" "length (snd p') < length (snd p)" "q \<in> set (iterate f p')"
    by (subst (asm) iterate.simps) (auto split: if_splits)
  then show ?case using less.IH assms suffix_order.trans by cases blast+
qed

lemma matches_suffix: "q \<in> set (matches r p) \<Longrightarrow> suffix (snd q) (snd p)"
proof (induction r arbitrary: p q)
  case (Seq r1 r2)
  then obtain p' where "p' \<in> set (matches r1 p)" "q \<in> set (matches r2 p')" by auto
  then show ?case using Seq.IH suffix_order.trans by blast
next
  case (Star r)
  then show ?case using iterate_suffix [of "matches r"] by simp
next
  case (LazyStar r)
  then show ?case using iterate_suffix [of "matches r"] by (simp add: set_iterate_lazy)
qed (auto simp: suffix_def split: list.splits if_splits)

lemma matched_suffix:
  assumes "matches r (b, s) = (b', s') # qs"
  shows "s = matched s (b', s') @ s'"
proof -
  have "suffix s' s" using matches_suffix [of "(b', s')" r "(b, s)"] assms by simp
  then show ?thesis by (auto simp: suffix_def matched_def)
qed

lemma edited_replace:
  assumes "\<And>b s b' s'. (b', s') \<in> set (matches r (b, s)) \<Longrightarrow> edited q (matched s (b', s')) (f (matched s (b', s')))"
  shows "edited q s (replace_from r f b s)"
proof (induction s arbitrary: b rule: measure_induct_rule [of length])
  case (less s)
  have skip: "edited q s (case s of [] \<Rightarrow> [] | c # cs \<Rightarrow> c # replace_from r f (Some c) cs)"
    using less by (cases s) (auto intro: edited.intros)
  show ?case
  proof (cases "matches r (b, s)")
    case Nil
    then show ?thesis using skip by (subst replace_from.simps) simp
  next
    case (Cons p ps)
    obtain b' s' where p: "p = (b', s')" by force
    note s = matched_suffix [OF Cons [unfolded p]]
    have e: "edited q (matched s (b', s')) (f (matched s (b', s')))" using assms Cons p by (metis list.set_intros(1))
    show ?thesis
    proof (cases "length s' < length s")
      case True
      then show ?thesis using edited_append [OF e less.IH [OF True, of b']] s replace_at_match [OF Cons [unfolded p]] by metis
    next
      case False
      then have "matched s (b', s') = []" by (simp add: matched_def)
      then show ?thesis using edited_append [OF e skip] False Cons p by (subst replace_from.simps) simp
    qed
  qed
qed

lemma edited_replace_any: "(\<And>w. edited q w (f w)) \<Longrightarrow> edited q s (re_replace r f s)"
  unfolding re_replace_def by (rule edited_replace)

lemma edited_replace_words:
  assumes "plain r" "\<And>w. word_of r w \<Longrightarrow> edited q w (f w)"
  shows "edited q s (re_replace r f s)"
  unfolding re_replace_def
proof (rule edited_replace)
  fix b s b' s'
  assume "(b', s') \<in> set (matches r (b, s))"
  then obtain w where "s = w @ s'" "word_of r w" unfolding exactD [OF exact_matches [OF assms(1)]] by auto
  then show "edited q (matched s (b', s')) (f (matched s (b', s')))" using assms(2) by (simp add: matched_def)
qed

text \<open>A replacement that marks what it replaces leaves a text without marks unchanged or marked.\<close>

lemma replace_marks: "(\<And>w. c \<in> set (f w)) \<Longrightarrow> replace_from r f b s = s \<or> c \<in> set (replace_from r f b s)"
proof (induction r f b s rule: replace_from.induct)
  case (1 r f b s)
  show ?case
  proof (cases "matches r (b, s)")
    case Nil
    then show ?thesis using "1.IH" "1.prems" by (cases s) (auto simp: replace_from_Nil replace_skip)
  next
    case (Cons p ps)
    then show ?thesis using "1.prems" by (subst (2) replace_from.simps, cases p) auto
  qed
qed

lemma edited_keep_prefix: "fence q i \<Longrightarrow> edited q (g @ m) (g @ i)"
  using edited_append [OF edited_refl edited.ins [OF edited.same]] by simp

lemma edited_keep_both: "fence q i \<Longrightarrow> edited q (g @ m @ h) (g @ i @ h)"
  using edited_append [OF edited_refl edited.ins [OF edited_refl]] by simp

lemma group1_prefix:
  assumes "plain r1"
  shows "\<exists>m. w = group1 r1 r2 w @ m"
proof (cases "filter (\<lambda>p. matches r2 p \<noteq> []) (matches r1 (None, w))")
  case Nil
  then show ?thesis by (simp add: group1_def)
next
  case (Cons p ps)
  then have "p \<in> set (matches r1 (None, w))" by (metis (no_types, lifting) filter_eq_ConsD in_set_conv_decomp)
  then obtain u where "w = u @ snd p" unfolding exactD [OF exact_matches [OF assms]] by auto
  then show ?thesis using Cons by (auto simp: group1_def matched_def)
qed

lemma group1_rest:
  assumes "plain r1" "plain r2" "0 < min_length r2" "w \<noteq> []"
  shows "\<exists>m. w = group1 r1 r2 w @ m \<and> m \<noteq> []"
proof (cases "filter (\<lambda>p. matches r2 p \<noteq> []) (matches r1 (None, w))")
  case Nil
  then show ?thesis using assms(4) by (simp add: group1_def)
next
  case (Cons p ps)
  then have "p \<in> set (filter (\<lambda>p. matches r2 p \<noteq> []) (matches r1 (None, w)))" by simp
  then have p: "p \<in> set (matches r1 (None, w))" "matches r2 p \<noteq> []" by auto
  have "snd p \<noteq> []"
  proof
    assume e: "snd p = []"
    then obtain b where "p = (b, [])" by (cases p) auto
    then obtain u where "word_of r2 u" "u = []" using p(2) matches_none [OF assms(2), of b "[]"] by auto
    then show False using word_of_length assms(3) by fastforce
  qed
  moreover obtain u where "w = u @ snd p" using p(1) unfolding exactD [OF exact_matches [OF assms(1)]] by auto
  ultimately show ?thesis using Cons by (auto simp: group1_def matched_def)
qed

lemma edited_group1: "plain r1 \<Longrightarrow> fence q i \<Longrightarrow> edited q w (group1 r1 r2 w @ i)"
  using group1_prefix edited_keep_prefix by metis

text \<open>The first character of what is left.\<close>

lemma replace_head:
  assumes "s \<noteq> []"
  shows "replace_from r f b s \<noteq> [] \<and> hd (replace_from r f b s) = hd s \<or> (\<exists>w t. replace_from r f b s = f w @ t)"
proof (cases "matches r (b, s)")
  case Nil
  then show ?thesis using assms by (cases s) (auto simp: replace_skip)
next
  case (Cons p ps)
  then show ?thesis by (subst (3) replace_from.simps, cases p) auto
qed

text \<open>Trimming removes nothing inside.\<close>

lemma trim_strips: "\<exists>u v. s = u @ trim s @ v \<and> (\<forall>c \<in> set u \<union> set v. is_ws c)"
proof -
  let ?t = "dropWhile is_ws s"
  have "s = takeWhile is_ws s @ trim s @ rev (takeWhile is_ws (rev ?t))"
    unfolding trim_def by (metis rev_append rev_rev_ident takeWhile_dropWhile_id)
  moreover have "\<forall>c \<in> set (takeWhile is_ws s) \<union> set (rev (takeWhile is_ws (rev ?t))). is_ws c" by (auto dest: set_takeWhileD)
  ultimately show ?thesis by blast
qed

lemma trim_no_word: "\<not> has_word r s \<Longrightarrow> \<not> has_word r (trim s)"
  using trim_strips has_word_part by metis

end
