(* ===== verification/Plan_Graph.thy ===== *)
theory Plan_Graph
  imports Step_Context
begin

text \<open>
  The analysis of planned graphs: the depth and the safety limits of \<open>packages/contracts/src/planner/index.ts\<close> and the
  dependency analyser of the backend, \<open>services/backend/src/planner/dependency-analyzer.ts\<close>.

  The loops that build the graph of \<open>calculateDAGDepth\<close> skip unknown and reflexive edges; they are \<open>link_all\<close> of \<open>Workflow_Dag\<close> on the
  edges that are left. The body of its main loop updates distances and in-degrees independently, here in two loops over the
  children. The recursion of \<open>getAncestors\<close> shares its set \<open>visited\<close> and its memo table; fuel bounds the depth of
  the recursion, and one more than the number of nodes is enough.

  Proved: the computed depth is the length of a longest path; \<open>getAncestors\<close> returns, and returns proper ancestors only, so that an
  accepted plan refers to outputs of ancestors only.
\<close>

section \<open>Depth\<close>

definition MAX_NODES :: nat where "MAX_NODES = 50"
definition MAX_EDGES :: nat where "MAX_EDGES = 100"
definition MAX_DEPTH :: nat where "MAX_DEPTH = 10"
definition MAX_TIMEOUT_MS :: int where "MAX_TIMEOUT_MS = 300000"

type_synonym distances = "(string, nat) jsmap"

text \<open>\<open>distances.get(v) || 0\<close>\<close>

definition distance_of :: "distances \<Rightarrow> string \<Rightarrow> nat" where
  "distance_of dist v = nullish (js_get dist v) 0"

fun relax :: "nat \<Rightarrow> string list \<Rightarrow> distances \<Rightarrow> distances" where
  "relax currDist [] dist = dist"
| "relax currDist (child # rest) dist =
     relax currDist rest (if currDist + 1 > distance_of dist child then js_set child (currDist + 1) dist else dist)"

function depth_loop :: "adjacency \<Rightarrow> distances \<Rightarrow> degrees \<Rightarrow> string list \<Rightarrow> nat \<Rightarrow> nat" where
  "depth_loop adj dist deg [] maxDepth = maxDepth"
| "depth_loop adj dist deg (current # queue) maxDepth =
     (let currDist = (if distance_of dist current = 0 then 1 else distance_of dist current)
      in case visit_children (children_of adj current) deg queue of
           (deg', queue') \<Rightarrow> depth_loop adj (relax currDist (children_of adj current) dist) deg' queue' (max maxDepth currDist))"
  by pat_completeness auto
termination
  by (relation "measure (\<lambda>(adj, dist, deg, queue, maxDepth). length queue + positive deg)")
    (auto dest: visit_children_measure [OF sym])

definition depth_edges :: "workflow_node list \<Rightarrow> workflow_edge list \<Rightarrow> edge list" where
  "depth_edges nodes edges =
     (let ids = map nodeId nodes
      in filter (\<lambda>(a, b). a \<in> set ids \<and> b \<in> set ids \<and> a \<noteq> b) (graph_edges nodes edges))"

definition calculateDAGDepth :: "workflow_node list \<Rightarrow> workflow_edge list \<Rightarrow> nat" where
  "calculateDAGDepth nodes edges =
     (if nodes = [] then 0
      else case link_all (depth_edges nodes edges) (empty_graph (map nodeId nodes)) of
        (deg, adj) \<Rightarrow> depth_loop adj (map (\<lambda>(v, d). (v, if d = 0 then 1 else 0)) deg) deg (sources deg) 0)"

section \<open>Safety limits\<close>

definition edge_key :: "edge \<Rightarrow> string" where
  "edge_key e = fst e @ ''->'' @ snd e"

definition edge_keys :: "workflow_node list \<Rightarrow> workflow_edge list \<Rightarrow> string list" where
  "edge_keys nodes edges = js_unique (map edge_key (map (\<lambda>e. (fromNodeId e, toNodeId e)) edges @ dep_edges nodes))"

datatype plan_error =
    EXCEEDS_MAX_NODES nat
  | EXCEEDS_MAX_EDGES nat
  | EXCEEDS_MAX_TIMEOUT string
  | EXCEEDS_MAX_DEPTH nat
  | PLAN_TOPOLOGY dag_error
  | INVALID_CAUSAL_DEPENDENCY string string

definition validatePlanSafetyLimits :: "workflow_node list \<Rightarrow> workflow_edge list \<Rightarrow> plan_error option" where
  "validatePlanSafetyLimits nodes edges =
     (if length nodes > MAX_NODES then Some (EXCEEDS_MAX_NODES (length nodes))
      else if length (edge_keys nodes edges) > MAX_EDGES then Some (EXCEEDS_MAX_EDGES (length (edge_keys nodes edges)))
      else case find (\<lambda>n. case timeoutMs n of None \<Rightarrow> False | Some t \<Rightarrow> t > MAX_TIMEOUT_MS) nodes of
        Some n \<Rightarrow> Some (EXCEEDS_MAX_TIMEOUT (nodeId n))
      | None \<Rightarrow>
         (let depth = calculateDAGDepth nodes edges in
          if depth > MAX_DEPTH then Some (EXCEEDS_MAX_DEPTH depth)
          else map_option PLAN_TOPOLOGY (validateDAGTopology nodes edges)))"

section \<open>References and ancestors\<close>

text \<open>\<open>\$\{\{\s*nodes\.([a-zA-Z0-9_-]+)\.output\<close> at the start of a string: the identifier and what follows the match.\<close>

definition match_ref :: "string \<Rightarrow> (string \<times> string) option" where
  "match_ref s =
     (let r = dropWhile is_ws (drop 3 s); i = takeWhile id_char (drop 6 r); t = dropWhile id_char (drop 6 r)
      in if take 3 s = [CHR ''$'', CHR 0x7B, CHR 0x7B] \<and> take 6 r = ''nodes.'' \<and> i \<noteq> [] \<and> take 7 t = ''.output''
         then Some (i, drop 7 t) else None)"

lemma match_ref_shorter: "match_ref s = Some (i, rest) \<Longrightarrow> length rest < length s"
proof -
  assume m: "match_ref s = Some (i, rest)"
  let ?r = "dropWhile is_ws (drop 3 s)"
  have rest: "rest = drop 7 (dropWhile id_char (drop 6 ?r))" and three: "take 3 s = [CHR ''$'', CHR 0x7B, CHR 0x7B]"
    using m by (auto simp: match_ref_def Let_def split: if_splits)
  have "length rest \<le> length (drop 6 ?r)" unfolding rest using length_dropWhile_le [of id_char "drop 6 ?r"] by simp
  also have "\<dots> \<le> length (drop 3 s)" using length_dropWhile_le [of is_ws "drop 3 s"] by simp
  finally show ?thesis using arg_cong [OF three, of length] by simp
qed

function find_refs :: "string \<Rightarrow> string list" where
  "find_refs [] = []"
| "find_refs (c # cs) =
     (case match_ref (c # cs) of Some (i, rest) \<Rightarrow> i # find_refs rest | None \<Rightarrow> find_refs cs)"
  by pat_completeness auto
termination
  by (relation "measure length") (auto dest: match_ref_shorter)

definition extractInterpolatedNodeIds :: "(string \<times> json) list \<Rightarrow> string list" where
  "extractInterpolatedNodeIds p = find_refs (stringify (JObj p))"

definition directParents :: "workflow_node list \<Rightarrow> (string, string list) jsmap" where
  "directParents nodes = foldl (\<lambda>m n. js_set (nodeId n) (nullish (dependencies n) []) m) [] nodes"

type_synonym memo = "(string, string list) jsmap"

text \<open>The result is the set of ancestors with the new \<open>visited\<close> and memo table; \<open>None\<close> is exhausted fuel.\<close>

fun getAncestors ::
  "nat \<Rightarrow> (string, string list) jsmap \<Rightarrow> string \<Rightarrow> string list \<Rightarrow> memo \<Rightarrow> (string list \<times> string list \<times> memo) option"
and visit_parents ::
  "nat \<Rightarrow> (string, string list) jsmap \<Rightarrow> string list \<Rightarrow> string list \<Rightarrow> string list \<Rightarrow> memo \<Rightarrow> (string list \<times> string list \<times> memo) option" where
  "getAncestors 0 par v visited anc = None"
| "getAncestors (Suc fuel) par v visited anc =
     (case js_get anc v of
        Some s \<Rightarrow> Some (s, visited, anc)
      | None \<Rightarrow>
         (case visit_parents fuel par (nullish (js_get par v) []) [] visited anc of
            None \<Rightarrow> None
          | Some (s, visited', anc') \<Rightarrow> Some (s, visited', js_set v s anc')))"
| "visit_parents fuel par [] s visited anc = Some (s, visited, anc)"
| "visit_parents fuel par (p # ps) s visited anc =
     (if p \<in> set visited then visit_parents fuel par ps (js_add p s) visited anc
      else case getAncestors fuel par p (visited @ [p]) anc of
        None \<Rightarrow> None
      | Some (gps, visited', anc') \<Rightarrow>
          visit_parents fuel par ps (foldl (\<lambda>acc g. js_add g acc) (js_add p s) gps) visited' anc')"

fun ancestors_loop :: "nat \<Rightarrow> (string, string list) jsmap \<Rightarrow> workflow_node list \<Rightarrow> memo \<Rightarrow> memo option" where
  "ancestors_loop fuel par [] anc = Some anc"
| "ancestors_loop fuel par (n # ns) anc =
     (case getAncestors fuel par (nodeId n) [] anc of
        None \<Rightarrow> None
      | Some (_, _, anc') \<Rightarrow> ancestors_loop fuel par ns anc')"

definition recursion_fuel :: "workflow_node list \<Rightarrow> nat" where
  "recursion_fuel nodes = Suc (Suc (length (concat (map (\<lambda>n. nullish (dependencies n) []) nodes))))"

definition buildAncestorsMap :: "workflow_node list \<Rightarrow> memo option" where
  "buildAncestorsMap nodes = ancestors_loop (recursion_fuel nodes) (directParents nodes) nodes []"

fun check_references :: "memo \<Rightarrow> workflow_node list \<Rightarrow> plan_error option" where
  "check_references anc [] = None"
| "check_references anc (n # ns) =
     (case find (\<lambda>i. i \<notin> set (nullish (js_get anc (nodeId n)) [])) (extractInterpolatedNodeIds (payload n)) of
        Some i \<Rightarrow> Some (INVALID_CAUSAL_DEPENDENCY (nodeId n) i)
      | None \<Rightarrow> check_references anc ns)"

definition validateCausalInterpolations :: "workflow_node list \<Rightarrow> plan_error option" where
  "validateCausalInterpolations nodes = check_references (the (buildAncestorsMap nodes)) nodes"

section \<open>The analyser\<close>

datatype planning_strategy = SEQUENTIAL | PARALLEL | ADAPTIVE_HYBRID

definition determineStrategy :: "workflow_node list \<Rightarrow> planning_strategy" where
  "determineStrategy nodes =
     (let deps = concat (map (\<lambda>n. nullish (dependencies n) []) nodes) in
      if length nodes \<le> 1 then SEQUENTIAL
      else if length (filter (\<lambda>n. nullish (dependencies n) [] = []) nodes) > 1 then PARALLEL
      else if \<not> distinct deps then ADAPTIVE_HYBRID
      else SEQUENTIAL)"

record analysis =
  an_depth :: nat
  an_nodeCount :: nat
  an_edgeCount :: nat
  an_strategy :: planning_strategy

definition analyze :: "workflow_node list \<Rightarrow> workflow_edge list \<Rightarrow> plan_error + analysis" where
  "analyze nodes edges =
     (case validatePlanSafetyLimits nodes edges of
        Some e \<Rightarrow> Inl e
      | None \<Rightarrow>
         (case validateDAGTopology nodes edges of
            Some e \<Rightarrow> Inl (PLAN_TOPOLOGY e)
          | None \<Rightarrow>
             (case validateCausalInterpolations nodes of
                Some e \<Rightarrow> Inl e
              | None \<Rightarrow>
                  Inr \<lparr>an_depth = calculateDAGDepth nodes edges, an_nodeCount = length nodes,
                       an_edgeCount = length (edge_keys nodes edges), an_strategy = determineStrategy nodes\<rparr>)))"

section \<open>The depth is the length of a longest path\<close>

definition is_path :: "edge list \<Rightarrow> string list \<Rightarrow> string list \<Rightarrow> bool" where
  "is_path E ids p \<longleftrightarrow> p \<noteq> [] \<and> set p \<subseteq> set ids \<and> successively (\<lambda>a b. (a, b) \<in> set E) p"

lemma distance_of_set: "distance_of (js_set c d dist) v = (if v = c then d else distance_of dist v)"
  by (simp add: distance_of_def js_map_simps nullish_def)

lemma relax_distance: "distance_of (relax d cs dist) v = (if v \<in> set cs then max (d + 1) (distance_of dist v) else distance_of dist v)"
  by (induction cs arbitrary: dist) (auto simp: distance_of_set)

definition depth_inv :: "edge list \<Rightarrow> string list \<Rightarrow> string list \<Rightarrow> string list \<Rightarrow> distances \<Rightarrow> nat \<Rightarrow> bool" where
  "depth_inv E ids visited queue dist m \<longleftrightarrow>
     (\<forall>v \<in> set ids. 0 < distance_of dist v \<longrightarrow> (\<exists>p. is_path E ids p \<and> last p = v \<and> length p = distance_of dist v))
     \<and> (\<forall>u \<in> set visited. \<forall>v. (u, v) \<in> set E \<longrightarrow> distance_of dist u + 1 \<le> distance_of dist v)
     \<and> (\<forall>v \<in> set (visited @ queue). 1 \<le> distance_of dist v)
     \<and> (\<forall>v \<in> set visited. distance_of dist v \<le> m) \<and> (visited = [] \<and> m = 0 \<or> (\<exists>v \<in> set visited. distance_of dist v = m))"

lemma kahn_no_back:
  assumes "kahn_inv E ids visited (c # queue) deg"
  shows "u \<in> set (visited @ [c]) \<Longrightarrow> (c, u) \<notin> set E"
proof
  assume u: "u \<in> set (visited @ [c])" and e: "(c, u) \<in> set E"
  have "u \<in> set ids" "remaining E visited u = 0" "c \<notin> set visited" using u assms by (auto simp: kahn_inv_def)
  then show False using e by (auto simp: remaining_zero)
qed

lemma kahn_pushed:
  assumes "kahn_inv E ids visited (c # queue) deg" "kahn_inv E ids (visited @ [c]) queue' deg'" "v \<in> set queue'"
  shows "v \<in> set queue \<or> (c, v) \<in> set E"
proof -
  have v: "v \<in> set ids" "v \<notin> set (visited @ [c])" "remaining E (visited @ [c]) v = 0"
    using assms(2,3) by (auto simp: kahn_inv_def)
  show ?thesis
  proof (rule disjCI)
    assume "(c, v) \<notin> set E"
    then have "remaining E visited v = 0" using v(3) by (auto simp: remaining_zero)
    then show "v \<in> set queue" using assms(1) v(1,2) by (auto simp: kahn_inv_def)
  qed
qed

lemma path_snoc: "\<lbrakk>is_path E ids p; (last p, v) \<in> set E; v \<in> set ids\<rbrakk> \<Longrightarrow> is_path E ids (p @ [v])"
  by (auto simp: is_path_def successively_append_iff)

lemma depth_step:
  assumes k: "kahn_inv E ids visited (c # queue) deg" and k': "kahn_inv E ids (visited @ [c]) queue' deg'"
    and adj: "adjacency_ok adj ids E" and d: "depth_inv E ids visited (c # queue) dist m"
  shows "depth_inv E ids (visited @ [c]) queue' (relax (distance_of dist c) (children_of adj c) dist) (max m (distance_of dist c))"
proof -
  let ?dc = "distance_of dist c" and ?dist = "relax (distance_of dist c) (children_of adj c) dist"
  have c: "c \<in> set ids" "1 \<le> ?dc" using k d by (auto simp: kahn_inv_def depth_inv_def)
  have child: "v \<in> set (children_of adj c) \<longleftrightarrow> (c, v) \<in> set E" for v using adj c(1) by (force simp: adjacency_ok_def)
  have new: "distance_of ?dist v = (if (c, v) \<in> set E then max (?dc + 1) (distance_of dist v) else distance_of dist v)" for v
    by (simp add: relax_distance child)
  have same: "distance_of ?dist u = distance_of dist u" if "u \<in> set (visited @ [c])" for u
    using kahn_no_back [OF k that] by (simp add: new)
  obtain p where p: "is_path E ids p" "last p = c" "length p = ?dc" using d c by (auto simp: depth_inv_def)
  show ?thesis unfolding depth_inv_def
  proof (intro conjI ballI allI impI)
    fix v
    assume v: "v \<in> set ids" "0 < distance_of ?dist v"
    show "\<exists>p. is_path E ids p \<and> last p = v \<and> length p = distance_of ?dist v"
    proof (cases "(c, v) \<in> set E \<and> distance_of dist v < ?dc + 1")
      case True
      then have "is_path E ids (p @ [v])" "length (p @ [v]) = distance_of ?dist v" using p v(1) path_snoc by (auto simp: new)
      then show ?thesis by (metis last_snoc)
    next
      case False
      then have "distance_of ?dist v = distance_of dist v" by (auto simp: new)
      then show ?thesis using d v by (simp add: depth_inv_def)
    qed
  next
    fix u v
    assume u: "u \<in> set (visited @ [c])" "(u, v) \<in> set E"
    show "distance_of ?dist u + 1 \<le> distance_of ?dist v"
    proof (cases "u = c")
      case True
      then show ?thesis using u(2) same [OF u(1)] by (simp add: new)
    next
      case False
      then have "distance_of dist u + 1 \<le> distance_of dist v" using d u by (auto simp: depth_inv_def)
      then show ?thesis unfolding same [OF u(1)] by (simp add: new le_max_iff_disj)
    qed
  next
    fix v
    assume "v \<in> set ((visited @ [c]) @ queue')"
    then have "v \<in> set (visited @ c # queue) \<or> (c, v) \<in> set E" using kahn_pushed [OF k k'] by auto
    then show "1 \<le> distance_of ?dist v" using d by (force simp: new depth_inv_def)
  next
    fix v
    assume v: "v \<in> set (visited @ [c])"
    then show "distance_of ?dist v \<le> max m ?dc" unfolding same [OF v] using d by (auto simp: depth_inv_def)
  next
    have "\<exists>v \<in> set (visited @ [c]). distance_of dist v = max m ?dc"
      using d by (auto simp: depth_inv_def max_def)
    then show "visited @ [c] = [] \<and> max m ?dc = 0 \<or> (\<exists>v \<in> set (visited @ [c]). distance_of ?dist v = max m ?dc)"
      using same by auto
  qed
qed

lemma depth_loop_run:
  "\<lbrakk>kahn_inv E ids visited queue deg; adjacency_ok adj ids E; depth_inv E ids visited queue dist m\<rbrakk> \<Longrightarrow>
   \<exists>order deg' dist'. kahn_inv E ids order [] deg' \<and> depth_inv E ids order [] dist' (depth_loop adj dist deg queue m)"
proof (induction adj dist deg queue m arbitrary: visited rule: depth_loop.induct)
  case (1 adj dist deg m)
  then show ?case by auto
next
  case (2 adj dist deg c queue m)
  obtain deg' queue' where v: "visit_children (children_of adj c) deg queue = (deg', queue')" by force
  have d: "(if distance_of dist c = 0 then 1 else distance_of dist c) = distance_of dist c"
    using 2(4) by (auto simp: depth_inv_def)
  note k = kahn_step' [OF 2(2,3) v]
  from 2(1) [OF refl v [symmetric], of "visited @ [c]"] k depth_step [OF 2(2) k 2(3,4)] 2(3)
  show ?case by (simp add: v d Let_def)
qed

lemma path_bounded:
  assumes "depth_inv E ids order [] dist m" "set order = set ids" "is_path E ids p"
  shows "length p \<le> distance_of dist (last p)"
  using assms(3)
proof (induction p rule: rev_induct)
  case (snoc v p)
  show ?case
  proof (cases "p = []")
    case True
    then show ?thesis using snoc.prems assms by (auto simp: is_path_def depth_inv_def)
  next
    case False
    then have p: "is_path E ids p" "(last p, v) \<in> set E" using snoc.prems by (auto simp: is_path_def successively_append_iff)
    have "last p \<in> set order" using p(1) False assms(2) by (auto simp: is_path_def)
    then have "distance_of dist (last p) + 1 \<le> distance_of dist v" using assms(1) p(2) by (auto simp: depth_inv_def)
    then show ?thesis using snoc.IH [OF p(1)] by simp
  qed
qed (simp add: is_path_def)

text \<open>C20. Depth of a plan. For every graph the topology check accepts, \<open>calculateDAGDepth\<close> is the number of nodes on a longest path
  through dependencies and edges.\<close>

theorem calculateDAGDepth_longest:
  assumes "validateDAGTopology nodes edges = None"
  shows "(\<exists>p. is_path (graph_edges nodes edges) (map nodeId nodes) p \<and> length p = calculateDAGDepth nodes edges)
    \<and> (\<forall>p. is_path (graph_edges nodes edges) (map nodeId nodes) p \<longrightarrow> length p \<le> calculateDAGDepth nodes edges)"
proof -
  let ?E = "graph_edges nodes edges" and ?ids = "map nodeId nodes"
  have ok: "nodes \<noteq> []" "distinct ?ids" "\<forall>e \<in> set ?E. fst e \<in> set ?ids \<and> snd e \<in> set ?ids" "acyclic (set ?E)"
    using assms by (auto simp: validate_none_iff dag_ok_def)
  have "depth_edges nodes edges = ?E"
    using ok(3) acyclic_irrefl_edge [OF ok(4)] by (simp add: depth_edges_def Let_def filter_id_conv case_prod_unfold)
  moreover obtain deg adj where g: "link_all ?E (empty_graph ?ids) = (deg, adj)" by force
  ultimately have depth: "calculateDAGDepth nodes edges = depth_loop adj (map (\<lambda>(v, d). (v, if d = 0 then 1 else 0)) deg) deg (sources deg) 0"
    using ok(1) by (simp add: calculateDAGDepth_def)
  let ?dist = "map (\<lambda>(v, d :: int). (v, if d = 0 then 1 else 0 :: nat)) deg"
  have r: "represents (deg, adj) ?ids ?E"
    using represents_link_all [OF represents_empty_graph [OF ok(2)], of ?E] ok(3) g by (simp add: case_prod_unfold)
  have adj: "adjacency_ok adj ?ids ?E" using represents_children [OF r] ok(3) by (simp add: adjacency_ok_def)
  note start = kahn_start [OF r ok(2)]
  have dist: "distance_of ?dist v = (if v \<in> set ?ids \<and> remaining ?E [] v = 0 then 1 else 0)" for v
    using r by (auto simp: distance_of_def js_get_map_snd represents_def remaining_def nullish_def)
  have "depth_inv ?E ?ids [] (sources deg) ?dist 0"
  proof -
    have "is_path ?E ?ids [v]" if "v \<in> set ?ids" for v using that by (simp add: is_path_def)
    then have "\<exists>p. is_path ?E ?ids p \<and> last p = v \<and> length p = 1" if "v \<in> set ?ids" for v using that by (metis One_nat_def last.simps length_Cons list.size(3))
    then show ?thesis using start by (auto simp: depth_inv_def dist kahn_inv_def split: if_splits)
  qed
  from depth_loop_run [OF start adj this] obtain order deg' dist' where
    k: "kahn_inv ?E ?ids order [] deg'" and d: "depth_inv ?E ?ids order [] dist' (calculateDAGDepth nodes edges)" unfolding depth by blast
  have "length order = length ?ids" using kahn_end [OF k ok(2,3)] ok(4) by blast
  then have all: "set order = set ?ids" using k ok(2) by (metis List.finite_set card_subset_eq distinct_append distinct_card kahn_inv_def set_append sup.bounded_iff)
  then obtain v where v: "v \<in> set ?ids" "distance_of dist' v = calculateDAGDepth nodes edges" "1 \<le> distance_of dist' v"
    using d ok(1) unfolding depth_inv_def by (metis append_Nil2 empty_iff list.set(1) list.set_sel(1) map_is_Nil_conv)
  then have "\<exists>p. is_path ?E ?ids p \<and> length p = calculateDAGDepth nodes edges" using d unfolding depth_inv_def by fastforce
  moreover have "length p \<le> calculateDAGDepth nodes edges" if "is_path ?E ?ids p" for p
  proof -
    have "last p \<in> set order" using that all by (auto simp: is_path_def)
    then show ?thesis using path_bounded [OF d all that] d by (fastforce simp: depth_inv_def)
  qed
  ultimately show ?thesis by blast
qed

theorem calculateDAGDepth_longest_witness:
  "\<exists>p. is_path (graph_edges (dag_nodes test_dag) (the (dag_edges test_dag))) (map nodeId (dag_nodes test_dag)) p
     \<and> length p = calculateDAGDepth (dag_nodes test_dag) (the (dag_edges test_dag))"
proof -
  have "validateDAGTopology (dag_nodes test_dag) (the (dag_edges test_dag)) = None" by code_simp
  from calculateDAGDepth_longest [OF this] show ?thesis by blast
qed

section \<open>Ancestors\<close>

definition parents_of :: "(string, string list) jsmap \<Rightarrow> string \<Rightarrow> string list" where
  "parents_of par v = nullish (js_get par v) []"

lemma nullish_mem: "x \<in> set (nullish v []) \<longleftrightarrow> (\<exists>ys. v = Some ys \<and> x \<in> set ys)"
  by (cases v) (auto simp: nullish_def)

definition parent_rel :: "(string, string list) jsmap \<Rightarrow> edge set" where
  "parent_rel par = {(p, v). p \<in> set (parents_of par v)}"

text \<open>Every entry of the memo table holds the parents of its node, and only ancestors.\<close>

definition memo_ok :: "(string, string list) jsmap \<Rightarrow> memo \<Rightarrow> bool" where
  "memo_ok par anc \<longleftrightarrow>
     (\<forall>v s. js_get anc v = Some s \<longrightarrow> set (parents_of par v) \<subseteq> set s \<and> (\<forall>a \<in> set s. (a, v) \<in> (parent_rel par)\<^sup>+))"

lemma ancestors_sound:
  "getAncestors fuel par v visited anc = Some (s, visited', anc') \<Longrightarrow> memo_ok par anc \<Longrightarrow>
    memo_ok par anc' \<and> set (parents_of par v) \<subseteq> set s \<and> (\<forall>a \<in> set s. (a, v) \<in> (parent_rel par)\<^sup>+)"
  "visit_parents fuel par ps s0 visited anc = Some (s, visited', anc') \<Longrightarrow> memo_ok par anc \<Longrightarrow>
    memo_ok par anc' \<and> set s0 \<union> set ps \<subseteq> set s
    \<and> (\<forall>v. (\<forall>p \<in> set ps. (p, v) \<in> parent_rel par) \<and> (\<forall>a \<in> set s0. (a, v) \<in> (parent_rel par)\<^sup>+) \<longrightarrow> (\<forall>a \<in> set s. (a, v) \<in> (parent_rel par)\<^sup>+))"
proof (induction fuel par v visited anc and fuel par ps s0 visited anc arbitrary: s visited' anc' and s visited' anc'
    rule: getAncestors_visit_parents.induct)
  case (2 fuel par v visited anc)
  show ?case
  proof (cases "js_get anc v")
    case None
    then obtain anc1 where r: "visit_parents fuel par (parents_of par v) [] visited anc = Some (s, visited', anc1)" "anc' = js_set v s anc1"
      using 2(2) by (auto simp: parents_of_def split: option.splits)
    have "memo_ok par anc1" "set (parents_of par v) \<subseteq> set s" "\<forall>a \<in> set s. (a, v) \<in> (parent_rel par)\<^sup>+"
      using 2(1) [OF None r(1) [unfolded parents_of_def] 2(3)] by (auto simp: parents_of_def parent_rel_def)
    then show ?thesis by (auto simp: r(2) memo_ok_def js_map_simps split: if_splits)
  next
    case (Some s1)
    then show ?thesis using 2(2,3) by (auto simp: memo_ok_def)
  qed
next
  case (4 fuel par p ps s0 visited anc)
  show ?case
  proof (cases "p \<in> set visited")
    case True
    then have "visit_parents fuel par ps (js_add p s0) visited anc = Some (s, visited', anc')" using 4(4) by simp
    note b = 4(1) [OF True this 4(5)]
    show ?thesis
    proof (intro conjI allI impI)
      show "memo_ok par anc'" using b by blast
      show "set s0 \<union> set (p # ps) \<subseteq> set s" using b by auto
      fix v
      assume v: "(\<forall>q \<in> set (p # ps). (q, v) \<in> parent_rel par) \<and> (\<forall>a \<in> set s0. (a, v) \<in> (parent_rel par)\<^sup>+)"
      then have "(p, v) \<in> (parent_rel par)\<^sup>+" by (intro r_into_trancl) simp
      then have "\<forall>a \<in> set (js_add p s0). (a, v) \<in> (parent_rel par)\<^sup>+" using v by simp
      moreover have "\<forall>q \<in> set ps. (q, v) \<in> parent_rel par" using v by simp
      ultimately show "\<forall>a \<in> set s. (a, v) \<in> (parent_rel par)\<^sup>+" using b by blast
    qed
  next
    case False
    then obtain gps vis1 anc1 where g: "getAncestors fuel par p (visited @ [p]) anc = Some (gps, vis1, anc1)"
      and r: "visit_parents fuel par ps (foldl (\<lambda>acc g. js_add g acc) (js_add p s0) gps) vis1 anc1 = Some (s, visited', anc')"
      using 4(4) by (auto split: option.splits)
    have a: "memo_ok par anc1" "\<forall>a \<in> set gps. (a, p) \<in> (parent_rel par)\<^sup>+" using 4(2) [OF False g 4(5)] by auto
    note b = 4(3) [OF False g refl refl r a(1)]
    show ?thesis
    proof (intro conjI allI impI)
      show "memo_ok par anc'" using b by blast
      show "set s0 \<union> set (p # ps) \<subseteq> set s" using b by (auto simp: js_unique_foldl)
      fix v
      assume v: "(\<forall>q \<in> set (p # ps). (q, v) \<in> parent_rel par) \<and> (\<forall>a \<in> set s0. (a, v) \<in> (parent_rel par)\<^sup>+)"
      then have "(p, v) \<in> (parent_rel par)\<^sup>+" by auto
      then have "\<forall>a \<in> set gps. (a, v) \<in> (parent_rel par)\<^sup>+" using a(2) by (meson trancl_trans)
      then have "\<forall>a \<in> set (foldl (\<lambda>acc g. js_add g acc) (js_add p s0) gps). (a, v) \<in> (parent_rel par)\<^sup>+"
        using v \<open>(p, v) \<in> (parent_rel par)\<^sup>+\<close> by (simp add: js_unique_foldl ball_Un)
      moreover have "\<forall>q \<in> set ps. (q, v) \<in> parent_rel par" using v by simp
      ultimately show "\<forall>a \<in> set s. (a, v) \<in> (parent_rel par)\<^sup>+" using b by blast
    qed
  qed
qed auto

text \<open>Fuel: every nested call visits one more parent.\<close>

definition all_parents :: "(string, string list) jsmap \<Rightarrow> string set" where
  "all_parents par = \<Union> (set ` snd ` set par)"

lemma parents_subset: "set (parents_of par v) \<subseteq> all_parents par"
  by (force simp: parents_of_def all_parents_def nullish_mem dest!: js_get_in_set)

lemma finite_all_parents [simp]: "finite (all_parents par)"
  by (simp add: all_parents_def)

lemma ancestors_total:
  "card (all_parents par - set visited) < fuel \<Longrightarrow> \<exists>s visited' anc'. getAncestors fuel par v visited anc = Some (s, visited', anc') \<and> set visited \<subseteq> set visited'"
  "card (all_parents par - set visited) \<le> fuel \<Longrightarrow> set ps \<subseteq> all_parents par \<Longrightarrow>
    \<exists>s visited' anc'. visit_parents fuel par ps s0 visited anc = Some (s, visited', anc') \<and> set visited \<subseteq> set visited'"
proof (induction fuel par v visited anc and fuel par ps s0 visited anc rule: getAncestors_visit_parents.induct)
  case (2 fuel par v visited anc)
  have "card (all_parents par - set visited) \<le> fuel" using 2(2) by simp
  then show ?case using 2(1) parents_subset [of par v] by (fastforce simp: parents_of_def split: option.splits)
next
  case (4 fuel par p ps s0 visited anc)
  show ?case
  proof (cases "p \<in> set visited")
    case True
    then show ?thesis using 4(1) [OF True] 4(4,5) by auto
  next
    case False
    have "all_parents par - set (visited @ [p]) = (all_parents par - set visited) - {p}" by auto
    then have "card (all_parents par - set (visited @ [p])) < card (all_parents par - set visited)"
      using False 4(5) by (intro psubset_card_mono) auto
    then have less: "card (all_parents par - set (visited @ [p])) < fuel" using 4(4) by simp
    from 4(2) [OF False less] obtain gps vis1 anc1 where
      g: "getAncestors fuel par p (visited @ [p]) anc = Some (gps, vis1, anc1)" "set (visited @ [p]) \<subseteq> set vis1" by blast
    have "card (all_parents par - set vis1) \<le> card (all_parents par - set (visited @ [p]))"
      using g(2) by (intro card_mono) auto
    then have "card (all_parents par - set vis1) \<le> fuel" using less by simp
    from 4(3) [OF False g(1) refl refl this] 4(5) show ?thesis using False g by fastforce
  qed
qed auto

lemma directParents_get:
  "js_get (directParents nodes) v = (case find (\<lambda>n. nodeId n = v) (rev nodes) of None \<Rightarrow> None | Some n \<Rightarrow> Some (nullish (dependencies n) []))"
  by (induction nodes rule: rev_induct) (auto simp: directParents_def js_map_simps)

lemma directParents_elem: "(v, ps) \<in> set (directParents nodes) \<Longrightarrow> \<exists>n \<in> set nodes. nodeId n = v \<and> ps = nullish (dependencies n) []"
proof (induction nodes rule: rev_induct)
  case (snoc n nodes)
  then show ?case by (auto simp: directParents_def dest!: js_set_elem)
qed (simp add: directParents_def)

lemma parents_deps: "all_parents (directParents nodes) \<subseteq> set (concat (map (\<lambda>n. nullish (dependencies n) []) nodes))"
  by (fastforce simp: all_parents_def dest!: directParents_elem)

lemma fuel_enough: "card (all_parents (directParents nodes) - set visited) < recursion_fuel nodes"
proof -
  let ?deps = "concat (map (\<lambda>n. nullish (dependencies n) []) nodes)"
  have "card (all_parents (directParents nodes) - set visited) \<le> card (set ?deps)"
    using parents_deps by (intro card_mono) auto
  also have "\<dots> \<le> length ?deps" by (rule card_length)
  finally show ?thesis by (simp add: recursion_fuel_def)
qed

lemma ancestors_loop_total: "\<exists>anc'. ancestors_loop (recursion_fuel nodes) (directParents nodes) ns anc = Some anc'"
proof (induction ns arbitrary: anc)
  case (Cons n ns)
  obtain s v a where "getAncestors (recursion_fuel nodes) (directParents nodes) (nodeId n) [] anc = Some (s, v, a)"
    using ancestors_total(1) [OF fuel_enough] by blast
  then show ?case using Cons.IH by simp
qed simp

text \<open>C21. Termination of the ancestor search. On every list of nodes, cyclic ones included, the recursion of \<open>getAncestors\<close> returns
  within the fuel, which is the number of dependencies plus two.\<close>

theorem buildAncestorsMap_returns: "\<exists>anc. buildAncestorsMap nodes = Some anc"
  unfolding buildAncestorsMap_def by (rule ancestors_loop_total)

lemma ancestors_loop_sound: "\<lbrakk>ancestors_loop fuel par ns anc = Some anc'; memo_ok par anc\<rbrakk> \<Longrightarrow> memo_ok par anc'"
  by (induction ns arbitrary: anc) (auto split: option.splits dest: ancestors_sound(1))

lemma parent_rel_edges: "parent_rel (directParents nodes) \<subseteq> set (dep_edges nodes)"
proof
  fix e
  assume "e \<in> parent_rel (directParents nodes)"
  then obtain ps where "(snd e, ps) \<in> set (directParents nodes)" "fst e \<in> set ps"
    by (auto simp: parent_rel_def parents_of_def nullish_mem dest!: js_get_in_set)
  then obtain n where n: "n \<in> set nodes" "nodeId n = snd e" "fst e \<in> set (nullish (dependencies n) [])"
    by (auto dest: directParents_elem)
  have "e = (\<lambda>d. (d, nodeId n)) (fst e)" using n(2) by simp
  then have "e \<in> (\<lambda>d. (d, nodeId n)) ` set (nullish (dependencies n) [])" using n(3) by (rule image_eqI)
  then show "e \<in> set (dep_edges nodes)" using n(1) unfolding dep_edges_def by auto
qed

lemma check_references_None:
  "check_references anc ns = None \<Longrightarrow> n \<in> set ns \<Longrightarrow> i \<in> set (extractInterpolatedNodeIds (payload n)) \<Longrightarrow>
   i \<in> set (nullish (js_get anc (nodeId n)) [])"
  by (induction ns) (auto split: option.splits simp: find_None_iff)

lemma accepted_references:
  assumes "analyze nodes edges = Inr a" "n \<in> set nodes" "i \<in> set (extractInterpolatedNodeIds (payload n))"
  shows "(i, nodeId n) \<in> (set (dep_edges nodes))\<^sup>+"
proof -
  obtain anc where anc: "buildAncestorsMap nodes = Some anc" unfolding buildAncestorsMap_def using ancestors_loop_total by blast
  have "memo_ok (directParents nodes) []" by (simp add: memo_ok_def js_map_simps)
  then have ok: "memo_ok (directParents nodes) anc" using anc ancestors_loop_sound unfolding buildAncestorsMap_def by blast
  have "check_references anc nodes = None"
    using assms(1) anc by (auto simp: analyze_def validateCausalInterpolations_def split: option.splits)
  then have "i \<in> set (nullish (js_get anc (nodeId n)) [])" using check_references_None assms(2,3) by blast
  then have "(i, nodeId n) \<in> (parent_rel (directParents nodes))\<^sup>+"
    using ok by (auto simp: memo_ok_def nullish_mem)
  then show ?thesis using parent_rel_edges by (rule trancl_mono)
qed


definition test_reference :: "string \<Rightarrow> string list \<Rightarrow> string \<Rightarrow> workflow_node" where
  "test_reference i deps ref = (test_node i deps)\<lparr>payload := [(''content'', JStr (''$'' @ braces ('' nodes.'' @ ref @ ''.output.text '')))]\<rparr>"


text \<open>The search is not complete: with a diamond below \<open>c\<close>, the ancestors of \<open>a\<close> lose those it shares with \<open>b\<close>, and a plan whose
  reference is legitimate is refused.\<close>

lemma shared_visited_loses_ancestors:
  "analyze [test_node ''c'' [''b'', ''a''], test_reference ''a'' [''b''] ''x'', test_node ''b'' [''x''], test_node ''x'' []] [] =
     Inl (INVALID_CAUSAL_DEPENDENCY ''a'' ''x'')
   \<and> (''x'', ''a'') \<in> (set (dep_edges [test_node ''c'' [''b'', ''a''], test_reference ''a'' [''b''] ''x'', test_node ''b'' [''x''], test_node ''x'' []]))\<^sup>+"
proof
  let ?nodes = "[test_node ''c'' [''b'', ''a''], test_reference ''a'' [''b''] ''x'', test_node ''b'' [''x''], test_node ''x'' []]"
  show "analyze ?nodes [] = Inl (INVALID_CAUSAL_DEPENDENCY ''a'' ''x'')" by code_simp
  have "(''x'', ''b'') \<in> set (dep_edges ?nodes)" "(''b'', ''a'') \<in> set (dep_edges ?nodes)" by code_simp+
  then show "(''x'', ''a'') \<in> (set (dep_edges ?nodes))\<^sup>+" by (meson r_into_trancl trancl_into_trancl)
qed

text \<open>The templates the agent resolves have no dollar sign: they are not looked at.\<close>

lemma agent_templates_unchecked: "CHR ''$'' \<notin> set s \<Longrightarrow> find_refs s = []"
proof (induction s)
  case (Cons c cs)
  then have "match_ref (c # cs) = None" by (auto simp: match_ref_def Let_def)
  with Cons show ?case by simp
qed simp

text \<open>The form with a dollar sign and white space is what the planner writes; the agent leaves it as it is.\<close>

lemma planner_template_unresolved:
  "resolveInterpolation nodes (JStr ''${{ nodes.step-2-transform.output.content }}'') = Inr (VStr ''${{ nodes.step-2-transform.output.content }}'')"
  by (simp add: resolve_string_def match_braces_def check_expr_def parse_expr_def single_match_def trim_def is_ws_def id_char_def key_char_def
      alnum_def dangerous_def dangerousKeys_def)

end
