(* ===== verification/Goal_Normalizer.thy ===== *)
theory Goal_Normalizer
  imports Redaction Plan_Graph
begin

text \<open>
  The first stage of the planner, \<open>services/backend/src/planner/goal-normalizer.ts\<close>: a goal in natural language is refused as
  ambiguous or becomes a normalised goal with an archetype, limits, deliverables and parameters found in its text. The expressions
  of the source are those of \<open>Js_Regex\<close>. The budget limit, which nothing reads, is left out of the constraints.

  Proved: a normalised objective contains none of the phrases that the stage neutralises.
\<close>

section \<open>Goals\<close>

datatype plan_risk_tier = LOW | MEDIUM | HIGH | CRITICAL

datatype task_archetype = FILE_INSPECTION | FILE_TRANSFORMATION | RESEARCH_AUTOMATION | WORKFLOW_PIPELINE | GENERIC

text \<open>What a request may say about the constraints, and the constraints of a normalised goal.\<close>

record requested_constraints =
  q_timeoutMs :: "int option"
  q_maxNodes :: "int option"
  q_allowedCategories :: "string list option"
  q_forbiddenCapabilities :: "string list option"
  q_requireHumanApprovalAbove :: "plan_risk_tier option"

record planning_constraints =
  k_timeoutMs :: int
  k_maxNodes :: int
  k_allowedCategories :: "string list option"
  k_forbiddenCapabilities :: "string list option"
  k_requireHumanApprovalAbove :: plan_risk_tier

record ambiguous_goal_details =
  ag_message :: string
  ag_missingDeliverables :: "string list"
  ag_clarificationPrompts :: "string list"
  ag_suggestedAlternatives :: "string list"

record normalized_goal =
  originalGoal :: string
  normalizedObjective :: string
  ng_deliverables :: "string list"
  ng_constraints :: planning_constraints
  archetype :: task_archetype
  ng_parameters :: "(string \<times> json) list"
  ambiguityDetails :: "ambiguous_goal_details option"

definition isAmbiguous :: "normalized_goal \<Rightarrow> bool" where
  "isAmbiguous g \<longleftrightarrow> ambiguityDetails g \<noteq> None"

definition createAmbiguousResult ::
  "string \<Rightarrow> string \<Rightarrow> string list \<Rightarrow> string list \<Rightarrow> string list \<Rightarrow> normalized_goal" where
  "createAmbiguousResult goal message missing prompts alternatives =
     \<lparr>originalGoal = goal, normalizedObjective = goal, ng_deliverables = [],
      ng_constraints =
        \<lparr>k_timeoutMs = MAX_TIMEOUT_MS, k_maxNodes = int MAX_NODES, k_allowedCategories = None, k_forbiddenCapabilities = None,
         k_requireHumanApprovalAbove = MEDIUM\<rparr>,
      archetype = GENERIC, ng_parameters = [],
      ambiguityDetails =
        Some \<lparr>ag_message = message, ag_missingDeliverables = missing, ag_clarificationPrompts = prompts,
              ag_suggestedAlternatives = alternatives\<rparr>\<rparr>"

section \<open>Text\<close>

definition quoted :: "string \<Rightarrow> string" where
  "quoted s = CHR 0x27 # s @ [CHR 0x27]"

text \<open>\<open>rawGoal.split(/\s+/).filter(Boolean)\<close>: the maximal pieces without white space.\<close>

function words_of :: "string \<Rightarrow> string list" where
  "words_of s =
     (let t = dropWhile is_ws s in
      if t = [] then [] else takeWhile (\<lambda>c. \<not> is_ws c) t # words_of (dropWhile (\<lambda>c. \<not> is_ws c) t))"
  by pat_completeness auto
termination
proof (relation "measure length")
  fix s t
  assume t: "t = dropWhile is_ws s" "t \<noteq> []"
  then have "\<not> is_ws (hd t)" using hd_dropWhile [of is_ws s] by simp
  then have "length (dropWhile (\<lambda>c. \<not> is_ws c) t) < length t"
    using t(2) by (cases t) (auto intro: le_less_trans [OF length_dropWhile_le])
  then show "(dropWhile (\<lambda>c. \<not> is_ws c) t, s) \<in> measure length" using length_dropWhile_le [of is_ws s] t(1) by simp
qed simp

definition purelyVagueVerbs :: "string list" where
  "purelyVagueVerbs =
     [''do'', ''run'', ''execute'', ''start'', ''go'', ''fix'', ''check'', ''test'', ''process'', ''make'', ''work'',
      ''something'', ''anything'', ''it'']"

definition is_lower_letter :: "char \<Rightarrow> bool" where
  "is_lower_letter c \<longleftrightarrow> 97 \<le> (of_char c :: nat) \<and> (of_char c :: nat) \<le> 122"

definition vague_word :: "string \<Rightarrow> bool" where
  "vague_word w \<longleftrightarrow> filter is_lower_letter (to_lower w) \<in> set purelyVagueVerbs"

text \<open>An action without a destination.\<close>

definition lacks_destination :: "string \<Rightarrow> string list \<Rightarrow> bool" where
  "lacks_destination lowercase words \<longleftrightarrow>
     (starts_with lowercase ''download'' \<or> starts_with lowercase ''clone'' \<or> starts_with lowercase ''visit'')
     \<and> \<not> list_ex (str_includes lowercase) [''http'', ''.com'', ''.org'', ''.git'', ''/'', [CHR 0x5C]]
     \<and> length words < 4"

text \<open>The phrases that are neutralised, each with its replacement.\<close>

definition injection_patterns :: "(regex \<times> string) list" where
  "injection_patterns =
     [(in_order [lit ''ignore'', at_least 1 ws, lit ''all'', at_least 1 ws, lit ''previous'', at_least 1 ws, lit ''instructions''],
       ''[neutralized_prompt_injection]''),
      (in_order [lit ''ignore'', at_least 1 ws, lit ''previous'', at_least 1 ws, lit ''instructions''],
       ''[neutralized_prompt_injection]''),
      (in_order [lit ''system'', at_least 1 ws, lit ''override'', Star (Cls (\<lambda>c. c = CHR '':'' \<or> is_ws c))],
       ''[neutralized_override]''),
      (in_order [lit ''grant'', at_least 1 ws, lit ''admin'', at_least 1 ws, lit ''privilege'', opt (lit ''s'')],
       ''[neutralized_escalation]''),
      (in_order [lit ''bypass'', at_least 1 ws, lit ''policy''], ''[neutralized_bypass]'')]"

definition neutralize :: "string \<Rightarrow> regex \<times> string \<Rightarrow> string" where
  "neutralize t e = re_replace (ignore_case (fst e)) (\<lambda>_. snd e) t"

definition sanitizeGoalText :: "string \<Rightarrow> string" where
  "sanitizeGoalText s = trim (foldl neutralize s injection_patterns)"

definition classifyArchetype :: "string \<Rightarrow> task_archetype" where
  "classifyArchetype goal =
     (let has = (\<lambda>ws. list_ex (str_includes (to_lower goal)) ws) in
      if has [''browse'', ''web'', ''url'', ''website'', ''http'', ''scrape'', ''extract text from page''] then RESEARCH_AUTOMATION
      else if has [''write'', ''create file'', ''save'', ''modify'', ''transform'', ''convert'', ''generate report''] then FILE_TRANSFORMATION
      else if has [''read'', ''inspect'', ''list'', ''search'', ''find'', ''scan'', ''check file'', ''view''] then FILE_INSPECTION
      else if has [''pipeline'', ''build and test'', ''compile'', ''run tests and'', ''step''] then WORKFLOW_PIPELINE
      else GENERIC)"

fun extractDefaultDeliverables :: "task_archetype \<Rightarrow> string list" where
  "extractDefaultDeliverables FILE_INSPECTION = [''File inspection results'', ''Identified file list or content summary'']"
| "extractDefaultDeliverables FILE_TRANSFORMATION = [''Transformed output file'', ''Execution status receipt'']"
| "extractDefaultDeliverables RESEARCH_AUTOMATION = [''Extracted page content or research summary'']"
| "extractDefaultDeliverables WORKFLOW_PIPELINE = [''Completed workflow stage receipts'']"
| "extractDefaultDeliverables GENERIC = [''Task completion summary'']"

definition slashes :: string where "slashes = [CHR 0x5C, CHR ''/'']"

definition is_letter :: "char \<Rightarrow> bool" where
  "is_letter c \<longleftrightarrow> is_alnum c \<and> \<not> is_digit c"

definition path_pattern :: regex where
  "path_pattern = in_order
     [at_least 1 (Alt (in_order [Cls is_letter, lit '':'', any_of slashes])
                      (in_order [at_least 1 (alnum_or (slashes @ ''._-'')), any_of slashes])),
      at_least 1 (alnum_or ''_.-''), lit ''.'', at_least 1 (alnum_or [])]"

definition url_pattern :: regex where
  "url_pattern = in_order [lit ''http'', opt (lit ''s''), lit ''://'', at_least 1 (Cls (\<lambda>c. \<not> is_ws c))]"

definition extractParametersFromText :: "string \<Rightarrow> (string \<times> json) list" where
  "extractParametersFromText goal =
     (case re_match path_pattern goal of Some p \<Rightarrow> [(''detectedPath'', JStr p)] | None \<Rightarrow> [])
     @ (case re_match url_pattern goal of Some u \<Rightarrow> [(''detectedUrl'', JStr u)] | None \<Rightarrow> [])"

section \<open>Normalisation\<close>

record goal_input =
  i_goal :: string
  i_deliverables :: "string list option"
  i_constraints :: requested_constraints
  i_parameters :: "(string \<times> json) list"

definition normalized_constraints :: "requested_constraints \<Rightarrow> planning_constraints" where
  "normalized_constraints c =
     \<lparr>k_timeoutMs = min (max 1 (nullish (q_timeoutMs c) MAX_TIMEOUT_MS)) MAX_TIMEOUT_MS,
      k_maxNodes = min (max 1 (nullish (q_maxNodes c) (int MAX_NODES))) (int MAX_NODES),
      k_allowedCategories = q_allowedCategories c, k_forbiddenCapabilities = q_forbiddenCapabilities c,
      k_requireHumanApprovalAbove = nullish (q_requireHumanApprovalAbove c) MEDIUM\<rparr>"

text \<open>The three ways in which a goal is ambiguous.\<close>

definition ambiguous_goal :: "string \<Rightarrow> normalized_goal option" where
  "ambiguous_goal rawGoal =
     (let words = words_of rawGoal; lowercase = to_lower rawGoal in
      if length rawGoal < 3 \<or> list_all (\<lambda>c. \<not> is_alnum c) rawGoal then Some
        (createAmbiguousResult rawGoal
          ''Goal description is empty or contains no actionable natural language intent.''
          [''actionableObjective''] [''Please specify what task or workflow you would like to perform.'']
          [''Inspect repository files'', ''Search workspace for documents'', ''Perform web research''])
      else if length words \<le> 2 \<and> list_all vague_word words then Some
        (createAmbiguousResult rawGoal
          (''Goal '' @ quoted rawGoal @
           '' is structurally ambiguous and specifies an action without a target object, file, or deliverable.'')
          [''targetObject'', ''deliverableSpecification'']
          [''What specific file, directory, URL, or process should be acted upon?'', ''What is the expected outcome or deliverable?'']
          [''Inspect code files in workspace'', ''Run test suite in terminal'', ''Read config file and summarize''])
      else if lacks_destination lowercase words then Some
        (createAmbiguousResult rawGoal
          (''Goal specifies '' @ quoted (hd words) @ '' but lacks a target URL, repository, or destination.'')
          [''targetUrlOrPath''] [''Please specify the target URL, repository URL, or local path.'']
          [''Navigate to documentation URL'', ''Inspect local project files''])
      else None)"

definition normalizeGoal :: "goal_input \<Rightarrow> normalized_goal" where
  "normalizeGoal request =
     (let rawGoal = trim (i_goal request) in
      case ambiguous_goal rawGoal of
        Some g \<Rightarrow> g
      | None \<Rightarrow>
         (let sanitizedGoal = sanitizeGoalText rawGoal; kind = classifyArchetype sanitizedGoal in
          \<lparr>originalGoal = rawGoal, normalizedObjective = sanitizedGoal,
           ng_deliverables =
             (case i_deliverables request of
                Some (d # ds) \<Rightarrow> d # ds
              | _ \<Rightarrow> extractDefaultDeliverables kind),
           ng_constraints = normalized_constraints (i_constraints request),
           archetype = kind,
           ng_parameters = foldl (\<lambda>m (k, v). js_set k v m) (i_parameters request) (extractParametersFromText sanitizedGoal),
           ambiguityDetails = None\<rparr>))"

lemma createAmbiguousResult_ambiguous: "isAmbiguous (createAmbiguousResult g m a b c)"
  by (simp add: isAmbiguous_def createAmbiguousResult_def)

lemma ambiguous_goal_Some: "ambiguous_goal s = Some g \<Longrightarrow> isAmbiguous g"
  unfolding ambiguous_goal_def Let_def
  by (simp only: option.inject option.distinct if_split_eq1 split: if_split_asm) (metis createAmbiguousResult_ambiguous)+

lemma ambiguous_goal_None: "ambiguous_goal s = None \<Longrightarrow> 3 \<le> length s"
proof (rule ccontr)
  assume n: "ambiguous_goal s = None" and "\<not> 3 \<le> length s"
  then have c: "length s < 3 \<or> list_all (\<lambda>c. \<not> is_alnum c) s" by simp
  show False using n unfolding ambiguous_goal_def Let_def if_P [OF c] by (simp only: option.distinct)
qed

lemma normalize_clear:
  assumes "\<not> isAmbiguous (normalizeGoal r)"
  shows "normalizedObjective (normalizeGoal r) = sanitizeGoalText (trim (i_goal r))"
    "ng_constraints (normalizeGoal r) = normalized_constraints (i_constraints r)" "3 \<le> length (trim (i_goal r))"
proof -
  have n: "ambiguous_goal (trim (i_goal r)) = None"
    using assms ambiguous_goal_Some by (cases "ambiguous_goal (trim (i_goal r))") (auto simp: normalizeGoal_def)
  then show "normalizedObjective (normalizeGoal r) = sanitizeGoalText (trim (i_goal r))"
    "ng_constraints (normalizeGoal r) = normalized_constraints (i_constraints r)"
    by (simp_all add: normalizeGoal_def Let_def)
  show "3 \<le> length (trim (i_goal r))" using ambiguous_goal_None [OF n] .
qed

section \<open>Neutralised phrases\<close>

lemma injection_shape:
  assumes "(p, m) \<in> set injection_patterns"
  shows "plain p" "0 < min_length p" "\<not> admits (ignore_case p) (CHR ''['')" "\<not> admits (ignore_case p) (CHR '']'')"
    "\<exists>l rs. p = in_order (l # at_least 1 ws # rs)"
    "hd m = CHR ''[''" "last m = CHR '']''" "m \<noteq> []" "\<not> list_ex is_ws m"
  using assms by (auto simp: injection_patterns_def ws_def is_ws_def to_lower_char_def to_upper_char_def)

lemma ignore_case_ws: "word_of (ignore_case (in_order (l # at_least 1 ws # rs))) w \<Longrightarrow> \<exists>c \<in> set w. is_ws c"
  by (auto simp: in_order.simps at_least_def exactly.simps ws_def ws_cases split: if_splits)

lemma injection_fence:
  assumes "(p, m) \<in> set injection_patterns" "(p', m') \<in> set injection_patterns"
  shows "fence (ignore_case p) m'"
proof -
  have "\<not> has_word (ignore_case p) m'"
    using injection_shape(5) [OF assms(1)] injection_shape(9) [OF assms(2)] ignore_case_ws
    by (fastforce simp: has_word_def list_ex_iff)
  then show ?thesis
    using injection_shape(3,4) [OF assms(1)] injection_shape(6-8) [OF assms(2)] by (simp add: fence_def)
qed

lemma neutralize_keeps:
  assumes "(p, m) \<in> set injection_patterns" "set es \<subseteq> set injection_patterns"
  shows "\<not> has_word (ignore_case p) t \<Longrightarrow> \<not> has_word (ignore_case p) (foldl neutralize t es)"
  using assms(2)
proof (induction es arbitrary: t)
  case (Cons e es)
  have "fence (ignore_case p) (snd e)" using injection_fence [OF assms(1)] Cons.prems(2) by (cases e) auto
  then have "\<not> has_word (ignore_case p) (neutralize t e)"
    unfolding neutralize_def using edited_no_word [OF edited_const] injection_shape(2) [OF assms(1)] Cons.prems(1) by simp
  then show ?case using Cons by simp
qed simp

lemma neutralized:
  assumes "(p, m) \<in> set injection_patterns"
  shows "\<not> has_word (ignore_case p) (foldl neutralize t injection_patterns)"
proof -
  obtain es1 es2 where es: "injection_patterns = es1 @ (p, m) # es2" using split_list [OF assms] by blast
  have "\<not> has_word (ignore_case p) (neutralize (foldl neutralize t es1) (p, m))"
    unfolding neutralize_def fst_conv snd_conv
    using injection_shape(1,2) [OF assms] injection_fence [OF assms assms] by (intro replaced_gone fence_fenced) auto
  moreover have "set es2 \<subseteq> set injection_patterns" by (subst es) auto
  ultimately have "\<not> has_word (ignore_case p) (foldl neutralize (neutralize (foldl neutralize t es1) (p, m)) es2)"
    using neutralize_keeps [OF assms] by blast
  then show ?thesis by (subst es) simp
qed

lemma sanitized_clean:
  assumes "(p, m) \<in> set injection_patterns"
  shows "\<not> re_test (ignore_case p) (sanitizeGoalText t)"
  using trim_no_word [OF neutralized [OF assms, of t]] injection_shape(1) [OF assms] by (simp add: sanitizeGoalText_def re_test_iff)

text \<open>The sanitised goal contains none of the phrases of prompt injection and privilege escalation that the stage knows, in any
  case and with any white space: replacing one phrase neither leaves nor forms another.
\<close>

theorem goal_neutralized: "list_all (\<lambda>(p, m). \<not> re_test (ignore_case p) (sanitizeGoalText goal)) injection_patterns"
  by (auto simp: list_all_iff sanitized_clean)

end
