(* ===== verification/Planner.thy ===== *)
theory Planner
  imports Goal_Normalizer Task_Controller
begin

text \<open>
  The planner of the backend, \<open>services/backend/src/planner\<close>: the capability registry, the decomposer with its archetypes, the
  synthesis of proposals, adaptive replanning, and the service that composes them with the normaliser and the dependency
  analyser. The answer of a language model and the documents of the memory service are arguments, and nothing is assumed
  about them. Plan identifiers and timestamps are arguments.

  Proved: whatever the language model answers, a proposal has the tenant of the caller, registered capabilities, an acyclic graph
  within the limits, the risk of its riskiest node and the approval that this risk demands; proposals of the built-in
  archetypes satisfy the schema of the response; after an ambiguous outcome nothing is retried; a successor graph
  that keeps a dependency on a completed node is refused by the controller.
\<close>

section \<open>Capability registry\<close>

text \<open>The order of the risk tiers is that of \<open>riskScores\<close>.\<close>

fun riskScore :: "plan_risk_tier \<Rightarrow> nat" where
  "riskScore LOW = 1"
| "riskScore MEDIUM = 2"
| "riskScore HIGH = 3"
| "riskScore CRITICAL = 4"

instantiation plan_risk_tier :: linorder
begin

definition less_eq_plan_risk_tier :: "plan_risk_tier \<Rightarrow> plan_risk_tier \<Rightarrow> bool" where
  "a \<le> b \<longleftrightarrow> riskScore a \<le> riskScore b"

definition less_plan_risk_tier :: "plan_risk_tier \<Rightarrow> plan_risk_tier \<Rightarrow> bool" where
  "a < b \<longleftrightarrow> riskScore a < riskScore b"

instance
proof
  fix a b :: plan_risk_tier
  assume "a \<le> b" "b \<le> a"
  then show "a = b" by (cases a; cases b) (auto simp: less_eq_plan_risk_tier_def)
qed (auto simp: less_eq_plan_risk_tier_def less_plan_risk_tier_def)

end

record capability_metadata =
  cm_id :: string
  cm_category :: string
  cm_riskTier :: plan_risk_tier
  cm_description :: string

type_synonym capability_registry = "(string, capability_metadata) jsmap"

definition normalizeId :: "string \<Rightarrow> string" where
  "normalizeId i = replace_all (CHR '':'') (CHR ''.'') (strip_prefix ''capability:'' (trim i))"

definition register_meta :: "capability_metadata \<Rightarrow> capability_registry \<Rightarrow> capability_registry" where
  "register_meta m reg = js_set (normalizeId (cm_id m)) (m\<lparr>cm_id := normalizeId (cm_id m)\<rparr>) reg"

definition meta :: "string \<Rightarrow> string \<Rightarrow> plan_risk_tier \<Rightarrow> string \<Rightarrow> capability_metadata" where
  "meta i c t d = \<lparr>cm_id = i, cm_category = c, cm_riskTier = t, cm_description = d\<rparr>"

definition registerDefaults :: "capability_metadata list" where
  "registerDefaults =
     [meta ''filesystem.readFile'' ''filesystem'' LOW ''Read file contents from authorized workspace root'',
      meta ''filesystem.listDirectory'' ''filesystem'' LOW ''List files and directories in path'',
      meta ''filesystem.searchFiles'' ''filesystem'' LOW ''Search directory tree for files matching pattern'',
      meta ''filesystem.writeFile'' ''filesystem'' MEDIUM ''Write or overwrite file contents in workspace'',
      meta ''filesystem.copyFile'' ''filesystem'' LOW ''Copy file within workspace root'',
      meta ''filesystem.moveFile'' ''filesystem'' MEDIUM ''Move or rename file within workspace'',
      meta ''filesystem.deleteFile'' ''filesystem'' HIGH ''Delete file within workspace'',
      meta ''terminal.execute'' ''terminal'' HIGH ''Execute command in controlled process tree'',
      meta ''device.queryInfo'' ''device'' LOW ''Query host hardware and OS profile'',
      meta ''device.execute'' ''device'' HIGH ''Execute managed device action'',
      meta ''browser.navigate'' ''browser'' LOW ''Navigate to policy-allowed URL'',
      meta ''browser.extractText'' ''browser'' LOW ''Extract text content from active page'',
      meta ''browser.screenshot'' ''browser'' LOW ''Capture screenshot of current page'',
      meta ''browser.click'' ''browser'' MEDIUM ''Click interactive element on page'',
      meta ''browser.type'' ''browser'' MEDIUM ''Type text into page input field'',
      meta ''browser.close'' ''browser'' LOW ''Close active browser session'',
      meta ''localAi.generate'' ''ai'' LOW ''Perform local model inference'',
      meta ''localAi.listModels'' ''ai'' LOW ''List available local model weights'',
      meta ''localAi.getHardwareProfile'' ''ai'' LOW ''Get GPU/VRAM hardware detection profile'',
      meta ''localAi.unloadModel'' ''ai'' LOW ''Unload active model from memory'',
      meta ''plugin.execute'' ''plugin'' MEDIUM ''Execute registered plugin action'',
      meta ''agent.delegate'' ''agent'' MEDIUM
        ''Delegate bounded sub-task to specialized logical sub-agent with attenuated lease'']"

definition DefaultCapabilityRegistry :: capability_registry where
  "DefaultCapabilityRegistry = foldl (\<lambda>reg m. register_meta m reg) [] registerDefaults"

definition isRegistered :: "capability_registry \<Rightarrow> string \<Rightarrow> bool" where
  "isRegistered reg c \<longleftrightarrow> c \<noteq> [] \<and> js_has reg (normalizeId c)"

definition getCategory :: "capability_registry \<Rightarrow> string \<Rightarrow> string option" where
  "getCategory reg c = map_option cm_category (js_get reg (normalizeId c))"

definition getRiskTier :: "capability_registry \<Rightarrow> string \<Rightarrow> plan_risk_tier" where
  "getRiskTier reg c = nullish (map_option cm_riskTier (js_get reg (normalizeId c))) HIGH"

definition listRegisteredCapabilities :: "capability_registry \<Rightarrow> string list" where
  "listRegisteredCapabilities reg = js_keys reg"

text \<open>The interface \<open>ICapabilityRegistryBoundary\<close> and the registry behind it by default.\<close>

record capability_boundary =
  cb_isRegistered :: "string \<Rightarrow> bool"
  cb_getCategory :: "string \<Rightarrow> string option"
  cb_getRiskTier :: "string \<Rightarrow> plan_risk_tier"

definition registry_boundary :: "capability_registry \<Rightarrow> capability_boundary" where
  "registry_boundary reg =
     \<lparr>cb_isRegistered = isRegistered reg, cb_getCategory = getCategory reg, cb_getRiskTier = getRiskTier reg\<rparr>"

section \<open>Decomposition\<close>

datatype planner_error =
    UNAUTHENTICATED
  | REQUEST_SCHEMA
  | CROSS_TENANT_FORBIDDEN string string
  | PROHIBITED_SECRETS "string list"
  | AmbiguousGoalException "ambiguous_goal_details option"
  | HALLUCINATED_CAPABILITY string string
  | AI_FAILURE string
  | TYPE_ERROR
  | FORBIDDEN_CAPABILITY string string
  | PLAN_VALIDATION_FAILED plan_error
  | UNREGISTERED_CAPABILITY string
  | EXCEEDS_MAX_REPLAN_ITERATIONS int
  | TERMINAL_FAILURE_NO_REPLAN string string

record decomposition =
  dc_nodes :: "workflow_node list"
  dc_strategy :: planning_strategy
  dc_rationale :: string
  dc_assumptions :: "string list"
  dc_requiredCapabilities :: "string list"

record ai_proposal =
  ai_nodes :: "workflow_node list"
  ai_strategy :: "planning_strategy option"
  ai_rationale :: string
  ai_assumptions :: "string list option"

datatype ai_answer = Ai_Null | Ai_Threw string | Ai_Proposal ai_proposal

definition assertCapabilitiesRegistered :: "capability_boundary \<Rightarrow> workflow_node list \<Rightarrow> planner_error option" where
  "assertCapabilitiesRegistered cb nodes =
     map_option (\<lambda>n. HALLUCINATED_CAPABILITY (nodeId n) (capabilityId n)) (find (\<lambda>n. \<not> cb_isRegistered cb (capabilityId n)) nodes)"

definition unique_capabilities :: "workflow_node list \<Rightarrow> string list" where
  "unique_capabilities nodes = js_unique (map capabilityId nodes)"

text \<open>Truth and \<open>String(v)\<close> of a value.\<close>

fun json_truthy :: "json \<Rightarrow> bool" where
  "json_truthy JNull \<longleftrightarrow> False"
| "json_truthy (JBool b) \<longleftrightarrow> b"
| "json_truthy (JNum n) \<longleftrightarrow> n \<noteq> ''0''"
| "json_truthy (JStr s) \<longleftrightarrow> s \<noteq> []"
| "json_truthy _ \<longleftrightarrow> True"

fun js_string :: "json \<Rightarrow> string" where
  "js_string JNull = ''null''"
| "js_string (JBool b) = (if b then ''true'' else ''false'')"
| "js_string (JNum n) = n"
| "js_string (JStr s) = s"
| "js_string (JArr xs) = join '','' (map (\<lambda>x. if x = JNull then [] else js_string x) xs)"
| "js_string (JObj kvs) = ''[object Object]''"

definition parameter_or :: "(string \<times> json) list \<Rightarrow> string \<Rightarrow> string \<Rightarrow> json" where
  "parameter_or ps k d = (case js_get ps k of Some v \<Rightarrow> if json_truthy v then v else JStr d | None \<Rightarrow> JStr d)"

text \<open>Only strings have \<open>endsWith\<close> and \<open>replace\<close>; arrays have \<open>includes\<close> as well.\<close>

definition inspect_capability :: "json \<Rightarrow> planner_error + string" where
  "inspect_capability path =
     (case path of
        JStr p \<Rightarrow> Inr (if ends_with p ''/'' \<or> \<not> str_includes p ''.'' then ''filesystem.listDirectory'' else ''filesystem.readFile'')
      | _ \<Rightarrow> Inl TYPE_ERROR)"

definition extension :: regex where
  "extension = in_order [lit ''.'', at_least 1 (Cls (\<lambda>c. c \<noteq> CHR ''.'')), AtEnd]"

definition output_path :: "json \<Rightarrow> planner_error + string" where
  "output_path path =
     (case path of
        JStr p \<Rightarrow> Inr (if str_includes p ''.'' then re_replace_first extension (\<lambda>w. ''.transformed'' @ w) p else p @ ''.output'')
      | JArr xs \<Rightarrow> if JStr ''.'' \<in> set xs then Inl TYPE_ERROR else Inr (js_string path @ ''.output'')
      | _ \<Rightarrow> Inl TYPE_ERROR)"

definition step_node ::
  "capability_boundary \<Rightarrow> string \<Rightarrow> string \<Rightarrow> string \<Rightarrow> (string \<times> json) list \<Rightarrow> string list option \<Rightarrow> int \<Rightarrow> workflow_node" where
  "step_node cb i cap fallback p deps t =
     \<lparr>nodeId = i, capabilityId = cap, runtimeCategory = or_else (cb_getCategory cb cap) fallback, payload = p,
      dependencies = deps, compensationPayload = None, timeoutMs = Some t\<rparr>"

definition prompt :: "string \<Rightarrow> (string \<times> json) list" where
  "prompt s = [(''prompt'', JStr s)]"

definition template :: "string \<Rightarrow> string" where
  "template s = [CHR ''$'', CHR 0x7B, CHR 0x7B] @ '' nodes.'' @ s @ '' '' @ [CHR 0x7D, CHR 0x7D]"

definition step_timeout :: "normalized_goal \<Rightarrow> int" where
  "step_timeout goal = (let t = k_timeoutMs (ng_constraints goal) in min (if t = 0 then 30000 else t) 300000)"

text \<open>Nodes, strategy, rationale and assumptions of an archetype.\<close>

definition archetype_plan ::
  "capability_boundary \<Rightarrow> normalized_goal \<Rightarrow> planner_error + workflow_node list \<times> planning_strategy \<times> string \<times> string list" where
  "archetype_plan cb goal =
     (let path = parameter_or (ng_parameters goal) ''detectedPath'' ''workspace/target.txt'';
          url = parameter_or (ng_parameters goal) ''detectedUrl'' ''https://example.com'';
          t = step_timeout goal
      in case archetype goal of
        FILE_INSPECTION \<Rightarrow>
          (case inspect_capability path of
             Inl e \<Rightarrow> Inl e
           | Inr inspectCap \<Rightarrow> Inr
               ([step_node cb ''step-1-inspect'' inspectCap ''filesystem'' [(''path'', path)] None t,
                 step_node cb ''step-2-analyze'' ''localAi.generate'' ''ai''
                   (prompt (''Analyze the inspection output of '' @ js_string path @ '' and summarize key findings.''))
                   (Some [''step-1-inspect'']) t],
                SEQUENTIAL, ''Inspect file contents and generate a structured analysis report.'',
                [''File is readable within authorized workspace root ('' @ js_string path @ '').'']))
      | FILE_TRANSFORMATION \<Rightarrow>
          (case output_path path of
             Inl e \<Rightarrow> Inl e
           | Inr outputPath \<Rightarrow> Inr
               ([step_node cb ''step-1-read'' ''filesystem.readFile'' ''filesystem'' [(''path'', path)] None t,
                 step_node cb ''step-2-transform'' ''localAi.generate'' ''ai''
                   (prompt (''Transform the input content according to objective: '' @ normalizedObjective goal))
                   (Some [''step-1-read'']) t,
                 (step_node cb ''step-3-write'' ''filesystem.writeFile'' ''filesystem''
                   [(''path'', JStr outputPath), (''content'', JStr (template ''step-2-transform.output.content''))]
                   (Some [''step-2-transform'']) t)
                   \<lparr>compensationPayload := Some [(''action'', JStr ''deleteFile''), (''path'', JStr outputPath)]\<rparr>],
                SEQUENTIAL, ''Read source data, perform content transformation, and commit output file.'',
                [''Source data exists and target workspace location is writable.'']))
      | RESEARCH_AUTOMATION \<Rightarrow> Inr
          ([step_node cb ''step-1-navigate'' ''browser.navigate'' ''browser'' [(''url'', url)] None t,
            step_node cb ''step-2-extract'' ''browser.extractText'' ''browser'' [(''selector'', JStr ''body'')]
              (Some [''step-1-navigate'']) t,
            step_node cb ''step-3-synthesize'' ''localAi.generate'' ''ai''
              (prompt (''Summarize extracted web research: '' @ template ''step-2-extract.output.text'')) (Some [''step-2-extract'']) t,
            step_node cb ''step-4-close'' ''browser.close'' ''browser'' [] (Some [''step-2-extract'']) 5000],
           ADAPTIVE_HYBRID, ''Navigate to research URL, extract clean text, synthesize summary, and release session.'',
           [''Domain is allowed by network policy ('' @ js_string url @ '').''])
      | WORKFLOW_PIPELINE \<Rightarrow> Inr
          ([step_node cb ''step-1-check'' ''filesystem.listDirectory'' ''filesystem'' [(''path'', JStr ''.'')] None t,
            step_node cb ''step-2-run'' ''terminal.execute'' ''terminal'' [(''command'', JStr ''npm test'')] (Some [''step-1-check'']) t,
            step_node cb ''step-3-report'' ''localAi.generate'' ''ai''
              (prompt (''Summarize pipeline outcome for '' @ normalizedObjective goal)) (Some [''step-2-run'']) t],
           SEQUENTIAL, ''Verify environment prerequisites, execute managed build/test command, and report.'',
           [''Target project directory has build tools configured.''])
      | GENERIC \<Rightarrow> Inr
          ([step_node cb ''step-1-info'' ''device.queryInfo'' ''device'' [] None 5000,
            step_node cb ''step-2-plan'' ''localAi.generate'' ''ai'' (prompt (''Process task goal: '' @ normalizedObjective goal))
              (Some [''step-1-info'']) t],
           SEQUENTIAL, ''Query device and environment context to establish baseline for requested goal.'', []))"

definition decomposeDeterministic :: "capability_boundary \<Rightarrow> normalized_goal \<Rightarrow> planner_error + decomposition" where
  "decomposeDeterministic cb goal =
     (case archetype_plan cb goal of
        Inl e \<Rightarrow> Inl e
      | Inr (nodes, strategy, rationale, assumptions) \<Rightarrow>
          (case assertCapabilitiesRegistered cb nodes of
             Some e \<Rightarrow> Inl e
           | None \<Rightarrow>
              (case find (\<lambda>n. capabilityId n \<in> set (nullish (k_forbiddenCapabilities (ng_constraints goal)) [])) nodes of
                 Some n \<Rightarrow> Inl (FORBIDDEN_CAPABILITY (nodeId n) (capabilityId n))
               | None \<Rightarrow>
                   Inr \<lparr>dc_nodes = nodes, dc_strategy = strategy, dc_rationale = rationale, dc_assumptions = assumptions,
                        dc_requiredCapabilities = unique_capabilities nodes\<rparr>)))"

type_synonym ai_adapter = "normalized_goal \<Rightarrow> string list \<Rightarrow> ai_answer"

text \<open>The message of the error that \<open>assertCapabilitiesRegistered\<close> throws has \<open>HALLUCINATED_CAPABILITY\<close> in it and is thrown on.\<close>

definition decompose :: "capability_boundary \<Rightarrow> ai_adapter option \<Rightarrow> normalized_goal \<Rightarrow> string list \<Rightarrow> planner_error + decomposition" where
  "decompose cb aiAdapter goal contextDocuments =
     (case aiAdapter of
        None \<Rightarrow> decomposeDeterministic cb goal
      | Some ai \<Rightarrow>
         (case ai goal contextDocuments of
            Ai_Null \<Rightarrow> decomposeDeterministic cb goal
          | Ai_Threw msg \<Rightarrow>
              if str_includes msg ''HALLUCINATED_CAPABILITY'' \<or> str_includes msg ''UNREGISTERED_CAPABILITY''
              then Inl (AI_FAILURE msg) else decomposeDeterministic cb goal
          | Ai_Proposal p \<Rightarrow>
              if ai_nodes p = [] then decomposeDeterministic cb goal
              else case assertCapabilitiesRegistered cb (ai_nodes p) of
                Some e \<Rightarrow> Inl e
              | None \<Rightarrow>
                  Inr \<lparr>dc_nodes = ai_nodes p, dc_strategy = nullish (ai_strategy p) SEQUENTIAL, dc_rationale = ai_rationale p,
                       dc_assumptions = nullish (ai_assumptions p) [], dc_requiredCapabilities = unique_capabilities (ai_nodes p)\<rparr>))"

section \<open>Synthesis\<close>

record goal_request = goal_input +
  gr_tenantId :: string
  gr_workspaceId :: string
  gr_targetAgentId :: string
  gr_submittedBy :: string
  gr_contextReferences :: "string list"

record plan_response =
  p_planId :: string
  p_normalizedGoal :: string
  p_tenantId :: string
  p_workspaceId :: string
  p_strategy :: planning_strategy
  p_dag :: task_graph_create_request
  p_rationale :: string
  p_assumptions :: "string list"
  p_requiredCapabilities :: "string list"
  p_estimatedRiskTier :: plan_risk_tier
  p_requiresHumanApproval :: bool
  p_approvalReason :: "string option"
  p_depth :: nat
  p_nodeCount :: nat
  p_edgeCount :: nat
  p_createdAt :: string

fun riskLoop :: "capability_boundary \<Rightarrow> workflow_node list \<Rightarrow> nat \<Rightarrow> plan_risk_tier \<Rightarrow> plan_risk_tier" where
  "riskLoop cb [] maxScore maxTier = maxTier"
| "riskLoop cb (n # ns) maxScore maxTier =
     (let tier = cb_getRiskTier cb (capabilityId n); score = riskScore tier in
      if score > maxScore then riskLoop cb ns score tier else riskLoop cb ns maxScore maxTier)"

definition calculateGraphRiskTier :: "capability_boundary \<Rightarrow> workflow_node list \<Rightarrow> plan_risk_tier" where
  "calculateGraphRiskTier cb nodes = riskLoop cb nodes 1 LOW"

definition highRiskCapabilities :: "string list" where
  "highRiskCapabilities = [''terminal.execute'', ''device.execute'', ''filesystem.deleteFile'']"

fun tier_name :: "plan_risk_tier \<Rightarrow> string" where
  "tier_name LOW = ''LOW''"
| "tier_name MEDIUM = ''MEDIUM''"
| "tier_name HIGH = ''HIGH''"
| "tier_name CRITICAL = ''CRITICAL''"

fun strategy_name :: "planning_strategy \<Rightarrow> string" where
  "strategy_name SEQUENTIAL = ''SEQUENTIAL''"
| "strategy_name PARALLEL = ''PARALLEL''"
| "strategy_name ADAPTIVE_HYBRID = ''ADAPTIVE_HYBRID''"

definition evaluateApprovalRequirement :: "workflow_node list \<Rightarrow> plan_risk_tier \<Rightarrow> plan_risk_tier \<Rightarrow> bool \<times> string option" where
  "evaluateApprovalRequirement nodes graphTier threshold =
     (let matching = filter (\<lambda>n. capabilityId n \<in> set highRiskCapabilities) nodes in
      if matching \<noteq> [] then
        (True, Some (''Plan contains high-risk operations: '' @
                     join '', '' (map (\<lambda>n. capabilityId n @ '' on '' @ quoted (nodeId n)) matching) @ ''.''))
      else if riskScore graphTier \<ge> riskScore threshold then
        (True, Some (''Graph risk tier ('' @ tier_name graphTier @
                     '') meets or exceeds configured human approval threshold ('' @ tier_name threshold @ '').''))
      else (False, None))"

definition synthesize ::
  "capability_boundary \<Rightarrow> string \<Rightarrow> string \<Rightarrow> goal_request \<Rightarrow> normalized_goal \<Rightarrow> decomposition \<Rightarrow> analysis \<Rightarrow> planner_error + plan_response" where
  "synthesize cb planId now request goal d an =
     (case find (\<lambda>n. \<not> cb_isRegistered cb (capabilityId n)) (dc_nodes d) of
        Some n \<Rightarrow> Inl (UNREGISTERED_CAPABILITY (capabilityId n))
      | None \<Rightarrow>
         (let tier = calculateGraphRiskTier cb (dc_nodes d);
              (approval, why) = evaluateApprovalRequirement (dc_nodes d) tier (k_requireHumanApprovalAbove (ng_constraints goal));
              caps = unique_capabilities (dc_nodes d)
          in Inr
            \<lparr>p_planId = planId, p_normalizedGoal = normalizedObjective goal, p_tenantId = gr_tenantId request,
             p_workspaceId = gr_workspaceId request, p_strategy = an_strategy an,
             p_dag =
               \<lparr>g_title = ''Plan: '' @ take 128 (normalizedObjective goal), g_targetAgentId = gr_targetAgentId request,
                g_workflowId = None, g_nodes = dc_nodes d, g_edges = None, g_requestedScope = Some (join '','' caps),
                g_metadata = Some
                  [(''planId'', planId), (''tenantId'', gr_tenantId request), (''workspaceId'', gr_workspaceId request),
                   (''strategy'', strategy_name (an_strategy an)), (''riskTier'', tier_name tier),
                   (''requiresHumanApproval'', if approval then ''true'' else ''false'')]\<rparr>,
             p_rationale = dc_rationale d, p_assumptions = dc_assumptions d, p_requiredCapabilities = caps,
             p_estimatedRiskTier = tier, p_requiresHumanApproval = approval, p_approvalReason = why,
             p_depth = an_depth an, p_nodeCount = an_nodeCount an, p_edgeCount = an_edgeCount an, p_createdAt = now\<rparr>))"

section \<open>Replanning\<close>

datatype replan_strategy = RETRY_NODE_WITH_BACKOFF | SUBSTITUTE_CAPABILITY | REPLAN_REMAINING_NODES | FAIL_AND_COMPENSATE

definition MAX_REPLAN_ITERATIONS :: int where "MAX_REPLAN_ITERATIONS = 3"

record replan_request =
  rq_tenantId :: string
  rq_workspaceId :: "string option"
  rq_taskId :: string
  rq_originalWorkflowId :: string
  rq_priorVersion :: int
  rq_replanIteration :: int
  rq_failedNodeId :: string
  rq_failureReason :: string
  rq_failureEvidenceChecksum :: string
  rq_isTerminalFailure :: bool
  rq_completedNodes :: "string list"
  rq_originalDAG :: task_graph_create_request
  rq_preferredStrategy :: replan_strategy

record replan_response =
  rs_tenantId :: string
  rs_workspaceId :: "string option"
  rs_successorWorkflowId :: string
  rs_taskId :: string
  rs_priorWorkflowId :: string
  rs_version :: int
  rs_replanIteration :: int
  rs_strategy :: replan_strategy
  rs_replanRationale :: string
  rs_successorDAG :: task_graph_create_request
  rs_preservedCompletedNodes :: "string list"
  rs_compensationNodes :: "workflow_node list option"
  rs_estimatedRiskTier :: plan_risk_tier
  rs_requiresHumanApproval :: bool
  rs_approvalReason :: "string option"
  rs_createdAt :: string

definition isUnknownOutcome :: "string \<Rightarrow> bool" where
  "isUnknownOutcome why \<longleftrightarrow>
     list_ex (str_includes (to_lower why))
       [''unknown'', ''timed out'', ''unconfirmed'', ''ambiguous outcome'', ''network partition'', ''abrupt disconnect'']"

text \<open>\<open>failedNode.timeoutMs || d\<close>\<close>

definition timeout_or :: "workflow_node \<Rightarrow> int \<Rightarrow> int" where
  "timeout_or n d = (let t = nullish (timeoutMs n) 0 in if t = 0 then d else t)"

definition adapt_node :: "workflow_node \<Rightarrow> string \<Rightarrow> workflow_node" where
  "adapt_node n failureReason =
     (let lower = to_lower failureReason in
      if capabilityId n = ''filesystem.readFile'' \<and> (str_includes lower ''not found'' \<or> str_includes lower ''enoent'') then
        \<lparr>nodeId = nodeId n @ ''-search-fallback'', capabilityId = ''filesystem.searchFiles'', runtimeCategory = ''filesystem'',
         payload = [(''pattern'', JStr ''*.*'')], dependencies = dependencies n, compensationPayload = None,
         timeoutMs = Some (timeout_or n 30000)\<rparr>
      else if capabilityId n = ''browser.navigate'' \<and> str_includes lower ''timeout'' then
        \<lparr>nodeId = nodeId n @ ''-retry-nav'', capabilityId = ''browser.navigate'', runtimeCategory = ''browser'',
         payload = js_set ''retry'' (JBool True) (payload n), dependencies = dependencies n, compensationPayload = None,
         timeoutMs = Some (min (timeout_or n 30000 * 2) 60000)\<rparr>
      else n\<lparr>nodeId := nodeId n @ ''-retry'', timeoutMs := Some (min (timeout_or n 10000 + 5000) 60000)\<rparr>)"

definition adaptFailedNode :: "workflow_node option \<Rightarrow> string \<Rightarrow> workflow_node option" where
  "adaptFailedNode failedNode failureReason = map_option (\<lambda>n. adapt_node n failureReason) failedNode"

definition failed_node :: "replan_request \<Rightarrow> workflow_node option" where
  "failed_node rq = find (\<lambda>n. nodeId n = rq_failedNodeId rq) (g_nodes (rq_originalDAG rq))"

definition compensation_nodes :: "replan_request \<Rightarrow> workflow_node list" where
  "compensation_nodes rq =
     (case failed_node rq of
        None \<Rightarrow> []
      | Some n \<Rightarrow>
         (case compensationPayload n of
            None \<Rightarrow> []
          | Some p \<Rightarrow>
              [\<lparr>nodeId = ''compensate-'' @ rq_failedNodeId rq, capabilityId = capabilityId n, runtimeCategory = runtimeCategory n,
                payload = p, dependencies = None, compensationPayload = None, timeoutMs = Some 10000\<rparr>]))"

definition unexecuted :: "replan_request \<Rightarrow> workflow_node list" where
  "unexecuted rq =
     filter (\<lambda>n. nodeId n \<notin> set (rq_completedNodes rq) \<and> nodeId n \<noteq> rq_failedNodeId rq) (g_nodes (rq_originalDAG rq))"

definition relink :: "replan_request \<Rightarrow> workflow_node option \<Rightarrow> workflow_node \<Rightarrow> workflow_node" where
  "relink rq adapted n =
     n\<lparr>dependencies := Some (map (\<lambda>d. case adapted of
          Some a \<Rightarrow> if d = rq_failedNodeId rq then nodeId a else d
        | None \<Rightarrow> d) (nullish (dependencies n) []))\<rparr>"

definition adapted_nodes :: "replan_request \<Rightarrow> workflow_node list" where
  "adapted_nodes rq =
     (let adapted = adaptFailedNode (failed_node rq) (rq_failureReason rq)
      in (case adapted of Some a \<Rightarrow> [a] | None \<Rightarrow> []) @ map (relink rq adapted) (unexecuted rq))"

definition diagnosis :: "replan_request \<Rightarrow> int \<Rightarrow> workflow_node" where
  "diagnosis rq version =
     \<lparr>nodeId = ''diagnose-'' @ rq_failedNodeId rq @ ''-v'' @ int_str version, capabilityId = ''filesystem.listDirectory'',
      runtimeCategory = ''filesystem'', payload = [(''path'', JStr ''.'')], dependencies = None, compensationPayload = None,
      timeoutMs = Some 10000\<rparr>"

text \<open>The risk of the successor graph: the tier of the last high or critical node counts.\<close>

fun successor_risk :: "capability_boundary \<Rightarrow> workflow_node list \<Rightarrow> plan_risk_tier \<times> bool \<Rightarrow> plan_risk_tier \<times> bool" where
  "successor_risk cb [] acc = acc"
| "successor_risk cb (n # ns) (maxRisk, approval) =
     (let tier = cb_getRiskTier cb (capabilityId n) in
      if tier = HIGH \<or> tier = CRITICAL then successor_risk cb ns (tier, True)
      else if tier = MEDIUM \<and> maxRisk = LOW then successor_risk cb ns (MEDIUM, approval)
      else successor_risk cb ns (maxRisk, approval))"

definition chosenStrategy :: "replan_request \<Rightarrow> replan_strategy" where
  "chosenStrategy rq = (if isUnknownOutcome (rq_failureReason rq) then FAIL_AND_COMPENSATE else rq_preferredStrategy rq)"

definition replan_rationale :: "replan_request \<Rightarrow> bool \<Rightarrow> string" where
  "replan_rationale rq diagnosed =
     (if chosenStrategy rq = FAIL_AND_COMPENSATE then
        (if isUnknownOutcome (rq_failureReason rq) then
           ''NEEDS_RECONCILIATION: Execution outcome of '' @ quoted (rq_failedNodeId rq) @
           '' is ambiguous. Non-idempotent mutation retry is blocked pending state reconciliation.'' else [])
        @ '' Compensating actions generated for rollback.''
      else
        ''Adapted failed node '' @ quoted (rq_failedNodeId rq) @ '' to '' @
        quoted (case adaptFailedNode (failed_node rq) (rq_failureReason rq) of Some a \<Rightarrow> or_else (Some (nodeId a)) ''alternative'' | None \<Rightarrow> ''alternative'') @
        '' with preserved completed steps: ['' @ join '', '' (rq_completedNodes rq) @ ''].'')
     @ (if diagnosed then '' Inserted diagnostic node to inspect current workspace state.'' else [])"

definition coordinateReplan ::
  "capability_boundary \<Rightarrow> string \<Rightarrow> string \<Rightarrow> replan_request \<Rightarrow> planner_error + replan_response" where
  "coordinateReplan cb successorWorkflowId now rq =
     (if rq_replanIteration rq > MAX_REPLAN_ITERATIONS then Inl (EXCEEDS_MAX_REPLAN_ITERATIONS (rq_replanIteration rq))
      else if rq_isTerminalFailure rq then Inl (TERMINAL_FAILURE_NO_REPLAN (rq_failedNodeId rq) (rq_failureReason rq))
      else
        let version = rq_priorVersion rq + 1;
            compensating = chosenStrategy rq = FAIL_AND_COMPENSATE;
            compensation = (if compensating then compensation_nodes rq else []);
            adapted = (if compensating then [] else adapted_nodes rq);
            diagnosed = (adapted = [] \<and> compensation = []);
            successors = (if diagnosed then [diagnosis rq version] else adapted);
            candidates = successors @ compensation;
            (risk, approval) = successor_risk cb candidates (LOW, False)
        in Inr
          \<lparr>rs_tenantId = rq_tenantId rq, rs_workspaceId = rq_workspaceId rq, rs_successorWorkflowId = successorWorkflowId,
           rs_taskId = rq_taskId rq, rs_priorWorkflowId = rq_originalWorkflowId rq, rs_version = version,
           rs_replanIteration = rq_replanIteration rq, rs_strategy = chosenStrategy rq,
           rs_replanRationale = replan_rationale rq diagnosed,
           rs_successorDAG =
             \<lparr>g_title = ''Replan v'' @ int_str version @ '': '' @ g_title (rq_originalDAG rq),
              g_targetAgentId = g_targetAgentId (rq_originalDAG rq), g_workflowId = None,
              g_nodes = (if successors \<noteq> [] then successors else compensation), g_edges = None,
              g_requestedScope = Some (join '','' (unique_capabilities candidates)),
              g_metadata = Some
                [(''replanVersion'', int_str version), (''priorWorkflowId'', rq_originalWorkflowId rq),
                 (''replanIteration'', int_str (rq_replanIteration rq))]\<rparr>,
           rs_preservedCompletedNodes = rq_completedNodes rq,
           rs_compensationNodes = (if compensation \<noteq> [] then Some compensation else None),
           rs_estimatedRiskTier = risk, rs_requiresHumanApproval = approval,
           rs_approvalReason = (if approval then Some (''Successor graph contains '' @ tier_name risk @ '' risk operations.'') else None),
           rs_createdAt = now\<rparr>)"

section \<open>The service\<close>

definition PlanningConstraintsSchema :: "requested_constraints \<Rightarrow> bool" where
  "PlanningConstraintsSchema c \<longleftrightarrow>
     (case q_timeoutMs c of None \<Rightarrow> True | Some t \<Rightarrow> 0 < t \<and> t \<le> MAX_TIMEOUT_MS)
     \<and> (case q_maxNodes c of None \<Rightarrow> True | Some n \<Rightarrow> 0 < n \<and> n \<le> int MAX_NODES)
     \<and> [] \<notin> set (nullish (q_allowedCategories c) []) \<and> [] \<notin> set (nullish (q_forbiddenCapabilities c) [])"

definition GoalDecompositionRequestSchema :: "platform \<Rightarrow> goal_request \<Rightarrow> bool" where
  "GoalDecompositionRequestSchema P r \<longleftrightarrow>
     sized 4096 (i_goal r) \<and> uuid_ok P (gr_tenantId r) \<and> uuid_ok P (gr_workspaceId r) \<and> uuid_ok P (gr_targetAgentId r)
     \<and> sized 256 (gr_submittedBy r) \<and> list_all (sized 256) (nullish (i_deliverables r) [])
     \<and> PlanningConstraintsSchema (i_constraints r)
     \<and> length (gr_contextReferences r) \<le> 20 \<and> [] \<notin> set (gr_contextReferences r)"

definition GoalDecompositionResponseSchema :: "platform \<Rightarrow> plan_response \<Rightarrow> bool" where
  "GoalDecompositionResponseSchema P r \<longleftrightarrow>
     uuid_ok P (p_planId r) \<and> p_normalizedGoal r \<noteq> [] \<and> uuid_ok P (p_tenantId r) \<and> uuid_ok P (p_workspaceId r)
     \<and> TaskGraphCreateRequestSchema P (p_dag r) \<and> p_rationale r \<noteq> [] \<and> [] \<notin> set (p_requiredCapabilities r)
     \<and> p_depth r \<le> MAX_DEPTH \<and> 0 < p_nodeCount r \<and> p_nodeCount r \<le> MAX_NODES \<and> p_edgeCount r \<le> MAX_EDGES
     \<and> datetime_ok P (p_createdAt r)"

definition AdaptiveReplanRequestSchema :: "platform \<Rightarrow> replan_request \<Rightarrow> bool" where
  "AdaptiveReplanRequestSchema P r \<longleftrightarrow>
     uuid_ok P (rq_tenantId r) \<and> (case rq_workspaceId r of None \<Rightarrow> True | Some w \<Rightarrow> uuid_ok P w)
     \<and> uuid_ok P (rq_taskId r) \<and> uuid_ok P (rq_originalWorkflowId r)
     \<and> 0 < rq_priorVersion r \<and> 0 < rq_replanIteration r \<and> rq_replanIteration r \<le> MAX_REPLAN_ITERATIONS
     \<and> sized 64 (rq_failedNodeId r) \<and> sized 2048 (rq_failureReason r)
     \<and> length (rq_failureEvidenceChecksum r) = 64
     \<and> list_all (\<lambda>c. is_digit c \<or> 97 \<le> (of_char c :: nat) \<and> (of_char c :: nat) \<le> 102) (rq_failureEvidenceChecksum r)
     \<and> [] \<notin> set (rq_completedNodes r) \<and> TaskGraphCreateRequestSchema P (rq_originalDAG r)"

text \<open>The context of the caller is taken from \<open>Policy\<close>; without a tenant or a principal it is \<open>None\<close> or has an empty tenant.\<close>

definition planGoal ::
  "platform \<Rightarrow> capability_boundary \<Rightarrow> ai_adapter option \<Rightarrow> (normalized_goal \<Rightarrow> string list) \<Rightarrow> string \<Rightarrow> string \<Rightarrow>
   goal_request \<Rightarrow> authenticated_context option \<Rightarrow> planner_error + plan_response" where
  "planGoal P cb ai documents planId now request ctx =
     (if \<not> authenticated ctx then Inl UNAUTHENTICATED
      else if \<not> GoalDecompositionRequestSchema P request then Inl REQUEST_SCHEMA
      else if gr_tenantId request \<noteq> ctx_tenantId (the ctx) then
        Inl (CROSS_TENANT_FORBIDDEN (gr_tenantId request) (ctx_tenantId (the ctx)))
      else case assertNoSecrets (i_goal request) of
        Inl found \<Rightarrow> Inl (PROHIBITED_SECRETS found)
      | Inr _ \<Rightarrow>
         (case assertNoSecrets (stringify (JObj (i_parameters request))) of
            Inl found \<Rightarrow> Inl (PROHIBITED_SECRETS found)
          | Inr _ \<Rightarrow>
             (let goal = normalizeGoal (goal_input.truncate request) in
              if isAmbiguous goal then Inl (AmbiguousGoalException (ambiguityDetails goal))
              else case decompose cb ai goal (documents goal) of
                Inl e \<Rightarrow> Inl e
              | Inr d \<Rightarrow>
                 (case analyze (dc_nodes d) [] of
                    Inl e \<Rightarrow> Inl (PLAN_VALIDATION_FAILED e)
                  | Inr an \<Rightarrow> synthesize cb planId now request goal d an))))"

definition replanGoal ::
  "platform \<Rightarrow> capability_boundary \<Rightarrow> string \<Rightarrow> string \<Rightarrow> replan_request \<Rightarrow> authenticated_context option \<Rightarrow> planner_error + replan_response" where
  "replanGoal P cb successorWorkflowId now rq ctx =
     (if \<not> authenticated ctx then Inl UNAUTHENTICATED
      else if \<not> AdaptiveReplanRequestSchema P rq then Inl REQUEST_SCHEMA
      else if rq_tenantId rq \<noteq> ctx_tenantId (the ctx) then Inl (CROSS_TENANT_FORBIDDEN (rq_tenantId rq) (ctx_tenantId (the ctx)))
      else coordinateReplan cb successorWorkflowId now rq)"

section \<open>Proposals\<close>

lemma risk_le_iff: "riskScore a \<le> riskScore b \<longleftrightarrow> a \<le> b"
  by (simp add: less_eq_plan_risk_tier_def)

lemma riskLoop_max: "riskLoop cb ns (riskScore t) t = foldl max t (map (\<lambda>n. cb_getRiskTier cb (capabilityId n)) ns)"
proof (induction ns arbitrary: t)
  case (Cons n ns)
  have "riskScore t < riskScore u \<longleftrightarrow> t < u" for u by (simp add: less_plan_risk_tier_def)
  then show ?case using Cons
    by (cases "t < cb_getRiskTier cb (capabilityId n)") (auto simp: Let_def max_def)
qed simp

lemma foldl_max: "foldl max t ts = Max (insert t (set ts))" for t :: "'a :: linorder"
proof (induction ts arbitrary: t)
  case (Cons a ts)
  then show ?case by (cases "set ts = {}") (auto simp: max.assoc)
qed simp

lemma riskLoop_LOW: "riskLoop cb ns 1 LOW = riskLoop cb ns (riskScore LOW) LOW"
  by simp

lemma graph_risk: "calculateGraphRiskTier cb ns = Max (insert LOW ((\<lambda>n. cb_getRiskTier cb (capabilityId n)) ` set ns))"
  unfolding calculateGraphRiskTier_def riskLoop_LOW riskLoop_max foldl_max by simp

lemma graph_risk_ge: "n \<in> set ns \<Longrightarrow> cb_getRiskTier cb (capabilityId n) \<le> calculateGraphRiskTier cb ns"
  unfolding graph_risk by simp

lemma approval_iff:
  "fst (evaluateApprovalRequirement ns t threshold) \<longleftrightarrow> threshold \<le> t \<or> (\<exists>n \<in> set ns. capabilityId n \<in> set highRiskCapabilities)"
  by (auto simp: evaluateApprovalRequirement_def Let_def risk_le_iff filter_empty_conv)

lemma analyze_InrD:
  assumes "analyze nodes edges = Inr an"
  shows "dag_ok nodes edges" "length nodes \<le> MAX_NODES" "length (edge_keys nodes edges) \<le> MAX_EDGES"
    "calculateDAGDepth nodes edges \<le> MAX_DEPTH" "\<forall>n \<in> set nodes. \<forall>t. timeoutMs n = Some t \<longrightarrow> t \<le> MAX_TIMEOUT_MS"
    "an_depth an = calculateDAGDepth nodes edges" "an_nodeCount an = length nodes" "an_edgeCount an = length (edge_keys nodes edges)"
  using assms
  by (auto simp: analyze_def validatePlanSafetyLimits_def Let_def find_None_iff validate_none_iff
      split: option.splits if_splits)

lemma synthesize_InrD:
  assumes "synthesize cb planId now request goal d an = Inr p"
  shows "p_tenantId p = gr_tenantId request" "p_normalizedGoal p = normalizedObjective goal" "g_nodes (p_dag p) = dc_nodes d"
    "\<forall>n \<in> set (dc_nodes d). cb_isRegistered cb (capabilityId n)"
    "p_estimatedRiskTier p = calculateGraphRiskTier cb (dc_nodes d)"
    "p_requiresHumanApproval p \<longleftrightarrow>
       fst (evaluateApprovalRequirement (dc_nodes d) (calculateGraphRiskTier cb (dc_nodes d)) (k_requireHumanApprovalAbove (ng_constraints goal)))"
    "p_depth p = an_depth an" "p_nodeCount p = an_nodeCount an" "p_edgeCount p = an_edgeCount an"
    "p_planId p = planId" "p_workspaceId p = gr_workspaceId request" "p_rationale p = dc_rationale d" "p_createdAt p = now"
    "p_requiredCapabilities p = unique_capabilities (dc_nodes d)"
    "g_title (p_dag p) = ''Plan: '' @ take 128 (normalizedObjective goal)" "g_targetAgentId (p_dag p) = gr_targetAgentId request"
    "g_workflowId (p_dag p) = None" "g_edges (p_dag p) = None"
    "g_requestedScope (p_dag p) = Some (join '','' (unique_capabilities (dc_nodes d)))"
  using assms by (auto simp: synthesize_def Let_def find_None_iff split: option.splits prod.splits)

lemma planGoal_InrD:
  assumes "planGoal P cb ai documents planId now request ctx = Inr p"
  obtains goal d an where "goal = normalizeGoal (goal_input.truncate request)" "\<not> isAmbiguous goal"
    "authenticated ctx" "GoalDecompositionRequestSchema P request" "gr_tenantId request = ctx_tenantId (the ctx)"
    "scanForSecrets (i_goal request) = []"
    "decompose cb ai goal (documents goal) = Inr d" "analyze (dc_nodes d) [] = Inr an"
    "synthesize cb planId now request goal d an = Inr p"
  using assms unfolding planGoal_def
  by (auto simp: Let_def assertNoSecrets_def split: if_splits sum.splits)

lemma truncate_input [simp]:
  "i_goal (goal_input.truncate r) = i_goal r" "i_constraints (goal_input.truncate r) = i_constraints r"
  by (simp_all add: goal_input.truncate_def)

text \<open>C25. Whatever the language model answers and the memory returns, a plan that \<open>planGoal\<close> proposes belongs to the tenant of the
  caller, uses registered capabilities only, is an acyclic graph within the limits whose templates refer to ancestors, carries a risk
  tier no lower than that of any node, requires approval from the threshold of the request on and for every node of a
  high-risk capability, and has an objective without the known phrases of prompt injection.
\<close>

theorem planned_proposal_governed:
  assumes "planGoal P cb ai documents planId now request ctx = Inr p"
  shows "ctx \<noteq> None \<and> p_tenantId p = ctx_tenantId (the ctx)
    \<and> (let nodes = g_nodes (p_dag p) in
        (\<forall>n \<in> set nodes. cb_isRegistered cb (capabilityId n) \<and> cb_getRiskTier cb (capabilityId n) \<le> p_estimatedRiskTier p
           \<and> (\<forall>t. timeoutMs n = Some t \<longrightarrow> t \<le> MAX_TIMEOUT_MS)
           \<and> (\<forall>i \<in> set (extractInterpolatedNodeIds (payload n)). (i, nodeId n) \<in> (set (dep_edges nodes))\<^sup>+))
        \<and> dag_ok nodes [] \<and> length nodes \<le> MAX_NODES \<and> p_depth p = calculateDAGDepth nodes [] \<and> p_depth p \<le> MAX_DEPTH
        \<and> p_edgeCount p \<le> MAX_EDGES
        \<and> (p_requiresHumanApproval p \<longleftrightarrow>
             nullish (q_requireHumanApprovalAbove (i_constraints request)) MEDIUM \<le> p_estimatedRiskTier p
             \<or> (\<exists>n \<in> set nodes. capabilityId n \<in> set highRiskCapabilities)))
    \<and> list_all (\<lambda>(r, m). \<not> re_test (ignore_case r) (p_normalizedGoal p)) injection_patterns"
proof -
  obtain goal d an where g: "goal = normalizeGoal (goal_input.truncate request)" "\<not> isAmbiguous goal" "authenticated ctx"
      "gr_tenantId request = ctx_tenantId (the ctx)"
    and a: "analyze (dc_nodes d) [] = Inr an" and p: "synthesize cb planId now request goal d an = Inr p"
    using planGoal_InrD [OF assms] by metis
  note an = analyze_InrD [OF a] and sy = synthesize_InrD [OF p]
  have k: "k_requireHumanApprovalAbove (ng_constraints goal) = nullish (q_requireHumanApprovalAbove (i_constraints request)) MEDIUM"
    using normalize_clear(2) [of "goal_input.truncate request"] g by (simp add: normalized_constraints_def)
  have "normalizedObjective goal = sanitizeGoalText (trim (i_goal request))"
    using normalize_clear(1) [of "goal_input.truncate request"] g by simp
  then have "list_all (\<lambda>(r, m). \<not> re_test (ignore_case r) (p_normalizedGoal p)) injection_patterns"
    using sy(2) by (auto simp: list_all_iff sanitized_clean)
  moreover have "ctx \<noteq> None" using g(3) by (auto simp: authenticated_def split: option.splits)
  ultimately show ?thesis using an sy g(4) k accepted_references [OF a] graph_risk_ge by (simp add: Let_def approval_iff)
qed

section \<open>Proposals of the archetypes are well-typed\<close>

lemma trim_hd:
  assumes "trim s = s" "s \<noteq> []"
  shows "\<not> is_ws (hd s)"
proof
  assume "is_ws (hd s)"
  then have "length (dropWhile is_ws s) < length s"
    using assms(2) by (cases s) (auto intro: le_less_trans [OF length_dropWhile_le])
  then have "length (trim s) < length s"
    unfolding trim_def using length_dropWhile_le [of is_ws "rev (dropWhile is_ws s)"] by simp
  then show False using assms(1) by simp
qed

definition starts_clean :: "string \<Rightarrow> bool" where
  "starts_clean t \<longleftrightarrow> t \<noteq> [] \<and> \<not> is_ws (hd t)"

lemma neutralize_starts_clean:
  assumes "starts_clean t" "e \<in> set injection_patterns"
  shows "starts_clean (neutralize t e)"
proof -
  have e: "snd e \<noteq> []" "hd (snd e) = CHR ''[''" using injection_shape(6,8) [of "fst e" "snd e"] assms(2) by auto
  then show ?thesis
    using replace_head [of t "ignore_case (fst e)" "\<lambda>_. snd e" None] assms(1)
    by (auto simp: starts_clean_def neutralize_def re_replace_def bracket_not_ws)
qed

lemma sanitized_nonempty: "starts_clean t \<Longrightarrow> sanitizeGoalText t \<noteq> []"
proof -
  assume t: "starts_clean t"
  have "set es \<subseteq> set injection_patterns \<Longrightarrow> starts_clean u \<Longrightarrow> starts_clean (foldl neutralize u es)" for es u
    by (induction es arbitrary: u) (auto intro: neutralize_starts_clean)
  then have c: "starts_clean (foldl neutralize t injection_patterns)" using t by blast
  let ?u = "foldl neutralize t injection_patterns"
  have "dropWhile is_ws ?u = ?u" using c by (cases ?u) (auto simp: starts_clean_def)
  then have "trim ?u \<noteq> []" using c by (auto simp: trim_def starts_clean_def dropWhile_eq_Nil_conv intro!: bexI [of _ "hd ?u"])
  then show ?thesis by (simp add: sanitizeGoalText_def)
qed

lemma step_node_schema:
  assumes "0 < t" "t \<le> 300000" "sized 64 i" "cap \<noteq> []" "fallback \<noteq> []" "\<forall>d \<in> set (nullish deps []). sized 64 d"
  shows "WorkflowNodeSchema (step_node cb i cap fallback p deps t)"
  using assms by (cases "cb_getCategory cb cap") (auto simp: WorkflowNodeSchema_def step_node_def sized_def or_else_def)

lemma schema_compensation: "WorkflowNodeSchema (n\<lparr>compensationPayload := c\<rparr>) \<longleftrightarrow> WorkflowNodeSchema n"
  by (simp add: WorkflowNodeSchema_def)

lemma archetype_typed:
  assumes "archetype_plan cb goal = Inr (nodes, strategy, rationale, assumptions)"
    and "0 < step_timeout goal" "step_timeout goal \<le> 300000"
  shows "list_all WorkflowNodeSchema nodes" "rationale \<noteq> []"
proof -
  have cap: "inspect_capability x \<noteq> Inr []" for x
    by (auto simp: inspect_capability_def split: json.splits)
  show "list_all WorkflowNodeSchema nodes"
    using assms cap unfolding archetype_plan_def Let_def
    by (cases "archetype goal") (auto simp: schema_compensation nullish_def sized_def intro!: step_node_schema split: sum.splits)
  show "rationale \<noteq> []"
    using assms(1) unfolding archetype_plan_def Let_def by (cases "archetype goal") (auto split: sum.splits)
qed

lemma step_timeout_bounds:
  "ng_constraints goal = normalized_constraints c \<Longrightarrow> 0 < step_timeout goal \<and> step_timeout goal \<le> 300000"
  by (auto simp: step_timeout_def normalized_constraints_def Let_def MAX_TIMEOUT_MS_def)

lemma join_nonempty: "x \<noteq> [] \<Longrightarrow> join sep (x # xs) \<noteq> []"
  by (cases xs) auto

lemma scope_nonempty:
  assumes "nodes \<noteq> []" "\<forall>n \<in> set nodes. capabilityId n \<noteq> []"
  shows "join '','' (unique_capabilities nodes) \<noteq> []"
proof -
  have s: "set (unique_capabilities nodes) = capabilityId ` set nodes" by (simp add: unique_capabilities_def)
  then obtain x xs where x: "unique_capabilities nodes = x # xs" using assms(1) by (cases "unique_capabilities nodes") auto
  then have "x \<noteq> []" using s assms(2) by (metis image_iff list.set_intros(1))
  then show ?thesis unfolding x by (rule join_nonempty)
qed

text \<open>C26. Without a language model every plan that \<open>planGoal\<close> returns satisfies the schema of the response, including the schema of the
  graph request that the task controller applies to it: identifiers, texts, node timeouts, counts and topology.
\<close>

theorem archetype_proposal_typed:
  assumes "planGoal P cb None documents planId now request ctx = Inr p" "uuid_ok P planId" "datetime_ok P now"
  shows "GoalDecompositionResponseSchema P p"
proof -
  obtain goal d an where g: "goal = normalizeGoal (goal_input.truncate request)" "\<not> isAmbiguous goal"
      "GoalDecompositionRequestSchema P request" "decompose cb None goal (documents goal) = Inr d"
    and a: "analyze (dc_nodes d) [] = Inr an" and p: "synthesize cb planId now request goal d an = Inr p"
    using planGoal_InrD [OF assms(1)] by metis
  note an = analyze_InrD [OF a] and nc = normalize_clear [OF g(2) [unfolded g(1)], folded g(1)]
  have b: "0 < step_timeout goal" "step_timeout goal \<le> 300000" using step_timeout_bounds [OF nc(2)] by auto
  obtain st as where "archetype_plan cb goal = Inr (dc_nodes d, st, dc_rationale d, as)"
    using g(4) by (auto simp: decompose_def decomposeDeterministic_def split: sum.splits prod.splits option.splits)
  note t = archetype_typed [OF this b]
  have caps: "\<forall>n \<in> set (dc_nodes d). capabilityId n \<noteq> []" using t(1) by (auto simp: list_all_iff WorkflowNodeSchema_def)
  have ne: "dc_nodes d \<noteq> []" using an(1) by (simp add: dag_ok_def)
  have raw: "trim (i_goal request) \<noteq> []" using nc(3) by auto
  then have "starts_clean (trim (i_goal request))" using trim_hd [OF trim_trim raw] by (simp add: starts_clean_def)
  then have obj: "normalizedObjective goal \<noteq> []" using sanitized_nonempty nc(1) by simp
  note sy = synthesize_InrD [OF p]
  have "TaskGraphCreateRequestSchema P (p_dag p)"
    using g(3) t(1) ne an(1,2) scope_nonempty [OF ne caps]
    unfolding TaskGraphCreateRequestSchema_def GoalDecompositionRequestSchema_def sy(3,15-19) MAX_NODES_def
    by (simp add: nullish_def validate_none_iff Suc_le_eq)
  moreover have "[] \<notin> set (unique_capabilities (dc_nodes d))" using caps by (auto simp: unique_capabilities_def)
  ultimately show ?thesis
    using g(3) assms(2,3) t(2) ne obj an(2,3,4)
    unfolding GoalDecompositionResponseSchema_def GoalDecompositionRequestSchema_def sy(1,2,7-14) an(6-8) by simp
qed

section \<open>Replanning\<close>

lemma coordinateReplan_InrD:
  assumes "coordinateReplan cb i now rq = Inr r"
  shows "rq_replanIteration rq \<le> MAX_REPLAN_ITERATIONS" "\<not> rq_isTerminalFailure rq" "rs_version r = rq_priorVersion rq + 1"
    "rs_tenantId r = rq_tenantId rq" "rs_strategy r = chosenStrategy rq" "rs_preservedCompletedNodes r = rq_completedNodes rq"
    "g_nodes (rs_successorDAG r) =
       (if chosenStrategy rq = FAIL_AND_COMPENSATE
        then if compensation_nodes rq = [] then [diagnosis rq (rs_version r)] else compensation_nodes rq
        else if adapted_nodes rq = [] then [diagnosis rq (rs_version r)] else adapted_nodes rq)"
    "g_edges (rs_successorDAG r) = None"
  using assms by (auto simp: coordinateReplan_def Let_def split: if_splits prod.splits)

text \<open>A node that was in the plan and neither completed nor failed, up to its dependencies.\<close>

definition remaining_node :: "replan_request \<Rightarrow> workflow_node \<Rightarrow> bool" where
  "remaining_node rq n \<longleftrightarrow>
     nodeId n \<notin> set (rq_completedNodes rq) \<and> nodeId n \<noteq> rq_failedNodeId rq
     \<and> (\<exists>m \<in> set (g_nodes (rq_originalDAG rq)). n = m\<lparr>dependencies := dependencies n\<rparr>)"

lemma relink_remaining: "n \<in> set (unexecuted rq) \<Longrightarrow> remaining_node rq (relink rq a n)"
  by (auto simp: unexecuted_def remaining_node_def relink_def)


text \<open>A failed node that depends on a completed one makes the successor graph invalid: the adapted node keeps the dependency, the
  completed node is not part of the successor, and the schema of the task controller refuses the graph. Such a plan
  cannot be continued after a failure.
\<close>

theorem replan_after_progress_refused:
  assumes "coordinateReplan cb i now rq = Inr r" "chosenStrategy rq \<noteq> FAIL_AND_COMPENSATE"
    and "failed_node rq = Some n" "d \<in> set (nullish (dependencies n) [])" "d \<in> set (rq_completedNodes rq)"
    and "d \<noteq> nodeId (adapt_node n (rq_failureReason rq))"
  shows "\<not> TaskGraphCreateRequestSchema P (rs_successorDAG r)"
proof -
  let ?a = "adapt_node n (rq_failureReason rq)" and ?nodes = "g_nodes (rs_successorDAG r)"
  have nodes: "?nodes = ?a # map (relink rq (Some ?a)) (unexecuted rq)"
    using coordinateReplan_InrD(7) [OF assms(1)] assms(2,3) by (simp add: adapted_nodes_def adaptFailedNode_def)
  have "dependencies ?a = dependencies n" by (simp add: adapt_node_def Let_def)
  then have "(d, nodeId ?a) \<in> set (dep_edges ?nodes)" using assms(4) unfolding nodes dep_edges_def by auto
  moreover have "d \<notin> nodeId ` set ?nodes"
    using assms(5,6) unfolding nodes by (auto simp: unexecuted_def relink_def)
  ultimately have "\<not> dag_ok ?nodes []" by (force simp: dag_ok_def graph_edges_def)
  then show ?thesis
    using coordinateReplan_InrD(8) [OF assms(1)] by (simp add: TaskGraphCreateRequestSchema_def validate_none_iff nullish_def)
qed

section \<open>Observations\<close>

text \<open>The constraints of the request do not bind the language model: only the registry is consulted.\<close>

lemma ai_proposal_unconstrained:
  assumes "ai goal docs = Ai_Proposal p" "ai_nodes p \<noteq> []" "\<forall>n \<in> set (ai_nodes p). cb_isRegistered cb (capabilityId n)"
  shows "\<exists>d. decompose cb (Some ai) goal docs = Inr d \<and> dc_nodes d = ai_nodes p"
  using assms by (auto simp: decompose_def assertCapabilitiesRegistered_def find_None_iff split: option.splits)

text \<open>The registry normalises identifiers, the list of high-risk capabilities does not.\<close>

definition aliased_node :: workflow_node where
  "aliased_node = \<lparr>nodeId = ''a'', capabilityId = ''capability:terminal:execute'', runtimeCategory = ''terminal'', payload = [],
     dependencies = None, compensationPayload = None, timeoutMs = None\<rparr>"

lemma aliased_high_risk_unapproved:
  "isRegistered DefaultCapabilityRegistry (capabilityId aliased_node)"
  "fst (evaluateApprovalRequirement [aliased_node\<lparr>capabilityId := ''terminal.execute''\<rparr>] HIGH CRITICAL)"
  "\<not> fst (evaluateApprovalRequirement [aliased_node] HIGH CRITICAL)"
  by code_simp+

text \<open>A high node after a critical one lowers the risk of a successor graph.\<close>

lemma replan_risk_understated:
  assumes "cb_getRiskTier cb (capabilityId a) = CRITICAL" "cb_getRiskTier cb (capabilityId b) = HIGH"
  shows "fst (successor_risk cb [a, b] (LOW, False)) = HIGH"
  using assms by simp

section \<open>Witnesses\<close>

definition test_capabilities :: capability_boundary where
  "test_capabilities = registry_boundary DefaultCapabilityRegistry"

definition test_goal_request :: goal_request where
  "test_goal_request =
     \<lparr>i_goal = ''Run step'', i_deliverables = None,
      i_constraints = \<lparr>q_timeoutMs = None, q_maxNodes = None, q_allowedCategories = None, q_forbiddenCapabilities = None,
        q_requireHumanApprovalAbove = None\<rparr>,
      i_parameters = [], gr_tenantId = ''acme'', gr_workspaceId = ''W1'', gr_targetAgentId = ''A1'', gr_submittedBy = ''u1'',
      gr_contextReferences = []\<rparr>"

definition test_plan :: "planner_error + plan_response" where
  "test_plan = planGoal test_platform test_capabilities None (\<lambda>_. []) ''P1'' (toISOString 0) test_goal_request (Some test_user)"

lemma test_plan_eq: "planGoal test_platform test_capabilities None (\<lambda>_. []) ''P1'' (toISOString 0) test_goal_request (Some test_user) = test_plan"
  by (simp add: test_plan_def)

lemma test_plan_made: "case test_plan of Inl e \<Rightarrow> False | Inr p \<Rightarrow> p_nodeCount p = 3"
  by code_simp

theorem planned_proposal_governed_witness:
  "case test_plan of Inl e \<Rightarrow> False | Inr p \<Rightarrow> p_nodeCount p = 3 \<and> p_tenantId p = ctx_tenantId test_user \<and> dag_ok (g_nodes (p_dag p)) []"
proof (cases test_plan)
  case (Inr p)
  show ?thesis
    using planned_proposal_governed [OF test_plan_eq [unfolded Inr]] test_plan_made unfolding Inr sum.case Let_def by simp
next
  case (Inl e)
  show ?thesis using test_plan_made unfolding Inl by simp
qed

theorem archetype_proposal_typed_witness:
  "case test_plan of Inl e \<Rightarrow> False | Inr p \<Rightarrow> p_nodeCount p = 3 \<and> GoalDecompositionResponseSchema test_platform p"
proof (cases test_plan)
  case (Inr p)
  have u: "uuid_ok test_platform ''P1''" "datetime_ok test_platform (toISOString 0)" by code_simp+
  show ?thesis using archetype_proposal_typed [OF test_plan_eq [unfolded Inr] u] test_plan_made unfolding Inr sum.case by simp
next
  case (Inl e)
  show ?thesis using test_plan_made unfolding Inl by simp
qed

definition test_chain :: "workflow_node list" where
  "test_chain = [aliased_node\<lparr>nodeId := ''a''\<rparr>, aliased_node\<lparr>nodeId := ''b'', dependencies := Some [''a'']\<rparr>,
     aliased_node\<lparr>nodeId := ''c'', dependencies := Some [''b'']\<rparr>]"

definition test_replan :: replan_request where
  "test_replan =
     \<lparr>rq_tenantId = ''acme'', rq_workspaceId = None, rq_taskId = ''T1'', rq_originalWorkflowId = ''W1'', rq_priorVersion = 1,
      rq_replanIteration = 1, rq_failedNodeId = ''b'', rq_failureReason = ''exit code 1'', rq_failureEvidenceChecksum = [],
      rq_isTerminalFailure = False, rq_completedNodes = [''a''],
      rq_originalDAG = \<lparr>g_title = ''t'', g_targetAgentId = ''A1'', g_workflowId = None, g_nodes = test_chain, g_edges = None,
        g_requestedScope = None, g_metadata = None\<rparr>,
      rq_preferredStrategy = REPLAN_REMAINING_NODES\<rparr>"

definition test_successor :: "planner_error + replan_response" where
  "test_successor = coordinateReplan test_capabilities ''S1'' ''now'' test_replan"

lemma test_successor_nodes:
  "case test_successor of Inl e \<Rightarrow> False | Inr r \<Rightarrow> map nodeId (g_nodes (rs_successorDAG r)) = [''b-retry'', ''c'']"
  by code_simp


theorem replan_after_progress_refused_witness:
  "case test_successor of Inl e \<Rightarrow> False | Inr r \<Rightarrow> \<not> TaskGraphCreateRequestSchema test_platform (rs_successorDAG r)"
proof (cases test_successor)
  case (Inr r)
  have n: "failed_node test_replan = Some (test_chain ! 1)" by (simp add: failed_node_def test_replan_def test_chain_def)
  have c: "chosenStrategy test_replan \<noteq> FAIL_AND_COMPENSATE" "''a'' \<in> set (nullish (dependencies (test_chain ! 1)) [])"
    "''a'' \<in> set (rq_completedNodes test_replan)"
    "''a'' \<noteq> nodeId (adapt_node (test_chain ! 1) (rq_failureReason test_replan))" by code_simp+
  show ?thesis using replan_after_progress_refused [OF Inr [unfolded test_successor_def] c(1) n c(2-4)] unfolding Inr sum.case .
next
  case (Inl e)
  show ?thesis using test_successor_nodes unfolding Inl by simp
qed

end
