(* ===== verification/Memory_Graph.thy ===== *)
theory Memory_Graph
  imports Complex_Main Platform Json
begin

text \<open>
  The knowledge graph of the in-memory store, the graph operations of \<open>services/backend/src/memory/memory-store.ts\<close> over the schemas
  of \<open>packages/contracts/src/memory/graph.ts\<close> and \<open>evolution.ts\<close>: saving versioned nodes and edges, bounded traversal, revocation,
  and evolution plans with rollback. Nodes and edges share the fields of a \<open>graph_item\<close>. Deep copies by \<open>JSON.parse(JSON.stringify(x))\<close>
  have no counterpart in values. Payloads are taken with the defaults of their schema filled in (the version apart, which \<open>saveGraphNode\<close>
  also reads before that); \<open>validTo\<close> may be absent (\<open>None\<close>) or null (\<open>Some None\<close>). Confidences, which are only compared, are rational.

  Proved: a traversal visits exactly the nodes within the depth; a failed evolution plan leaves the graph as it was; plans that name
  their own workspace only leave the others alone.
\<close>

section \<open>Items\<close>

record provenance =
  pv_sourceType :: string
  pv_sourceId :: "string option"
  pv_stepIndex :: "int option"
  pv_sourceHash :: "string option"
  pv_creatorPrincipalId :: string
  pv_timestamp :: string
  pv_verified :: bool

record graph_item =
  gi_id :: string
  gi_tenantId :: string
  gi_workspaceId :: string
  gi_confidence :: rat
  gi_properties :: "(string \<times> json) list"
  gi_provenance :: "provenance option"
  gi_version :: int
  gi_lastMemoryVersion :: "int option"
  gi_isCurrent :: bool
  gi_validFrom :: "string option"
  gi_validTo :: "string option option"
  gi_supersededBy :: "string option"
  gi_createdAt :: string
  gi_updatedAt :: "string option"

record graph_node = graph_item +
  gn_nodeType :: string
  gn_label :: string
  gn_memoryRecordId :: "string option"

record graph_edge = graph_item +
  ge_sourceNodeId :: string
  ge_targetNodeId :: string
  ge_edgeType :: string
  ge_weight :: rat

datatype memory_error =
    MEMORY_SCHEMA
  | MemoryNotFoundError string
  | MemoryVersionConflictError string int int
  | MemorySecurityViolationError
  | MEMORY_EXISTS string
  | OUTBOX_NOT_FOUND string
  | MISSING_PAYLOAD string
  | VectorIndexError
  | VectorDimensionMismatchError nat nat
  | STORE_UNREACHABLE
  | SIMULATED_FAILURE

definition memory_key :: "string \<Rightarrow> string \<Rightarrow> string \<Rightarrow> string" where
  "memory_key t w i = t @ '':'' @ w @ '':'' @ i"

definition item_key :: "'a graph_item_scheme \<Rightarrow> string" where
  "item_key x = memory_key (gi_tenantId x) (gi_workspaceId x) (gi_id x)"

text \<open>The end of validity, when it is neither absent nor null.\<close>

definition valid_end :: "'a graph_item_scheme \<Rightarrow> string option" where
  "valid_end x = nullish (gi_validTo x) None"

definition valid_start :: "'a graph_item_scheme \<Rightarrow> string" where
  "valid_start x = nullish (gi_validFrom x) (gi_createdAt x)"

definition optional_date :: "platform \<Rightarrow> string option \<Rightarrow> bool" where
  "optional_date P d \<longleftrightarrow> (case d of None \<Rightarrow> True | Some t \<Rightarrow> datetime_ok P t)"

definition MemoryProvenanceSchema :: "platform \<Rightarrow> provenance \<Rightarrow> bool" where
  "MemoryProvenanceSchema P p \<longleftrightarrow>
     pv_sourceType p \<in> {''USER_EXPLICIT'', ''TASK_EXECUTION'', ''CONVERSATION'', ''SYSTEM_SYNTHESIS'', ''PLUGIN''}
     \<and> pv_sourceId p \<noteq> Some [] \<and> (case pv_stepIndex p of None \<Rightarrow> True | Some i \<Rightarrow> 0 \<le> i)
     \<and> pv_creatorPrincipalId p \<noteq> [] \<and> datetime_ok P (pv_timestamp p)"

text \<open>The three refinements: a current item has no end and no successor, and an item does not end before it starts.\<close>

definition coherent :: "'a graph_item_scheme \<Rightarrow> bool" where
  "coherent x \<longleftrightarrow>
     \<not> (truthy (valid_end x) \<and> gi_isCurrent x) \<and> \<not> (truthy (gi_supersededBy x) \<and> gi_isCurrent x)
     \<and> \<not> (truthy (valid_end x) \<and> num_gt (date_parse (valid_start x)) (date_parse (the (valid_end x))))"

definition graph_item_schema :: "platform \<Rightarrow> 'a graph_item_scheme \<Rightarrow> bool" where
  "graph_item_schema P x \<longleftrightarrow>
     gi_id x \<noteq> [] \<and> gi_tenantId x \<noteq> [] \<and> gi_workspaceId x \<noteq> [] \<and> 0 \<le> gi_confidence x \<and> gi_confidence x \<le> 1
     \<and> (case gi_provenance x of None \<Rightarrow> True | Some p \<Rightarrow> MemoryProvenanceSchema P p)
     \<and> 0 < gi_version x \<and> (case gi_lastMemoryVersion x of None \<Rightarrow> True | Some v \<Rightarrow> 0 < v)
     \<and> optional_date P (gi_validFrom x) \<and> optional_date P (valid_end x) \<and> datetime_ok P (gi_createdAt x)
     \<and> optional_date P (gi_updatedAt x) \<and> coherent x"

definition MemoryGraphNodeSchema :: "platform \<Rightarrow> graph_node \<Rightarrow> bool" where
  "MemoryGraphNodeSchema P n \<longleftrightarrow>
     graph_item_schema P n \<and> sized 256 (gn_label n)
     \<and> gn_nodeType n \<in> {''ENTITY'', ''CONCEPT'', ''TASK'', ''WORKSPACE'', ''DECISION'', ''ARTIFACT'', ''ERROR_PATTERN''}"

definition MemoryGraphEdgeSchema :: "platform \<Rightarrow> graph_edge \<Rightarrow> bool" where
  "MemoryGraphEdgeSchema P e \<longleftrightarrow>
     graph_item_schema P e \<and> ge_sourceNodeId e \<noteq> [] \<and> ge_targetNodeId e \<noteq> [] \<and> 0 \<le> ge_weight e \<and> gi_provenance e \<noteq> None
     \<and> ge_edgeType e \<in> {''DERIVED_FROM'', ''RELATES_TO'', ''SUPERSEDES'', ''DECIDED_IN'', ''EXECUTED_BY'', ''RESOLVED_BY''}"

section \<open>Saving\<close>

text \<open>
  The body of \<open>saveGraphNode\<close> and \<open>saveGraphEdge\<close> after validation: \<open>given\<close> is the version in the input, \<open>now\<close> the clock.
\<close>

definition save_item ::
  "string \<Rightarrow> int option \<Rightarrow> int option \<Rightarrow> 'a graph_item_scheme \<Rightarrow> (string, 'a graph_item_scheme) jsmap \<Rightarrow>
   memory_error + 'a graph_item_scheme" where
  "save_item now given expectedVersion x m =
     (case js_get m (item_key x) of
        Some old \<Rightarrow>
          (if expectedVersion \<noteq> None \<and> the expectedVersion \<noteq> gi_version old
           then Inl (MemoryVersionConflictError (gi_id x) (gi_version old) (the expectedVersion))
           else if given \<noteq> None \<and> the given < gi_version old then Inl (MemoryVersionConflictError (gi_id x) (gi_version old) (the given))
           else Inr (x\<lparr>gi_validFrom := Some (nullish (gi_validFrom x) (nullish (gi_validFrom old) (gi_createdAt old))),
                       gi_version := (if given \<noteq> None \<and> the given > gi_version old then the given else gi_version old + 1),
                       gi_lastMemoryVersion := Some (nullish (gi_lastMemoryVersion x) (nullish (gi_lastMemoryVersion old) 1)),
                       gi_updatedAt := Some (nullish (gi_updatedAt x) now)\<rparr>))
      | None \<Rightarrow>
          (if expectedVersion \<noteq> None \<and> the expectedVersion \<noteq> 0 \<and> the expectedVersion \<noteq> 1
           then Inl (MemoryVersionConflictError (gi_id x) 0 (the expectedVersion))
           else Inr (x\<lparr>gi_validFrom := Some (nullish (gi_validFrom x) (gi_createdAt x)),
                       gi_version := nullish given 1,
                       gi_lastMemoryVersion := Some (nullish (gi_lastMemoryVersion x) 1),
                       gi_updatedAt := Some (nullish (gi_updatedAt x) (gi_createdAt x))\<rparr>)))"

record memory_graph =
  graphNodes :: "(string, graph_node) jsmap"
  graphEdges :: "(string, graph_edge) jsmap"
  simulateFailure :: bool
  simulateFailureInEvolution :: bool
  simulateFailureInEvolutionMidway :: bool

text \<open>\<open>checkFailure\<close>, with which every operation of the store begins.\<close>

definition checked :: "'a memory_graph_scheme \<Rightarrow> 'a memory_graph_scheme \<times> (memory_error + 'r) \<Rightarrow> 'a memory_graph_scheme \<times> (memory_error + 'r)" where
  "checked g r = (if simulateFailure g then (g, Inl STORE_UNREACHABLE) else r)"

definition saveGraphNode ::
  "platform \<Rightarrow> string \<Rightarrow> int option \<Rightarrow> int option \<Rightarrow> graph_node \<Rightarrow> 'a memory_graph_scheme \<Rightarrow> 'a memory_graph_scheme \<times> (memory_error + graph_node)" where
  "saveGraphNode P now given expectedVersion n g =
     checked g (let v = n\<lparr>gi_version := nullish given 1\<rparr> in
      if \<not> MemoryGraphNodeSchema P v then (g, Inl MEMORY_SCHEMA)
      else case save_item now given expectedVersion v (graphNodes g) of
        Inl e \<Rightarrow> (g, Inl e)
      | Inr x \<Rightarrow> (g\<lparr>graphNodes := js_set (item_key v) x (graphNodes g)\<rparr>, Inr x))"

definition saveGraphEdge ::
  "platform \<Rightarrow> string \<Rightarrow> int option \<Rightarrow> int option \<Rightarrow> graph_edge \<Rightarrow> 'a memory_graph_scheme \<Rightarrow> 'a memory_graph_scheme \<times> (memory_error + graph_edge)" where
  "saveGraphEdge P now given expectedVersion e g =
     checked g (let v = e\<lparr>gi_version := nullish given 1\<rparr> in
      if \<not> MemoryGraphEdgeSchema P v then (g, Inl MEMORY_SCHEMA)
      else case save_item now given expectedVersion v (graphEdges g) of
        Inl er \<Rightarrow> (g, Inl er)
      | Inr x \<Rightarrow> (g\<lparr>graphEdges := js_set (item_key v) x (graphEdges g)\<rparr>, Inr x))"

definition getGraphNode :: "string \<Rightarrow> string \<Rightarrow> string \<Rightarrow> 'a memory_graph_scheme \<Rightarrow> memory_error + graph_node option" where
  "getGraphNode i t w g = snd (checked g (g, Inr (js_get (graphNodes g) (memory_key t w i))))"

definition getGraphEdge :: "string \<Rightarrow> string \<Rightarrow> string \<Rightarrow> 'a memory_graph_scheme \<Rightarrow> memory_error + graph_edge option" where
  "getGraphEdge i t w g = snd (checked g (g, Inr (js_get (graphEdges g) (memory_key t w i))))"

section \<open>Queries\<close>

record graph_query =
  gq_tenantId :: string
  gq_workspaceId :: string
  gq_startNodeId :: "string option"
  gq_nodeTypes :: "string list option"
  gq_edgeTypes :: "string list option"
  gq_maxDepth :: "nat option"
  gq_minConfidence :: "rat option"
  gq_limit :: "nat option"
  gq_asOf :: "string option"
  gq_includeSuperseded :: "bool option"

record graph_answer =
  ga_nodes :: "graph_node list"
  ga_edges :: "graph_edge list"
  ga_traversalDepth :: nat

text \<open>Comparison of numbers that may be \<open>NaN\<close>; an absent end of validity is infinite.\<close>

definition visible :: "graph_query \<Rightarrow> 'a graph_item_scheme \<Rightarrow> bool" where
  "visible q x \<longleftrightarrow>
     gi_tenantId x = gq_tenantId q \<and> gi_workspaceId x = gq_workspaceId q
     \<and> (if truthy (gq_asOf q) then
          num_le (date_parse (valid_start x)) (date_parse (the (gq_asOf q)))
          \<and> (truthy (valid_end x) \<longrightarrow> num_gt (date_parse (the (valid_end x))) (date_parse (the (gq_asOf q))))
        else nullish (gq_includeSuperseded q) False \<or> gi_isCurrent x)
     \<and> gi_confidence x \<ge> nullish (gq_minConfidence q) 0"

definition visible_nodes :: "graph_query \<Rightarrow> 'a memory_graph_scheme \<Rightarrow> (string, graph_node) jsmap" where
  "visible_nodes q g =
     foldl (\<lambda>m n. js_set (gi_id n) n m) []
       (filter (\<lambda>n. visible q n \<and> (case gq_nodeTypes q of None \<Rightarrow> True | Some ts \<Rightarrow> gn_nodeType n \<in> set ts)) (js_values (graphNodes g)))"

definition visible_edges :: "graph_query \<Rightarrow> 'a memory_graph_scheme \<Rightarrow> graph_edge list" where
  "visible_edges q g =
     filter (\<lambda>e. visible q e \<and> (case gq_edgeTypes q of None \<Rightarrow> True | Some ts \<Rightarrow> ge_edgeType e \<in> set ts)) (js_values (graphEdges g))"

record traversal =
  tv_visited :: "string list"
  tv_edgeIds :: "string list"
  tv_edges :: "graph_edge list"
  tv_next :: "string list"

definition reach :: "graph_edge \<Rightarrow> string \<Rightarrow> traversal \<Rightarrow> traversal" where
  "reach e v t =
     (let t' = t\<lparr>tv_edgeIds := tv_edgeIds t @ [gi_id e], tv_edges := tv_edges t @ [e]\<rparr> in
      if v \<in> set (tv_visited t) then t' else t'\<lparr>tv_visited := tv_visited t @ [v], tv_next := tv_next t @ [v]\<rparr>)"

definition scan_edge :: "(string, graph_node) jsmap \<Rightarrow> string list \<Rightarrow> traversal \<Rightarrow> graph_edge \<Rightarrow> traversal" where
  "scan_edge ns frontier t e =
     (if gi_id e \<in> set (tv_edgeIds t) then t
      else if ge_sourceNodeId e \<in> set frontier then (if js_has ns (ge_targetNodeId e) then reach e (ge_targetNodeId e) t else t)
      else if ge_targetNodeId e \<in> set frontier then (if js_has ns (ge_sourceNodeId e) then reach e (ge_sourceNodeId e) t else t)
      else t)"

text \<open>The loop over the depth, with the depth that is left; without progress the next frontier is empty and the loop ends.\<close>

fun expand :: "(string, graph_node) jsmap \<Rightarrow> graph_edge list \<Rightarrow> nat \<Rightarrow> string list \<Rightarrow> nat \<Rightarrow> traversal \<Rightarrow> traversal \<times> nat" where
  "expand ns es 0 frontier depth t = (t, depth)"
| "expand ns es (Suc left) frontier depth t =
     (if frontier = [] then (t, depth)
      else let t' = foldl (scan_edge ns frontier) (t\<lparr>tv_next := []\<rparr>) es in
        if length (tv_edges t') > length (tv_edges t) \<or> tv_next t' \<noteq> []
        then expand ns es left (tv_next t') (depth + 1) t'
        else (t', depth))"

definition start_traversal :: "string \<Rightarrow> traversal" where
  "start_traversal v = \<lparr>tv_visited = [v], tv_edgeIds = [], tv_edges = [], tv_next = []\<rparr>"

definition between :: "string list \<Rightarrow> graph_edge \<Rightarrow> bool" where
  "between ids e \<longleftrightarrow> ge_sourceNodeId e \<in> set ids \<and> ge_targetNodeId e \<in> set ids"

definition query_graph :: "graph_query \<Rightarrow> 'a memory_graph_scheme \<Rightarrow> graph_answer" where
  "query_graph q g =
     (let ns = visible_nodes q g; es = visible_edges q g; limit = nullish (gq_limit q) 25 in
      if truthy (gq_startNodeId q) then
        (let s = the (gq_startNodeId q) in
         if \<not> js_has ns s then \<lparr>ga_nodes = [], ga_edges = [], ga_traversalDepth = 0\<rparr>
         else case expand ns es (nullish (gq_maxDepth q) 2) [s] 0 (start_traversal s) of
           (t, depth) \<Rightarrow>
             (let selected = take limit (map (\<lambda>i. the (js_get ns i)) (filter (\<lambda>i. js_has ns i) (tv_visited t))) in
              \<lparr>ga_nodes = selected, ga_edges = take limit (filter (between (map gi_id selected)) (tv_edges t)), ga_traversalDepth = depth\<rparr>))
      else
        (let selected = take limit (js_values ns) in
         \<lparr>ga_nodes = selected, ga_edges = take limit (filter (between (map gi_id selected)) es), ga_traversalDepth = 1\<rparr>))"

definition queryGraph :: "graph_query \<Rightarrow> 'a memory_graph_scheme \<Rightarrow> memory_error + graph_answer" where
  "queryGraph q g = snd (checked g (g, Inr (query_graph q g)))"

section \<open>Revocation\<close>

definition revoked_node :: "string \<Rightarrow> string \<Rightarrow> string \<Rightarrow> graph_node \<Rightarrow> bool" where
  "revoked_node i t w n \<longleftrightarrow> gi_tenantId n = t \<and> gi_workspaceId n = w \<and> gn_memoryRecordId n = Some i"

definition revoked_edge :: "string \<Rightarrow> string \<Rightarrow> string \<Rightarrow> string list \<Rightarrow> graph_edge \<Rightarrow> bool" where
  "revoked_edge i t w targets e \<longleftrightarrow>
     gi_tenantId e = t \<and> gi_workspaceId e = w
     \<and> (ge_sourceNodeId e \<in> set targets \<or> ge_targetNodeId e \<in> set targets
        \<or> (case gi_provenance e of None \<Rightarrow> False | Some p \<Rightarrow> pv_sourceId p = Some i))"

definition revoke_graph :: "string \<Rightarrow> string \<Rightarrow> string \<Rightarrow> 'a memory_graph_scheme \<Rightarrow> 'a memory_graph_scheme \<times> nat \<times> nat" where
  "revoke_graph i t w g =
     (let targets = js_unique (map gi_id (filter (revoked_node i t w) (js_values (graphNodes g))));
          doomed = filter (revoked_edge i t w targets) (js_values (graphEdges g))
      in (g\<lparr>graphNodes := filter (\<lambda>(k, n). \<not> revoked_node i t w n) (graphNodes g),
            graphEdges := filter (\<lambda>(k, e). \<not> revoked_edge i t w targets e) (graphEdges g)\<rparr>,
          length targets, length doomed))"

definition revokeGraphForMemory ::
  "string \<Rightarrow> string \<Rightarrow> string \<Rightarrow> 'a memory_graph_scheme \<Rightarrow> 'a memory_graph_scheme \<times> (memory_error + nat \<times> nat)" where
  "revokeGraphForMemory i t w g =
     checked g (case revoke_graph i t w g of (g', n, m) \<Rightarrow> (g', Inr (n, m)))"

section \<open>Evolution plans\<close>

datatype GraphEvolutionOperationType = ADD_NODE | REFINE_NODE | SUPERSEDE_NODE | ADD_EDGE | SUPERSEDE_EDGE

record evolution_op =
  ev_operationType :: GraphEvolutionOperationType
  ev_node :: "graph_node option"
  ev_edge :: "graph_edge option"
  ev_targetId :: "string option"
  ev_expectedVersion :: "int option"
  ev_supersededBy :: "string option"
  ev_validTo :: "string option"

text \<open>The operations of a plan come with the reading of the clock that each of them may take.\<close>

record evolution_plan =
  ep_evolutionId :: string
  ep_tenantId :: string
  ep_workspaceId :: string
  ep_memoryRecordId :: string
  ep_memoryVersion :: "int option"
  ep_operations :: "(string \<times> evolution_op) list"

record evolution_receipt =
  er_acceptedNodes :: "string list"
  er_acceptedEdges :: "string list"
  er_supersededNodeIds :: "string list"
  er_supersededEdgeIds :: "string list"
  er_idempotentSkip :: bool

text \<open>What \<open>ADD_NODE\<close> and \<open>ADD_EDGE\<close> store for an item that is not there yet.\<close>

definition first_version :: "evolution_plan \<Rightarrow> 'a graph_item_scheme \<Rightarrow> 'a graph_item_scheme" where
  "first_version plan x =
     x\<lparr>gi_validFrom := Some (valid_start x), gi_lastMemoryVersion := Some (nullish (gi_lastMemoryVersion x) (nullish (ep_memoryVersion plan) 1)),
       gi_updatedAt := Some (nullish (gi_updatedAt x) (gi_createdAt x))\<rparr>"

text \<open>\<open>{...existing, ...node}\<close>: a field the payload does not have keeps its old value.\<close>

definition or_old :: "'a option \<Rightarrow> 'a option \<Rightarrow> 'a option" where
  "or_old a b = (case a of None \<Rightarrow> b | Some x \<Rightarrow> Some x)"

definition refined_node :: "evolution_plan \<Rightarrow> string \<Rightarrow> graph_node \<Rightarrow> graph_node \<Rightarrow> graph_node" where
  "refined_node plan now old n =
     n\<lparr>gn_memoryRecordId := or_old (gn_memoryRecordId n) (gn_memoryRecordId old), gi_provenance := or_old (gi_provenance n) (gi_provenance old),
       gi_version := gi_version old + 1,
       gi_lastMemoryVersion := Some (nullish (gi_lastMemoryVersion n) (nullish (ep_memoryVersion plan) 1)),
       gi_validFrom := or_old (gi_validFrom n) (gi_validFrom old), gi_validTo := or_old (gi_validTo n) (gi_validTo old),
       gi_supersededBy := or_old (gi_supersededBy n) (gi_supersededBy old), gi_updatedAt := Some (nullish (gi_updatedAt n) now)\<rparr>"

definition superseded :: "evolution_plan \<Rightarrow> string \<Rightarrow> string option \<Rightarrow> 'a graph_item_scheme \<Rightarrow> 'a graph_item_scheme" where
  "superseded plan validTo successor old =
     old\<lparr>gi_isCurrent := False, gi_validTo := Some (Some validTo), gi_supersededBy := successor, gi_version := gi_version old + 1,
         gi_lastMemoryVersion := Some (nullish (ep_memoryVersion plan) 1), gi_updatedAt := Some validTo\<rparr>"

definition replacement :: "evolution_plan \<Rightarrow> string \<Rightarrow> 'a graph_item_scheme \<Rightarrow> 'a graph_item_scheme" where
  "replacement plan validTo x =
     x\<lparr>gi_isCurrent := True, gi_validFrom := Some (nullish (gi_validFrom x) validTo), gi_validTo := None, gi_supersededBy := None,
       gi_lastMemoryVersion := Some (nullish (gi_lastMemoryVersion x) (nullish (ep_memoryVersion plan) 1)),
       gi_updatedAt := Some (nullish (gi_updatedAt x) validTo)\<rparr>"

definition accept_node :: "string \<Rightarrow> evolution_receipt \<Rightarrow> evolution_receipt" where
  "accept_node i r = r\<lparr>er_acceptedNodes := er_acceptedNodes r @ [i]\<rparr>"

definition accept_edge :: "string \<Rightarrow> evolution_receipt \<Rightarrow> evolution_receipt" where
  "accept_edge i r = r\<lparr>er_acceptedEdges := er_acceptedEdges r @ [i]\<rparr>"

definition add_node ::
  "platform \<Rightarrow> evolution_plan \<Rightarrow> evolution_op \<Rightarrow> 'a memory_graph_scheme \<Rightarrow> evolution_receipt \<Rightarrow>
   'a memory_graph_scheme \<times> (memory_error + evolution_receipt)" where
  "add_node P plan op g r =
     (case ev_node op of
        None \<Rightarrow> (g, Inl (MISSING_PAYLOAD ''node''))
      | Some n \<Rightarrow>
          (if \<not> MemoryGraphNodeSchema P n then (g, Inl MEMORY_SCHEMA)
           else if gi_tenantId n \<noteq> ep_tenantId plan \<or> gi_workspaceId n \<noteq> ep_workspaceId plan then (g, Inl MemorySecurityViolationError)
           else (if js_has (graphNodes g) (item_key n) then g
                 else g\<lparr>graphNodes := js_set (item_key n) (first_version plan n) (graphNodes g)\<rparr>,
                 Inr (accept_node (gi_id n) r))))"

definition refine_node ::
  "platform \<Rightarrow> evolution_plan \<Rightarrow> string \<Rightarrow> evolution_op \<Rightarrow> 'a memory_graph_scheme \<Rightarrow> evolution_receipt \<Rightarrow>
   'a memory_graph_scheme \<times> (memory_error + evolution_receipt)" where
  "refine_node P plan now op g r =
     (case ev_node op of
        None \<Rightarrow> (g, Inl (MISSING_PAYLOAD ''node''))
      | Some n \<Rightarrow>
          (if \<not> MemoryGraphNodeSchema P n then (g, Inl MEMORY_SCHEMA)
           else case js_get (graphNodes g) (item_key n) of
             None \<Rightarrow> (g, Inl (MemoryNotFoundError (gi_id n)))
           | Some old \<Rightarrow>
               (if ev_expectedVersion op \<noteq> None \<and> the (ev_expectedVersion op) \<noteq> gi_version old
                then (g, Inl (MemoryVersionConflictError (gi_id n) (gi_version old) (the (ev_expectedVersion op))))
                else (g\<lparr>graphNodes := js_set (item_key n) (refined_node plan now old n) (graphNodes g)\<rparr>,
                      Inr (accept_node (gi_id n) r)))))"

definition supersede_node ::
  "platform \<Rightarrow> evolution_plan \<Rightarrow> string \<Rightarrow> evolution_op \<Rightarrow> 'a memory_graph_scheme \<Rightarrow> evolution_receipt \<Rightarrow>
   'a memory_graph_scheme \<times> (memory_error + evolution_receipt)" where
  "supersede_node P plan now op g r =
     (if \<not> truthy (ev_targetId op) then (g, Inl (MISSING_PAYLOAD ''targetId''))
      else let targetId = the (ev_targetId op); key = memory_key (ep_tenantId plan) (ep_workspaceId plan) targetId in
        case js_get (graphNodes g) key of
          None \<Rightarrow> (g, Inl (MemoryNotFoundError targetId))
        | Some old \<Rightarrow>
            (if ev_expectedVersion op \<noteq> None \<and> the (ev_expectedVersion op) \<noteq> gi_version old
             then (g, Inl (MemoryVersionConflictError targetId (gi_version old) (the (ev_expectedVersion op))))
             else
               let validTo = nullish (ev_validTo op) now;
                   successor = or_old (ev_supersededBy op) (map_option gi_id (ev_node op));
                   g' = g\<lparr>graphNodes := js_set key (superseded plan validTo successor old) (graphNodes g)\<rparr>;
                   r' = r\<lparr>er_supersededNodeIds := er_supersededNodeIds r @ [targetId]\<rparr>
               in case ev_node op of
                    None \<Rightarrow> (g', Inr r')
                  | Some n \<Rightarrow>
                      (if \<not> MemoryGraphNodeSchema P n then (g', Inl MEMORY_SCHEMA)
                       else (g'\<lparr>graphNodes := js_set (item_key n) (replacement plan validTo n) (graphNodes g')\<rparr>,
                             Inr (accept_node (gi_id n) r')))))"

definition add_edge ::
  "platform \<Rightarrow> evolution_plan \<Rightarrow> evolution_op \<Rightarrow> 'a memory_graph_scheme \<Rightarrow> evolution_receipt \<Rightarrow>
   'a memory_graph_scheme \<times> (memory_error + evolution_receipt)" where
  "add_edge P plan op g r =
     (case ev_edge op of
        None \<Rightarrow> (g, Inl (MISSING_PAYLOAD ''edge''))
      | Some e \<Rightarrow>
          (if \<not> MemoryGraphEdgeSchema P e then (g, Inl MEMORY_SCHEMA)
           else if gi_tenantId e \<noteq> ep_tenantId plan \<or> gi_workspaceId e \<noteq> ep_workspaceId plan then (g, Inl MemorySecurityViolationError)
           else (if js_has (graphEdges g) (item_key e) then g
                 else g\<lparr>graphEdges := js_set (item_key e) (first_version plan e) (graphEdges g)\<rparr>,
                 Inr (accept_edge (gi_id e) r))))"

definition supersede_edge ::
  "platform \<Rightarrow> evolution_plan \<Rightarrow> string \<Rightarrow> evolution_op \<Rightarrow> 'a memory_graph_scheme \<Rightarrow> evolution_receipt \<Rightarrow>
   'a memory_graph_scheme \<times> (memory_error + evolution_receipt)" where
  "supersede_edge P plan now op g r =
     (if \<not> truthy (ev_targetId op) then (g, Inl (MISSING_PAYLOAD ''targetId''))
      else let targetId = the (ev_targetId op); key = memory_key (ep_tenantId plan) (ep_workspaceId plan) targetId in
        case js_get (graphEdges g) key of
          None \<Rightarrow> (g, Inl (MemoryNotFoundError targetId))
        | Some old \<Rightarrow>
            (if ev_expectedVersion op \<noteq> None \<and> the (ev_expectedVersion op) \<noteq> gi_version old
             then (g, Inl (MemoryVersionConflictError targetId (gi_version old) (the (ev_expectedVersion op))))
             else
               let validTo = nullish (ev_validTo op) now;
                   successor = or_old (ev_supersededBy op) (map_option gi_id (ev_edge op));
                   g' = g\<lparr>graphEdges := js_set key (superseded plan validTo successor old) (graphEdges g)\<rparr>;
                   r' = r\<lparr>er_supersededEdgeIds := er_supersededEdgeIds r @ [targetId]\<rparr>
               in case ev_edge op of
                    None \<Rightarrow> (g', Inr r')
                  | Some e \<Rightarrow>
                      (if \<not> MemoryGraphEdgeSchema P e then (g', Inl MEMORY_SCHEMA)
                       else (g'\<lparr>graphEdges := js_set (item_key e) (replacement plan validTo e) (graphEdges g')\<rparr>,
                             Inr (accept_edge (gi_id e) r')))))"

definition evolve_op ::
  "platform \<Rightarrow> evolution_plan \<Rightarrow> string \<Rightarrow> evolution_op \<Rightarrow> 'a memory_graph_scheme \<Rightarrow> evolution_receipt \<Rightarrow>
   'a memory_graph_scheme \<times> (memory_error + evolution_receipt)" where
  "evolve_op P plan now op g r =
     (case ev_operationType op of
        ADD_NODE \<Rightarrow> add_node P plan op g r
      | REFINE_NODE \<Rightarrow> refine_node P plan now op g r
      | SUPERSEDE_NODE \<Rightarrow> supersede_node P plan now op g r
      | ADD_EDGE \<Rightarrow> add_edge P plan op g r
      | SUPERSEDE_EDGE \<Rightarrow> supersede_edge P plan now op g r)"

fun evolve_ops ::
  "platform \<Rightarrow> evolution_plan \<Rightarrow> (string \<times> evolution_op) list \<Rightarrow> 'a memory_graph_scheme \<Rightarrow> evolution_receipt \<Rightarrow>
   'a memory_graph_scheme \<times> (memory_error + evolution_receipt)" where
  "evolve_ops P plan [] g r = (g, Inr r)"
| "evolve_ops P plan ((now, op) # ops) g r =
     (case evolve_op P plan now op g r of
        (g', Inl e) \<Rightarrow> (g', Inl e)
      | (g', Inr r') \<Rightarrow> (if simulateFailureInEvolutionMidway g' then (g', Inl SIMULATED_FAILURE) else evolve_ops P plan ops g' r'))"

text \<open>The rollback clears the map and inserts the entries of the backup again.\<close>

definition rebuilt :: "('k, 'v) jsmap \<Rightarrow> ('k, 'v) jsmap" where
  "rebuilt backup = foldl (\<lambda>m (k, v). js_set k v m) [] backup"

definition no_changes :: "bool \<Rightarrow> evolution_receipt" where
  "no_changes skip =
     \<lparr>er_acceptedNodes = [], er_acceptedEdges = [], er_supersededNodeIds = [], er_supersededEdgeIds = [], er_idempotentSkip = skip\<rparr>"

definition evolveGraph ::
  "platform \<Rightarrow> evolution_plan \<Rightarrow> (string \<times> string) option \<Rightarrow> 'a memory_graph_scheme \<Rightarrow>
   'a memory_graph_scheme \<times> (memory_error + evolution_receipt)" where
  "evolveGraph P plan ctx g =
     checked g
       (if ctx \<noteq> None \<and> the ctx \<noteq> (ep_tenantId plan, ep_workspaceId plan) then (g, Inl MemorySecurityViolationError)
        else if simulateFailureInEvolution g then (g, Inl SIMULATED_FAILURE)
        else if ep_operations plan = [] then (g, Inr (no_changes True))
        else case evolve_ops P plan (ep_operations plan) g (no_changes False) of
          (g', Inr r) \<Rightarrow> (g', Inr r)
        | (g', Inl e) \<Rightarrow> (g'\<lparr>graphNodes := rebuilt (graphNodes g), graphEdges := rebuilt (graphEdges g)\<rparr>, Inl e))"

section \<open>Entries stand under the key of their item\<close>

definition keyed :: "(string, 'a graph_item_scheme) jsmap \<Rightarrow> bool" where
  "keyed m \<longleftrightarrow> js_map_wf m \<and> (\<forall>(k, x) \<in> set m. k = item_key x)"

definition graph_wf :: "'a memory_graph_scheme \<Rightarrow> bool" where
  "graph_wf g \<longleftrightarrow> keyed (graphNodes g) \<and> keyed (graphEdges g)"

lemma memory_key_inj [simp]: "memory_key t w i = memory_key t w j \<longleftrightarrow> i = j"
  by (simp add: memory_key_def)

lemma keyed_set: "\<lbrakk>keyed m; item_key x = k\<rbrakk> \<Longrightarrow> keyed (js_set k x m)"
  by (fastforce simp: keyed_def dest: js_set_elem)

lemma keyed_get: "\<lbrakk>keyed m; js_get m k = Some x\<rbrakk> \<Longrightarrow> item_key x = k"
  by (auto simp: keyed_def dest: js_get_in_set)

lemma keyed_filter: "keyed m \<Longrightarrow> keyed (filter p m)"
  by (auto simp: keyed_def)

lemma keyed_distinct_ids:
  assumes "keyed m" "\<And>x. p x \<Longrightarrow> gi_tenantId x = t \<and> gi_workspaceId x = w"
  shows "distinct (map gi_id (filter p (js_values m)))"
  using assms(1)
proof (induction m)
  case (Cons a m)
  obtain k x where a: "a = (k, x)" by (cases a)
  have "gi_id x \<notin> gi_id ` set (filter p (js_values m))" if "p x"
  proof
    assume "gi_id x \<in> gi_id ` set (filter p (js_values m))"
    then obtain k' y where y: "(k', y) \<in> set m" "p y" "gi_id x = gi_id y" by (auto simp: js_values_def)
    then have "k' = k" using Cons.prems assms(2) \<open>p x\<close> by (auto simp: a keyed_def item_key_def)
    with y(1) Cons.prems show False by (force simp: a keyed_def js_map_wf_def)
  qed
  moreover have "keyed m" using Cons.prems by (auto simp: keyed_def js_map_wf_def)
  ultimately show ?case using Cons.IH by (simp add: a js_values_def)
qed (simp add: js_values_def)

text \<open>The fields that no operation changes in an item it writes back.\<close>

lemma item_key_version [simp]:
  "item_key (first_version plan x) = item_key x"
  "item_key (superseded plan v s x) = item_key x"
  "item_key (replacement plan v x) = item_key x"
  "item_key (refined_node plan now old n) = item_key n"
  by (simp_all add: item_key_def first_version_def superseded_def replacement_def refined_node_def)

lemma save_item_key: "save_item now given ev x m = Inr y \<Longrightarrow> item_key y = item_key x"
  by (auto simp: save_item_def item_key_def split: option.splits if_splits)

lemmas evolution_defs =
  evolve_op_def add_node_def refine_node_def supersede_node_def add_edge_def supersede_edge_def

lemma evolve_op_wf: "\<lbrakk>evolve_op P plan now op g r = (g', x); graph_wf g\<rbrakk> \<Longrightarrow> graph_wf g'"
  by (auto simp: evolution_defs graph_wf_def Let_def keyed_get intro!: keyed_set
           split: GraphEvolutionOperationType.splits option.splits if_splits)

lemma evolve_op_frame:
  "evolve_op P plan now op g r = (g', x) \<Longrightarrow> g' = g\<lparr>graphNodes := graphNodes g', graphEdges := graphEdges g'\<rparr>"
  by (auto simp: evolution_defs Let_def split: GraphEvolutionOperationType.splits option.splits if_splits)

lemma evolve_ops_wf: "\<lbrakk>evolve_ops P plan ops g r = (g', x); graph_wf g\<rbrakk> \<Longrightarrow> graph_wf g'"
  by (induction P plan ops g r rule: evolve_ops.induct) (auto split: prod.splits sum.splits if_splits dest: evolve_op_wf)

lemma evolve_ops_frame:
  "evolve_ops P plan ops g r = (g', x) \<Longrightarrow> g' = g\<lparr>graphNodes := graphNodes g', graphEdges := graphEdges g'\<rparr>"
proof (induction P plan ops g r rule: evolve_ops.induct)
  case (2 P plan now op ops g r)
  obtain g1 y where one: "evolve_op P plan now op g r = (g1, y)" by fastforce
  from evolve_op_frame [OF one] show ?case
    using "2.prems" "2.IH" [OF one [symmetric]]
    by (auto simp: one split: sum.splits if_splits) (metis memory_graph.surjective memory_graph.update_convs(1,2))+
qed simp

lemma frame_back:
  "g' = g\<lparr>graphNodes := ns, graphEdges := es\<rparr> \<Longrightarrow> g'\<lparr>graphNodes := graphNodes g, graphEdges := graphEdges g\<rparr> = g"
  by (cases g) simp

subsection \<open>Rollback\<close>

lemma js_set_append: "\<not> js_has m k \<Longrightarrow> js_set k v m = m @ [(k, v)]"
  by (induction m) (auto simp: js_has_def js_get_def js_set_def split: if_splits)

lemma rebuilt_from: "js_map_wf (m @ b) \<Longrightarrow> foldl (\<lambda>m (k, v). js_set k v m) m b = m @ b"
proof (induction b arbitrary: m)
  case (Cons a b)
  obtain k v where a: "a = (k, v)" by (cases a)
  have "\<not> js_has m k" using Cons.prems by (auto simp: a js_map_wf_def js_has_keys js_keys_def)
  then show ?case using Cons.IH [of "m @ [a]"] Cons.prems by (simp add: a js_set_append)
qed simp

lemma rebuilt_backup: "js_map_wf m \<Longrightarrow> rebuilt m = m"
  using rebuilt_from [of "[]" m] by (simp add: rebuilt_def)

lemma failed_evolution:
  assumes "graph_wf g" "evolveGraph P plan ctx g = (g', Inl e)"
  shows "g' = g"
proof -
  have "rebuilt (graphNodes g) = graphNodes g" "rebuilt (graphEdges g) = graphEdges g"
    using assms(1) by (auto simp: graph_wf_def keyed_def intro: rebuilt_backup)
  then show ?thesis
    using assms(2) by (auto simp: evolveGraph_def checked_def split: if_splits prod.splits sum.splits dest!: evolve_ops_frame frame_back)
qed

section \<open>Traversal\<close>

text \<open>
  The specification: the nodes and edges a query may see, two nodes being linked when a visible edge joins them in either direction,
  and the nodes within a number of links.
\<close>

definition node_seen :: "graph_query \<Rightarrow> 'a memory_graph_scheme \<Rightarrow> graph_node \<Rightarrow> bool" where
  "node_seen q g n \<longleftrightarrow>
     n \<in> set (js_values (graphNodes g)) \<and> visible q n \<and> (case gq_nodeTypes q of None \<Rightarrow> True | Some ts \<Rightarrow> gn_nodeType n \<in> set ts)"

definition edge_seen :: "graph_query \<Rightarrow> 'a memory_graph_scheme \<Rightarrow> graph_edge \<Rightarrow> bool" where
  "edge_seen q g e \<longleftrightarrow>
     e \<in> set (js_values (graphEdges g)) \<and> visible q e \<and> (case gq_edgeTypes q of None \<Rightarrow> True | Some ts \<Rightarrow> ge_edgeType e \<in> set ts)"

definition joins :: "graph_edge \<Rightarrow> string \<Rightarrow> string \<Rightarrow> bool" where
  "joins e a b \<longleftrightarrow> ge_sourceNodeId e = a \<and> ge_targetNodeId e = b \<or> ge_sourceNodeId e = b \<and> ge_targetNodeId e = a"

definition linked :: "graph_query \<Rightarrow> 'a memory_graph_scheme \<Rightarrow> (string \<times> string) set" where
  "linked q g = {(a, b). (\<exists>n. node_seen q g n \<and> gi_id n = b) \<and> (\<exists>e. edge_seen q g e \<and> joins e a b)}"

definition nearby :: "('v \<times> 'v) set \<Rightarrow> nat \<Rightarrow> 'v set \<Rightarrow> 'v set" where
  "nearby R d V = {v. \<exists>u \<in> V. \<exists>n \<le> d. (u, v) \<in> R ^^ n}"

lemma nearby_0 [simp]: "nearby R 0 V = V"
  by (auto simp: nearby_def)

lemma nearby_Suc: "nearby R (Suc d) V = nearby R d (V \<union> R `` V)"
proof (intro set_eqI iffI)
  fix v assume "v \<in> nearby R (Suc d) V"
  then obtain u n where *: "u \<in> V" "n \<le> Suc d" "(u, v) \<in> R ^^ n" by (auto simp: nearby_def)
  show "v \<in> nearby R d (V \<union> R `` V)"
  proof (cases n)
    case 0
    with * show ?thesis by (auto simp: nearby_def intro!: bexI [of _ u] exI [of _ 0])
  next
    case (Suc m)
    with *(3) obtain w where "(u, w) \<in> R" "(w, v) \<in> R ^^ m" by (meson relpow_Suc_E2)
    with * Suc show ?thesis by (auto simp: nearby_def intro!: bexI [of _ w] exI [of _ m])
  qed
next
  fix v assume "v \<in> nearby R d (V \<union> R `` V)"
  then obtain u n where *: "u \<in> V \<union> R `` V" "n \<le> d" "(u, v) \<in> R ^^ n" by (auto simp: nearby_def)
  then show "v \<in> nearby R (Suc d) V"
    by (auto simp: nearby_def intro: le_SucI) (meson Suc_le_mono relpow_Suc_I2)
qed

lemma nearby_closed: "R `` V \<subseteq> V \<Longrightarrow> nearby R d V = V"
  by (induction d) (simp_all add: nearby_Suc Un_absorb2)

text \<open>What one pass over the edges does to the visited nodes and to the next frontier.\<close>

definition edge_links :: "(string, graph_node) jsmap \<Rightarrow> graph_edge list \<Rightarrow> (string \<times> string) set" where
  "edge_links ns es = {(a, b). js_has ns b \<and> (\<exists>e \<in> set es. joins e a b)}"

definition traversal_ok :: "(string, graph_node) jsmap \<Rightarrow> graph_edge list \<Rightarrow> traversal \<Rightarrow> bool" where
  "traversal_ok ns es t \<longleftrightarrow>
     distinct (tv_visited t) \<and> (\<forall>v \<in> set (tv_visited t). js_has ns v)
     \<and> (\<forall>e \<in> set es. gi_id e \<in> set (tv_edgeIds t) \<longrightarrow> ge_sourceNodeId e \<in> set (tv_visited t) \<and> ge_targetNodeId e \<in> set (tv_visited t))
     \<and> set (tv_edges t) \<subseteq> set es"

lemma scan_edge_step:
  assumes "traversal_ok ns es t" "inj_on gi_id (set es)" "e \<in> set es" "set frontier \<subseteq> set (tv_visited t)"
  defines "t' \<equiv> scan_edge ns frontier t e"
  shows "set (tv_visited t') = set (tv_visited t) \<union> edge_links ns [e] `` set frontier"
    and "set (tv_next t') = set (tv_next t) \<union> (edge_links ns [e] `` set frontier - set (tv_visited t))"
    and "traversal_ok ns es t'"
proof -
  have *: "\<And>e'. e' \<in> set es \<Longrightarrow> gi_id e' = gi_id e \<Longrightarrow> e' = e" using assms(2,3) by (auto dest: inj_onD)
  show "set (tv_visited t') = set (tv_visited t) \<union> edge_links ns [e] `` set frontier"
    "set (tv_next t') = set (tv_next t) \<union> (edge_links ns [e] `` set frontier - set (tv_visited t))"
    using assms(1,3,4) unfolding t'_def
    by (auto simp: scan_edge_def reach_def traversal_ok_def edge_links_def joins_def Let_def)
  show "traversal_ok ns es t'"
    using assms(1,3,4) * unfolding t'_def
    by (auto simp: scan_edge_def reach_def traversal_ok_def Let_def)
qed

lemma scan_edges:
  assumes "traversal_ok ns es t" "inj_on gi_id (set es)" "set ys \<subseteq> set es" "set frontier \<subseteq> set (tv_visited t)"
  defines "t' \<equiv> foldl (scan_edge ns frontier) t ys"
  shows "set (tv_visited t') = set (tv_visited t) \<union> edge_links ns ys `` set frontier
       \<and> set (tv_next t') = set (tv_next t) \<union> (edge_links ns ys `` set frontier - set (tv_visited t)) \<and> traversal_ok ns es t'"
  unfolding t'_def using assms(1,3,4)
proof (induction ys arbitrary: t)
  case Nil
  then show ?case by (simp add: edge_links_def)
next
  case (Cons e ys)
  have e: "e \<in> set es" "set ys \<subseteq> set es" using Cons.prems by auto
  note step = scan_edge_step [OF Cons.prems(1) assms(2) e(1) Cons.prems(3)]
  have links: "edge_links ns (e # ys) `` S = edge_links ns [e] `` S \<union> edge_links ns ys `` S" for S
    by (auto simp: edge_links_def)
  have "set frontier \<subseteq> set (tv_visited (scan_edge ns frontier t e))" using step(1) Cons.prems(3) by blast
  from Cons.IH [OF step(3) e(2) this] show ?case by (auto simp: step(1,2) links)
qed

lemma expand_reaches:
  assumes "traversal_ok ns es t" "inj_on gi_id (set es)" "set frontier \<subseteq> set (tv_visited t)"
    and "edge_links ns es `` (set (tv_visited t) - set frontier) \<subseteq> set (tv_visited t)"
    and "expand ns es left frontier depth t = (t', depth')"
  shows "set (tv_visited t') = nearby (edge_links ns es) left (set (tv_visited t)) \<and> traversal_ok ns es t'"
  using assms(1,3-)
proof (induction left arbitrary: frontier depth t)
  case 0
  then show ?case by simp
next
  case (Suc left)
  let ?R = "edge_links ns es" and ?V = "set (tv_visited t)"
  let ?t = "foldl (scan_edge ns frontier) (t\<lparr>tv_next := []\<rparr>) es"
  have ok: "traversal_ok ns es (t\<lparr>tv_next := []\<rparr>)" using Suc.prems(1) by (simp add: traversal_ok_def)
  have new: "set (tv_visited ?t) = ?V \<union> ?R `` set frontier" and nxt: "set (tv_next ?t) = ?R `` set frontier - ?V"
    and ok': "traversal_ok ns es ?t"
    using scan_edges [OF ok assms(2) order_refl, of frontier] Suc.prems(2) by simp_all
  have visited: "set (tv_visited ?t) = ?V \<union> ?R `` ?V" unfolding new using Suc.prems(2,3) by blast
  have "set (tv_visited ?t) - set (tv_next ?t) \<subseteq> ?V" unfolding new nxt by blast
  then have closed: "?R `` (set (tv_visited ?t) - set (tv_next ?t)) \<subseteq> set (tv_visited ?t)" unfolding visited by blast
  show ?case
  proof (cases "frontier = []")
    case True
    then show ?thesis using Suc.prems by (auto simp: nearby_closed)
  next
    case False
    show ?thesis
    proof (cases "length (tv_edges ?t) > length (tv_edges t) \<or> tv_next ?t \<noteq> []")
      case True
      with False Suc.prems(4) have "expand ns es left (tv_next ?t) (depth + 1) ?t = (t', depth')" by (simp add: Let_def)
      from Suc.IH [OF ok' _ closed this] have "set (tv_visited t') = nearby ?R left (set (tv_visited ?t)) \<and> traversal_ok ns es t'"
        unfolding new nxt by blast
      then show ?thesis by (simp add: visited nearby_Suc)
    next
      case no: False
      with nxt have "?R `` set frontier \<subseteq> ?V" by auto
      with Suc.prems(2,3) have "?R `` ?V \<subseteq> ?V" by blast
      moreover have "t' = ?t" using no False Suc.prems(4) by (simp add: Let_def)
      ultimately show ?thesis using visited ok' by (auto simp: nearby_closed)
    qed
  qed
qed

subsection \<open>The visible part of the store\<close>

lemma fold_by_id_has:
  "js_has (foldl (\<lambda>m n. js_set (gi_id n) n m) m xs) i \<longleftrightarrow> js_has m i \<or> i \<in> gi_id ` set xs"
  by (induction xs arbitrary: m) (auto simp: js_map_simps)

lemma fold_by_id_get:
  "js_get (foldl (\<lambda>m n. js_set (gi_id n) n m) m xs) i = Some n \<Longrightarrow> js_get m i = Some n \<or> n \<in> set xs \<and> gi_id n = i"
proof (induction xs arbitrary: m)
  case (Cons x xs)
  then have "js_get (js_set (gi_id x) x m) i = Some n \<or> n \<in> set xs \<and> gi_id n = i" by simp
  then show ?case by (auto simp: js_map_simps split: if_splits)
qed simp

lemma visible_nodes_has: "js_has (visible_nodes q g) i \<longleftrightarrow> (\<exists>n. node_seen q g n \<and> gi_id n = i)"
  by (auto simp: visible_nodes_def fold_by_id_has node_seen_def js_has_def [of "[]"] js_map_simps)

lemma visible_nodes_get: "js_get (visible_nodes q g) i = Some n \<Longrightarrow> node_seen q g n \<and> gi_id n = i"
  by (auto simp: visible_nodes_def node_seen_def js_map_simps dest!: fold_by_id_get)

lemma visible_edges_set: "e \<in> set (visible_edges q g) \<longleftrightarrow> edge_seen q g e"
  by (auto simp: visible_edges_def edge_seen_def)

lemma visible_edges_links: "edge_links (visible_nodes q g) (visible_edges q g) = linked q g"
  by (auto simp: edge_links_def linked_def visible_nodes_has visible_edges_set)

lemma visible_edges_ids: "graph_wf g \<Longrightarrow> inj_on gi_id (set (visible_edges q g))"
  unfolding visible_edges_def graph_wf_def
  by (rule distinct_map [THEN iffD1, THEN conjunct2], rule keyed_distinct_ids [where t = "gq_tenantId q" and w = "gq_workspaceId q"])
     (auto simp: visible_def)

text \<open>C33. A traversal from a visible node returns, up to the limit and starting with that node, exactly the nodes within \<open>maxDepth\<close> links of it,
  each once; all returned nodes and edges are visible to the query (so of its tenant and workspace), and edges join returned nodes.
\<close>

theorem traversal_exact:
  assumes "graph_wf g" "\<not> simulateFailure g" "gq_startNodeId q = Some s" "s \<noteq> []" "\<exists>n. node_seen q g n \<and> gi_id n = s"
  shows "\<exists>ids ans. queryGraph q g = Inr ans \<and> distinct ids \<and> set ids = nearby (linked q g) (nullish (gq_maxDepth q) 2) {s}
       \<and> map gi_id (ga_nodes ans) = take (nullish (gq_limit q) 25) ids
       \<and> (\<forall>n \<in> set (ga_nodes ans). node_seen q g n)
       \<and> (\<forall>e \<in> set (ga_edges ans). edge_seen q g e \<and> between (map gi_id (ga_nodes ans)) e)"
proof -
  let ?ns = "visible_nodes q g" and ?es = "visible_edges q g" and ?l = "nullish (gq_limit q) 25"
  have has: "js_has ?ns s" using assms(5) by (simp add: visible_nodes_has)
  obtain t d where t: "expand ?ns ?es (nullish (gq_maxDepth q) 2) [s] 0 (start_traversal s) = (t, d)" by fastforce
  have "traversal_ok ?ns ?es (start_traversal s)" using has by (simp add: traversal_ok_def start_traversal_def)
  from expand_reaches [OF this visible_edges_ids [OF assms(1)] _ _ t]
  have reached: "set (tv_visited t) = nearby (linked q g) (nullish (gq_maxDepth q) 2) {s}" and ok: "traversal_ok ?ns ?es t"
    by (simp_all add: start_traversal_def visible_edges_links)
  have all: "filter (js_has ?ns) (tv_visited t) = tv_visited t" using ok by (simp add: traversal_ok_def filter_id_conv)
  define sel where "sel = take ?l (map (\<lambda>i. the (js_get ?ns i)) (tv_visited t))"
  have seen: "node_seen q g (the (js_get ?ns i)) \<and> gi_id (the (js_get ?ns i)) = i" if "i \<in> set (tv_visited t)" for i
    using ok that visible_nodes_get [of q g i] by (fastforce simp: traversal_ok_def js_has_def)
  then have ids: "map gi_id (map (\<lambda>i. the (js_get ?ns i)) (tv_visited t)) = tv_visited t" by (auto intro!: map_idI)
  then have "map gi_id sel = take ?l (tv_visited t)" by (metis sel_def take_map)
  moreover have "\<forall>n \<in> set sel. node_seen q g n"
    using seen by (auto simp: sel_def dest!: in_set_takeD)
  moreover have "queryGraph q g =
      Inr \<lparr>ga_nodes = sel, ga_edges = take ?l (filter (between (map gi_id sel)) (tv_edges t)), ga_traversalDepth = d\<rparr>"
    using assms(2-4) has t all by (simp add: queryGraph_def checked_def query_graph_def sel_def Let_def)
  moreover have "\<forall>e \<in> set (tv_edges t). edge_seen q g e" using ok by (auto simp: traversal_ok_def visible_edges_set)
  ultimately show ?thesis
    using reached ok by (intro exI [of _ "tv_visited t"]) (auto simp: traversal_ok_def dest!: in_set_takeD)
qed

section \<open>Evolution\<close>

text \<open>The payloads of the plan are of its own tenant and workspace.\<close>

definition item_local :: "evolution_plan \<Rightarrow> 'a graph_item_scheme option \<Rightarrow> bool" where
  "item_local plan x \<longleftrightarrow> (case x of None \<Rightarrow> True | Some y \<Rightarrow> gi_tenantId y = ep_tenantId plan \<and> gi_workspaceId y = ep_workspaceId plan)"

definition op_local :: "evolution_plan \<Rightarrow> evolution_op \<Rightarrow> bool" where
  "op_local plan op \<longleftrightarrow> item_local plan (ev_node op) \<and> item_local plan (ev_edge op)"

definition foreign :: "evolution_plan \<Rightarrow> string \<Rightarrow> bool" where
  "foreign plan k \<longleftrightarrow> (\<forall>i. k \<noteq> memory_key (ep_tenantId plan) (ep_workspaceId plan) i)"

lemma evolve_op_foreign:
  assumes "evolve_op P plan now op g r = (g', x)" "op_local plan op" "foreign plan k"
  shows "js_get (graphNodes g') k = js_get (graphNodes g) k \<and> js_get (graphEdges g') k = js_get (graphEdges g) k"
  using assms
  by (auto simp: evolution_defs op_local_def item_local_def foreign_def item_key_def js_map_simps Let_def
           split: GraphEvolutionOperationType.splits option.splits if_splits)

lemma evolve_ops_foreign:
  assumes "evolve_ops P plan ops g r = (g', x)" "\<forall>(now, op) \<in> set ops. op_local plan op" "foreign plan k"
  shows "js_get (graphNodes g') k = js_get (graphNodes g) k \<and> js_get (graphEdges g') k = js_get (graphEdges g) k"
  using assms
proof (induction P plan ops g r rule: evolve_ops.induct)
  case (2 P plan now op ops g r)
  obtain g1 y where one: "evolve_op P plan now op g r = (g1, y)" by fastforce
  have "op_local plan op" using "2.prems"(2) by auto
  from evolve_op_foreign [OF one this "2.prems"(3)] show ?case
    using "2.prems" "2.IH" [OF one [symmetric]] by (auto simp: one split: sum.splits if_splits)
qed simp

lemma evolveGraph_success:
  "evolveGraph P plan ctx g = (g', Inr r) \<Longrightarrow>
   (ep_operations plan = [] \<and> g' = g) \<or> (\<exists>r0. evolve_ops P plan (ep_operations plan) g r0 = (g', Inr r))"
  by (auto simp: evolveGraph_def checked_def split: if_splits prod.splits sum.splits)

text \<open>C32. An evolution plan is atomic and contained. Entries keep standing under the keys of their items; a plan that fails at any of its
  operations leaves the store exactly as it was, although earlier operations had written to it; a plan whose payloads name its own tenant
  and workspace changes no entry of any other.
\<close>

theorem evolution_atomic:
  assumes "graph_wf g" "evolveGraph P plan ctx g = (g', x)"
  shows "graph_wf g' \<and> (\<forall>e. x = Inl e \<longrightarrow> g' = g)
       \<and> ((\<forall>(now, op) \<in> set (ep_operations plan). op_local plan op) \<longrightarrow>
          (\<forall>k. foreign plan k \<longrightarrow> js_get (graphNodes g') k = js_get (graphNodes g) k \<and> js_get (graphEdges g') k = js_get (graphEdges g) k))"
proof (cases x)
  case (Inl e)
  with assms have "g' = g" by (auto intro: failed_evolution)
  with assms(1) show ?thesis by simp
next
  case (Inr r)
  with assms(2) evolveGraph_success consider "g' = g" | r0 where "evolve_ops P plan (ep_operations plan) g r0 = (g', Inr r)" by blast
  then show ?thesis
  proof cases
    case 2
    then show ?thesis using Inr evolve_ops_wf [OF 2 assms(1)] evolve_ops_foreign [OF 2] by blast
  qed (use Inr assms(1) in simp)
qed

subsection \<open>What the other operations write\<close>

lemma save_item_version: "\<lbrakk>save_item now given ev x m = Inr y; js_get m (item_key x) = Some old\<rbrakk> \<Longrightarrow> gi_version old < gi_version y"
  by (auto simp: save_item_def split: if_splits)

lemma save_wf:
  "\<lbrakk>saveGraphNode P now given ev n g = (g', x); graph_wf g\<rbrakk> \<Longrightarrow> graph_wf g'"
  "\<lbrakk>saveGraphEdge P now given ev e g = (g', y); graph_wf g\<rbrakk> \<Longrightarrow> graph_wf g'"
  by (auto simp: saveGraphNode_def saveGraphEdge_def checked_def graph_wf_def Let_def save_item_key intro!: keyed_set
           split: if_splits sum.splits)

lemma revoke_wf: "graph_wf g \<Longrightarrow> graph_wf (fst (revoke_graph i t w g))"
  by (simp add: revoke_graph_def graph_wf_def keyed_filter Let_def)

lemma revoke_nodes:
  "n \<in> set (js_values (graphNodes (fst (revoke_graph i t w g)))) \<longleftrightarrow> n \<in> set (js_values (graphNodes g)) \<and> \<not> revoked_node i t w n"
  by (force simp: revoke_graph_def js_values_def Let_def)

lemma revoke_edges:
  "e \<in> set (js_values (graphEdges (fst (revoke_graph i t w g)))) \<longleftrightarrow>
   e \<in> set (js_values (graphEdges g)) \<and> \<not> revoked_edge i t w (map gi_id (filter (revoked_node i t w) (js_values (graphNodes g)))) e"
  by (force simp: revoke_graph_def revoked_edge_def js_values_def Let_def)

section \<open>Witnesses and what a plan may do beyond its contract\<close>

definition test_graph_item :: "string \<Rightarrow> string \<Rightarrow> graph_item" where
  "test_graph_item t i =
     \<lparr>gi_id = i, gi_tenantId = t, gi_workspaceId = ''w'', gi_confidence = 1, gi_properties = [],
      gi_provenance = Some \<lparr>pv_sourceType = ''PLUGIN'', pv_sourceId = None, pv_stepIndex = None, pv_sourceHash = None,
                            pv_creatorPrincipalId = ''u'', pv_timestamp = ''2026-01-01T00:00:00.000Z'', pv_verified = False\<rparr>,
      gi_version = 1, gi_lastMemoryVersion = None, gi_isCurrent = True, gi_validFrom = None, gi_validTo = None, gi_supersededBy = None,
      gi_createdAt = ''2026-01-01T00:00:00.000Z'', gi_updatedAt = None\<rparr>"

definition test_graph_node :: "string \<Rightarrow> string \<Rightarrow> graph_node" where
  "test_graph_node t i = graph_item.extend (test_graph_item t i) (graph_node.fields ''CONCEPT'' ''x'' None)"

definition test_graph_edge :: "string \<Rightarrow> string \<Rightarrow> string \<Rightarrow> graph_edge" where
  "test_graph_edge i a b = graph_item.extend (test_graph_item ''t'' i) (graph_edge.fields a b ''RELATES_TO'' 1)"

definition test_graph :: memory_graph where
  "test_graph =
     \<lparr>graphNodes = map (\<lambda>i. (memory_key ''t'' ''w'' i, test_graph_node ''t'' i)) [''a'', ''b'', ''c''],
      graphEdges = [(memory_key ''t'' ''w'' ''e'', test_graph_edge ''e'' ''b'' ''a''), (memory_key ''t'' ''w'' ''f'', test_graph_edge ''f'' ''b'' ''c'')],
      simulateFailure = False, simulateFailureInEvolution = False, simulateFailureInEvolutionMidway = False\<rparr>"

definition test_query :: graph_query where
  "test_query =
     \<lparr>gq_tenantId = ''t'', gq_workspaceId = ''w'', gq_startNodeId = Some ''a'', gq_nodeTypes = None, gq_edgeTypes = None,
      gq_maxDepth = Some 1, gq_minConfidence = None, gq_limit = None, gq_asOf = None, gq_includeSuperseded = None\<rparr>"

definition test_evolution_op :: "GraphEvolutionOperationType \<Rightarrow> graph_node option \<Rightarrow> string option \<Rightarrow> evolution_op" where
  "test_evolution_op ty n target =
     \<lparr>ev_operationType = ty, ev_node = n, ev_edge = None, ev_targetId = target, ev_expectedVersion = None, ev_supersededBy = None,
      ev_validTo = None\<rparr>"

definition test_evolution_plan :: "evolution_op list \<Rightarrow> evolution_plan" where
  "test_evolution_plan ops =
     \<lparr>ep_evolutionId = ''ev'', ep_tenantId = ''t'', ep_workspaceId = ''w'', ep_memoryRecordId = ''m'', ep_memoryVersion = None,
      ep_operations = map (Pair ''2026-02-01T00:00:00.000Z'') ops\<rparr>"

lemmas test_graph_defs =
  test_graph_item_def test_graph_node_def test_graph_edge_def test_graph_def test_query_def test_evolution_op_def test_evolution_plan_def
  graph_item.defs graph_node.defs graph_edge.defs

lemma test_graph_wf: "graph_wf test_graph"
  by (simp add: test_graph_defs graph_wf_def keyed_def js_map_wf_def item_key_def memory_key_def)

theorem traversal_exact_witness:
  "graph_wf test_graph \<and> (\<exists>n. node_seen test_query test_graph n \<and> gi_id n = ''a'')
   \<and> (\<exists>ids ans. queryGraph test_query test_graph = Inr ans \<and> set ids = nearby (linked test_query test_graph) 1 {''a''}
        \<and> map gi_id (ga_nodes ans) = take 25 ids \<and> map gi_id (ga_nodes ans) = [''a'', ''b''])"
proof -
  have seen: "\<exists>n. node_seen test_query test_graph n \<and> gi_id n = ''a''"
    by (rule exI [of _ "test_graph_node ''t'' ''a''"]) (simp add: test_graph_defs node_seen_def visible_def js_values_def nullish_def)
  have start: "\<not> simulateFailure test_graph" "gq_startNodeId test_query = Some ''a''" by (simp_all add: test_graph_def test_query_def)
  have ans: "map_sum id (\<lambda>a. map gi_id (ga_nodes a)) (queryGraph test_query test_graph) = Inr [''a'', ''b'']"
    by code_simp
  have "nullish (gq_maxDepth test_query) 2 = 1" "nullish (gq_limit test_query) 25 = 25" by (simp_all add: test_query_def nullish_def)
  with traversal_exact [OF test_graph_wf start _ seen] ans test_graph_wf seen show ?thesis by fastforce
qed

definition failing_plan :: evolution_plan where
  "failing_plan = test_evolution_plan [test_evolution_op ADD_NODE (Some (test_graph_node ''t'' ''d'')) None, test_evolution_op SUPERSEDE_NODE None (Some ''z'')]"

theorem evolution_atomic_witness:
  "graph_wf test_graph
   \<and> evolveGraph test_platform failing_plan None test_graph = (test_graph, Inl (MemoryNotFoundError ''z''))"
proof -
  have "snd (evolveGraph test_platform failing_plan None test_graph) = Inl (MemoryNotFoundError ''z'')" by code_simp
  with test_graph_wf evolution_atomic [OF test_graph_wf prod.collapse [symmetric], of test_platform failing_plan None] show ?thesis
    by (simp add: prod_eq_iff)
qed

text \<open>
  Only \<open>ADD_NODE\<close> and \<open>ADD_EDGE\<close> compare the tenant of their payload with the plan's: a refinement under a plan, and a caller context, of one
  tenant writes to the node of another.
\<close>

lemma refinement_crosses_tenants:
  "let g = test_graph\<lparr>graphNodes := [(memory_key ''u'' ''w'' ''a'', test_graph_node ''u'' ''a'')]\<rparr>;
       plan = test_evolution_plan [test_evolution_op REFINE_NODE (Some ((test_graph_node ''u'' ''a'')\<lparr>gn_label := ''mine''\<rparr>)) None];
       out = evolveGraph test_platform plan (Some (''t'', ''w'')) g
   in map_option gn_label (js_get (graphNodes (fst out)) (memory_key ''u'' ''w'' ''a'')) = Some ''mine'' \<and> \<not> isl (snd out)"
  by code_simp

text \<open>
  A refinement merges its payload over the stored node without checking the result: applied to a superseded node it leaves a current node
  with an end of validity and a successor, which the schema forbids.
\<close>

lemma refinement_revives_superseded:
  "let plan = test_evolution_plan [test_evolution_op SUPERSEDE_NODE (Some (test_graph_node ''t'' ''d'')) (Some ''a''), test_evolution_op REFINE_NODE (Some (test_graph_node ''t'' ''a'')) None];
       out = evolveGraph test_platform plan None test_graph
   in \<not> isl (snd out) \<and> map_option coherent (js_get (graphNodes (fst out)) (memory_key ''t'' ''w'' ''a'')) = Some False"
  by code_simp

text \<open>A replacement is stored without looking at what stands under its key, so the version of an existing node can fall.\<close>

lemma replacement_lowers_version:
  "let plan = test_evolution_plan [test_evolution_op REFINE_NODE (Some (test_graph_node ''t'' ''b'')) None, test_evolution_op SUPERSEDE_NODE (Some (test_graph_node ''t'' ''b'')) (Some ''a'')];
       first = evolveGraph test_platform (plan\<lparr>ep_operations := take 1 (ep_operations plan)\<rparr>) None test_graph;
       out = evolveGraph test_platform plan None test_graph
   in map_option gi_version (js_get (graphNodes (fst first)) (memory_key ''t'' ''w'' ''b'')) = Some 2
      \<and> map_option gi_version (js_get (graphNodes (fst out)) (memory_key ''t'' ''w'' ''b'')) = Some 1"
  by code_simp

end
