(* ===== verification/Vector_Index.thy ===== *)
theory Vector_Index
  imports Memory_Graph Agent_Directory "HOL-Library.Product_Lexorder"
begin

text \<open>
  The in-process similarity index, \<open>services/backend/src/memory/vector-index.ts\<close>, with the enumerations of
  \<open>packages/contracts/src/memory/base.ts\<close> and the request of \<open>vector.ts\<close>. Vectors and scores are real numbers: the rounding of
  floating-point arithmetic is not modelled. \<open>localeCompare\<close> orders strings by a key that is a parameter (\<open>collate\<close>); strings are
  countable, so rational keys describe any such order.

  Proved: the similarities stay in their ranges, so that the response always passes its own schema; a search returns the best entries of
  the caller's partition that pass every filter, ranked; partitions stay within their capacity.
\<close>

section \<open>Enumerations\<close>

datatype MemoryClass = WORKING | EPISODIC | SEMANTIC | PROCEDURAL | ARTIFACT

datatype MemorySensitivity = PUBLIC | INTERNAL | CONFIDENTIAL | RESTRICTED

datatype MemoryStatus = ACTIVE | PROPOSED | TOMBSTONED | ARCHIVED

primrec SENSITIVITY_HIERARCHY :: "MemorySensitivity \<Rightarrow> nat" where
  "SENSITIVITY_HIERARCHY PUBLIC = 0"
| "SENSITIVITY_HIERARCHY INTERNAL = 1"
| "SENSITIVITY_HIERARCHY CONFIDENTIAL = 2"
| "SENSITIVITY_HIERARCHY RESTRICTED = 3"

datatype DistanceMetric = COSINE | DOT | EUCLIDEAN

section \<open>Distances\<close>

definition dot_product :: "real list \<Rightarrow> real list \<Rightarrow> real" where
  "dot_product a b = sum_list (map2 (*) a b)"

definition computeCosineSimilarity :: "real list \<Rightarrow> real list \<Rightarrow> real \<times> real" where
  "computeCosineSimilarity a b =
     (let normASq = dot_product a a; normBSq = dot_product b b in
      if normASq = 0 \<or> normBSq = 0 then (0, 1)
      else let rawCos = dot_product a b / (sqrt normASq * sqrt normBSq); clampedCos = max (-1) (min 1 rawCos)
           in (max 0 (min 1 ((clampedCos + 1) / 2)), max 0 (1 - clampedCos)))"

definition computeDotProduct :: "real list \<Rightarrow> real list \<Rightarrow> real \<times> real" where
  "computeDotProduct a b = (let similarity = max 0 (min 1 (dot_product a b)) in (similarity, max 0 (1 - similarity)))"

definition computeEuclideanDistance :: "real list \<Rightarrow> real list \<Rightarrow> real \<times> real" where
  "computeEuclideanDistance a b =
     (let distance = sqrt (sum_list (map2 (\<lambda>x y. (x - y) * (x - y)) a b)) in (1 / (1 + distance), distance))"

primrec measure_vectors :: "DistanceMetric \<Rightarrow> real list \<Rightarrow> real list \<Rightarrow> real \<times> real" where
  "measure_vectors COSINE a b = computeCosineSimilarity a b"
| "measure_vectors DOT a b = computeDotProduct a b"
| "measure_vectors EUCLIDEAN a b = computeEuclideanDistance a b"

section \<open>The index\<close>

record stored_vector =
  sv_id :: string
  sv_memoryRecordId :: string
  sv_tenantId :: string
  sv_workspaceId :: string
  sv_values :: "real list"
  sv_sensitivity :: "MemorySensitivity option"
  sv_status :: "MemoryStatus option"
  sv_classes :: "MemoryClass list option"
  sv_tags :: "string list option"
  sv_metadata :: "(string \<times> json) list"
  sv_updatedAt :: string

type_synonym vector_partition = "(string, stored_vector) jsmap"

record vector_index =
  vi_dimensions :: nat
  maxVectorsPerWorkspace :: nat
  partitions :: "(string, vector_partition) jsmap"

definition getPartitionKey :: "string \<Rightarrow> string \<Rightarrow> string" where
  "getPartitionKey t w = t @ '':::'' @ w"

definition getPartition :: "string \<Rightarrow> string \<Rightarrow> vector_index \<Rightarrow> vector_partition option" where
  "getPartition t w ix = js_get (partitions ix) (getPartitionKey t w)"

text \<open>A full partition loses its oldest entry, unless the key of that entry is empty (and so falsy).\<close>

definition evict_oldest :: "nat \<Rightarrow> string \<Rightarrow> vector_partition \<Rightarrow> vector_partition" where
  "evict_oldest capacity i p =
     (if \<not> js_has p i \<and> length p \<ge> capacity \<and> p \<noteq> [] \<and> fst (hd p) \<noteq> [] then js_delete (fst (hd p)) p else p)"

definition vector_upsert :: "string \<Rightarrow> stored_vector \<Rightarrow> vector_index \<Rightarrow> memory_error + vector_index" where
  "vector_upsert now e ix =
     (if sv_tenantId e = [] \<or> sv_workspaceId e = [] \<or> sv_memoryRecordId e = [] then Inl VectorIndexError
      else if length (sv_values e) \<noteq> vi_dimensions ix then Inl (VectorDimensionMismatchError (vi_dimensions ix) (length (sv_values e)))
      else let k = getPartitionKey (sv_tenantId e) (sv_workspaceId e); p = nullish (js_get (partitions ix) k) [];
               p' = js_set (sv_memoryRecordId e) (e\<lparr>sv_updatedAt := now\<rparr>) (evict_oldest (maxVectorsPerWorkspace ix) (sv_memoryRecordId e) p)
           in Inr (ix\<lparr>partitions := js_set k p' (partitions ix)\<rparr>))"

definition vector_get :: "string \<Rightarrow> string \<Rightarrow> string \<Rightarrow> vector_index \<Rightarrow> stored_vector option" where
  "vector_get i t w ix = (case getPartition t w ix of None \<Rightarrow> None | Some p \<Rightarrow> js_get p i)"

definition vector_delete :: "string \<Rightarrow> string \<Rightarrow> string \<Rightarrow> vector_index \<Rightarrow> vector_index \<times> bool" where
  "vector_delete i t w ix =
     (case getPartition t w ix of
        None \<Rightarrow> (ix, False)
      | Some p \<Rightarrow> (ix\<lparr>partitions := js_set (getPartitionKey t w) (js_delete i p) (partitions ix)\<rparr>, js_has p i))"

definition vector_clear :: "string option \<Rightarrow> string option \<Rightarrow> vector_index \<Rightarrow> vector_index" where
  "vector_clear t w ix =
     (if truthy t \<and> truthy w then ix\<lparr>partitions := js_delete (getPartitionKey (the t) (the w)) (partitions ix)\<rparr> else ix\<lparr>partitions := []\<rparr>)"

definition vector_size :: "string option \<Rightarrow> string option \<Rightarrow> vector_index \<Rightarrow> nat" where
  "vector_size t w ix =
     (if truthy t \<and> truthy w then length (nullish (getPartition (the t) (the w) ix) []) else sum_list (map length (js_values (partitions ix))))"

section \<open>Search\<close>

record vector_request =
  vr_tenantId :: string
  vr_workspaceId :: string
  vr_vector :: "real list option"
  vr_query :: "string option"
  vr_topK :: nat
  vr_minSimilarity :: real
  vr_metric :: DistanceMetric
  vr_maxSensitivity :: "MemorySensitivity option"
  vr_classes :: "MemoryClass list option"
  vr_status :: "MemoryStatus list"
  vr_tags :: "string list option"

definition VectorSearchRequestSchema :: "vector_request \<Rightarrow> bool" where
  "VectorSearchRequestSchema q \<longleftrightarrow>
     vr_tenantId q \<noteq> [] \<and> vr_workspaceId q \<noteq> []
     \<and> (case vr_vector q of None \<Rightarrow> True | Some v \<Rightarrow> 2 \<le> length v \<and> length v \<le> 1536)
     \<and> vr_query q \<noteq> Some [] \<and> 0 < vr_topK q \<and> vr_topK q \<le> 50 \<and> 0 \<le> vr_minSimilarity q \<and> vr_minSimilarity q \<le> 1
     \<and> (case vr_tags q of None \<Rightarrow> True | Some ts \<Rightarrow> [] \<notin> set ts)
     \<and> (vr_vector q \<noteq> None \<or> (case vr_query q of None \<Rightarrow> False | Some s \<Rightarrow> trim s \<noteq> []))"

record vector_hit =
  vh_memoryRecordId :: string
  vh_score :: real
  vh_distance :: real
  vh_citationToken :: string
  vh_metadata :: "(string \<times> json) list"

datatype RetrievalMode = LEXICAL | HYBRID | SEMANTIC_DEGRADED | EXACT

record vector_response =
  vs_items :: "vector_hit list"
  vs_total :: nat
  vs_retrievalMode :: RetrievalMode

definition hit_ok :: "vector_hit \<Rightarrow> bool" where
  "hit_ok h \<longleftrightarrow> vh_memoryRecordId h \<noteq> [] \<and> 0 \<le> vh_score h \<and> vh_score h \<le> 1 \<and> 0 \<le> vh_distance h \<and> vh_citationToken h \<noteq> []"

definition VectorSearchResponseSchema :: "vector_response \<Rightarrow> memory_error + vector_response" where
  "VectorSearchResponseSchema r = (if length (vs_items r) \<le> 100 \<and> list_all hit_ok (vs_items r) then Inr r else Inl MEMORY_SCHEMA)"

text \<open>The four filters that come before any distance is computed.\<close>

definition passes_filters :: "vector_request \<Rightarrow> stored_vector \<Rightarrow> bool" where
  "passes_filters q e \<longleftrightarrow>
     (case sv_status e of None \<Rightarrow> True | Some s \<Rightarrow> s \<in> set (vr_status q))
     \<and> SENSITIVITY_HIERARCHY (nullish (sv_sensitivity e) INTERNAL) \<le> SENSITIVITY_HIERARCHY (nullish (vr_maxSensitivity q) RESTRICTED)
     \<and> (case (vr_classes q, sv_classes e) of (Some allowed, Some cs) \<Rightarrow> cs = [] \<or> (\<exists>c \<in> set cs. c \<in> set allowed) | _ \<Rightarrow> True)
     \<and> (case (vr_tags q, sv_tags e) of (Some required, Some ts) \<Rightarrow> (\<exists>t \<in> set ts. t \<in> set required) | _ \<Rightarrow> True)"

definition vector_hit_of :: "vector_request \<Rightarrow> real list \<Rightarrow> stored_vector \<Rightarrow> vector_hit" where
  "vector_hit_of q v e =
     (case measure_vectors (vr_metric q) v (sv_values e) of
        (score, distance) \<Rightarrow>
          \<lparr>vh_memoryRecordId = sv_memoryRecordId e, vh_score = score, vh_distance = distance,
           vh_citationToken = ''CIT-'' @ take 8 (sv_memoryRecordId e), vh_metadata = sv_metadata e\<rparr>)"

definition scored_candidates :: "vector_request \<Rightarrow> real list \<Rightarrow> vector_partition \<Rightarrow> vector_hit list" where
  "scored_candidates q v p =
     filter (\<lambda>h. vh_score h \<ge> vr_minSimilarity q) (map (vector_hit_of q v) (filter (passes_filters q) (js_values p)))"

text \<open>Descending by score, then ascending by the collated id; the sort is stable.\<close>

definition ranked :: "(string \<Rightarrow> rat) \<Rightarrow> vector_hit list \<Rightarrow> vector_hit list" where
  "ranked collate hs = sort_key (\<lambda>h. (- vh_score h, collate (vh_memoryRecordId h))) hs"

definition vector_search :: "(string \<Rightarrow> rat) \<Rightarrow> vector_request \<Rightarrow> vector_index \<Rightarrow> memory_error + vector_response" where
  "vector_search collate q ix =
     (if \<not> VectorSearchRequestSchema q then Inl MEMORY_SCHEMA
      else case (vr_vector q, getPartition (vr_tenantId q) (vr_workspaceId q) ix) of
        (None, _) \<Rightarrow> VectorSearchResponseSchema \<lparr>vs_items = [], vs_total = 0, vs_retrievalMode = SEMANTIC_DEGRADED\<rparr>
      | (Some v, p) \<Rightarrow>
          (if length v \<noteq> vi_dimensions ix then Inl (VectorDimensionMismatchError (vi_dimensions ix) (length v))
           else case p of
             None \<Rightarrow> VectorSearchResponseSchema \<lparr>vs_items = [], vs_total = 0, vs_retrievalMode = SEMANTIC_DEGRADED\<rparr>
           | Some entries \<Rightarrow>
               (if entries = [] then VectorSearchResponseSchema \<lparr>vs_items = [], vs_total = 0, vs_retrievalMode = SEMANTIC_DEGRADED\<rparr>
                else let scored = ranked collate (scored_candidates q v entries) in
                  VectorSearchResponseSchema
                    \<lparr>vs_items = take (min (vr_topK q) 100) scored, vs_total = length scored, vs_retrievalMode = HYBRID\<rparr>)))"

section \<open>Ranges\<close>

lemma dot_self_nonneg: "0 \<le> dot_product a a"
  unfolding dot_product_def by (induction a) (simp_all add: zip_same_conv_map)

lemma euclidean_nonneg: "0 \<le> sum_list (map2 (\<lambda>x y. (x - y) * (x - y)) a (b :: real list))"
  by (intro sum_list_nonneg) auto

lemma inverse_range: "0 \<le> d \<Longrightarrow> 1 / (1 + d) \<le> (1 :: real)"
  by (simp add: divide_le_eq_1)

lemma measure_range:
  "measure_vectors m a b = (score, distance) \<Longrightarrow> 0 \<le> score \<and> score \<le> 1 \<and> 0 \<le> distance"
proof (cases m)
  case EUCLIDEAN
  assume "measure_vectors m a b = (score, distance)"
  then show ?thesis using EUCLIDEAN euclidean_nonneg [of a b] by (auto simp: computeEuclideanDistance_def Let_def intro: inverse_range)
qed (auto simp: computeCosineSimilarity_def computeDotProduct_def Let_def split: if_splits)

lemma vector_hit_ok: "sv_memoryRecordId e \<noteq> [] \<Longrightarrow> hit_ok (vector_hit_of q v e)"
  by (auto simp: hit_ok_def vector_hit_of_def split: prod.splits dest: measure_range)

lemma response_accepted:
  "\<lbrakk>length hs \<le> 100; \<forall>h \<in> set hs. hit_ok h\<rbrakk> \<Longrightarrow>
   VectorSearchResponseSchema \<lparr>vs_items = hs, vs_total = n, vs_retrievalMode = m\<rparr> = Inr \<lparr>vs_items = hs, vs_total = n, vs_retrievalMode = m\<rparr>"
  by (simp add: VectorSearchResponseSchema_def list_all_iff)

section \<open>The partitions\<close>

interpretation vector_partitions: tenant_keyed getPartitionKey no_colon
proof
  fix t t' w w'
  assume "no_colon t" "no_colon t'" "getPartitionKey t w = getPartitionKey t' w'"
  then show "t = t' \<and> w = w'"
    using split_at_colon [of t t' "''::'' @ w" "''::'' @ w'"]
    by (simp add: getPartitionKey_def no_colon_def)
qed

definition partition_ok :: "vector_index \<Rightarrow> string \<Rightarrow> vector_partition \<Rightarrow> bool" where
  "partition_ok ix k p \<longleftrightarrow>
     js_map_wf p \<and> length p \<le> max 1 (maxVectorsPerWorkspace ix)
     \<and> (\<forall>(i, e) \<in> set p. i = sv_memoryRecordId e \<and> i \<noteq> [] \<and> k = getPartitionKey (sv_tenantId e) (sv_workspaceId e)
          \<and> length (sv_values e) = vi_dimensions ix)"

definition index_ok :: "vector_index \<Rightarrow> bool" where
  "index_ok ix \<longleftrightarrow> js_map_wf (partitions ix) \<and> (\<forall>(k, p) \<in> set (partitions ix). partition_ok ix k p)"

datatype vector_op = Upsert string stored_vector | DeleteVector string string string | ClearVectors "string option" "string option"

primrec vector_step :: "vector_index \<Rightarrow> vector_op \<Rightarrow> vector_index" where
  "vector_step ix (Upsert now e) = (case vector_upsert now e ix of Inl _ \<Rightarrow> ix | Inr ix' \<Rightarrow> ix')"
| "vector_step ix (DeleteVector i t w) = fst (vector_delete i t w ix)"
| "vector_step ix (ClearVectors t w) = vector_clear t w ix"

lemma partition_ok_Nil [simp]: "partition_ok ix k []"
  by (simp add: partition_ok_def)

lemma partition_ok_partitions [simp]: "partition_ok (ix\<lparr>partitions := ps\<rparr>) k p \<longleftrightarrow> partition_ok ix k p"
  by (simp add: partition_ok_def)

lemma partition_ok_delete: "partition_ok ix k p \<Longrightarrow> partition_ok ix k (js_delete i p)"
  by (auto simp: partition_ok_def js_delete_def AList.delete_eq intro: order_trans [OF length_filter_le])

lemma evict_room:
  assumes "partition_ok ix k p" "\<not> js_has p i"
  shows "length (evict_oldest (maxVectorsPerWorkspace ix) i p) < max 1 (maxVectorsPerWorkspace ix)"
proof (cases p)
  case (Cons a q)
  obtain j e where a: "a = (j, e)" by (cases a)
  have "js_delete j p = q" using assms(1) by (auto simp: Cons a partition_ok_def js_map_wf_def js_delete_def delete_notin_dom)
  moreover have "j \<noteq> []" using assms(1) by (auto simp: Cons a partition_ok_def)
  ultimately show ?thesis using assms by (auto simp: evict_oldest_def Cons a partition_ok_def)
qed (simp add: evict_oldest_def)

lemma partition_ok_insert:
  assumes "partition_ok ix k p" "sv_memoryRecordId e \<noteq> []" "k = getPartitionKey (sv_tenantId e) (sv_workspaceId e)"
    "length (sv_values e) = vi_dimensions ix"
  shows "partition_ok ix k (js_set (sv_memoryRecordId e) (e\<lparr>sv_updatedAt := now\<rparr>) (evict_oldest (maxVectorsPerWorkspace ix) (sv_memoryRecordId e) p))"
proof -
  let ?p = "evict_oldest (maxVectorsPerWorkspace ix) (sv_memoryRecordId e) p"
  have ok: "partition_ok ix k ?p" using assms(1) by (auto simp: evict_oldest_def intro: partition_ok_delete)
  have "js_has ?p (sv_memoryRecordId e) \<or> length ?p < max 1 (maxVectorsPerWorkspace ix)"
    using evict_room [OF assms(1), of "sv_memoryRecordId e"]
    by (cases "js_has p (sv_memoryRecordId e)") (simp_all add: evict_oldest_def)
  then show ?thesis using ok assms(2-) by (fastforce simp: partition_ok_def length_js_set dest!: js_set_elem)
qed

lemma index_ok_get: "\<lbrakk>index_ok ix; js_get (partitions ix) k = Some p\<rbrakk> \<Longrightarrow> partition_ok ix k p"
  by (auto simp: index_ok_def dest: js_get_in_set)

lemma index_ok_set: "\<lbrakk>index_ok ix; partition_ok ix k p\<rbrakk> \<Longrightarrow> index_ok (ix\<lparr>partitions := js_set k p (partitions ix)\<rparr>)"
  by (fastforce simp: index_ok_def dest: js_set_elem)

interpretation vector_ops: op_invariant vector_step index_ok
proof
  fix ix op
  assume ok: "index_ok ix"
  show "index_ok (vector_step ix op)"
  proof (cases op)
    case (Upsert now e)
    have "partition_ok ix k (nullish (js_get (partitions ix) k) [])" for k
      using index_ok_get [OF ok] by (auto simp: nullish_def split: option.splits)
    then show ?thesis
      using ok Upsert by (auto simp: vector_upsert_def Let_def intro: index_ok_set partition_ok_insert)
  next
    case (DeleteVector i t w)
    then show ?thesis
      using ok by (auto simp: vector_delete_def getPartition_def split: option.splits intro: index_ok_set partition_ok_delete dest: index_ok_get)
  next
    case (ClearVectors t w)
    then show ?thesis using ok by (auto simp: vector_clear_def index_ok_def dest: js_delete_elem)
  qed
qed

lemma partition_entries:
  assumes "index_ok ix" "no_colon t" "\<forall>p \<in> set (js_values (partitions ix)). \<forall>e \<in> set (js_values p). no_colon (sv_tenantId e)"
  shows "(\<exists>p \<in> set (js_values (partitions ix)). e \<in> set (js_values p)) \<and> sv_tenantId e = t \<and> sv_workspaceId e = w
     \<longleftrightarrow> e \<in> set (js_values (nullish (js_get (partitions ix) (getPartitionKey t w)) []))"
proof
  assume "e \<in> set (js_values (nullish (js_get (partitions ix) (getPartitionKey t w)) []))"
  then obtain p where p: "js_get (partitions ix) (getPartitionKey t w) = Some p" "e \<in> set (js_values p)"
    by (cases "js_get (partitions ix) (getPartitionKey t w)") (auto simp: nullish_def js_values_def)
  from index_ok_get [OF assms(1) p(1)] p(2) have "getPartitionKey t w = getPartitionKey (sv_tenantId e) (sv_workspaceId e)"
    by (auto simp: partition_ok_def js_values_def)
  moreover have mem: "p \<in> set (js_values (partitions ix))" using p(1) by (rule js_get_value)
  ultimately show "(\<exists>p \<in> set (js_values (partitions ix)). e \<in> set (js_values p)) \<and> sv_tenantId e = t \<and> sv_workspaceId e = w"
    using assms(2,3) p(2) vector_partitions.key_inj by metis
next
  assume "(\<exists>p \<in> set (js_values (partitions ix)). e \<in> set (js_values p)) \<and> sv_tenantId e = t \<and> sv_workspaceId e = w"
  then obtain k p where e: "(k, p) \<in> set (partitions ix)" "e \<in> set (js_values p)" "sv_tenantId e = t" "sv_workspaceId e = w"
    unfolding js_values_def by fastforce
  from assms(1) e(1) have "partition_ok ix k p" and wf: "js_map_wf (partitions ix)" by (auto simp: index_ok_def)
  with e(2-) have "k = getPartitionKey t w" by (auto simp: partition_ok_def js_values_def)
  with e(1) have "js_get (partitions ix) (getPartitionKey t w) = Some p" by (simp add: js_get_eq_Some [OF wf])
  with e(2) show "e \<in> set (js_values (nullish (js_get (partitions ix) (getPartitionKey t w)) []))" by (simp add: nullish_def)
qed

lemma vector_search_hits:
  assumes "VectorSearchRequestSchema q" "vr_vector q = Some v" "length v = vi_dimensions ix"
    and p: "p = nullish (getPartition (vr_tenantId q) (vr_workspaceId q) ix) []"
    and "\<forall>h \<in> set (ranked collate (scored_candidates q v p)). hit_ok h"
  shows "\<exists>m. vector_search collate q ix =
     Inr \<lparr>vs_items = take (min (vr_topK q) 100) (ranked collate (scored_candidates q v p)),
          vs_total = length (ranked collate (scored_candidates q v p)), vs_retrievalMode = m\<rparr>"
proof (cases "p = []")
  case True
  then have "scored_candidates q v p = []" by (simp add: scored_candidates_def js_values_def)
  then show ?thesis using assms(1-3) p True
    by (auto simp: vector_search_def nullish_def ranked_def response_accepted split: option.splits)
next
  case False
  then have "getPartition (vr_tenantId q) (vr_workspaceId q) ix = Some p" using p by (auto simp: nullish_def split: option.splits)
  then show ?thesis using assms(1-3,5) False
    by (auto simp: vector_search_def Let_def intro!: exI [of _ HYBRID] response_accepted dest: in_set_takeD)
qed


definition test_vector :: "string \<Rightarrow> string \<Rightarrow> real list \<Rightarrow> MemorySensitivity \<Rightarrow> stored_vector" where
  "test_vector t i v sens =
     \<lparr>sv_id = i, sv_memoryRecordId = i, sv_tenantId = t, sv_workspaceId = ''w'', sv_values = v, sv_sensitivity = Some sens, sv_status = Some ACTIVE,
      sv_classes = None, sv_tags = None, sv_metadata = [], sv_updatedAt = []\<rparr>"

definition test_index :: vector_index where
  "test_index =
     \<lparr>vi_dimensions = 2, maxVectorsPerWorkspace = 2,
      partitions = [(''t:::w'', [(''a'', test_vector ''t'' ''a'' [1 / 2, 0] INTERNAL), (''b'', test_vector ''t'' ''b'' [1, 0] RESTRICTED)])]\<rparr>"

definition test_vector_request :: vector_request where
  "test_vector_request =
     \<lparr>vr_tenantId = ''t'', vr_workspaceId = ''w'', vr_vector = Some [1, 0], vr_query = None, vr_topK = 10, vr_minSimilarity = 0, vr_metric = DOT,
      vr_maxSensitivity = Some CONFIDENTIAL, vr_classes = None, vr_status = [ACTIVE], vr_tags = None\<rparr>"


text \<open>The separator is not reserved, so two pairs of tenant and workspace can share a partition.\<close>

lemma partition_keys_collide: "getPartitionKey ''a'' '':b'' = getPartitionKey ''a:'' ''b''"
  by (simp add: getPartitionKey_def)

end
