(* ===== verification/Memory_Store.thy ===== *)
theory Memory_Store
  imports Vector_Index
begin

text \<open>
  The in-memory store of the memory services, \<open>services/backend/src/memory/memory-store.ts\<close>: records with optimistic locking, tombstones
  and retention, proposals, episodes, playbooks, embeddings and the outbox of graph evolution; its graph operations are in \<open>Memory_Graph\<close> and
  its similarity index in \<open>Vector_Index\<close>. The schemas are those of \<open>packages/contracts/src/memory\<close>. An \<open>async\<close> method runs
  to its first \<open>await\<close> without interruption; \<open>tombstone\<close>, which awaits its own cascade, is taken as one step.

  Proved: versions only grow and equal versions mean equal records, tombstones are final, updates are not lost; forgetting reaches the
  graph, the derived records and the vectors; a claim on an outbox record excludes others for five minutes.
\<close>

section \<open>Records\<close>

record retention_policy =
  rp_ttlSeconds :: "int option"
  rp_expiresAt :: "string option"

record memory_record =
  mr_id :: string
  mr_tenantId :: string
  mr_workspaceId :: string
  mr_ownerId :: string
  mr_class :: MemoryClass
  mr_status :: MemoryStatus
  mr_sensitivity :: MemorySensitivity
  mr_title :: "string option"
  mr_content :: string
  mr_summary :: "string option"
  mr_confidence :: rat
  mr_tags :: "string list"
  mr_metadata :: "(string \<times> json) list"
  mr_provenance :: provenance
  mr_retentionPolicy :: "retention_policy option"
  mr_version :: int
  mr_createdAt :: string
  mr_updatedAt :: string
  mr_tombstonedAt :: "string option"

text \<open>The fields an update may carry; of the optional ones a present \<open>undefined\<close> (\<open>Some None\<close>) clears the field.\<close>

record memory_update =
  mu_ownerId :: "string option"
  mu_class :: "MemoryClass option"
  mu_status :: "MemoryStatus option"
  mu_sensitivity :: "MemorySensitivity option"
  mu_title :: "string option option"
  mu_content :: "string option"
  mu_summary :: "string option option"
  mu_confidence :: "rat option"
  mu_tags :: "string list option"
  mu_metadata :: "(string \<times> json) list option"
  mu_provenance :: "provenance option"
  mu_retentionPolicy :: "retention_policy option option"
  mu_tombstonedAt :: "string option option"

record memory_proposal =
  mp_proposalId :: string
  mp_tenantId :: string
  mp_workspaceId :: string
  mp_ownerId :: string
  mp_class :: MemoryClass
  mp_content :: string
  mp_title :: "string option"
  mp_confidence :: rat
  mp_sensitivity :: MemorySensitivity
  mp_provenance :: provenance
  mp_suggestedTtlSeconds :: "int option"
  mp_status :: string
  mp_createdAt :: string
  mp_resolvedAt :: "string option"
  mp_resolvedBy :: "string option"
  mp_reason :: "string option"

text \<open>Of episodes and playbooks the store reads the fields below; the others are kept as they are.\<close>

record memory_episode =
  me_id :: string
  me_tenantId :: string
  me_workspaceId :: string
  me_completedAt :: string
  me_rest :: json

datatype PlaybookStatus = PB_PROPOSED | PB_PLANNING_ELIGIBLE | PB_APPROVED | PB_REJECTED

record memory_playbook =
  pb_id :: string
  pb_tenantId :: string
  pb_workspaceId :: string
  pb_status :: PlaybookStatus
  pb_confidence :: rat
  pb_humanApproval :: "json option"
  pb_rest :: json

record vector_embedding =
  ve_id :: string
  ve_memoryRecordId :: string
  ve_tenantId :: string
  ve_workspaceId :: string
  ve_values :: "real list"
  ve_metadata :: "(string \<times> json) list"
  ve_createdAt :: string

datatype EvolutionDeliveryStatus = PENDING | PROCESSING | COMPLETED | FAILED | DEAD_LETTER

record outbox_record =
  ob_id :: string
  ob_tenantId :: string
  ob_workspaceId :: string
  ob_memoryRecordId :: string
  ob_memoryVersion :: int
  ob_candidateSetHash :: string
  ob_evolutionPayload :: "json option"
  ob_status :: EvolutionDeliveryStatus
  ob_attemptCount :: int
  ob_maxAttempts :: int
  ob_nextAttemptAt :: "string option"
  ob_createdAt :: string
  ob_updatedAt :: string
  ob_processedAt :: "string option"
  ob_lastError :: "string option"

record outbox_input =
  oi_id :: string
  oi_tenantId :: string
  oi_workspaceId :: string
  oi_memoryRecordId :: string
  oi_memoryVersion :: int
  oi_candidateSetHash :: string
  oi_evolutionPayload :: "json option"
  oi_status :: "EvolutionDeliveryStatus option"
  oi_attemptCount :: "int option"
  oi_maxAttempts :: "int option"
  oi_nextAttemptAt :: "string option"
  oi_createdAt :: string
  oi_updatedAt :: "string option"
  oi_processedAt :: "string option"
  oi_lastError :: "string option"

record memory_store = memory_graph +
  memories :: "(string, memory_record) jsmap"
  proposals :: "(string, memory_proposal) jsmap"
  episodes :: "(string, memory_episode) jsmap"
  playbooks :: "(string, memory_playbook) jsmap"
  vectorEmbeddings :: "(string, vector_embedding) jsmap"
  outboxRecords :: "(string, outbox_record) jsmap"
  vectorIndex :: vector_index

section \<open>Outbox records\<close>

definition EvolutionOutboxRecordInputSchema :: "platform \<Rightarrow> outbox_input \<Rightarrow> bool" where
  "EvolutionOutboxRecordInputSchema P x \<longleftrightarrow>
     oi_id x \<noteq> [] \<and> oi_tenantId x \<noteq> [] \<and> oi_workspaceId x \<noteq> [] \<and> oi_memoryRecordId x \<noteq> [] \<and> 0 < oi_memoryVersion x \<and> oi_candidateSetHash x \<noteq> []
     \<and> (case oi_attemptCount x of None \<Rightarrow> True | Some n \<Rightarrow> 0 \<le> n) \<and> (case oi_maxAttempts x of None \<Rightarrow> True | Some n \<Rightarrow> 0 < n)
     \<and> optional_date P (oi_nextAttemptAt x) \<and> datetime_ok P (oi_createdAt x) \<and> optional_date P (oi_updatedAt x)
     \<and> optional_date P (oi_processedAt x)"

definition OUTBOX_MAX_ATTEMPTS_DEFAULT :: int where
  "OUTBOX_MAX_ATTEMPTS_DEFAULT = 5"

definition OUTBOX_PROCESSING_LEASE_TIMEOUT_MS :: int where
  "OUTBOX_PROCESSING_LEASE_TIMEOUT_MS = 300000"

definition new_outbox_record :: "outbox_input \<Rightarrow> outbox_record" where
  "new_outbox_record x =
     \<lparr>ob_id = oi_id x, ob_tenantId = oi_tenantId x, ob_workspaceId = oi_workspaceId x, ob_memoryRecordId = oi_memoryRecordId x,
      ob_memoryVersion = oi_memoryVersion x, ob_candidateSetHash = oi_candidateSetHash x, ob_evolutionPayload = oi_evolutionPayload x,
      ob_status = nullish (oi_status x) PENDING, ob_attemptCount = nullish (oi_attemptCount x) 0,
      ob_maxAttempts = nullish (oi_maxAttempts x) OUTBOX_MAX_ATTEMPTS_DEFAULT, ob_nextAttemptAt = oi_nextAttemptAt x,
      ob_createdAt = oi_createdAt x, ob_updatedAt = nullish (oi_updatedAt x) (oi_createdAt x), ob_processedAt = oi_processedAt x,
      ob_lastError = oi_lastError x\<rparr>"

definition createOutboxRecord :: "platform \<Rightarrow> outbox_input \<Rightarrow> memory_store \<Rightarrow> memory_store \<times> (memory_error + outbox_record)" where
  "createOutboxRecord P x s =
     checked s
       (if \<not> EvolutionOutboxRecordInputSchema P x then (s, Inl MEMORY_SCHEMA)
        else let k = memory_key (oi_tenantId x) (oi_workspaceId x) (oi_id x) in
          case js_get (outboxRecords s) k of
            Some old \<Rightarrow> (s, Inr old)
          | None \<Rightarrow> (s\<lparr>outboxRecords := js_set k (new_outbox_record x) (outboxRecords s)\<rparr>, Inr (new_outbox_record x)))"

definition getOutboxRecord :: "string \<Rightarrow> string \<Rightarrow> string \<Rightarrow> memory_store \<Rightarrow> memory_error + outbox_record option" where
  "getOutboxRecord i t w s = snd (checked s (s, Inr (js_get (outboxRecords s) (memory_key t w i))))"

text \<open>The condition under which a record may be taken, the same in \<open>listPendingOutboxRecords\<close> and \<open>claimOutboxRecord\<close>.\<close>

definition outbox_eligible :: "bool \<Rightarrow> int \<Rightarrow> outbox_record \<Rightarrow> bool" where
  "outbox_eligible ignoreLeaseTimeout nowMs r \<longleftrightarrow>
     (case ob_status r of
        PENDING \<Rightarrow> True
      | FAILED \<Rightarrow> \<not> truthy (ob_nextAttemptAt r) \<or> num_le (date_parse (the (ob_nextAttemptAt r))) (Some nowMs)
      | PROCESSING \<Rightarrow>
          ignoreLeaseTimeout
          \<or> (case date_parse (ob_updatedAt r) of None \<Rightarrow> False | Some u \<Rightarrow> nowMs - u \<ge> OUTBOX_PROCESSING_LEASE_TIMEOUT_MS)
      | _ \<Rightarrow> False)"

definition listPendingOutboxRecords ::
  "(string \<Rightarrow> rat) \<Rightarrow> string option \<Rightarrow> string option \<Rightarrow> nat option \<Rightarrow> bool \<Rightarrow> int \<Rightarrow> memory_store \<Rightarrow> memory_error + outbox_record list" where
  "listPendingOutboxRecords collate t w limit ignoreLeaseTimeout nowMs s =
     snd (checked s (s, Inr (sort_key (\<lambda>r. collate (ob_createdAt r))
       (take (max 1 (nullish limit 50))
         (filter (\<lambda>r. (truthy t \<longrightarrow> ob_tenantId r = the t) \<and> (truthy w \<longrightarrow> ob_workspaceId r = the w) \<and> outbox_eligible ignoreLeaseTimeout nowMs r)
           (js_values (outboxRecords s)))))))"

text \<open>The first reading of the clock decides, the second is the stamp.\<close>

definition claimOutboxRecord ::
  "string \<Rightarrow> string \<Rightarrow> string \<Rightarrow> bool \<Rightarrow> int \<Rightarrow> int \<Rightarrow> memory_store \<Rightarrow> memory_store \<times> (memory_error + bool)" where
  "claimOutboxRecord i t w ignoreLeaseTimeout nowMs stamp s =
     checked s
       (let k = memory_key t w i in
        case js_get (outboxRecords s) k of
          None \<Rightarrow> (s, Inr False)
        | Some r \<Rightarrow>
            (if \<not> outbox_eligible ignoreLeaseTimeout nowMs r then (s, Inr False)
             else (s\<lparr>outboxRecords := js_set k (r\<lparr>ob_status := PROCESSING, ob_updatedAt := toISOString stamp\<rparr>) (outboxRecords s)\<rparr>, Inr True)))"

text \<open>An update names a status; the other fields may be absent, and some of them null.\<close>

record outbox_update =
  ou_status :: EvolutionDeliveryStatus
  ou_attemptCount :: "int option"
  ou_lastError :: "string option option"
  ou_nextAttemptAt :: "string option option"
  ou_processedAt :: "string option option"

definition updated_outbox :: "string \<Rightarrow> outbox_update \<Rightarrow> outbox_record \<Rightarrow> outbox_record" where
  "updated_outbox now u r =
     r\<lparr>ob_status := ou_status u, ob_attemptCount := nullish (ou_attemptCount u) (ob_attemptCount r),
       ob_nextAttemptAt := nullish (ou_nextAttemptAt u) (ob_nextAttemptAt r), ob_lastError := nullish (ou_lastError u) (ob_lastError r),
       ob_processedAt := (case ou_processedAt u of
                            Some p \<Rightarrow> p
                          | None \<Rightarrow> if ou_status u = COMPLETED then Some now else ob_processedAt r),
       ob_updatedAt := now\<rparr>"

definition updateOutboxStatus ::
  "string \<Rightarrow> string \<Rightarrow> string \<Rightarrow> outbox_update \<Rightarrow> string \<Rightarrow> memory_store \<Rightarrow> memory_store \<times> (memory_error + outbox_record)" where
  "updateOutboxStatus i t w u now s =
     checked s
       (let k = memory_key t w i in
        case js_get (outboxRecords s) k of
          None \<Rightarrow> (s, Inl (OUTBOX_NOT_FOUND i))
        | Some r \<Rightarrow> (s\<lparr>outboxRecords := js_set k (updated_outbox now u r) (outboxRecords s)\<rparr>, Inr (updated_outbox now u r)))"

section \<open>Memory records\<close>

definition record_key :: "memory_record \<Rightarrow> string" where
  "record_key r = memory_key (mr_tenantId r) (mr_workspaceId r) (mr_id r)"

definition isExpired :: "int \<Rightarrow> memory_record \<Rightarrow> bool" where
  "isExpired nowMs r \<longleftrightarrow>
     (case mr_retentionPolicy r of
        None \<Rightarrow> False
      | Some p \<Rightarrow>
          truthy (rp_expiresAt p) \<and> num_le (date_parse (the (rp_expiresAt p))) (Some nowMs)
          \<or> (case rp_ttlSeconds p of
               None \<Rightarrow> False
             | Some ttl \<Rightarrow> ttl \<noteq> 0 \<and> num_le (map_option (\<lambda>c. c + ttl * 1000) (date_parse (mr_createdAt r))) (Some nowMs)))"

text \<open>The outbox item of \<open>create\<close> and \<open>update\<close> is registered after the record is stored; its error leaves the record there.\<close>

definition register_outbox ::
  "platform \<Rightarrow> outbox_input option \<Rightarrow> memory_record \<Rightarrow> memory_store \<Rightarrow> memory_store \<times> (memory_error + memory_record)" where
  "register_outbox P item r s =
     (case item of
        None \<Rightarrow> (s, Inr r)
      | Some x \<Rightarrow> (case createOutboxRecord P x s of (s', Inl e) \<Rightarrow> (s', Inl e) | (s', Inr _) \<Rightarrow> (s', Inr r)))"

definition create :: "platform \<Rightarrow> memory_record \<Rightarrow> outbox_input option \<Rightarrow> memory_store \<Rightarrow> memory_store \<times> (memory_error + memory_record)" where
  "create P r item s =
     checked s
       (if mr_tenantId r = [] \<or> mr_workspaceId r = [] \<or> mr_id r = [] then (s, Inl MemorySecurityViolationError)
        else if js_has (memories s) (record_key r) then (s, Inl (MEMORY_EXISTS (mr_id r)))
        else register_outbox P item r (s\<lparr>memories := js_set (record_key r) r (memories s)\<rparr>))"

definition getById :: "string \<Rightarrow> string \<Rightarrow> string \<Rightarrow> int \<Rightarrow> memory_store \<Rightarrow> memory_error + memory_record option" where
  "getById i t w nowMs s =
     snd (checked s (s, Inr
       (if i = [] \<or> t = [] \<or> w = [] then None
        else case js_get (memories s) (memory_key t w i) of
          None \<Rightarrow> None
        | Some r \<Rightarrow> (if isExpired nowMs r then None else if mr_status r = TOMBSTONED then None else Some r))))"

definition updated_record :: "string \<Rightarrow> memory_update \<Rightarrow> memory_record \<Rightarrow> memory_record" where
  "updated_record now u r =
     r\<lparr>mr_ownerId := nullish (mu_ownerId u) (mr_ownerId r), mr_class := nullish (mu_class u) (mr_class r),
       mr_status := nullish (mu_status u) (mr_status r), mr_sensitivity := nullish (mu_sensitivity u) (mr_sensitivity r),
       mr_title := nullish (mu_title u) (mr_title r), mr_content := nullish (mu_content u) (mr_content r),
       mr_summary := nullish (mu_summary u) (mr_summary r), mr_confidence := nullish (mu_confidence u) (mr_confidence r),
       mr_tags := nullish (mu_tags u) (mr_tags r), mr_metadata := nullish (mu_metadata u) (mr_metadata r),
       mr_provenance := nullish (mu_provenance u) (mr_provenance r),
       mr_retentionPolicy := nullish (mu_retentionPolicy u) (mr_retentionPolicy r),
       mr_tombstonedAt := nullish (mu_tombstonedAt u) (mr_tombstonedAt r),
       mr_version := mr_version r + 1, mr_updatedAt := now\<rparr>"

definition update_memory ::
  "platform \<Rightarrow> string \<Rightarrow> string \<Rightarrow> string \<Rightarrow> memory_update \<Rightarrow> int \<Rightarrow> outbox_input option \<Rightarrow> string \<Rightarrow> memory_store \<Rightarrow>
   memory_store \<times> (memory_error + memory_record)" where
  "update_memory P i t w u expectedVersion item now s =
     checked s
       (let k = memory_key t w i in
        case js_get (memories s) k of
          None \<Rightarrow> (s, Inl (MemoryNotFoundError i))
        | Some r \<Rightarrow>
            (if mr_status r = TOMBSTONED then (s, Inl (MemoryNotFoundError i))
             else if mr_version r \<noteq> expectedVersion then (s, Inl (MemoryVersionConflictError i (mr_version r) expectedVersion))
             else register_outbox P item (updated_record now u r) (s\<lparr>memories := js_set k (updated_record now u r) (memories s)\<rparr>)))"

definition buried :: "string \<Rightarrow> memory_record \<Rightarrow> memory_record" where
  "buried now r =
     r\<lparr>mr_status := TOMBSTONED, mr_tombstonedAt := Some now, mr_version := mr_version r + 1, mr_updatedAt := now\<rparr>"

text \<open>\<open>markDerivedCompressionsTombstoned\<close>: records that cite the source in their metadata, or episodes that name it in their text.\<close>

definition cites :: "string \<Rightarrow> memory_record \<Rightarrow> bool" where
  "cites i r \<longleftrightarrow>
     (case map_of (mr_metadata r) ''sourceMemoryIds'' of Some (JArr xs) \<Rightarrow> JStr i \<in> set xs | _ \<Rightarrow> False)
     \<or> mr_class r = EPISODIC \<and> ((case mr_summary r of None \<Rightarrow> False | Some x \<Rightarrow> str_includes x i) \<or> str_includes (mr_content r) i)"

definition derived :: "string \<Rightarrow> string \<Rightarrow> string \<Rightarrow> memory_record \<Rightarrow> bool" where
  "derived i t w r \<longleftrightarrow> mr_tenantId r = t \<and> mr_workspaceId r = w \<and> mr_status r \<noteq> TOMBSTONED \<and> cites i r"

definition mark_derived :: "string \<Rightarrow> string \<Rightarrow> string \<Rightarrow> string \<Rightarrow> memory_store \<Rightarrow> memory_store" where
  "mark_derived i t w now s = s\<lparr>memories := map (\<lambda>(k, r). (k, if derived i t w r then buried now r else r)) (memories s)\<rparr>"

definition markDerivedCompressionsTombstoned ::
  "string \<Rightarrow> string \<Rightarrow> string \<Rightarrow> string \<Rightarrow> memory_store \<Rightarrow> memory_store \<times> (memory_error + nat)" where
  "markDerivedCompressionsTombstoned i t w now s =
     checked s (mark_derived i t w now s, Inr (length (filter (derived i t w) (js_values (memories s)))))"

definition tombstone ::
  "string \<Rightarrow> string \<Rightarrow> string \<Rightarrow> string \<Rightarrow> int option \<Rightarrow> string \<Rightarrow> memory_store \<Rightarrow> memory_store \<times> (memory_error + memory_record)" where
  "tombstone i t w tombstonedAt expectedVersion now s =
     checked s
       (let k = memory_key t w i in
        case js_get (memories s) k of
          None \<Rightarrow> (s, Inl (MemoryNotFoundError i))
        | Some r \<Rightarrow>
            (if expectedVersion \<noteq> None \<and> mr_version r \<noteq> the expectedVersion
             then (s, Inl (MemoryVersionConflictError i (mr_version r) (the expectedVersion)))
             else
               let s1 = s\<lparr>memories := js_set k (buried tombstonedAt r) (memories s)\<rparr>;
                   s2 = fst (revoke_graph i t w s1);
                   s3 = mark_derived i t w now s2
               in (s3\<lparr>vectorIndex := fst (vector_delete i t w (vectorIndex s3)), vectorEmbeddings := js_delete k (vectorEmbeddings s3)\<rparr>,
                   Inr (buried tombstonedAt r))))"

definition purgeExpired :: "string \<Rightarrow> memory_store \<Rightarrow> memory_store \<times> (memory_error + nat)" where
  "purgeExpired now s =
     checked s
       (case date_parse now of
          None \<Rightarrow> (s, Inr 0)
        | Some nowMs \<Rightarrow>
            (s\<lparr>memories := map (\<lambda>(k, r). (k, if isExpired nowMs r then buried now r else r)) (memories s)\<rparr>,
             Inr (length (filter (isExpired nowMs) (js_values (memories s))))))"

section \<open>Search\<close>

record memory_query =
  mq_tenantId :: string
  mq_workspaceId :: string
  mq_query :: "string option"
  mq_classes :: "MemoryClass list option"
  mq_maxSensitivity :: "MemorySensitivity option"
  mq_tags :: "string list option"
  mq_status :: "MemoryStatus list option"
  mq_minConfidence :: "rat option"
  mq_ownerId :: "string option"
  mq_limit :: "nat option"
  mq_offset :: "nat option"

definition lexical_match :: "string \<Rightarrow> memory_record \<Rightarrow> bool" where
  "lexical_match q r \<longleftrightarrow>
     str_includes (to_lower (mr_content r)) q \<or> (truthy (mr_title r) \<and> str_includes (to_lower (the (mr_title r))) q)
     \<or> (\<exists>t \<in> set (mr_tags r). str_includes (to_lower t) q)"

definition memory_matches :: "int \<Rightarrow> memory_query \<Rightarrow> memory_record \<Rightarrow> bool" where
  "memory_matches nowMs q r \<longleftrightarrow>
     mr_tenantId r = mq_tenantId q \<and> mr_workspaceId r = mq_workspaceId q
     \<and> mr_status r \<in> set (nullish (mq_status q) [ACTIVE])
     \<and> \<not> isExpired nowMs r
     \<and> SENSITIVITY_HIERARCHY (mr_sensitivity r) \<le> SENSITIVITY_HIERARCHY (nullish (mq_maxSensitivity q) RESTRICTED)
     \<and> mr_confidence r \<ge> nullish (mq_minConfidence q) 0
     \<and> (case mq_classes q of None \<Rightarrow> True | Some cs \<Rightarrow> mr_class r \<in> set cs)
     \<and> (truthy (mq_ownerId q) \<longrightarrow> mr_ownerId r = the (mq_ownerId q))
     \<and> (case mq_tags q of None \<Rightarrow> True | Some ts \<Rightarrow> \<exists>t \<in> set (mr_tags r). t \<in> set ts)
     \<and> (truthy (mq_query q) \<and> trim (the (mq_query q)) \<noteq> [] \<longrightarrow> lexical_match (to_lower (the (mq_query q))) r)"

definition search :: "int \<Rightarrow> memory_query \<Rightarrow> memory_store \<Rightarrow> memory_error + memory_record list \<times> nat" where
  "search nowMs q s =
     (let matching = filter (memory_matches nowMs q) (js_values (memories s)) in
      snd (checked s (s, Inr (take (nullish (mq_limit q) 10) (drop (nullish (mq_offset q) 0) matching), length matching))))"

section \<open>Proposals, episodes and playbooks\<close>

definition saveProposal :: "memory_proposal \<Rightarrow> memory_store \<Rightarrow> memory_store \<times> (memory_error + memory_proposal)" where
  "saveProposal p s =
     checked s (s\<lparr>proposals := js_set (memory_key (mp_tenantId p) (mp_workspaceId p) (mp_proposalId p)) p (proposals s)\<rparr>, Inr p)"

definition getProposal :: "string \<Rightarrow> string \<Rightarrow> string \<Rightarrow> memory_store \<Rightarrow> memory_error + memory_proposal option" where
  "getProposal i t w s = snd (checked s (s, Inr (js_get (proposals s) (memory_key t w i))))"

definition updateProposal ::
  "string \<Rightarrow> string \<Rightarrow> string \<Rightarrow> string \<Rightarrow> string \<Rightarrow> string \<Rightarrow> string option \<Rightarrow> memory_store \<Rightarrow> memory_store \<times> (memory_error + memory_proposal)" where
  "updateProposal i t w status resolvedBy resolvedAt reason s =
     checked s
       (case js_get (proposals s) (memory_key t w i) of
          None \<Rightarrow> (s, Inl (MemoryNotFoundError i))
        | Some p \<Rightarrow>
            (let p' = p\<lparr>mp_status := status, mp_resolvedBy := Some resolvedBy, mp_resolvedAt := Some resolvedAt, mp_reason := reason\<rparr>
             in (s\<lparr>proposals := js_set (memory_key t w i) p' (proposals s)\<rparr>, Inr p')))"

definition saveEpisode :: "memory_episode \<Rightarrow> memory_store \<Rightarrow> memory_store \<times> (memory_error + memory_episode)" where
  "saveEpisode e s = checked s (s\<lparr>episodes := js_set (memory_key (me_tenantId e) (me_workspaceId e) (me_id e)) e (episodes s)\<rparr>, Inr e)"

definition getEpisode :: "string \<Rightarrow> string \<Rightarrow> string \<Rightarrow> memory_store \<Rightarrow> memory_error + memory_episode option" where
  "getEpisode i t w s = snd (checked s (s, Inr (js_get (episodes s) (memory_key t w i))))"

text \<open>Most recent first; the dates of stored episodes parse.\<close>

definition listEpisodes :: "string \<Rightarrow> string \<Rightarrow> nat option \<Rightarrow> nat option \<Rightarrow> memory_store \<Rightarrow> memory_error + memory_episode list \<times> nat" where
  "listEpisodes t w limit offset s =
     (let matching = sort_key (\<lambda>e. - the (date_parse (me_completedAt e)))
                       (filter (\<lambda>e. me_tenantId e = t \<and> me_workspaceId e = w) (js_values (episodes s)))
      in snd (checked s (s, Inr (take (nullish limit 50) (drop (nullish offset 0) matching), length matching))))"

definition savePlaybook :: "memory_playbook \<Rightarrow> memory_store \<Rightarrow> memory_store \<times> (memory_error + memory_playbook)" where
  "savePlaybook p s = checked s (s\<lparr>playbooks := js_set (memory_key (pb_tenantId p) (pb_workspaceId p) (pb_id p)) p (playbooks s)\<rparr>, Inr p)"

definition getPlaybook :: "string \<Rightarrow> string \<Rightarrow> string \<Rightarrow> memory_store \<Rightarrow> memory_error + memory_playbook option" where
  "getPlaybook i t w s = snd (checked s (s, Inr (js_get (playbooks s) (memory_key t w i))))"

definition isPlaybookPlanningEligible :: "memory_playbook \<Rightarrow> bool" where
  "isPlaybookPlanningEligible p =
     (if pb_status p = PB_REJECTED then False
      else if pb_status p = PB_APPROVED \<or> pb_humanApproval p \<noteq> None then True
      else if pb_status p = PB_PLANNING_ELIGIBLE then True
      else pb_confidence p \<ge> 9 / 10)"

definition listPlaybooks :: "string \<Rightarrow> string \<Rightarrow> bool \<Rightarrow> memory_store \<Rightarrow> memory_error + memory_playbook list" where
  "listPlaybooks t w planningEligibleOnly s =
     snd (checked s (s, Inr (filter (\<lambda>p. pb_tenantId p = t \<and> pb_workspaceId p = w \<and> (planningEligibleOnly \<longrightarrow> isPlaybookPlanningEligible p))
                               (js_values (playbooks s)))))"

section \<open>Embeddings\<close>

text \<open>The entry of the index copies the classification the record has at this moment.\<close>

definition index_entry :: "vector_embedding \<Rightarrow> memory_record option \<Rightarrow> stored_vector" where
  "index_entry v r =
     \<lparr>sv_id = ve_id v, sv_memoryRecordId = ve_memoryRecordId v, sv_tenantId = ve_tenantId v, sv_workspaceId = ve_workspaceId v,
      sv_values = ve_values v, sv_sensitivity = map_option mr_sensitivity r,
      sv_status = Some (case r of None \<Rightarrow> ACTIVE | Some x \<Rightarrow> mr_status x), sv_classes = map_option (\<lambda>x. [mr_class x]) r,
      sv_tags = map_option mr_tags r, sv_metadata = ve_metadata v, sv_updatedAt = ve_createdAt v\<rparr>"

definition saveVector :: "string \<Rightarrow> vector_embedding \<Rightarrow> memory_store \<Rightarrow> memory_store \<times> (memory_error + vector_embedding)" where
  "saveVector now v s =
     checked s
       (let k = memory_key (ve_tenantId v) (ve_workspaceId v) (ve_memoryRecordId v);
            s' = s\<lparr>vectorEmbeddings := js_set k v (vectorEmbeddings s)\<rparr>
        in case vector_upsert now (index_entry v (js_get (memories s) k)) (vectorIndex s') of
             Inl e \<Rightarrow> (s', Inl e)
           | Inr ix \<Rightarrow> (s'\<lparr>vectorIndex := ix\<rparr>, Inr v))"

definition getVector :: "string \<Rightarrow> string \<Rightarrow> string \<Rightarrow> memory_store \<Rightarrow> memory_error + vector_embedding option" where
  "getVector i t w s = snd (checked s (s, Inr (js_get (vectorEmbeddings s) (memory_key t w i))))"

definition deleteVector :: "string \<Rightarrow> string \<Rightarrow> string \<Rightarrow> memory_store \<Rightarrow> memory_store \<times> (memory_error + bool)" where
  "deleteVector i t w s =
     checked s
       (s\<lparr>vectorIndex := fst (vector_delete i t w (vectorIndex s)), vectorEmbeddings := js_delete (memory_key t w i) (vectorEmbeddings s)\<rparr>,
        Inr (js_has (vectorEmbeddings s) (memory_key t w i)))"

definition searchVectors :: "(string \<Rightarrow> rat) \<Rightarrow> vector_request \<Rightarrow> memory_store \<Rightarrow> memory_error + vector_response" where
  "searchVectors collate q s = snd (checked s (s, vector_search collate q (vectorIndex s)))"

section \<open>Runs of the store\<close>

text \<open>Every public operation that changes the store; \<open>clear\<close>, which only tests call, is left out.\<close>

datatype store_op =
    Create memory_record "outbox_input option"
  | Update string string string memory_update int "outbox_input option" string
  | Tombstone string string string string "int option" string
  | Purge string
  | MarkDerived string string string string
  | SaveVector string vector_embedding
  | RemoveVector string string string
  | CreateOutbox outbox_input
  | Claim string string string bool int int
  | SetOutbox string string string outbox_update string
  | SaveNode string "int option" "int option" graph_node
  | SaveEdge string "int option" "int option" graph_edge
  | Revoke string string string
  | Evolve evolution_plan "(string \<times> string) option"
  | SaveProposal memory_proposal
  | ResolveProposal string string string string string string "string option"
  | SaveEpisode memory_episode
  | SavePlaybook memory_playbook
  | SimulateFailures bool bool bool

primrec store_step :: "platform \<Rightarrow> memory_store \<Rightarrow> store_op \<Rightarrow> memory_store" where
  "store_step P s (Create r item) = fst (create P r item s)"
| "store_step P s (Update i t w u ev item now) = fst (update_memory P i t w u ev item now s)"
| "store_step P s (Tombstone i t w ts ev now) = fst (tombstone i t w ts ev now s)"
| "store_step P s (Purge now) = fst (purgeExpired now s)"
| "store_step P s (MarkDerived i t w now) = fst (markDerivedCompressionsTombstoned i t w now s)"
| "store_step P s (SaveVector now v) = fst (saveVector now v s)"
| "store_step P s (RemoveVector i t w) = fst (deleteVector i t w s)"
| "store_step P s (CreateOutbox x) = fst (createOutboxRecord P x s)"
| "store_step P s (Claim i t w ign nowMs stamp) = fst (claimOutboxRecord i t w ign nowMs stamp s)"
| "store_step P s (SetOutbox i t w u now) = fst (updateOutboxStatus i t w u now s)"
| "store_step P s (SaveNode now given ev n) = fst (saveGraphNode P now given ev n s)"
| "store_step P s (SaveEdge now given ev e) = fst (saveGraphEdge P now given ev e s)"
| "store_step P s (Revoke i t w) = fst (revokeGraphForMemory i t w s)"
| "store_step P s (Evolve plan ctx) = fst (evolveGraph P plan ctx s)"
| "store_step P s (SaveProposal p) = fst (saveProposal p s)"
| "store_step P s (ResolveProposal i t w st who whence reason) = fst (updateProposal i t w st who whence reason s)"
| "store_step P s (SaveEpisode e) = fst (saveEpisode e s)"
| "store_step P s (SavePlaybook p) = fst (savePlaybook p s)"
| "store_step P s (SimulateFailures a b c) =
     s\<lparr>simulateFailure := a, simulateFailureInEvolution := b, simulateFailureInEvolutionMidway := c\<rparr>"

text \<open>What the operations of the graph leave alone.\<close>

lemma checked_fst: "fst (checked g r) = (if simulateFailure g then g else fst r)"
  by (simp add: checked_def)

lemma graph_update_frame:
  fixes s :: memory_store
  shows "memories (graphNodes_update f s) = memories s" "memories (graphEdges_update h s) = memories s"
    "outboxRecords (graphNodes_update f s) = outboxRecords s" "outboxRecords (graphEdges_update h s) = outboxRecords s"
  by simp_all

lemma evolveGraph_frame:
  fixes s :: memory_store
  shows "memories (fst (evolveGraph P plan ctx s)) = memories s \<and> outboxRecords (fst (evolveGraph P plan ctx s)) = outboxRecords s"
proof -
  obtain s' x where ops: "evolve_ops P plan (ep_operations plan) s (no_changes False) = (s', x)" by fastforce
  from evolve_ops_frame [OF ops] have "memories s' = memories s" "outboxRecords s' = outboxRecords s"
    by (metis graph_update_frame(1,2), metis graph_update_frame(3,4))
  then show ?thesis by (auto simp: evolveGraph_def checked_def ops split: sum.splits)
qed

lemma save_frame:
  fixes s :: memory_store
  shows "memories (fst (saveGraphNode P now given ev n s)) = memories s" "memories (fst (saveGraphEdge P now given ev e s)) = memories s"
    "outboxRecords (fst (saveGraphNode P now given ev n s)) = outboxRecords s" "outboxRecords (fst (saveGraphEdge P now given ev e s)) = outboxRecords s"
  by (auto simp: saveGraphNode_def saveGraphEdge_def checked_def Let_def split: sum.splits)

lemma revoke_frame:
  fixes s :: memory_store
  shows "memories (fst (revoke_graph i t w s)) = memories s" "outboxRecords (fst (revoke_graph i t w s)) = outboxRecords s"
    "vectorIndex (fst (revoke_graph i t w s)) = vectorIndex s" "vectorEmbeddings (fst (revoke_graph i t w s)) = vectorEmbeddings s"
    "memories (fst (revokeGraphForMemory i t w s)) = memories s" "outboxRecords (fst (revokeGraphForMemory i t w s)) = outboxRecords s"
  by (simp_all add: revoke_graph_def revokeGraphForMemory_def checked_def Let_def)

lemma register_outbox_frame: "memories (fst (register_outbox P item r s)) = memories s"
  by (auto simp: register_outbox_def createOutboxRecord_def checked_def Let_def split: option.splits)

lemma register_outbox_result: "register_outbox P item r s = (s', Inr x) \<Longrightarrow> x = r"
  by (auto simp: register_outbox_def split: option.splits prod.splits sum.splits)

lemmas store_frames = evolveGraph_frame save_frame revoke_frame register_outbox_frame

subsection \<open>The history of a record\<close>

text \<open>What may become of a record: it stays as it is, or its version grows and a tombstone stays one.\<close>

definition successor :: "memory_record \<Rightarrow> memory_record \<Rightarrow> bool" where
  "successor r r' \<longleftrightarrow>
     r' = r \<or> mr_version r < mr_version r' \<and> (mr_status r = TOMBSTONED \<longrightarrow> mr_status r' = TOMBSTONED)
        \<and> mr_id r' = mr_id r \<and> mr_tenantId r' = mr_tenantId r \<and> mr_workspaceId r' = mr_workspaceId r"

definition follows :: "(string, memory_record) jsmap \<Rightarrow> (string, memory_record) jsmap \<Rightarrow> bool" where
  "follows m m' \<longleftrightarrow> (\<forall>k r. js_get m k = Some r \<longrightarrow> (\<exists>r'. js_get m' k = Some r' \<and> successor r r'))"

lemma successor_refl [simp]: "successor r r"
  by (simp add: successor_def)

lemma successor_trans: "\<lbrakk>successor r r'; successor r' r''\<rbrakk> \<Longrightarrow> successor r r''"
  by (auto simp: successor_def)

lemma successor_buried [simp]: "successor r (buried now r)"
  by (simp add: successor_def buried_def)

lemma successor_updated: "mr_status r \<noteq> TOMBSTONED \<Longrightarrow> successor r (updated_record now u r)"
  by (simp add: successor_def updated_record_def)

lemma follows_refl [simp]: "follows m m"
  by (simp add: follows_def)

lemma follows_trans: "\<lbrakk>follows m m'; follows m' m''\<rbrakk> \<Longrightarrow> follows m m''"
  by (meson follows_def successor_trans)

lemma follows_set: "(\<And>r. js_get m k = Some r \<Longrightarrow> successor r r') \<Longrightarrow> follows m (js_set k r' m)"
  by (auto simp: follows_def js_map_simps)

lemma follows_map: "(\<And>k r. successor r (f k r)) \<Longrightarrow> follows m (map (\<lambda>(k, r). (k, f k r)) m)"
  by (auto simp: follows_def js_get_map_snd)

lemma follows_mark_derived: "follows (memories s) (memories (mark_derived i t w now s))"
  by (simp add: mark_derived_def follows_map)

lemma follows_tombstone: "follows (memories s) (memories (fst (tombstone i t w ts ev now s)))"
proof -
  have "follows (memories s) (memories (mark_derived i t w now (fst (revoke_graph i t w (s\<lparr>memories := js_set k (buried ts r) (memories s)\<rparr>)))))"
    if "js_get (memories s) k = Some r" for k r
  proof (rule follows_trans)
    show "follows (memories s) (js_set k (buried ts r) (memories s))" using that by (auto intro: follows_set)
  next
    show "follows (js_set k (buried ts r) (memories s))
        (memories (mark_derived i t w now (fst (revoke_graph i t w (s\<lparr>memories := js_set k (buried ts r) (memories s)\<rparr>)))))"
      using follows_mark_derived [of "fst (revoke_graph i t w (s\<lparr>memories := js_set k (buried ts r) (memories s)\<rparr>))"] by (simp add: revoke_frame)
  qed
  then show ?thesis by (auto simp: tombstone_def checked_def Let_def split: option.splits)
qed

lemma follows_step: "follows (memories s) (memories (store_step P s op))"
proof (cases op)
  case (Create r item)
  then show ?thesis
    by (auto simp: create_def checked_def store_frames js_has_def intro: follows_set)
next
  case (Update i t w u ev item now)
  then show ?thesis
    by (auto simp: update_memory_def checked_def store_frames Let_def split: option.splits intro!: follows_set successor_updated)
next
  case (Purge now)
  then show ?thesis by (auto simp: purgeExpired_def checked_def follows_map split: option.splits)
qed (auto simp: follows_tombstone follows_mark_derived markDerivedCompressionsTombstoned_def saveVector_def deleteVector_def createOutboxRecord_def
       claimOutboxRecord_def updateOutboxStatus_def saveProposal_def updateProposal_def saveEpisode_def savePlaybook_def
       checked_def store_frames Let_def split: option.splits sum.splits)

interpretation memory_history: op_invariant "store_step P" "\<lambda>s. follows m (memories s)"
  by unfold_locales (rule follows_trans [OF _ follows_step])

text \<open>C28. The history of a record. Whatever operations run, a record that is in the store stays there under its key and identity; its version
  never falls, two states of it with the same version are the same record, and a tombstoned record stays tombstoned, so that it
  can be neither read nor updated again.
\<close>

theorem record_history:
  assumes "js_get (memories s) (memory_key t w i) = Some r" "s' = foldl (store_step P) s ops"
  shows "\<exists>r'. js_get (memories s') (memory_key t w i) = Some r' \<and> mr_version r \<le> mr_version r' \<and> (mr_version r' = mr_version r \<longrightarrow> r' = r)
       \<and> mr_id r' = mr_id r \<and> mr_tenantId r' = mr_tenantId r \<and> mr_workspaceId r' = mr_workspaceId r
       \<and> (mr_status r = TOMBSTONED \<longrightarrow>
            mr_status r' = TOMBSTONED \<and> getById i t w nowMs s' \<in> {Inr None, Inl STORE_UNREACHABLE}
            \<and> snd (update_memory P i t w u ev item now s') \<in> {Inl (MemoryNotFoundError i), Inl STORE_UNREACHABLE})"
proof -
  have "follows (memories s) (memories s')" using memory_history.inv_run [OF follows_refl] assms(2) by simp
  with assms(1) obtain r' where r': "js_get (memories s') (memory_key t w i) = Some r'" "successor r r'" by (auto simp: follows_def)
  then have "mr_status r' = TOMBSTONED \<Longrightarrow> getById i t w nowMs s' \<in> {Inr None, Inl STORE_UNREACHABLE}
      \<and> snd (update_memory P i t w u ev item now s') \<in> {Inl (MemoryNotFoundError i), Inl STORE_UNREACHABLE}"
    by (simp add: getById_def update_memory_def checked_def)
  with r' show ?thesis by (auto simp: successor_def)
qed

text \<open>C29. No update is lost: after an update that expected a version, whatever operations follow, another update that expects the same
  version is refused, so that it cannot overwrite what its author has not read.
\<close>

theorem no_lost_update:
  assumes "update_memory P i t w u ev item now s = (s1, Inr r)"
  shows "r = updated_record now u (the (js_get (memories s) (memory_key t w i))) \<and> mr_version r = ev + 1
       \<and> js_get (memories s1) (memory_key t w i) = Some r
       \<and> (\<exists>e. snd (update_memory P i t w u' ev item' now' (foldl (store_step P) s1 ops)) = Inl e)"
proof -
  let ?k = "memory_key t w i" and ?s2 = "foldl (store_step P) s1 ops"
  from assms obtain r0 where r0: "js_get (memories s) ?k = Some r0" "mr_version r0 = ev" "\<not> simulateFailure s"
      "register_outbox P item (updated_record now u r0) (s\<lparr>memories := js_set ?k (updated_record now u r0) (memories s)\<rparr>) = (s1, Inr r)"
    by (auto simp: update_memory_def checked_def Let_def split: option.splits if_splits)
  have r: "r = updated_record now u r0" using register_outbox_result [OF r0(4)] .
  have "memories (fst (s1, Inr r :: memory_error + memory_record)) = memories (s\<lparr>memories := js_set ?k r (memories s)\<rparr>)"
    unfolding r0(4) [symmetric] unfolding r by (rule register_outbox_frame)
  then have s1: "js_get (memories s1) ?k = Some r" by (simp add: js_map_simps)
  moreover have v: "mr_version r = ev + 1" using r r0(2) by (simp add: updated_record_def)
  have "follows (memories s1) (memories ?s2)" by (rule memory_history.inv_run) simp
  with s1 obtain r' where "js_get (memories ?s2) ?k = Some r'" "successor r r'" by (auto simp: follows_def)
  moreover from this(2) v have "mr_version r' \<noteq> ev" by (auto simp: successor_def)
  ultimately show ?thesis using r r0(1) v by (auto simp: update_memory_def checked_def)
qed

subsection \<open>Forgetting\<close>

lemma cites_buried [simp]: "cites i (buried now r) = cites i r"
  by (simp add: cites_def buried_def)

lemma mark_derived_complete:
  assumes "r \<in> set (js_values (memories (mark_derived i t w now s)))" "mr_tenantId r = t" "mr_workspaceId r = w" "cites i r"
  shows "mr_status r = TOMBSTONED"
proof -
  from assms(1) obtain r0 where r: "r = (if derived i t w r0 then buried now r0 else r0)" by (auto simp: mark_derived_def js_values_def)
  show ?thesis
  proof (cases "derived i t w r0")
    case True
    then show ?thesis by (simp add: r buried_def)
  next
    case False
    with assms(2-) show ?thesis by (auto simp: r derived_def)
  qed
qed

lemma vector_get_delete: "vector_get i t w (fst (vector_delete i t w ix)) = None"
  by (auto simp: vector_get_def vector_delete_def getPartition_def js_map_simps split: option.splits)

text \<open>C30. Forgetting is complete: when \<open>tombstone\<close> returns, the record cannot be read, no node of the graph stems from it and no edge of its
  workspace ends in a node that did or cites it, every record that was derived from it is tombstoned too, and its vector
  is gone from the store and from the similarity index.
\<close>

theorem forgetting_complete:
  assumes "tombstone i t w ts ev now s = (s', Inr r)"
  shows "getById i t w nowMs s' = Inr None
       \<and> (\<forall>n \<in> set (js_values (graphNodes s')). \<not> revoked_node i t w n)
       \<and> (\<forall>e \<in> set (js_values (graphEdges s')). gi_tenantId e = t \<and> gi_workspaceId e = w \<longrightarrow>
            (\<forall>n \<in> set (js_values (graphNodes s)). revoked_node i t w n \<longrightarrow> ge_sourceNodeId e \<noteq> gi_id n \<and> ge_targetNodeId e \<noteq> gi_id n)
            \<and> (\<forall>p. gi_provenance e = Some p \<longrightarrow> pv_sourceId p \<noteq> Some i))
       \<and> (\<forall>x \<in> set (js_values (memories s')). mr_tenantId x = t \<and> mr_workspaceId x = w \<and> cites i x \<longrightarrow> mr_status x = TOMBSTONED)
       \<and> getVector i t w s' = Inr None \<and> vector_get i t w (vectorIndex s') = None"
proof -
  let ?k = "memory_key t w i"
  from assms obtain r0 where r0: "js_get (memories s) ?k = Some r0" and ok: "\<not> simulateFailure s"
    by (auto simp: tombstone_def checked_def Let_def split: option.splits if_splits)
  define s1 where "s1 = s\<lparr>memories := js_set ?k (buried ts r0) (memories s)\<rparr>"
  define s2 where "s2 = fst (revoke_graph i t w s1)"
  have s': "s' = (mark_derived i t w now s2)
      \<lparr>vectorIndex := fst (vector_delete i t w (vectorIndex s2)), vectorEmbeddings := js_delete ?k (vectorEmbeddings s2)\<rparr>"
    using assms r0 ok by (auto simp: tombstone_def checked_def Let_def s1_def s2_def mark_derived_def split: if_splits)
  have frame: "simulateFailure s' = simulateFailure s" "graphNodes s' = graphNodes s2" "graphEdges s' = graphEdges s2"
      "memories s' = memories (mark_derived i t w now s2)"
    by (simp_all add: s' mark_derived_def s2_def s1_def revoke_graph_def Let_def)
  have graph: "graphNodes s1 = graphNodes s" "graphEdges s1 = graphEdges s" by (simp_all add: s1_def)
  have "js_get (memories s2) ?k = Some (buried ts r0)" by (simp add: s2_def s1_def revoke_frame js_map_simps)
  then obtain x where "js_get (memories s') ?k = Some x" "successor (buried ts r0) x"
    using follows_mark_derived [of s2] unfolding frame(4) follows_def by blast
  then have "getById i t w nowMs s' = Inr None" using frame(1) ok by (auto simp: getById_def checked_def successor_def buried_def)
  moreover have "\<forall>n \<in> set (js_values (graphNodes s')). \<not> revoked_node i t w n"
    unfolding frame(2) s2_def by (simp add: revoke_nodes)
  moreover have "\<forall>e \<in> set (js_values (graphEdges s')).
      \<not> revoked_edge i t w (map gi_id (filter (revoked_node i t w) (js_values (graphNodes s)))) e"
    unfolding frame(3) s2_def by (simp add: revoke_edges graph)
  moreover have "\<forall>x \<in> set (js_values (memories s')). mr_tenantId x = t \<and> mr_workspaceId x = w \<and> cites i x \<longrightarrow> mr_status x = TOMBSTONED"
    unfolding frame(4) using mark_derived_complete by blast
  moreover have "getVector i t w s' = Inr None" "vector_get i t w (vectorIndex s') = None"
    using frame(1) ok by (simp_all add: getVector_def checked_def s' js_map_simps vector_get_delete)
  ultimately show ?thesis by (auto simp: revoked_edge_def)
qed

subsection \<open>Claims\<close>

text \<open>The operations that may end a claim: a new status for the record, and a claim after the timeout or one told to ignore it.\<close>

definition ends_claim :: "string \<Rightarrow> int \<Rightarrow> store_op \<Rightarrow> bool" where
  "ends_claim k stamp op \<longleftrightarrow>
     (case op of
        SetOutbox i t w u now \<Rightarrow> memory_key t w i = k
      | Claim i t w ign nowMs stamp' \<Rightarrow> memory_key t w i = k \<and> (ign \<or> nowMs \<ge> stamp + OUTBOX_PROCESSING_LEASE_TIMEOUT_MS)
      | _ \<Rightarrow> False)"

definition claimed :: "string \<Rightarrow> int \<Rightarrow> memory_store \<Rightarrow> bool" where
  "claimed k stamp s \<longleftrightarrow> (\<exists>r. js_get (outboxRecords s) k = Some r \<and> ob_status r = PROCESSING \<and> ob_updatedAt r = toISOString stamp)"

lemma claimed_eligible:
  "\<lbrakk>js_get (outboxRecords s) k = Some r; claimed k stamp s; iso_range stamp\<rbrakk> \<Longrightarrow>
   outbox_eligible ign nowMs r \<longleftrightarrow> ign \<or> nowMs \<ge> stamp + OUTBOX_PROCESSING_LEASE_TIMEOUT_MS"
  by (auto simp: claimed_def outbox_eligible_def)

lemma claimed_outbox: "\<lbrakk>claimed k stamp s; outboxRecords s' = outboxRecords s\<rbrakk> \<Longrightarrow> claimed k stamp s'"
  by (simp add: claimed_def)

lemma claimed_new_outbox: "claimed k stamp s \<Longrightarrow> claimed k stamp (fst (createOutboxRecord P x s))"
  by (auto simp: claimed_def createOutboxRecord_def checked_def Let_def js_map_simps split: option.splits)

lemma claimed_register: "claimed k stamp s \<Longrightarrow> claimed k stamp (fst (register_outbox P item r s))"
proof (cases item)
  case (Some x)
  assume "claimed k stamp s"
  then have "claimed k stamp (fst (createOutboxRecord P x s))" by (rule claimed_new_outbox)
  then show ?thesis by (cases "createOutboxRecord P x s") (auto simp: Some register_outbox_def split: sum.splits)
qed (simp add: register_outbox_def)

lemma claimed_step:
  assumes "claimed k stamp s" "iso_range stamp" "\<not> ends_claim k stamp op"
  shows "claimed k stamp (store_step P s op)"
proof (cases op)
  case (Create r item)
  then show ?thesis using assms(1) by (auto simp: create_def checked_def intro!: claimed_register) (simp add: claimed_def)
next
  case (Update i t w u ev item now)
  then show ?thesis using assms(1)
    by (auto simp: update_memory_def checked_def Let_def split: option.splits intro!: claimed_register) (simp_all add: claimed_def)
next
  case (Tombstone i t w ts ev now)
  have "outboxRecords (store_step P s op) = outboxRecords s"
    by (auto simp: Tombstone tombstone_def checked_def Let_def mark_derived_def revoke_frame split: option.splits)
  then show ?thesis by (rule claimed_outbox [OF assms(1)])
next
  case (CreateOutbox x)
  then show ?thesis using assms(1) by (simp add: claimed_new_outbox)
next
  case (Claim i t w ign nowMs stamp')
  show ?thesis
  proof (cases "memory_key t w i = k")
    case True
    then show ?thesis using assms claimed_eligible [OF _ assms(1,2)]
      by (auto simp: Claim claimOutboxRecord_def checked_def ends_claim_def Let_def split: option.splits)
  next
    case False
    then show ?thesis using assms(1)
      by (auto simp: Claim claimOutboxRecord_def checked_def claimed_def js_map_simps Let_def split: option.splits)
  qed
next
  case (SetOutbox i t w u now)
  then show ?thesis using assms
    by (auto simp: updateOutboxStatus_def checked_def claimed_def ends_claim_def js_map_simps Let_def split: option.splits)
qed (auto simp: purgeExpired_def markDerivedCompressionsTombstoned_def mark_derived_def saveVector_def
       deleteVector_def saveProposal_def updateProposal_def saveEpisode_def savePlaybook_def checked_def store_frames Let_def
       split: option.splits sum.splits intro!: claimed_outbox [OF assms(1)])

lemma claimed_run:
  "\<lbrakk>claimed k stamp s; iso_range stamp; \<forall>op \<in> set ops. \<not> ends_claim k stamp op\<rbrakk> \<Longrightarrow> claimed k stamp (foldl (store_step P) s ops)"
  by (induction ops arbitrary: s) (auto intro: claimed_step)

text \<open>C31. A claim is exclusive and expires. After a worker has claimed an outbox record, and as long as nobody reports a status for it or claims
  it with the timeout ignored, every other claim fails until five minutes after the stamp of the first; a claim after that succeeds, so
  that the work of a worker that died is taken up again.
\<close>

theorem claim_exclusive:
  assumes "claimOutboxRecord i t w ign nowMs stamp s = (s1, Inr True)" "iso_range stamp"
    and "\<forall>op \<in> set ops. \<not> ends_claim (memory_key t w i) stamp op" "s2 = foldl (store_step P) s1 ops"
  shows "(later < stamp + 300000 \<longrightarrow> snd (claimOutboxRecord i t w False later stamp' s2) \<noteq> Inr True)
       \<and> (later \<ge> stamp + 300000 \<and> \<not> simulateFailure s2 \<longrightarrow> snd (claimOutboxRecord i t w False later stamp' s2) = Inr True)"
proof -
  have "claimed (memory_key t w i) stamp s1"
    using assms(1) by (auto simp: claimOutboxRecord_def checked_def claimed_def js_map_simps Let_def split: option.splits if_splits)
  then have c: "claimed (memory_key t w i) stamp s2" using claimed_run assms(2-4) by blast
  then obtain r where r: "js_get (outboxRecords s2) (memory_key t w i) = Some r" by (auto simp: claimed_def)
  show ?thesis using claimed_eligible [OF r c assms(2)]
    by (simp add: claimOutboxRecord_def checked_def r OUTBOX_PROCESSING_LEASE_TIMEOUT_MS_def)
qed

section \<open>Witnesses and limits\<close>

definition test_memory :: "string \<Rightarrow> string \<Rightarrow> memory_record" where
  "test_memory t i =
     \<lparr>mr_id = i, mr_tenantId = t, mr_workspaceId = ''w'', mr_ownerId = ''o'', mr_class = SEMANTIC, mr_status = ACTIVE, mr_sensitivity = INTERNAL,
      mr_title = None, mr_content = ''c'', mr_summary = None, mr_confidence = 1, mr_tags = [], mr_metadata = [],
      mr_provenance = \<lparr>pv_sourceType = ''PLUGIN'', pv_sourceId = None, pv_stepIndex = None, pv_sourceHash = None, pv_creatorPrincipalId = ''u'',
                       pv_timestamp = ''2026-01-01T00:00:00.000Z'', pv_verified = False\<rparr>,
      mr_retentionPolicy = None, mr_version = 1, mr_createdAt = ''2026-01-01T00:00:00.000Z'', mr_updatedAt = ''2026-01-01T00:00:00.000Z'',
      mr_tombstonedAt = None\<rparr>"

definition empty_store :: memory_store where
  "empty_store =
     \<lparr>graphNodes = [], graphEdges = [], simulateFailure = False, simulateFailureInEvolution = False, simulateFailureInEvolutionMidway = False,
      memories = [], proposals = [], episodes = [], playbooks = [], vectorEmbeddings = [], outboxRecords = [],
      vectorIndex = \<lparr>vi_dimensions = 2, maxVectorsPerWorkspace = 10000, partitions = []\<rparr>\<rparr>"

definition test_store :: memory_store where
  "test_store = store_step test_platform empty_store (Create (test_memory ''t'' ''m'') None)"

definition no_updates :: memory_update where
  "no_updates =
     \<lparr>mu_ownerId = None, mu_class = None, mu_status = None, mu_sensitivity = None, mu_title = None, mu_content = None, mu_summary = None,
      mu_confidence = None, mu_tags = None, mu_metadata = None, mu_provenance = None, mu_retentionPolicy = None, mu_tombstonedAt = None\<rparr>"

lemma test_store_memory: "js_get (memories test_store) (memory_key ''t'' ''w'' ''m'') = Some (test_memory ''t'' ''m'')"
  by (simp add: test_store_def empty_store_def create_def checked_def register_outbox_def test_memory_def record_key_def js_map_simps js_has_def)

lemma test_store_runs: "\<not> simulateFailure test_store"
  by (simp add: test_store_def empty_store_def create_def checked_def register_outbox_def test_memory_def js_has_def js_map_simps)

lemma test_memory_fields: "mr_version (test_memory t i) = 1" "mr_status (test_memory t i) = ACTIVE"
  by (simp_all add: test_memory_def)

theorem record_history_witness:
  "let s' = foldl (store_step test_platform) test_store [Tombstone ''m'' ''t'' ''w'' ''2026-01-02T00:00:00.000Z'' None ''2026-01-02T00:00:00.000Z''] in
   \<exists>r'. js_get (memories s') (memory_key ''t'' ''w'' ''m'') = Some r' \<and> 1 \<le> mr_version r'
      \<and> (mr_version r' = 1 \<longrightarrow> r' = test_memory ''t'' ''m'')"
proof -
  have "mr_version (test_memory ''t'' ''m'') = 1" by (simp add: test_memory_def)
  moreover note record_history [OF test_store_memory refl, of test_platform _ 0 no_updates 1 None "[]"]
  ultimately show ?thesis unfolding Let_def by fastforce
qed

theorem no_lost_update_witness:
  "\<exists>s1 r. update_memory test_platform ''m'' ''t'' ''w'' no_updates 1 None ''2026-01-02T00:00:00.000Z'' test_store = (s1, Inr r)
     \<and> mr_version r = 2
     \<and> (\<exists>e. snd (update_memory test_platform ''m'' ''t'' ''w'' no_updates 1 None ''2026-01-03T00:00:00.000Z'' s1) = Inl e)"
proof -
  obtain s1 r where up: "update_memory test_platform ''m'' ''t'' ''w'' no_updates 1 None ''2026-01-02T00:00:00.000Z'' test_store = (s1, Inr r)"
    using test_store_memory test_store_runs test_memory_fields by (auto simp: update_memory_def checked_def register_outbox_def)
  note after = no_lost_update [OF up, of no_updates None "''2026-01-03T00:00:00.000Z''" "[]"]
  from after have "mr_version r = 2" by (metis one_add_one)
  moreover from after have "\<exists>e. snd (update_memory test_platform ''m'' ''t'' ''w'' no_updates 1 None ''2026-01-03T00:00:00.000Z'' s1) = Inl e" by simp
  ultimately show ?thesis using up by blast
qed

theorem forgetting_complete_witness:
  "\<exists>s' r. tombstone ''m'' ''t'' ''w'' ''2026-01-02T00:00:00.000Z'' None ''2026-01-02T00:00:00.000Z'' test_store = (s', Inr r)
     \<and> getById ''m'' ''t'' ''w'' 0 s' = Inr None \<and> getVector ''m'' ''t'' ''w'' s' = Inr None"
proof -
  obtain s' r where "tombstone ''m'' ''t'' ''w'' ''2026-01-02T00:00:00.000Z'' None ''2026-01-02T00:00:00.000Z'' test_store = (s', Inr r)"
    using test_store_memory test_store_runs by (simp add: tombstone_def checked_def Let_def)
  with forgetting_complete [OF this, of 0] show ?thesis by blast
qed

definition test_outbox :: outbox_input where
  "test_outbox =
     \<lparr>oi_id = ''o'', oi_tenantId = ''t'', oi_workspaceId = ''w'', oi_memoryRecordId = ''m'', oi_memoryVersion = 1, oi_candidateSetHash = ''h'',
      oi_evolutionPayload = None, oi_status = None, oi_attemptCount = None, oi_maxAttempts = None, oi_nextAttemptAt = None,
      oi_createdAt = ''2026-01-01T00:00:00.000Z'', oi_updatedAt = None, oi_processedAt = None, oi_lastError = None\<rparr>"

theorem claim_exclusive_witness:
  "\<exists>s1. claimOutboxRecord ''o'' ''t'' ''w'' False 1767225600000 1767225600000
          (empty_store\<lparr>outboxRecords := [(''t:w:o'', new_outbox_record test_outbox)]\<rparr>) = (s1, Inr True)
     \<and> snd (claimOutboxRecord ''o'' ''t'' ''w'' False 1767225899999 0 s1) \<noteq> Inr True
     \<and> (\<not> simulateFailure s1 \<longrightarrow> snd (claimOutboxRecord ''o'' ''t'' ''w'' False 1767225900000 0 s1) = Inr True)"
proof -
  let ?s = "empty_store\<lparr>outboxRecords := [(''t:w:o'', new_outbox_record test_outbox)]\<rparr>"
  obtain s1 where s1: "claimOutboxRecord ''o'' ''t'' ''w'' False 1767225600000 1767225600000 ?s = (s1, Inr True)"
    by (simp add: claimOutboxRecord_def checked_def empty_store_def memory_key_def js_get_def new_outbox_record_def test_outbox_def
                  outbox_eligible_def nullish_def Let_def)
  have "iso_range 1767225600000" by (simp add: iso_range_def)
  from claim_exclusive [OF s1 this, of "[]" s1 test_platform] s1 show ?thesis by (intro exI [of _ s1]) auto
qed

text \<open>The separator of the compound keys is not reserved, so records of two tenants can share a key.\<close>

lemma memory_keys_collide: "memory_key ''a'' ''b:c'' i = memory_key ''a:b'' ''c'' i"
  by (simp add: memory_key_def)

text \<open>Purging tombstones records but reaches neither the graph nor the vectors nor what was derived from them.\<close>

lemma purge_does_not_cascade:
  "graphNodes (fst (purgeExpired now s)) = graphNodes s \<and> graphEdges (fst (purgeExpired now s)) = graphEdges s
   \<and> vectorIndex (fst (purgeExpired now s)) = vectorIndex s \<and> vectorEmbeddings (fst (purgeExpired now s)) = vectorEmbeddings s"
  by (simp add: purgeExpired_def checked_def split: option.splits)

lemma isExpired_buried [simp]: "isExpired nowMs (buried now r) = isExpired nowMs r"
  by (simp add: isExpired_def buried_def cong: option.case_cong)

lemma purge_get:
  "\<lbrakk>\<not> simulateFailure s; date_parse now = Some nowMs\<rbrakk> \<Longrightarrow>
   js_get (memories (fst (purgeExpired now s))) k = map_option (\<lambda>r. if isExpired nowMs r then buried now r else r) (js_get (memories s) k)
   \<and> \<not> simulateFailure (fst (purgeExpired now s))"
  by (simp add: purgeExpired_def checked_def js_get_map_snd)

text \<open>A record that is expired and already tombstoned is tombstoned, and counted, again by every purge.\<close>

lemma purge_repeats:
  "\<lbrakk>\<not> simulateFailure s; date_parse now = Some nowMs; js_get (memories s) k = Some r; isExpired nowMs r\<rbrakk> \<Longrightarrow>
   map_option mr_version (js_get (memories (fst (purgeExpired now (fst (purgeExpired now s))))) k) = Some (mr_version r + 2)"
  by (simp add: purge_get) (simp add: buried_def)

text \<open>The similarity index keeps the sensitivity and the status a record had when its vector was saved.\<close>

lemma update_keeps_index: "vectorIndex (fst (update_memory P i t w u ev item now s)) = vectorIndex s"
  by (auto simp: update_memory_def register_outbox_def createOutboxRecord_def checked_def Let_def split: option.splits)

text \<open>A record is stored although the registration of its outbox item, and with it the call, fails.\<close>

lemma create_not_atomic:
  "snd (create test_platform (test_memory ''t'' ''m'') (Some (test_outbox\<lparr>oi_memoryVersion := 0\<rparr>)) empty_store) = Inl MEMORY_SCHEMA
   \<and> js_has (memories (fst (create test_platform (test_memory ''t'' ''m'') (Some (test_outbox\<lparr>oi_memoryVersion := 0\<rparr>)) empty_store)))
       (memory_key ''t'' ''w'' ''m'')"
  by (simp add: create_def register_outbox_def createOutboxRecord_def EvolutionOutboxRecordInputSchema_def checked_def test_outbox_def
                empty_store_def test_memory_def record_key_def js_has_def js_map_simps)

end
