(* ===== verification/Spec2Isabelle.thy ===== *)
theory Spec2Isabelle
  imports Task_Controller Agent_Directory Stream_Events Delegation Execution_Queue Orchestrator Approval_Host Task_Scheduler Workflow_Engine Planner Memory_Store
begin

text \<open>
  Verification of NexusOS: the trust-bearing logic of the backend services, the policy service and the
  desktop agent.

  \<^bold>\<open>The program.\<close> NexusOS runs tasks of a tenant on that tenant's desktop agents. A request reaches the backend,
  which asks the policy service, issues a signed \<^emph>\<open>execution lease\<close> and dispatches the task; the agent checks the
  lease again, asks a human when the capability is dangerous, runs the task and sends a signed receipt, which the
  backend verifies before the task is completed. An agent may delegate parts of a task under a lease with fewer
  rights. Dashboards follow the events of their tenant on a stream that can be resumed. Goals in natural language are turned into
  task graphs by a planner, which may ask a language model; the agent runs such graphs with its workflow engine. What tasks leave
  behind is kept as memories, with a knowledge graph and a similarity index, until it is forgotten.

  \<^bold>\<open>Theories and sources\<close> (paths under \<open>src/\<close>).
  \<^item> \<open>Nexus_Prelude\<close>, \<open>Js_Date\<close>, \<open>Json\<close>, \<open>Platform\<close>, \<open>Js_Text\<close>, \<open>Js_Regex\<close>: what the sources use of JavaScript (strings, \<open>Map\<close> with its
    insertion order, truthiness, dates, \<open>JSON.stringify\<close>, regular expressions) and of the platform; the interfaces \<open>op_invariant\<close> and
    \<open>transition_table\<close>.
  \<^item> \<open>Leases\<close>: \<open>services/backend/src/leases/lease-issuer.ts\<close>, \<open>agents/attenuation.ts\<close>,
    \<open>packages/contracts/src/permissions\<close>. Issuing, delegating, signing, verifying.
  \<^item> \<open>Policy\<close>: \<open>services/policy/src\<close> (reference evaluator, snapshots, evidence) and the agent's
    \<open>permissions/lease-boundary.ts\<close>.
  \<^item> \<open>Workflow_Dag\<close>: the validation of workflow graphs in \<open>packages/contracts/src/tasks\<close> and the agent's \<open>workflow/dag-parser.ts\<close>.
  \<^item> \<open>Receipts\<close>: \<open>services/backend/src/receipts/receipt-verifier.ts\<close>.
  \<^item> \<open>Task_Lifecycle\<close>: the task state machine, the agent's lifecycle and its connection state machine.
  \<^item> \<open>Task_Controller\<close>: \<open>services/backend/src/tasks/controller.ts\<close>, which composes the five theories above.
  \<^item> \<open>Agent_Directory\<close>: \<open>services/backend/src/agents/agent-directory.ts\<close>.
  \<^item> \<open>Stream_Events\<close>: \<open>services/backend/src/events/stream-event-bus.ts\<close> and the cursors of \<open>packages/contracts/src/events\<close>.
  \<^item> \<open>Delegation\<close>: \<open>services/backend/src/agents/delegation-coordinator.ts\<close>, over \<open>Leases\<close> and \<open>Agent_Directory\<close>.
  \<^item> \<open>Execution_Queue\<close>: the queue, the priority and the retry policy of \<open>apps/desktop-agent/src/scheduler\<close>.
  \<^item> \<open>Orchestrator\<close>: \<open>apps/desktop-agent/src/orchestrator\<close> and the detector of high-risk capabilities.
  \<^item> \<open>Approval_Host\<close>: \<open>apps/desktop-agent/src/ui/approval-host.ts\<close> and \<open>packages/contracts/src/approval\<close>.
  \<^item> \<open>Task_Scheduler\<close>: \<open>apps/desktop-agent/src/scheduler/task-scheduler.ts\<close> and \<open>admission-controller.ts\<close>, the composition of
    lease boundary, queue and orchestrator, with the records of the state manager.
  \<^item> \<open>Step_Context\<close>, \<open>Workflow_Engine\<close>: \<open>apps/desktop-agent/src/workflow/step-context.ts\<close> and \<open>workflow-engine.ts\<close>, over \<open>Workflow_Dag\<close>
    and \<open>Task_Scheduler\<close>. Templates in payloads; tiers of nodes, retries and compensation.
  \<^item> \<open>Redaction\<close>: the three filters that remove secrets from texts and objects (backend, vault and telemetry of the agent).
  \<^item> \<open>Plan_Graph\<close>, \<open>Goal_Normalizer\<close>, \<open>Planner\<close>: \<open>services/backend/src/planner\<close> and \<open>packages/contracts/src/planner\<close>. Limits, depth and causality of
    plans; the sanitising of goals; decomposition, synthesis, risk, approval and replanning. The language model is an argument.
  \<^item> \<open>Memory_Graph\<close>, \<open>Vector_Index\<close>, \<open>Memory_Store\<close>: \<open>services/backend/src/memory/memory-store.ts\<close> and \<open>vector-index.ts\<close> over
    \<open>packages/contracts/src/memory\<close>. Knowledge graph, similarity search, records, retention, outbox.

  \<^bold>\<open>How the code is modelled.\<close> A class is a record of its fields, a method a function that returns the new state and
  its result; a thrown error is \<open>Inl\<close>, a normal return \<open>Inr\<close>. Readings of the clock and of \<open>randomUUID\<close> are
  arguments, in the order the code takes them. Asynchronous methods that other calls may interleave with are cut at their
  suspension points, and the steps of all calls under way may come in any order (\<open>Orchestrator\<close>, \<open>Approval_Host\<close>, \<open>Task_Scheduler\<close>,
  \<open>Workflow_Engine\<close>); where two suspension points are merged into one step the theory says so. Loops are structural recursion,
  except the work lists of Kahn's algorithm and of the cancellation cascade, which are functions with a proof of termination.
  Fuel is used in one place, the memoised recursion of the dependency analyser: as many steps as there are dependencies, and two
  more, are enough for every list of nodes (\<open>buildAncestorsMap_returns\<close>).

  \<^bold>\<open>What is assumed.\<close> HMAC, SHA-256 and the \<open>zod\<close> string formats are fields of a \<open>platform\<close>; the hypotheses on
  them (\<open>hex_digests\<close>, \<open>accepts_iso\<close>) are documented behaviour, and \<open>test_platform\<close> satisfies them. Nothing is
  assumed about collisions. UUIDs are assumed fresh where a theorem says so (\<open>fresh_ids\<close>, \<open>distinct (presented_ids ops)\<close>).

  \<^bold>\<open>What is proved.\<close>
  \<^item> Authority: a task past its policy decision has an authentic lease under an allowing decision, and a completed one an
    authentic receipt; delegation chains only attenuate; delegation sessions hold authentic leases; the agent
    invokes a runtime only after all gates, and takes an answer for consent only if a human gave it.
  \<^item> Exactness: the conditions under which leases are issued and admitted, policies allow, graphs are accepted, agents
    are found, child receipts are settled.
  \<^item> Isolation: operations for one tenant leave tasks, agents and events of the others alone.
  \<^item> Finality: finished tasks, revoked connections, cancelled executions and resolved prompts stay what they are;
    accepted messages are not accepted again.
  \<^item> Workflows and plans: nodes run once, after their predecessors; failures compensate what was completed, in reverse; templates are
    resolved or refused, never guessed; whatever a language model proposes, a returned plan is acyclic, within its limits, of the
    caller's tenant and marked for the approval its risk demands; replanning is bounded and keeps what was done.
  \<^item> Secrets: no token of the known forms and no registered secret survives redaction.
  \<^item> Memory: versions grow, no update is lost, forgetting reaches everything that was derived, evolution of the graph is atomic, queries
    and searches return exactly what they should, a claimed delivery is exclusive until it expires.
  \<^item> Streams and queues: a subscriber sees exactly its events, in order and once, also over a reconnection; the queue
    conserves its items, serves the highest lane and starves no tenant of a lane; the scheduler loses and duplicates no task.
  \<^item> Bounds: concurrency, fan-out, capacity, quotas, buffers, reconnection delays.
  \<^item> Refinements: the cancellation work list implements a reachability relation, the lanes implement a bag, the two
    graph validators agree.

  \<^bold>\<open>Interfaces.\<close> \<open>op_invariant\<close> (a step that keeps an invariant) is interpreted for the controller, the directory, the
  bus, the coordinator, the queue, the orchestrator, the scheduler and the workflow engine (three times each), the similarity index and the
  histories of the memory store; \<open>transition_table\<close> for the state machines;
  \<open>attenuating_authority\<close> (an issuer whose grants only shrink) for the lease issuer; \<open>fail_closed\<close> for the policy evaluator;
  \<open>dag_checker\<close> for both graph validators; \<open>tenant_keyed\<close> for the composite keys of the directory and of the similarity index;
  \<open>conserving_store\<close> for the queue.

  \<^bold>\<open>Not modelled, and why.\<close> The web dashboard, the HTTP server, the SSE handler and IPC are rendering and sockets;
  the runtimes (files, terminal, browser, devices, local AI) are operating-system calls; the state store and the vault
  are encryption by the platform over files; the SQLite store is SQL text over a driver, and the memory service around the stores composes
  them with heuristics that extract facts from text. Of the modelled components, the task controller's paging and dashboard
  projections, the orchestrator's checkpoints, telemetry and output redaction, and the events the coordinator publishes are left out.

  \<^bold>\<open>What could come next.\<close> The delivery of the outbox by the evolution processor; the path and command policies of the runtimes; the
  bounded cache of memories on the desktop.
\<close>

end
